(* ===== verification/Prelude.thy ===== *)
theory Prelude
  imports Complex_Main "HOL-Library.AList" "HOL-Library.Sublist"
begin

text \<open>
  Shared vocabulary of the development: exceptions as values, Python's truth tests on optional
  values, dictionaries as insertion-ordered association lists, decimal rendering and the string
  operations the panel uses, JSON documents, and the generic lemmas the components share.
  A character stands for a code point below 256.
\<close>

named_theorems py_eval \<open>equations that evaluate the Python primitives of the model\<close>
named_theorems dict_simps \<open>lookup after update on insertion-ordered dictionaries\<close>

section \<open>Exceptions as values\<close>

datatype py_error =
    KeyError string
  | ValueError string
  | TypeError string
  | IndexError string
  | AttributeError string
  | RuntimeError string

type_synonym 'a result = "py_error + 'a"

definition bindE :: "'a result \<Rightarrow> ('a \<Rightarrow> 'b result) \<Rightarrow> 'b result" where
  "bindE m f = (case m of Inl e \<Rightarrow> Inl e | Inr x \<Rightarrow> f x)"

lemma bindE_simps [simp]:
  "bindE (Inl e) f = Inl e"
  "bindE (Inr x) f = f x"
  by (simp_all add: bindE_def)

lemma bindE_Inr_iff: "bindE m f = Inr y \<longleftrightarrow> (\<exists>x. m = Inr x \<and> f x = Inr y)"
  by (cases m) auto

lemma bindE_Inl_iff:
  "bindE m f = Inl e \<longleftrightarrow> m = Inl e \<or> (\<exists>x. m = Inr x \<and> f x = Inl e)"
  by (cases m) auto

lemma bindE_cong [fundef_cong]:
  "m = m' \<Longrightarrow> (\<And>x. m' = Inr x \<Longrightarrow> f x = g x) \<Longrightarrow> bindE m f = bindE m' g"
  by (cases m') auto

text \<open>A list comprehension whose body may raise: the first exception stops it.\<close>

fun mapE :: "('a \<Rightarrow> 'b result) \<Rightarrow> 'a list \<Rightarrow> 'b list result" where
  "mapE f [] = Inr []"
| "mapE f (x # xs) = bindE (f x) (\<lambda>y. bindE (mapE f xs) (\<lambda>ys. Inr (y # ys)))"

fun foldE :: "('a \<Rightarrow> 's \<Rightarrow> 's result) \<Rightarrow> 'a list \<Rightarrow> 's \<Rightarrow> 's result" where
  "foldE f [] s = Inr s"
| "foldE f (x # xs) s = bindE (f x s) (foldE f xs)"

lemma mapE_length: "mapE f xs = Inr ys \<Longrightarrow> length ys = length xs"
  by (induction xs arbitrary: ys) (auto simp: bindE_Inr_iff)

lemma mapE_total: "(\<And>x. x \<in> set xs \<Longrightarrow> f x = Inr (g x)) \<Longrightarrow> mapE f xs = Inr (map g xs)"
  by (induction xs) auto

lemma mapE_fixed:
  assumes "mapE f xs = Inr ys" and "\<And>x y. f x = Inr y \<Longrightarrow> g y = Inr y"
  shows "mapE g ys = Inr ys"
  using assms(1) by (induction xs arbitrary: ys) (auto simp: bindE_Inr_iff assms(2))

lemma foldE_append: "foldE f (xs @ ys) s = bindE (foldE f xs s) (foldE f ys)"
  by (induction xs arbitrary: s) (auto simp: bindE_def split: sum.splits)

lemma foldE_invariant:
  assumes "foldE f xs s = Inr t" and "P s"
    and "\<And>x u v. x \<in> set xs \<Longrightarrow> P u \<Longrightarrow> f x u = Inr v \<Longrightarrow> P v"
  shows "P t"
  using assms by (induction xs arbitrary: s) (auto simp: bindE_Inr_iff)

section \<open>Truth tests on optional values\<close>

text \<open>\<open>x or 0\<close>, \<open>x or None\<close> and \<open>if x\<close> for an optional integer.\<close>

definition or0 :: "int option \<Rightarrow> int" where
  "or0 x = (case x of None \<Rightarrow> 0 | Some n \<Rightarrow> n)"

definition or_none :: "int option \<Rightarrow> int option" where
  "or_none x = (case x of None \<Rightarrow> None | Some n \<Rightarrow> if n = 0 then None else Some n)"

definition truthy_int :: "int option \<Rightarrow> bool" where
  "truthy_int x \<longleftrightarrow> (case x of None \<Rightarrow> False | Some n \<Rightarrow> n \<noteq> 0)"

definition truthy_str :: "string option \<Rightarrow> bool" where
  "truthy_str x \<longleftrightarrow> (case x of None \<Rightarrow> False | Some s \<Rightarrow> s \<noteq> [])"

lemma or0_simps [simp, py_eval]: "or0 None = 0" "or0 (Some n) = n"
  by (simp_all add: or0_def)

lemma truthy_int_simps [simp, py_eval]: "\<not> truthy_int None" "truthy_int (Some n) \<longleftrightarrow> n \<noteq> 0"
  by (simp_all add: truthy_int_def)

lemma truthy_str_simps [simp, py_eval]: "\<not> truthy_str None" "truthy_str (Some s) \<longleftrightarrow> s \<noteq> []"
  by (simp_all add: truthy_str_def)

lemma or_none_simps [simp, py_eval]:
  "or_none None = None" "or_none (Some n) = (if n = 0 then None else Some n)"
  by (simp_all add: or_none_def)

lemma or_none_eq_None: "or_none x = None \<longleftrightarrow> \<not> truthy_int x"
  by (cases x) auto

lemma truthy_int_or_none: "truthy_int (or_none x) = truthy_int x"
  by (cases x) auto

text \<open>\<open>int(x)\<close> on a number truncates towards zero.\<close>

definition py_int :: "rat \<Rightarrow> int" where
  "py_int x = (if x < 0 then \<lceil>x\<rceil> else \<lfloor>x\<rfloor>)"

lemma py_int_of_int [simp]: "py_int (of_int n) = n"
  by (simp add: py_int_def)

lemma py_int_nonneg: "0 \<le> x \<Longrightarrow> 0 \<le> py_int x"
  by (simp add: py_int_def)

section \<open>Dictionaries\<close>

text \<open>
  A Python dictionary iterates in insertion order and overwriting a key keeps its position, as
  \<open>AList.update\<close> does. \<open>setdefault\<close> and the counting idiom \<open>d[k] = d.get(k, 0) + n\<close> are the two
  compound updates the code uses.
\<close>

abbreviation dget :: "('k \<times> 'v) list \<Rightarrow> 'k \<Rightarrow> 'v option" where
  "dget \<equiv> map_of"

abbreviation dput :: "'k \<Rightarrow> 'v \<Rightarrow> ('k \<times> 'v) list \<Rightarrow> ('k \<times> 'v) list" where
  "dput \<equiv> AList.update"

abbreviation ddel :: "'k \<Rightarrow> ('k \<times> 'v) list \<Rightarrow> ('k \<times> 'v) list" where
  "ddel \<equiv> AList.delete"

definition dget_or :: "('k \<times> 'v) list \<Rightarrow> 'k \<Rightarrow> 'v \<Rightarrow> 'v" where
  "dget_or d k x = (case dget d k of None \<Rightarrow> x | Some v \<Rightarrow> v)"

definition dadd :: "'k \<Rightarrow> int \<Rightarrow> ('k \<times> int) list \<Rightarrow> ('k \<times> int) list" where
  "dadd k n d = dput k (dget_or d k 0 + n) d"

definition dappend :: "'k \<Rightarrow> 'v \<Rightarrow> ('k \<times> 'v list) list \<Rightarrow> ('k \<times> 'v list) list" where
  "dappend k v d = dput k (dget_or d k [] @ [v]) d"

definition dsetdefault :: "'k \<Rightarrow> 'v \<Rightarrow> ('k \<times> 'v) list \<Rightarrow> ('k \<times> 'v) list" where
  "dsetdefault k v d = (if dget d k = None then dput k v d else d)"

lemma dget_dput [simp, dict_simps]: "dget (dput k v d) k' = (if k' = k then Some v else dget d k')"
  by (simp add: update_conv')

lemma dget_ddel [simp, dict_simps]: "dget (ddel k d) k' = (if k' = k then None else dget d k')"
  by (simp add: delete_conv')

lemma dget_or_dput [simp, dict_simps]:
  "dget_or (dput k v d) k' x = (if k' = k then v else dget_or d k' x)"
  by (simp add: dget_or_def)

lemma dget_dadd [simp, dict_simps]:
  "dget (dadd k n d) k' = (if k' = k then Some (dget_or d k 0 + n) else dget d k')"
  by (simp add: dadd_def)

lemma dget_or_dadd [dict_simps]:
  "dget_or (dadd k n d) k' 0 = dget_or d k' 0 + (if k' = k then n else 0)"
  by (simp add: dget_or_def dadd_def)

lemma dget_or_Nil [simp]: "dget_or [] k x = x"
  by (simp add: dget_or_def)

lemma dkeys_dput [dict_simps]: "set (map fst (dput k v d)) = insert k (set (map fst d))"
  by (simp only: set_map dom_map_of_conv_image_fst [symmetric]) (auto simp: update_conv dom_def)

lemma distinct_dput: "distinct (map fst d) \<Longrightarrow> distinct (map fst (dput k v d))"
  by (rule distinct_update)

text \<open>Accumulating a list of increments: the total under each key is the sum of its increments.\<close>

fun dsum :: "('k \<times> int) list \<Rightarrow> ('k \<times> int) list \<Rightarrow> ('k \<times> int) list" where
  "dsum d [] = d"
| "dsum d ((k, n) # xs) = dsum (dadd k n d) xs"

lemma dget_or_dsum:
  "dget_or (dsum d xs) k 0 = dget_or d k 0 + sum_list (map snd (filter (\<lambda>p. fst p = k) xs))"
  by (induction d xs rule: dsum.induct) (auto simp: dget_or_dadd)

lemma dkeys_dsum: "set (map fst (dsum d xs)) = set (map fst d) \<union> set (map fst xs)"
  by (induction d xs rule: dsum.induct) (auto simp: dadd_def dkeys_dput simp del: set_map)

lemma distinct_dsum: "distinct (map fst d) \<Longrightarrow> distinct (map fst (dsum d xs))"
  by (induction d xs rule: dsum.induct) (auto simp: dadd_def distinct_dput)

lemma dget_None_iff: "dget d k = None \<longleftrightarrow> k \<notin> set (map fst d)"
  by (simp add: map_of_eq_None_iff)

lemma dget_filter_keys: "dget (filter (\<lambda>p. P (fst p)) d) k = (if P k then dget d k else None)"
  by (induction d) auto

section \<open>Strings\<close>

text \<open>Decimal rendering of integers, \<open>str(n)\<close>.\<close>

definition digit_char :: "nat \<Rightarrow> char" where
  "digit_char n = char_of (48 + n)"

fun nat_str :: "nat \<Rightarrow> string" where
  "nat_str n = (if n < 10 then [digit_char n] else nat_str (n div 10) @ [digit_char (n mod 10)])"

declare nat_str.simps [simp del]

definition int_str :: "int \<Rightarrow> string" where
  "int_str n = (if n < 0 then CHR ''-'' # nat_str (nat (- n)) else nat_str (nat n))"

definition str_nat :: "string \<Rightarrow> nat" where
  "str_nat s = foldl (\<lambda>a c. 10 * a + (of_char c - 48)) 0 s"

definition is_digit :: "char \<Rightarrow> bool" where
  "is_digit c \<longleftrightarrow> 48 \<le> (of_char c :: nat) \<and> (of_char c :: nat) \<le> 57"

lemma of_char_digit: "n < 10 \<Longrightarrow> (of_char (digit_char n) :: nat) = 48 + n"
  by (simp add: digit_char_def)

lemma nat_str_digits: "c \<in> set (nat_str n) \<Longrightarrow> is_digit c"
proof (induction n rule: nat_str.induct)
  case (1 n)
  show ?case
  proof (cases "n < 10")
    case True
    with 1 show ?thesis
      by (auto simp: nat_str.simps [of n] is_digit_def of_char_digit)
  next
    case False
    with 1 show ?thesis
      by (auto simp: nat_str.simps [of n] is_digit_def of_char_digit)
  qed
qed

lemma str_nat_snoc: "str_nat (s @ [c]) = 10 * str_nat s + (of_char c - 48)"
  by (simp add: str_nat_def)

lemma str_nat_nat_str [simp]: "str_nat (nat_str n) = n"
proof (induction n rule: nat_str.induct)
  case (1 n)
  show ?case
  proof (cases "n < 10")
    case True
    then show ?thesis
      by (simp add: nat_str.simps [of n] str_nat_def of_char_digit)
  next
    case False
    with 1 show ?thesis
      by (simp add: nat_str.simps [of n] str_nat_snoc of_char_digit)
  qed
qed

lemma nat_str_inject [simp]: "nat_str m = nat_str n \<longleftrightarrow> m = n"
  by (metis str_nat_nat_str)

lemma nat_str_not_Nil [simp]: "nat_str n \<noteq> []"
  by (simp add: nat_str.simps [of n])

lemma is_digit_minus [simp]: "\<not> is_digit (CHR ''-'')"
  by (simp add: is_digit_def)

lemma int_str_inject [simp]: "int_str m = int_str n \<longleftrightarrow> m = n"
proof
  assume eq: "int_str m = int_str n"
  have no_minus: "CHR ''-'' # s \<noteq> nat_str k" for s k
    by (metis is_digit_minus list.set_intros(1) nat_str_digits)
  from eq show "m = n"
    by (auto simp: int_str_def no_minus no_minus [symmetric] split: if_splits)
qed simp

lemma dot_notin_int_str [simp]: "CHR ''.'' \<notin> set (int_str n)"
proof
  assume "CHR ''.'' \<in> set (int_str n)"
  then have "is_digit (CHR ''.'')"
    by (auto simp: int_str_def dest: nat_str_digits split: if_splits)
  then show False by (simp add: is_digit_def)
qed

text \<open>\<open>s.startswith(p)\<close>, and what it says when the prefix ends with a separator.\<close>

definition starts_with :: "string \<Rightarrow> string \<Rightarrow> bool" where
  "starts_with s p \<longleftrightarrow> take (length p) s = p"

lemma starts_with_iff: "starts_with s p \<longleftrightarrow> (\<exists>r. s = p @ r)"
  unfolding starts_with_def by (metis append_eq_conv_conj append_take_drop_id)

lemma sep_append_eq:
  assumes "xs @ c # us = ys @ c # vs" and "c \<notin> set xs" and "c \<notin> set ys"
  shows "xs = ys \<and> us = vs"
  using assms by (induction xs arbitrary: ys) (auto simp: Cons_eq_append_conv)

text \<open>\<open>s.lower()\<close> and \<open>p in s\<close>.\<close>

definition lower_char :: "char \<Rightarrow> char" where
  "lower_char c = (let n = (of_char c :: nat) in
     if (65 \<le> n \<and> n \<le> 90) \<or> (192 \<le> n \<and> n \<le> 222 \<and> n \<noteq> 215) then char_of (n + 32) else c)"

fun contains :: "string \<Rightarrow> string \<Rightarrow> bool" where
  "contains p [] \<longleftrightarrow> p = []"
| "contains p (c # s) \<longleftrightarrow> starts_with (c # s) p \<or> contains p s"

text \<open>\<open>s.strip()\<close>, \<open>s.split(c)\<close> and \<open>c.join(parts)\<close>.\<close>

definition is_space :: "char \<Rightarrow> bool" where
  "is_space c \<longleftrightarrow> (let n = (of_char c :: nat) in
     (9 \<le> n \<and> n \<le> 13) \<or> (28 \<le> n \<and> n \<le> 32) \<or> n = 133 \<or> n = 160)"

definition lstrip :: "string \<Rightarrow> string" where
  "lstrip s = dropWhile is_space s"

definition strip :: "string \<Rightarrow> string" where
  "strip s = rev (dropWhile is_space (rev (lstrip s)))"

fun split_on :: "char \<Rightarrow> string \<Rightarrow> string list" where
  "split_on c [] = [[]]"
| "split_on c (x # xs) =
     (if x = c then [] # split_on c xs
      else (case split_on c xs of [] \<Rightarrow> [[x]] | p # ps \<Rightarrow> (x # p) # ps))"

fun join :: "string \<Rightarrow> string list \<Rightarrow> string" where
  "join sep [] = []"
| "join sep [s] = s"
| "join sep (s # ss) = s @ sep @ join sep ss"

text \<open>Python's \<open>int(s)\<close>: white space around, a sign, digits with single underscores between them.\<close>

fun digit_groups :: "string \<Rightarrow> bool" where
  "digit_groups [] \<longleftrightarrow> False"
| "digit_groups [c] \<longleftrightarrow> is_digit c"
| "digit_groups (c # CHR ''_'' # s) \<longleftrightarrow> is_digit c \<and> digit_groups s"
| "digit_groups (c # s) \<longleftrightarrow> is_digit c \<and> digit_groups s"

definition parse_int :: "string \<Rightarrow> int option" where
  "parse_int s = (let t = strip s;
       (sign, ds) = (case t of [] \<Rightarrow> (1, []) | c # r \<Rightarrow> if c = CHR ''-'' then (-1, r) else if c = CHR ''+'' then (1, r) else (1, t))
     in if digit_groups ds then Some (sign * int (str_nat (filter is_digit ds))) else None)"

text \<open>\<open>s.split(sep)\<close> for a separator of any length.\<close>

fun split_str :: "string \<Rightarrow> nat \<Rightarrow> string \<Rightarrow> string \<Rightarrow> string list" where
  "split_str sep skipped acc [] = [rev acc]"
| "split_str sep 0 acc (c # s) = (if starts_with (c # s) sep then rev acc # split_str sep (length sep - 1) [] s
     else split_str sep 0 (c # acc) s)"
| "split_str sep (Suc k) acc (c # s) = split_str sep k acc s"

lemma digit_groups_digits: "ds \<noteq> [] \<Longrightarrow> \<forall>c \<in> set ds. is_digit c \<Longrightarrow> digit_groups ds"
proof (induction ds rule: digit_groups.induct)
  case (3 c s)
  then have "is_digit (CHR ''_'')" by simp
  then show ?case by (simp add: is_digit_def)
qed auto

lemma is_digit_plus [simp]: "\<not> is_digit (CHR ''+'')"
  by (simp add: is_digit_def)

lemma digit_not_space: "is_digit c \<Longrightarrow> \<not> is_space c"
  by (auto simp: is_digit_def is_space_def Let_def)

lemma strip_none: "\<forall>c \<in> set s. \<not> is_space c \<Longrightarrow> strip s = s"
proof -
  have "dropWhile is_space t = t" if "\<forall>c \<in> set t. \<not> is_space c" for t
    using that by (cases t) auto
  note drop = this
  assume no: "\<forall>c \<in> set s. \<not> is_space c"
  then have "dropWhile is_space (rev s) = rev s" by (intro drop) simp
  with drop [OF no] show ?thesis by (simp add: strip_def lstrip_def)
qed

lemma parse_digits: "digit_groups ds \<Longrightarrow> strip s = ds \<Longrightarrow> hd ds \<noteq> CHR ''-'' \<Longrightarrow> hd ds \<noteq> CHR ''+'' \<Longrightarrow>
  parse_int s = Some (int (str_nat (filter is_digit ds)))"
  by (cases ds) (simp_all add: parse_int_def)

lemma parse_minus: "digit_groups ds \<Longrightarrow> strip s = CHR ''-'' # ds \<Longrightarrow>
  parse_int s = Some (- int (str_nat (filter is_digit ds)))"
  by (simp add: parse_int_def)

lemma parse_int_str [simp]: "parse_int (int_str n) = Some n"
proof -
  have digits: "\<forall>c \<in> set (nat_str k). is_digit c" for k using nat_str_digits by blast
  have grp: "digit_groups (nat_str k)" for k using digits by (intro digit_groups_digits) auto
  have all: "filter is_digit (nat_str k) = nat_str k" for k using digits by (simp add: filter_id_conv)
  have spaces: "\<forall>c \<in> set (int_str n). \<not> is_space c"
    using digits digit_not_space by (auto simp: int_str_def is_space_def Let_def)
  have "is_digit (hd (nat_str k))" for k using digits [of k] by simp
  then have first: "hd (nat_str k) \<noteq> CHR ''-'' \<and> hd (nat_str k) \<noteq> CHR ''+''" for k
    by (metis is_digit_minus is_digit_plus)
  show ?thesis
  proof (cases "n < 0")
    case True
    with spaces show ?thesis using parse_minus [OF grp, of _ "nat (- n)"] all by (simp add: strip_none int_str_def)
  next
    case False
    with spaces show ?thesis using parse_digits [OF grp, of _ "nat n"] first all by (simp add: strip_none int_str_def)
  qed
qed

lemma split_on_not_Nil [simp]: "split_on c s \<noteq> []"
  by (induction s) (auto split: list.splits)

lemma split_on_no_sep: "p \<in> set (split_on c s) \<Longrightarrow> c \<notin> set p"
  by (induction s arbitrary: p) (auto split: list.splits if_splits)

lemma join_split_on: "join [c] (split_on c s) = s"
proof (induction s)
  case (Cons x xs)
  obtain p ps where ps: "split_on c xs = p # ps"
    by (cases "split_on c xs") auto
  with Cons show ?case
    by (cases ps) auto
qed simp

section \<open>JSON documents\<close>

datatype json =
    JNull
  | JBool bool
  | JInt int
  | JFloat rat
  | JStr string
  | JList "json list"
  | JObj "(string \<times> json) list"

type_synonym obj = "(string \<times> json) list"

fun truthy :: "json \<Rightarrow> bool" where
  "truthy JNull = False"
| "truthy (JBool b) = b"
| "truthy (JInt n) = (n \<noteq> 0)"
| "truthy (JFloat x) = (x \<noteq> 0)"
| "truthy (JStr s) = (s \<noteq> [])"
| "truthy (JList xs) = (xs \<noteq> [])"
| "truthy (JObj d) = (d \<noteq> [])"

text \<open>
  \<open>d[k]\<close> raises on a missing key; \<open>d.get(k)\<close> yields \<open>None\<close>, which the truth test cannot tell from a
  stored null; \<open>x.get\<close> on a value that is no object raises AttributeError.
\<close>

definition jindex :: "obj \<Rightarrow> string \<Rightarrow> json result" where
  "jindex d k = (case dget d k of None \<Rightarrow> Inl (KeyError k) | Some v \<Rightarrow> Inr v)"

definition jget :: "obj \<Rightarrow> string \<Rightarrow> json" where
  "jget d k = dget_or d k JNull"

fun as_obj :: "json \<Rightarrow> obj result" where
  "as_obj (JObj d) = Inr d"
| "as_obj _ = Inl (AttributeError ''get'')"

fun as_list :: "json \<Rightarrow> json list result" where
  "as_list (JList xs) = Inr xs"
| "as_list _ = Inl (TypeError ''not a list'')"

fun jstr :: "json \<Rightarrow> string option" where
  "jstr (JStr s) = Some s"
| "jstr _ = None"

definition has_tag :: "string \<Rightarrow> obj \<Rightarrow> bool" where
  "has_tag t d \<longleftrightarrow> dget d ''tag'' = Some (JStr t)"

lemma jget_dput [simp, dict_simps]: "jget (dput k v d) k' = (if k' = k then v else jget d k')"
  by (simp add: jget_def)

lemma jget_Nil [simp]: "jget [] k = JNull"
  by (simp add: jget_def)

lemma jindex_dput [simp, dict_simps]:
  "jindex (dput k v d) k' = (if k' = k then Inr v else jindex d k')"
  by (simp add: jindex_def)

section \<open>Enumerations the components share\<close>

text \<open>\<open>UserStatus\<close> of app/models/user.py.\<close>

datatype user_status = Active | Disabled | Limited | Expired | OnHold

text \<open>\<open>NodeStatus\<close> of app/models/node.py.\<close>

datatype node_status = NodeConnected | NodeConnecting | NodeError | NodeDisabled

section \<open>Sums over dictionaries\<close>

lemma sum_list_dadd:
  "sum_list (map snd (filter (\<lambda>p. P (fst p)) (dadd k n d))) =
     sum_list (map snd (filter (\<lambda>p. P (fst p)) d)) + (if P k then n else 0)"
  unfolding dadd_def dget_or_def by (induction d) auto

lemma sum_list_dsum:
  "sum_list (map snd (filter (\<lambda>p. P (fst p)) (dsum d xs))) =
     sum_list (map snd (filter (\<lambda>p. P (fst p)) d)) + sum_list (map snd (filter (\<lambda>p. P (fst p)) xs))"
  by (induction d xs rule: dsum.induct) (auto simp: sum_list_dadd)

lemma insort_key_snoc: "k x \<le> k p \<Longrightarrow> insort_key k x (ys @ [p]) = insort_key k x ys @ [p]"
  by (induction ys) auto

lemma sort_key_snoc: "\<forall>x \<in> set xs. k x \<le> k p \<Longrightarrow> sort_key k (xs @ [p]) = sort_key k xs @ [p]"
  by (induction xs) (auto simp: insort_key_snoc)

end
