(* ===== verification/XrayDoc.thy ===== *)
theory XrayDoc
  imports Prelude
begin

text \<open>
  The xray configuration object (\<open>XRayConfig\<close> of app/xray/config.py): a dictionary document with
  the catalogue attributes computed from it, and the accessors the other components use to read
  and replace its sections. An accessor raises what indexing the document would raise.
\<close>

fun filterE :: "('a \<Rightarrow> bool result) \<Rightarrow> 'a list \<Rightarrow> 'a list result" where
  "filterE p [] = Inr []"
| "filterE p (x # xs) =
     bindE (p x) (\<lambda>b. bindE (filterE p xs) (\<lambda>ys. Inr (if b then x # ys else ys)))"

lemma filterE_total: "(\<And>x. x \<in> set xs \<Longrightarrow> p x = Inr (q x)) \<Longrightarrow> filterE p xs = Inr (filter q xs)"
  by (induction xs) auto

lemma filterE_Inr:
  "filterE p xs = Inr ys \<Longrightarrow> ys = filter (\<lambda>x. p x = Inr True) xs \<and> (\<forall>x \<in> set xs. \<exists>b. p x = Inr b)"
  by (induction xs arbitrary: ys) (fastforce simp: bindE_Inr_iff split: if_splits)+

record xray_config =
  cfg_doc :: obj
  cfg_api_host :: string
  cfg_api_port :: int
  cfg_by_protocol :: "(string \<times> obj list) list"
  cfg_by_tag :: "(string \<times> obj) list"

text \<open>\<open>cfg[k]\<close> where the code treats the section as a list of dictionaries.\<close>

definition section_objs :: "obj \<Rightarrow> string \<Rightarrow> obj list result" where
  "section_objs d k = bindE (jindex d k) (\<lambda>v. bindE (as_list v) (mapE as_obj))"

definition put_objs :: "string \<Rightarrow> obj list \<Rightarrow> obj \<Rightarrow> obj" where
  "put_objs k xs d = dput k (JList (map JObj xs)) d"

lemma mapE_as_obj_JObj [simp]: "mapE as_obj (map JObj xs) = Inr xs"
  by (induction xs) auto

lemma mapE_as_obj_Inr: "mapE as_obj xs = Inr ds \<longleftrightarrow> xs = map JObj ds"
proof (induction xs arbitrary: ds)
  case (Cons x xs)
  then show ?case
    by (cases x) (auto simp: bindE_Inr_iff Cons_eq_map_conv)
qed auto

lemma section_objs_put [simp, dict_simps]:
  "section_objs (put_objs k xs d) k' = (if k' = k then Inr xs else section_objs d k')"
  by (simp add: section_objs_def put_objs_def)

lemma section_objs_dput [simp, dict_simps]:
  "k' \<noteq> k \<Longrightarrow> section_objs (dput k v d) k' = section_objs d k'"
  by (simp add: section_objs_def)

lemma jget_put_objs [simp, dict_simps]:
  "jget (put_objs k xs d) k' = (if k' = k then JList (map JObj xs) else jget d k')"
  by (simp add: put_objs_def)

text \<open>\<open>routing.get(k, [])\<close> extended by list concatenation.\<close>

definition get_list_or :: "obj \<Rightarrow> string \<Rightarrow> json list result" where
  "get_list_or d k = (case dget d k of None \<Rightarrow> Inr [] | Some v \<Rightarrow> as_list v)"

lemma get_list_or_dput [simp, dict_simps]:
  "get_list_or (dput k v d) k' = (if k' = k then as_list v else get_list_or d k')"
  by (simp add: get_list_or_def)

lemma get_list_or_Nil [simp]: "get_list_or [] k = Inr []"
  by (simp add: get_list_or_def)

text \<open>The tag of an inbound, \<open>inbound["tag"]\<close>, used as a member of a set of strings.\<close>

definition tag_in :: "string list \<Rightarrow> json \<Rightarrow> bool result" where
  "tag_in ts v = (case v of JStr t \<Rightarrow> Inr (t \<in> set ts)
     | JList _ \<Rightarrow> Inl (TypeError ''unhashable type'') | JObj _ \<Rightarrow> Inl (TypeError ''unhashable type'')
     | _ \<Rightarrow> Inr False)"

lemma tag_in_JStr [simp]: "tag_in ts (JStr t) = Inr (t \<in> set ts)"
  by (simp add: tag_in_def)

text \<open>Every inbound carries a string tag: what \<open>XRayConfig._validate\<close> leaves.\<close>

definition tagged :: "obj \<Rightarrow> bool" where
  "tagged d \<longleftrightarrow> (\<exists>t. has_tag t d)"

definition tag_of :: "obj \<Rightarrow> string" where
  "tag_of d = (case dget d ''tag'' of Some (JStr t) \<Rightarrow> t | _ \<Rightarrow> [])"

lemma tagged_jindex: "tagged d \<Longrightarrow> jindex d ''tag'' = Inr (JStr (tag_of d))"
  by (auto simp: tagged_def has_tag_def jindex_def tag_of_def)

lemma tagged_has_tag: "tagged d \<Longrightarrow> has_tag t d \<longleftrightarrow> t = tag_of d"
  by (auto simp: tagged_def has_tag_def tag_of_def)

lemma tag_of_dput [simp, dict_simps]: "k \<noteq> ''tag'' \<Longrightarrow> tag_of (dput k v d) = tag_of d"
  by (simp add: tag_of_def)

lemma tagged_dput [simp, dict_simps]: "k \<noteq> ''tag'' \<Longrightarrow> tagged (dput k v d) = tagged d"
  by (simp add: tagged_def has_tag_def)

end
