(* ===== verification/InboundFilter.thy ===== *)
theory InboundFilter
  imports XrayDoc
begin

text \<open>
  app/xray/inbound_filter.py: which inbounds of the catalogue a node raises.
\<close>

text \<open>\<open>filtered_inbounds\<close>: infrastructure inbounds stay, managed ones only when allowed.\<close>

definition keep_inbound :: "string list \<Rightarrow> string list \<Rightarrow> obj \<Rightarrow> bool result" where
  "keep_inbound managed allowed inb =
     bindE (jindex inb ''tag'') (\<lambda>t. bindE (tag_in managed t)
       (\<lambda>m. if \<not> m then Inr True else tag_in allowed t))"

definition filtered_inbounds :: "obj list \<Rightarrow> string list \<Rightarrow> string list \<Rightarrow> obj list result" where
  "filtered_inbounds inbounds managed allowed = filterE (keep_inbound managed allowed) inbounds"

text \<open>\<open>apply_inbound_filter\<close>: an empty or missing set of allowed tags raises every inbound.\<close>

definition apply_inbound_filter :: "xray_config \<Rightarrow> string list option \<Rightarrow> xray_config result" where
  "apply_inbound_filter base allowed =
     (case allowed of
        None \<Rightarrow> Inr base
      | Some tags \<Rightarrow>
          if tags = [] then Inr base
          else bindE (section_objs (cfg_doc base) ''inbounds'') (\<lambda>ibs.
                 bindE (filtered_inbounds ibs (map fst (cfg_by_tag base)) tags) (\<lambda>kept.
                   Inr (base\<lparr>cfg_doc := put_objs ''inbounds'' kept (cfg_doc base)\<rparr>))))"

section \<open>What the filter keeps\<close>

lemma filtered_inbounds_tagged:
  assumes "\<forall>d \<in> set ibs. tagged d"
  shows "filtered_inbounds ibs managed allowed =
    Inr (filter (\<lambda>d. tag_of d \<notin> set managed \<or> tag_of d \<in> set allowed) ibs)"
  unfolding filtered_inbounds_def
  by (rule filterE_total) (use assms in \<open>auto simp: keep_inbound_def tagged_jindex\<close>)

lemma filtered_inbounds_idem:
  assumes "\<forall>d \<in> set ibs. tagged d"
  shows "bindE (filtered_inbounds ibs managed allowed) (\<lambda>k. filtered_inbounds k managed allowed)
    = filtered_inbounds ibs managed allowed"
  using assms by (simp add: filtered_inbounds_tagged)

lemma apply_inbound_filter_keeps_catalogue:
  "apply_inbound_filter base allowed = Inr cfg \<Longrightarrow>
     cfg_by_tag cfg = cfg_by_tag base \<and> cfg_by_protocol cfg = cfg_by_protocol base \<and>
     cfg_api_host cfg = cfg_api_host base \<and> cfg_api_port cfg = cfg_api_port base"
  by (auto simp: apply_inbound_filter_def bindE_Inr_iff split: option.splits if_splits)

lemma apply_inbound_filter_frame:
  assumes "apply_inbound_filter base allowed = Inr cfg" and "k \<noteq> ''inbounds''"
  shows "dget (cfg_doc cfg) k = dget (cfg_doc base) k"
  using assms
  by (auto simp: apply_inbound_filter_def bindE_Inr_iff put_objs_def split: option.splits if_splits)

lemma apply_inbound_filter_inbounds:
  assumes "section_objs (cfg_doc base) ''inbounds'' = Inr ibs" and "\<forall>d \<in> set ibs. tagged d"
  shows "\<exists>cfg. apply_inbound_filter base (Some tags) = Inr cfg \<and>
    section_objs (cfg_doc cfg) ''inbounds'' =
      Inr (filter (\<lambda>d. tags = [] \<or> tag_of d \<notin> set (map fst (cfg_by_tag base)) \<or> tag_of d \<in> set tags) ibs)"
  using assms by (simp add: apply_inbound_filter_def filtered_inbounds_tagged)

end
