(* ===== verification/BsLimit.thy ===== *)
theory BsLimit
  imports XrayDoc "HOL-Library.Char_ord" "HOL-Library.List_Lexorder"
begin

text \<open>
  app/xray/bs_limit.py: the pure arithmetic of the monthly limit of BS nodes (a panel-wide base
  plus a purchased pool per user), and the removal of blocked users from a node's configuration.
  Periods are strings \<open>YYYY-MM\<close>, compared lexicographically as Python compares them.
\<close>

section \<open>Periods\<close>

record ym =
  year :: nat
  month :: nat

definition two_digits :: "nat \<Rightarrow> string" where
  "two_digits n = [digit_char (n div 10), digit_char (n mod 10)]"

text \<open>\<open>now.strftime("%Y-%m")\<close> for a four-digit year.\<close>

definition period_keys :: "ym \<Rightarrow> string" where
  "period_keys now = two_digits (year now div 100) @ two_digits (year now mod 100) @ ''-'' @
     two_digits (month now)"

section \<open>Counters and limits\<close>

record bs_counter =
  monthly_used :: int
  monthly_period :: "string option"

definition bs_counter_step :: "bs_counter option \<Rightarrow> int \<Rightarrow> string \<Rightarrow> bs_counter" where
  "bs_counter_step existing delta yyyymm =
     (let base = (case existing of
                    None \<Rightarrow> 0
                  | Some c \<Rightarrow> if monthly_period c = Some yyyymm then monthly_used c else 0)
      in \<lparr>monthly_used = base + delta, monthly_period = Some yyyymm\<rparr>)"

definition diff_blocks :: "('n \<times> 'u) set \<Rightarrow> ('n \<times> 'u) set \<Rightarrow> ('n \<times> 'u) set \<times> ('n \<times> 'u) set" where
  "diff_blocks desired current = (desired - current, current - desired)"

record bs_usage_row =
  row_user :: int
  row_used :: "int option"
  row_period :: "string option"

fun aggregate_loop :: "string \<Rightarrow> (int \<times> int) list \<Rightarrow> bs_usage_row list \<Rightarrow> (int \<times> int) list" where
  "aggregate_loop yyyymm totals [] = totals"
| "aggregate_loop yyyymm totals (r # rows) =
     (if row_period r \<noteq> Some yyyymm then aggregate_loop yyyymm totals rows
      else aggregate_loop yyyymm (dadd (row_user r) (or0 (row_used r)) totals) rows)"

definition aggregate_bs_usage :: "bs_usage_row list \<Rightarrow> string \<Rightarrow> (int \<times> int) list" where
  "aggregate_bs_usage rows yyyymm = aggregate_loop yyyymm [] rows"

definition over_limit :: "int \<Rightarrow> int option \<Rightarrow> bool" where
  "over_limit used limit \<longleftrightarrow> (case limit of None \<Rightarrow> False | Some l \<Rightarrow> l \<noteq> 0 \<and> used \<ge> l)"

definition monthly_effective_limit :: "int option \<Rightarrow> int option \<Rightarrow> int" where
  "monthly_effective_limit limit extra = (if \<not> truthy_int limit then 0 else or0 limit + or0 extra)"

definition carry_over_pool :: "int option \<Rightarrow> int \<Rightarrow> int option \<Rightarrow> int" where
  "carry_over_pool pool prev_used limit =
     (if \<not> truthy_int limit then or0 pool
      else max 0 (or0 pool - max 0 (prev_used - or0 limit)))"

definition over_limit_monthly_pool :: "int \<Rightarrow> int option \<Rightarrow> int option \<Rightarrow> bool" where
  "over_limit_monthly_pool used limit extra \<longleftrightarrow>
     (if \<not> truthy_int limit then False else used \<ge> monthly_effective_limit limit extra)"

definition GIB :: int where
  "GIB = 1024 ^ 3"

definition format_gib_label :: "int option \<Rightarrow> string" where
  "format_gib_label n_bytes =
     (let n = max 0 (or0 n_bytes);
          tenths = (n * 10 + GIB div 2) div GIB;
          whole = tenths div 10; frac = tenths mod 10
      in if frac = 0 then int_str whole else int_str whole @ '','' @ int_str frac)"

definition pick_bs_bar :: "int \<Rightarrow> int option \<Rightarrow> (int \<times> int) option" where
  "pick_bs_bar used limit_eff =
     (if \<not> truthy_int limit_eff then None else Some (used, or0 limit_eff))"

datatype stub_text = StubNone | StubStr string | StubList "string list"

definition bs_stub_remark :: "stub_text \<Rightarrow> string" where
  "bs_stub_remark text_list =
     (let lines = (case text_list of StubNone \<Rightarrow> [] | StubStr s \<Rightarrow> [s] | StubList ss \<Rightarrow> ss);
          parts = map strip lines
      in join '' '' (filter (\<lambda>p. p \<noteq> []) parts))"

section \<open>Removing blocked users from a configuration\<close>

text \<open>
  \<open>str(c.get("email", ""))\<close>. A fractional number or a container there, which xray rejects, is
  given the empty text.
\<close>

definition email_text :: "obj \<Rightarrow> string" where
  "email_text c = (case dget c ''email'' of
       None \<Rightarrow> []
     | Some (JStr s) \<Rightarrow> s
     | Some (JInt n) \<Rightarrow> int_str n
     | Some (JBool b) \<Rightarrow> (if b then ''True'' else ''False'')
     | Some JNull \<Rightarrow> ''None''
     | Some _ \<Rightarrow> [])"

definition email_blocked :: "int list \<Rightarrow> obj \<Rightarrow> bool" where
  "email_blocked uids c \<longleftrightarrow> (\<exists>u \<in> set uids. starts_with (email_text c) (int_str u @ ''.''))"

definition strip_inbound :: "int list \<Rightarrow> obj \<Rightarrow> obj result" where
  "strip_inbound uids inb =
     (let settings = jget inb ''settings'' in
      if \<not> truthy settings then Inr inb
      else bindE (as_obj settings) (\<lambda>s.
        let clients = jget s ''clients'' in
        if \<not> truthy clients then Inr inb
        else bindE (as_list clients) (\<lambda>cs. bindE (mapE as_obj cs) (\<lambda>cs.
          let kept = filter (\<lambda>c. \<not> email_blocked uids c) cs
          in Inr (dput ''settings'' (JObj (put_objs ''clients'' kept s)) inb)))))"

definition strip_blocked_clients :: "xray_config \<Rightarrow> int list \<Rightarrow> xray_config result" where
  "strip_blocked_clients cfg uids =
     (if uids = [] then Inr cfg
      else bindE (section_objs (cfg_doc cfg) ''inbounds'') (\<lambda>ibs.
             bindE (mapE (strip_inbound uids) ibs) (\<lambda>ibs'.
               Inr (cfg\<lparr>cfg_doc := put_objs ''inbounds'' ibs' (cfg_doc cfg)\<rparr>))))"

section \<open>Order of periods\<close>

lemma append_less_same_length:
  fixes xs ys us vs :: "'a::linorder list"
  assumes "length xs = length ys"
  shows "xs @ us < ys @ vs \<longleftrightarrow> xs < ys \<or> (xs = ys \<and> us < vs)"
  using assms by (induction xs ys rule: list_induct2) auto

lemma digit_char_less: "m < 10 \<Longrightarrow> n < 10 \<Longrightarrow> digit_char m < digit_char n \<longleftrightarrow> m < n"
  by (simp add: less_char_def of_char_digit)

lemma digit_char_inject: "m < 10 \<Longrightarrow> n < 10 \<Longrightarrow> digit_char m = digit_char n \<longleftrightarrow> m = n"
  by (metis add_left_cancel of_char_digit)

lemma place_value_less:
  assumes "y < (k :: nat)" and "v < k"
  shows "k * x + y < k * u + v \<longleftrightarrow> x < u \<or> (x = u \<and> y < v)"
proof -
  have "k * x + y < k * u + v" if "x < u"
  proof -
    have "k * x + y < k * Suc x" using assms(1) by simp
    also have "\<dots> \<le> k * u" using that by (intro mult_le_mono2) simp
    finally show ?thesis by simp
  qed
  moreover have "k * u + v < k * x + y" if "u < x"
  proof -
    have "k * u + v < k * Suc u" using assms(2) by simp
    also have "\<dots> \<le> k * x" using that by (intro mult_le_mono2) simp
    finally show ?thesis by simp
  qed
  ultimately show ?thesis
    by (metis add_less_cancel_left less_asym linorder_neqE_nat)
qed

lemma div_mod_less:
  assumes "0 < (k :: nat)"
  shows "(a div k < b div k \<or> (a div k = b div k \<and> a mod k < b mod k)) \<longleftrightarrow> a < b"
  using place_value_less [of "a mod k" k "b mod k" "a div k" "b div k"] assms
  by (simp add: mult_div_mod_eq)

lemma two_digits_less:
  assumes "m < 100" and "n < 100"
  shows "two_digits m < two_digits n \<longleftrightarrow> m < n"
proof -
  have lim: "m div 10 < 10" "n div 10 < 10" using assms by (simp_all add: div_less_iff_less_mult)
  have md: "m mod 10 < 10" "n mod 10 < 10" by simp_all
  show ?thesis
    using div_mod_less [of 10 m n]
    by (simp add: two_digits_def digit_char_less [OF lim] digit_char_less [OF md]
        digit_char_inject [OF lim] del: div_less_iff_less_mult)
qed

lemma two_digits_inject: "m < 100 \<Longrightarrow> n < 100 \<Longrightarrow> two_digits m = two_digits n \<longleftrightarrow> m = n"
  by (metis less_irrefl linorder_neqE_nat two_digits_less)

lemma length_two_digits [simp]: "length (two_digits n) = 2"
  by (simp add: two_digits_def)

definition ym_less :: "ym \<Rightarrow> ym \<Rightarrow> bool" where
  "ym_less a b \<longleftrightarrow> year a < year b \<or> (year a = year b \<and> month a < month b)"

definition ym_ok :: "ym \<Rightarrow> bool" where
  "ym_ok a \<longleftrightarrow> year a < 10000 \<and> 1 \<le> month a \<and> month a \<le> 12"

lemma year_split_eq: "a div 100 = b div 100 \<Longrightarrow> a mod 100 = b mod 100 \<Longrightarrow> a = (b :: nat)"
  by (metis mult_div_mod_eq)

lemma period_keys_less_iff:
  assumes "ym_ok a" and "ym_ok b"
  shows "period_keys a < period_keys b \<longleftrightarrow> ym_less a b"
proof -
  have bounds: "year a div 100 < 100" "year b div 100 < 100" "month a < 100" "month b < 100"
    using assms by (simp_all add: ym_ok_def less_mult_imp_div_less)
  have "period_keys a < period_keys b \<longleftrightarrow>
    (year a div 100 < year b div 100 \<or> year a div 100 = year b div 100 \<and>
      (year a mod 100 < year b mod 100 \<or> year a mod 100 = year b mod 100 \<and> month a < month b))"
    using bounds
    by (simp add: period_keys_def append_less_same_length two_digits_less two_digits_inject)
  also have "\<dots> \<longleftrightarrow> ym_less a b"
    unfolding ym_less_def using div_mod_less [of 100 "year a" "year b"] year_split_eq
    by (metis zero_less_numeral)
  finally show ?thesis .
qed

lemma period_keys_inject:
  assumes "ym_ok a" and "ym_ok b" and "period_keys a = period_keys b"
  shows "a = b"
proof -
  have "\<not> ym_less a b" "\<not> ym_less b a"
    using assms period_keys_less_iff [of a b] period_keys_less_iff [of b a] by auto
  then show ?thesis
    by (cases a; cases b) (auto simp: ym_less_def)
qed

section \<open>Counters and pools\<close>

lemma aggregate_loop_total:
  "dget_or (aggregate_loop p totals rows) u 0 = dget_or totals u 0 +
     (\<Sum>r \<leftarrow> filter (\<lambda>r. row_period r = Some p \<and> row_user r = u) rows. or0 (row_used r))"
  by (induction p totals rows rule: aggregate_loop.induct) (auto simp: dget_or_dadd)

lemma aggregate_bs_usage_total:
  "dget_or (aggregate_bs_usage rows p) u 0 =
     (\<Sum>r \<leftarrow> filter (\<lambda>r. row_period r = Some p \<and> row_user r = u) rows. or0 (row_used r))"
  by (simp add: aggregate_bs_usage_def aggregate_loop_total)

lemma aggregate_loop_keys:
  "set (map fst (aggregate_loop p totals rows)) =
     set (map fst totals) \<union> row_user ` set (filter (\<lambda>r. row_period r = Some p) rows)"
  by (induction p totals rows rule: aggregate_loop.induct) (auto simp: dadd_def dkeys_dput simp del: set_map)

lemma carry_over_pool_bounds:
  "0 \<le> or0 pool \<Longrightarrow> 0 \<le> carry_over_pool pool used limit \<and> carry_over_pool pool used limit \<le> or0 pool"
  by (auto simp: carry_over_pool_def)

lemma over_limit_pool_iff:
  "over_limit_monthly_pool used limit extra \<longleftrightarrow> truthy_int limit \<and> or0 limit + or0 extra \<le> used"
  by (auto simp: over_limit_monthly_pool_def monthly_effective_limit_def)

lemma over_limit_as_pool: "over_limit used limit \<longleftrightarrow> over_limit_monthly_pool used limit None"
  by (cases limit) (auto simp: over_limit_def over_limit_pool_iff)

text \<open>The pool is spent exactly when the traffic above the base has reached it.\<close>

lemma carry_over_pool_exhausted:
  assumes "truthy_int limit" and "0 < or0 pool"
  shows "carry_over_pool pool used limit = 0 \<longleftrightarrow> over_limit_monthly_pool used limit pool"
  using assms by (auto simp: carry_over_pool_def over_limit_pool_iff)

text \<open>Closing a month in two steps debits the pool as closing it once with the sum over the base.\<close>

lemma carry_over_pool_compose:
  assumes "truthy_int limit" and "or0 limit \<le> u" and "or0 limit \<le> v" and "0 \<le> or0 pool"
  shows "carry_over_pool (Some (carry_over_pool pool u limit)) v limit =
    carry_over_pool pool (u + v - or0 limit) limit"
  using assms by (auto simp: carry_over_pool_def)

section \<open>Blocked clients\<close>

definition client_email :: "int \<Rightarrow> string \<Rightarrow> string" where
  "client_email u name = int_str u @ ''.'' @ name"

lemma starts_with_client_email:
  "starts_with (client_email u name) (int_str v @ ''.'') \<longleftrightarrow> u = v"
proof
  assume "starts_with (client_email u name) (int_str v @ ''.'')"
  then obtain r where "int_str u @ CHR ''.'' # name = int_str v @ CHR ''.'' # r"
    by (auto simp: starts_with_iff client_email_def)
  then have "int_str u = int_str v"
    using sep_append_eq dot_notin_int_str by metis
  then show "u = v" by simp
qed (auto simp: starts_with_iff client_email_def)

lemma email_blocked_client:
  "dget c ''email'' = Some (JStr (client_email u name)) \<Longrightarrow> email_blocked uids c \<longleftrightarrow> u \<in> set uids"
  by (auto simp: email_blocked_def email_text_def starts_with_client_email)

text \<open>The clients of an inbound, and when they are in the shape xray requires.\<close>

definition clients_of :: "obj \<Rightarrow> obj list" where
  "clients_of inb = (case jget inb ''settings'' of
       JObj s \<Rightarrow> (case jget s ''clients'' of JList cs \<Rightarrow> map (\<lambda>c. case c of JObj d \<Rightarrow> d | _ \<Rightarrow> []) cs | _ \<Rightarrow> [])
     | _ \<Rightarrow> [])"

definition inbound_ok :: "obj \<Rightarrow> bool" where
  "inbound_ok inb \<longleftrightarrow> (case jget inb ''settings'' of
       JNull \<Rightarrow> True
     | JObj s \<Rightarrow> (case jget s ''clients'' of
           JNull \<Rightarrow> True
         | JList cs \<Rightarrow> (\<forall>c \<in> set cs. \<exists>d. c = JObj d)
         | _ \<Rightarrow> False)
     | _ \<Rightarrow> False)"

lemma map_case_JObj: "map (\<lambda>c. case c of JObj d \<Rightarrow> d | _ \<Rightarrow> []) (map JObj ds) = ds"
  by (simp add: comp_def)

lemma all_JObj: "(\<forall>c \<in> set cs. \<exists>d. c = JObj d) \<longleftrightarrow> (\<exists>ds. cs = map JObj ds)"
  by (metis (no_types, lifting) ex_map_conv)

lemma strip_inbound_ok:
  assumes "inbound_ok inb"
  shows "\<exists>inb'. strip_inbound uids inb = Inr inb' \<and>
    clients_of inb' = filter (\<lambda>c. \<not> email_blocked uids c) (clients_of inb) \<and>
    (\<forall>k. k \<noteq> ''settings'' \<longrightarrow> dget inb' k = dget inb k)"
proof (cases "jget inb ''settings''")
  case JNull
  then show ?thesis by (simp add: strip_inbound_def clients_of_def)
next
  case (JObj s)
  show ?thesis
  proof (cases "jget s ''clients''")
    case JNull
    with JObj show ?thesis by (cases s) (simp_all add: strip_inbound_def clients_of_def)
  next
    case (JList cs)
    with assms JObj obtain ds where "cs = map JObj ds"
      by (auto simp: inbound_ok_def all_JObj)
    with JObj JList show ?thesis
      by (cases "s = []"; cases "cs = []") (simp_all add: strip_inbound_def clients_of_def comp_def)
  qed (use assms JObj in \<open>simp_all add: inbound_ok_def\<close>)
qed (use assms in \<open>simp_all add: inbound_ok_def\<close>)

lemma mapE_rel:
  assumes "\<forall>x \<in> set xs. \<exists>y. f x = Inr y \<and> R x y"
  shows "\<exists>ys. mapE f xs = Inr ys \<and> list_all2 R xs ys"
  using assms by (induction xs) auto

definition without_blocked :: "int list \<Rightarrow> obj \<Rightarrow> obj \<Rightarrow> bool" where
  "without_blocked uids inb inb' \<longleftrightarrow>
     clients_of inb' = filter (\<lambda>c. \<not> email_blocked uids c) (clients_of inb) \<and>
     (\<forall>k. k \<noteq> ''settings'' \<longrightarrow> dget inb' k = dget inb k)"

lemma without_blocked_Nil: "without_blocked [] inb inb"
  by (simp add: without_blocked_def email_blocked_def)

lemma strip_blocked_clients_inbounds:
  assumes "section_objs (cfg_doc cfg) ''inbounds'' = Inr ibs" and "\<forall>inb \<in> set ibs. inbound_ok inb"
  shows "\<exists>cfg' ibs'. strip_blocked_clients cfg uids = Inr cfg' \<and>
    section_objs (cfg_doc cfg') ''inbounds'' = Inr ibs' \<and> list_all2 (without_blocked uids) ibs ibs'"
proof (cases "uids = []")
  case True
  with assms show ?thesis
    by (simp add: strip_blocked_clients_def list_all2_same without_blocked_Nil)
next
  case False
  have "\<exists>ibs'. mapE (strip_inbound uids) ibs = Inr ibs' \<and> list_all2 (without_blocked uids) ibs ibs'"
    by (rule mapE_rel) (use assms strip_inbound_ok in \<open>auto simp: without_blocked_def\<close>)
  with False assms show ?thesis
    by (auto simp: strip_blocked_clients_def)
qed

section \<open>Properties\<close>

text \<open>C5: Removing blocked users from a configuration takes away, in every inbound, exactly the
  clients whose e-mail carries a blocked user id, keeps all others in their order, and changes
  nothing else of an inbound; a user whose id merely starts with a blocked id stays.\<close>

theorem strip_blocked_clients_exact:
  assumes "section_objs (cfg_doc cfg) ''inbounds'' = Inr ibs" and "\<forall>inb \<in> set ibs. inbound_ok inb"
    and "\<forall>inb \<in> set ibs. \<forall>c \<in> set (clients_of inb). \<exists>u name. dget c ''email'' = Some (JStr (client_email u name))"
  shows "\<exists>cfg' ibs'. strip_blocked_clients cfg uids = Inr cfg' \<and>
    section_objs (cfg_doc cfg') ''inbounds'' = Inr ibs' \<and>
    list_all2 (\<lambda>inb inb'. clients_of inb' = filter (\<lambda>c. \<forall>u name.
        dget c ''email'' = Some (JStr (client_email u name)) \<longrightarrow> u \<notin> set uids) (clients_of inb) \<and>
      (\<forall>k. k \<noteq> ''settings'' \<longrightarrow> dget inb' k = dget inb k)) ibs ibs'"
proof -
  have "filter (\<lambda>c. \<not> email_blocked uids c) (clients_of inb) =
      filter (\<lambda>c. \<forall>u name. dget c ''email'' = Some (JStr (client_email u name)) \<longrightarrow> u \<notin> set uids) (clients_of inb)"
    if "inb \<in> set ibs" for inb
  proof (rule filter_cong)
    fix c assume "c \<in> set (clients_of inb)"
    with assms(3) that obtain u name where "dget c ''email'' = Some (JStr (client_email u name))"
      by blast
    then show "(\<not> email_blocked uids c) =
        (\<forall>u name. dget c ''email'' = Some (JStr (client_email u name)) \<longrightarrow> u \<notin> set uids)"
      using email_blocked_client by metis
  qed simp
  then show ?thesis
    using strip_blocked_clients_inbounds [OF assms(1,2), of uids]
    by (auto simp: without_blocked_def elim!: list.rel_mono_strong)
qed

text \<open>Month labels compare as months do: for years of four digits the lexicographic order of
  the YYYY-MM strings, which the pool and the counters are compared by, is the order of time.\<close>

theorem period_keys_chronological:
  assumes "ym_ok a" and "ym_ok b"
  shows "(period_keys a < period_keys b \<longleftrightarrow> ym_less a b) \<and> (period_keys a = period_keys b \<longleftrightarrow> a = b)"
  using period_keys_less_iff [OF assms] period_keys_inject [OF assms] by auto

text \<open>Closing a month keeps a purchased pool between nothing and what it was, never charges a
  month that stayed within the base, leaves nothing exactly when the user had been over the total
  limit, and closing two months charges the pool as one month with the two excesses.\<close>

theorem carry_over_pool_laws:
  assumes "0 < limit" and "0 < pool"
  shows "0 \<le> carry_over_pool (Some pool) used (Some limit) \<and> carry_over_pool (Some pool) used (Some limit) \<le> pool \<and>
    (used \<le> limit \<longrightarrow> carry_over_pool (Some pool) used (Some limit) = pool) \<and>
    (carry_over_pool (Some pool) used (Some limit) = 0 \<longleftrightarrow> over_limit_monthly_pool used (Some limit) (Some pool)) \<and>
    (limit \<le> used \<longrightarrow> limit \<le> next \<longrightarrow>
       carry_over_pool (Some (carry_over_pool (Some pool) used (Some limit))) next (Some limit) =
       carry_over_pool (Some pool) (used + next - limit) (Some limit))"
  using assms carry_over_pool_bounds [of "Some pool" used "Some limit"]
    carry_over_pool_exhausted [of "Some limit" "Some pool" used]
    carry_over_pool_compose [of "Some limit" used "next" "Some pool"]
  by (simp add: carry_over_pool_def)

section \<open>Witnesses\<close>

definition sample_client :: "int \<Rightarrow> obj" where
  "sample_client u = [(''email'', JStr (client_email u ''bob''))]"

definition sample_inbound :: obj where
  "sample_inbound = [(''tag'', JStr ''IN''),
     (''settings'', JObj [(''clients'', JList [JObj (sample_client 1), JObj (sample_client 12)])])]"

definition sample_config :: xray_config where
  "sample_config = \<lparr>cfg_doc = [(''inbounds'', JList [JObj sample_inbound])],
     cfg_api_host = ''127.0.0.1'', cfg_api_port = 8080, cfg_by_protocol = [], cfg_by_tag = []\<rparr>"

lemma client_email_inject: "client_email u m = client_email v n \<Longrightarrow> u = v"
  using starts_with_client_email [of u m v] starts_with_client_email [of v n v] by simp

lemma strip_blocked_clients_exact_witness:
  "\<exists>cfg' ibs'. strip_blocked_clients sample_config [1] = Inr cfg' \<and>
     section_objs (cfg_doc cfg') ''inbounds'' = Inr ibs' \<and> map clients_of ibs' = [[sample_client 12]]"
proof -
  have ibs: "section_objs (cfg_doc sample_config) ''inbounds'' = Inr [sample_inbound]"
    by (simp add: sample_config_def section_objs_def jindex_def)
  have cs: "clients_of sample_inbound = [sample_client 1, sample_client 12]"
    by (simp add: clients_of_def sample_inbound_def jget_def dget_or_def)
  have "inbound_ok sample_inbound"
    by (simp add: inbound_ok_def sample_inbound_def jget_def dget_or_def)
  moreover have email: "dget (sample_client u) ''email'' = Some (JStr (client_email u ''bob''))" for u
    by (simp add: sample_client_def)
  moreover have only1: "(\<forall>u name. dget (sample_client v) ''email'' = Some (JStr (client_email u name)) \<longrightarrow> u \<notin> set [1])
      \<longleftrightarrow> v \<noteq> 1" for v
  proof
    assume "\<forall>u name. dget (sample_client v) ''email'' = Some (JStr (client_email u name)) \<longrightarrow> u \<notin> set [1]"
    then have "v \<notin> set [1]" using email by blast
    then show "v \<noteq> 1" by simp
  next
    assume "v \<noteq> 1"
    then show "\<forall>u name. dget (sample_client v) ''email'' = Some (JStr (client_email u name)) \<longrightarrow> u \<notin> set [1]"
      unfolding email by (auto dest: client_email_inject)
  qed
  moreover have "filter (\<lambda>c. \<forall>u name. dget c ''email'' = Some (JStr (client_email u name)) \<longrightarrow> u \<notin> set [1])
      (clients_of sample_inbound) = [sample_client 12]"
    unfolding cs filter.simps only1 by simp
  ultimately have "\<exists>cfg' ibs'. strip_blocked_clients sample_config [1] = Inr cfg' \<and>
    section_objs (cfg_doc cfg') ''inbounds'' = Inr ibs' \<and>
    list_all2 (\<lambda>inb inb'. clients_of inb' = [sample_client 12]) [sample_inbound] ibs'"
    using strip_blocked_clients_exact [OF ibs, of "[1]"] unfolding list_all2_Cons1 list_all2_Nil
    by (auto simp: cs)
  then show ?thesis
    by (auto simp: list_all2_Cons1)
qed

lemma period_keys_chronological_witness:
  "period_keys \<lparr>year = 2025, month = 12\<rparr> < period_keys \<lparr>year = 2026, month = 1\<rparr>"
  using period_keys_chronological [of "\<lparr>year = 2025, month = 12\<rparr>" "\<lparr>year = 2026, month = 1\<rparr>"]
  by (simp add: ym_ok_def ym_less_def)

lemma carry_over_pool_laws_witness:
  "carry_over_pool (Some 5) 12 (Some 10) = 3 \<and>
   carry_over_pool (Some (carry_over_pool (Some 5) 12 (Some 10))) 11 (Some 10) =
     carry_over_pool (Some 5) (12 + 11 - 10) (Some 10)"
  using carry_over_pool_laws [of 10 5 12 11] by (simp add: carry_over_pool_def)

end
