(* ===== verification/CascadeConfig.thy ===== *)
theory CascadeConfig
  imports XrayDoc
begin

text \<open>
  app/xray/cascade_config.py: the cascade part of a node's configuration. An exit node gets a
  service client in the catalogue inbounds that accept cascade traffic; an entry node gets one
  outbound per exit and inbound, and one routing rule, or one balancer and its rule, per entry
  inbound. A value read from an ill-typed document raises; which Python exception class it is
  follows the first accessor that fails.
\<close>

section \<open>Tags and builders\<close>

definition CASCADE_CLIENT_FLOW :: string where
  "CASCADE_CLIENT_FLOW = ''xtls-rprx-vision''"

definition CASCADE_FINGERPRINT :: string where
  "CASCADE_FINGERPRINT = ''chrome''"

definition BALANCER_STRATEGIES :: "string list" where
  "BALANCER_STRATEGIES = [''random'', ''roundRobin'', ''leastPing'', ''leastLoad'']"

definition OBSERVATORY_PROBE_URL :: string where
  "OBSERVATORY_PROBE_URL = ''https://www.google.com/generate_204''"

definition OBSERVATORY_INTERVAL :: string where
  "OBSERVATORY_INTERVAL = ''10s''"

definition CASCADE_OUTBOUND_PREFIX :: string where
  "CASCADE_OUTBOUND_PREFIX = ''CASCADE_OUT_''"

definition cascade_outbound_tag :: "int \<Rightarrow> string \<Rightarrow> string" where
  "cascade_outbound_tag exit_node_id cascade_inbound_tag =
     ''CASCADE_OUT_'' @ int_str exit_node_id @ ''_'' @ cascade_inbound_tag"

record cascade_route =
  entry_inbound_tag :: string
  exit_node_id :: int
  cascade_inbound_tag :: string
  route_address :: string
  route_port :: json
  route_uuid :: string
  route_public_key :: string
  route_short_id :: json
  route_sni :: json
  route_fingerprint :: json

definition out_tag :: "cascade_route \<Rightarrow> string" where
  "out_tag r = cascade_outbound_tag (exit_node_id r) (cascade_inbound_tag r)"

definition inject_cascade_client :: "obj \<Rightarrow> string \<Rightarrow> obj result" where
  "inject_cascade_client inb uuid =
     (let sv = jget inb ''settings'' in
      bindE (if truthy sv then as_obj sv else Inr []) (\<lambda>settings.
        let cv = jget settings ''clients'' in
        bindE (if truthy cv then bindE (as_list cv) (mapE as_obj) else Inr []) (\<lambda>clients.
          let clients' = (if list_ex (\<lambda>c. jget c ''id'' = JStr uuid) clients then clients
                          else clients @ [[(''id'', JStr uuid), (''flow'', JStr CASCADE_CLIENT_FLOW)]])
          in Inr (dput ''settings'' (JObj (put_objs ''clients'' clients' settings)) inb))))"

definition build_cascade_outbound :: "cascade_route \<Rightarrow> obj" where
  "build_cascade_outbound r =
     [(''tag'', JStr (cascade_outbound_tag (exit_node_id r) (cascade_inbound_tag r))),
      (''protocol'', JStr ''vless''),
      (''settings'', JObj [(''vnext'', JList [JObj
         [(''address'', JStr (route_address r)),
          (''port'', route_port r),
          (''users'', JList [JObj
             [(''id'', JStr (route_uuid r)),
              (''encryption'', JStr ''none''),
              (''flow'', JStr CASCADE_CLIENT_FLOW)]])]])]),
      (''streamSettings'', JObj
         [(''network'', JStr ''tcp''),
          (''security'', JStr ''reality''),
          (''realitySettings'', JObj
             [(''show'', JBool False),
              (''fingerprint'', if truthy (route_fingerprint r) then route_fingerprint r
                                else JStr CASCADE_FINGERPRINT),
              (''serverName'', route_sni r),
              (''publicKey'', JStr (route_public_key r)),
              (''shortId'', route_short_id r)])])]"

definition build_routing_rule :: "cascade_route \<Rightarrow> obj" where
  "build_routing_rule r =
     [(''type'', JStr ''field''),
      (''inboundTag'', JList [JStr (entry_inbound_tag r)]),
      (''outboundTag'', JStr (cascade_outbound_tag (exit_node_id r) (cascade_inbound_tag r)))]"

definition cascade_balancer_tag :: "string \<Rightarrow> string" where
  "cascade_balancer_tag entry_tag = ''CASCADE_BAL_'' @ entry_tag"

definition build_balancer :: "string \<Rightarrow> string list \<Rightarrow> string \<Rightarrow> obj" where
  "build_balancer bal_tag selector strategy =
     [(''tag'', JStr bal_tag),
      (''selector'', JList (map JStr selector)),
      (''strategy'', JObj [(''type'', JStr (if strategy \<in> set BALANCER_STRATEGIES then strategy
                                             else ''random''))])]"

definition build_balancer_rule :: "string \<Rightarrow> string \<Rightarrow> obj" where
  "build_balancer_rule entry_tag bal_tag =
     [(''type'', JStr ''field''),
      (''inboundTag'', JList [JStr entry_tag]),
      (''balancerTag'', JStr bal_tag)]"

definition build_observatory :: obj where
  "build_observatory =
     [(''subjectSelector'', JList [JStr CASCADE_OUTBOUND_PREFIX]),
      (''probeUrl'', JStr OBSERVATORY_PROBE_URL),
      (''probeInterval'', JStr OBSERVATORY_INTERVAL)]"

definition build_burst_observatory :: obj where
  "build_burst_observatory =
     [(''subjectSelector'', JList [JStr CASCADE_OUTBOUND_PREFIX]),
      (''pingConfig'', JObj
         [(''destination'', JStr OBSERVATORY_PROBE_URL),
          (''interval'', JStr OBSERVATORY_INTERVAL),
          (''connectivity'', JStr []),
          (''timeout'', JStr ''3s''),
          (''sampling'', JInt 3)])]"

section \<open>cascade_config\<close>

record cascade_client =
  cc_inbound_tag :: string
  cc_uuid :: string

text \<open>The keyword arguments of \<open>cascade_config\<close>; a missing list is the empty one.\<close>

record cascade_args =
  ca_role :: string
  ca_clients :: "cascade_client list"
  ca_routes :: "cascade_route list"
  ca_strategy :: string

definition uuid_by_tag :: "cascade_client list \<Rightarrow> (string \<times> string) list" where
  "uuid_by_tag cs = fold (\<lambda>c d. dsetdefault (cc_inbound_tag c) (cc_uuid c) d) cs []"

definition inject_if_listed :: "(string \<times> string) list \<Rightarrow> obj \<Rightarrow> obj result" where
  "inject_if_listed m ib =
     bindE (tag_in (map fst m) (jget ib ''tag'')) (\<lambda>listed.
       if listed then inject_cascade_client ib (dget_or m (tag_of ib) []) else Inr ib)"

fun add_outbounds :: "cascade_route list \<Rightarrow> string list \<Rightarrow> json list \<Rightarrow> json list" where
  "add_outbounds [] seen outs = outs"
| "add_outbounds (r # rs) seen outs =
     (let tag = cascade_outbound_tag (exit_node_id r) (cascade_inbound_tag r) in
      if tag \<notin> set seen then add_outbounds rs (tag # seen) (outs @ [JObj (build_cascade_outbound r)])
      else add_outbounds rs seen outs)"

definition group_routes :: "cascade_route list \<Rightarrow> (string \<times> cascade_route list) list" where
  "group_routes rs = fold (\<lambda>r g. dappend (entry_inbound_tag r) r g) rs []"

fun group_selector :: "cascade_route list \<Rightarrow> string list \<Rightarrow> string list" where
  "group_selector [] sel = sel"
| "group_selector (r # rs) sel =
     (let t = cascade_outbound_tag (exit_node_id r) (cascade_inbound_tag r) in
      group_selector rs (if t \<notin> set sel then sel @ [t] else sel))"

fun add_groups :: "string \<Rightarrow> (string \<times> cascade_route list) list \<Rightarrow> obj \<times> bool \<Rightarrow> (obj \<times> bool) result" where
  "add_groups strategy [] st = Inr st"
| "add_groups strategy ((entry_tag, grp) # gs) (routing, has_balancer) =
     (let selector = group_selector grp [] in
      if length selector > 1 then
        (let bal_tag = cascade_balancer_tag entry_tag in
         bindE (get_list_or routing ''balancers'') (\<lambda>bs.
           let routing1 = dput ''balancers'' (JList (bs @ [JObj (build_balancer bal_tag selector strategy)])) routing in
           bindE (get_list_or routing1 ''rules'') (\<lambda>rules.
             add_groups strategy gs
               (dput ''rules'' (JList (rules @ [JObj (build_balancer_rule entry_tag bal_tag)])) routing1, True))))
      else
        bindE (get_list_or routing ''rules'') (\<lambda>rules.
          add_groups strategy gs
            (dput ''rules'' (JList (rules @ [JObj (build_routing_rule (hd grp))])) routing, has_balancer)))"

definition add_observatory :: "string \<Rightarrow> bool \<Rightarrow> obj \<Rightarrow> obj" where
  "add_observatory strategy has_balancer d =
     (if has_balancer then
        (if strategy = ''leastPing'' then dput ''observatory'' (JObj build_observatory) d
         else if strategy = ''leastLoad'' then dput ''burstObservatory'' (JObj build_burst_observatory) d
         else d)
      else d)"

definition cascade_config :: "xray_config \<Rightarrow> cascade_args \<Rightarrow> xray_config result" where
  "cascade_config base a =
     (if ca_role a = ''exit'' \<and> ca_clients a \<noteq> [] then
        bindE (section_objs (cfg_doc base) ''inbounds'') (\<lambda>ibs.
        bindE (mapE (inject_if_listed (uuid_by_tag (ca_clients a))) ibs) (\<lambda>ibs'.
          Inr (base\<lparr>cfg_doc := put_objs ''inbounds'' ibs' (cfg_doc base)\<rparr>)))
      else if ca_role a = ''entry'' \<and> ca_routes a \<noteq> [] then
        bindE (bindE (jindex (cfg_doc base) ''outbounds'') as_list) (\<lambda>outs.
          let d1 = dput ''outbounds'' (JList (add_outbounds (ca_routes a) [] outs)) (cfg_doc base);
              d2 = dsetdefault ''routing'' (JObj []) d1 in
          bindE (as_obj (jget d2 ''routing'')) (\<lambda>routing.
          bindE (add_groups (ca_strategy a) (group_routes (ca_routes a)) (routing, False)) (\<lambda>(routing', has_balancer).
            Inr (base\<lparr>cfg_doc := add_observatory (ca_strategy a) has_balancer
                                  (dput ''routing'' (JObj routing') d2)\<rparr>))))
      else Inr base)"

section \<open>Tags\<close>

lemma underscore_notin_int_str [simp]: "CHR ''_'' \<notin> set (int_str n)"
proof
  assume "CHR ''_'' \<in> set (int_str n)"
  then have "is_digit (CHR ''_'')"
    by (auto simp: int_str_def dest: nat_str_digits split: if_splits)
  then show False by (simp add: is_digit_def)
qed

lemma cascade_outbound_tag_inject [simp]:
  "cascade_outbound_tag m t = cascade_outbound_tag n u \<longleftrightarrow> m = n \<and> t = u"
proof
  assume "cascade_outbound_tag m t = cascade_outbound_tag n u"
  then have "int_str m @ CHR ''_'' # t = int_str n @ CHR ''_'' # u"
    by (simp add: cascade_outbound_tag_def)
  then have "int_str m = int_str n \<and> t = u"
    by (rule sep_append_eq) simp_all
  then show "m = n \<and> t = u" by simp
qed simp

lemma cascade_outbound_tag_prefix: "starts_with (cascade_outbound_tag n t) CASCADE_OUTBOUND_PREFIX"
  by (simp add: starts_with_iff cascade_outbound_tag_def CASCADE_OUTBOUND_PREFIX_def)

section \<open>Exit role\<close>

lemma uuid_by_tag_fold:
  "dget (fold (\<lambda>c d. dsetdefault (cc_inbound_tag c) (cc_uuid c) d) cs d) t =
     (case dget d t of Some u \<Rightarrow> Some u | None \<Rightarrow> map_of (map (\<lambda>c. (cc_inbound_tag c, cc_uuid c)) cs) t)"
  by (induction cs arbitrary: d) (auto simp: dsetdefault_def split: option.splits)

lemma dget_uuid_by_tag: "dget (uuid_by_tag cs) t = map_of (map (\<lambda>c. (cc_inbound_tag c, cc_uuid c)) cs) t"
  by (simp add: uuid_by_tag_def uuid_by_tag_fold)

lemma uuid_by_tag_keys: "set (map fst (uuid_by_tag cs)) = cc_inbound_tag ` set cs"
proof (rule set_eqI)
  fix t
  have "t \<notin> set (map fst (uuid_by_tag cs)) \<longleftrightarrow> t \<notin> cc_inbound_tag ` set cs"
    unfolding dget_None_iff [symmetric] dget_uuid_by_tag by (force simp: dget_None_iff)
  then show "t \<in> set (map fst (uuid_by_tag cs)) \<longleftrightarrow> t \<in> cc_inbound_tag ` set cs"
    by blast
qed

text \<open>The service client is present after injection, and injecting it again changes nothing.\<close>

lemma inject_cascade_client_present:
  assumes "inject_cascade_client inb uuid = Inr inb'"
  obtains s cs where "jget inb' ''settings'' = JObj s" and "jget s ''clients'' = JList (map JObj cs)"
    and "list_ex (\<lambda>c. jget c ''id'' = JStr uuid) cs" and "cs \<noteq> []"
    and "\<And>k. k \<noteq> ''settings'' \<Longrightarrow> dget inb' k = dget inb k"
proof -
  define add where "add c0 = (if list_ex (\<lambda>c. jget c ''id'' = JStr uuid) c0 then c0
      else c0 @ [[(''id'', JStr uuid), (''flow'', JStr CASCADE_CLIENT_FLOW)]])" for c0
  obtain s0 c0 where inb': "inb' = dput ''settings'' (JObj (put_objs ''clients'' (add c0) s0)) inb"
    using assms by (auto simp: inject_cascade_client_def bindE_Inr_iff Let_def add_def)
  have ex: "list_ex (\<lambda>c. jget c ''id'' = JStr uuid) (add c0)"
    by (auto simp: add_def jget_def dget_or_def)
  moreover from ex have "add c0 \<noteq> []"
    by auto
  ultimately show thesis
    using that [of "put_objs ''clients'' (add c0) s0" "add c0"] by (simp add: inb')
qed

lemma dput_same: "dget d k = Some v \<Longrightarrow> dput k v d = d"
  by (induction d) auto

lemma dput_eq_same: "jget d k = v \<Longrightarrow> v \<noteq> JNull \<Longrightarrow> dput k v d = d"
  by (rule dput_same) (auto simp: jget_def dget_or_def split: option.splits)

lemma inject_cascade_client_idem:
  assumes "inject_cascade_client inb uuid = Inr inb'"
  shows "inject_cascade_client inb' uuid = Inr inb'"
proof -
  obtain s cs where s: "jget inb' ''settings'' = JObj s" "jget s ''clients'' = JList (map JObj cs)"
    "list_ex (\<lambda>c. jget c ''id'' = JStr uuid) cs" "cs \<noteq> []"
    by (rule inject_cascade_client_present [OF assms])
  then have "s \<noteq> []"
    by auto
  moreover have "put_objs ''clients'' cs s = s"
    using s by (simp add: put_objs_def dput_eq_same)
  moreover have "dput ''settings'' (JObj s) inb' = inb'"
    using s by (simp add: dput_eq_same)
  ultimately show ?thesis
    using s by (simp add: inject_cascade_client_def)
qed

lemma inject_if_listed_idem:
  assumes "inject_if_listed m ib = Inr ib'"
  shows "inject_if_listed m ib' = Inr ib'"
proof -
  obtain b where b: "tag_in (map fst m) (jget ib ''tag'') = Inr b"
    "(if b then inject_cascade_client ib (dget_or m (tag_of ib) []) else Inr ib) = Inr ib'"
    using assms by (auto simp: inject_if_listed_def bindE_Inr_iff)
  show ?thesis
  proof (cases b)
    case True
    with b have inj: "inject_cascade_client ib (dget_or m (tag_of ib) []) = Inr ib'" by simp
    then have "dget ib' ''tag'' = dget ib ''tag''"
      by (rule inject_cascade_client_present) simp
    then have "jget ib' ''tag'' = jget ib ''tag''" "tag_of ib' = tag_of ib"
      by (simp_all add: jget_def dget_or_def tag_of_def)
    with b True inject_cascade_client_idem [OF inj] show ?thesis
      by (simp add: inject_if_listed_def)
  qed (use b assms in simp)
qed

lemma mapE_all2: "mapE f xs = Inr ys \<Longrightarrow> list_all2 (\<lambda>x y. f x = Inr y) xs ys"
  by (induction xs arbitrary: ys) (auto simp: bindE_Inr_iff)

section \<open>Entry role\<close>

fun fresh_routes :: "cascade_route list \<Rightarrow> string list \<Rightarrow> cascade_route list" where
  "fresh_routes [] seen = []"
| "fresh_routes (r # rs) seen =
     (if out_tag r \<notin> set seen then r # fresh_routes rs (out_tag r # seen) else fresh_routes rs seen)"

lemma add_outbounds_eq:
  "add_outbounds rs seen outs = outs @ map (\<lambda>r. JObj (build_cascade_outbound r)) (fresh_routes rs seen)"
  by (induction rs seen outs rule: add_outbounds.induct) (auto simp: out_tag_def Let_def)

lemma fresh_routes_tags: "out_tag ` set (fresh_routes rs seen) = out_tag ` set rs - set seen"
  by (induction rs seen rule: fresh_routes.induct) auto

lemma fresh_routes_subset: "set (fresh_routes rs seen) \<subseteq> set rs"
  by (induction rs seen rule: fresh_routes.induct) auto

lemma fresh_routes_distinct: "distinct (map out_tag (fresh_routes rs seen))"
proof (induction rs seen rule: fresh_routes.induct)
  case (2 r rs seen)
  have "out_tag r \<notin> out_tag ` set (fresh_routes rs (out_tag r # seen))"
    by (simp add: fresh_routes_tags)
  with 2 show ?case by simp
qed simp

lemma group_selector_set: "set (group_selector rs sel) = set sel \<union> out_tag ` set rs"
  by (induction rs sel rule: group_selector.induct) (auto simp: out_tag_def Let_def)

lemma group_selector_distinct: "distinct sel \<Longrightarrow> distinct (group_selector rs sel)"
  by (induction rs sel rule: group_selector.induct) (auto simp: Let_def)

lemma group_routes_fold:
  "dget_or (fold (\<lambda>r g. dappend (entry_inbound_tag r) r g) rs g) t [] =
     dget_or g t [] @ filter (\<lambda>r. entry_inbound_tag r = t) rs"
  by (induction rs arbitrary: g) (auto simp: dappend_def)

lemma group_routes_keys:
  "set (map fst (fold (\<lambda>r g. dappend (entry_inbound_tag r) r g) rs g)) =
     set (map fst g) \<union> entry_inbound_tag ` set rs"
  by (induction rs arbitrary: g) (auto simp: dappend_def dkeys_dput simp del: set_map)

lemma group_routes_distinct_fold:
  "distinct (map fst g) \<Longrightarrow> distinct (map fst (fold (\<lambda>r g. dappend (entry_inbound_tag r) r g) rs g))"
  by (induction rs arbitrary: g) (auto simp: dappend_def distinct_dput)

lemma group_routes_distinct: "distinct (map fst (group_routes rs))"
  by (simp add: group_routes_def group_routes_distinct_fold)

lemma group_routes_member:
  assumes "(t, grp) \<in> set (group_routes rs)"
  shows "grp = filter (\<lambda>r. entry_inbound_tag r = t) rs" and "grp \<noteq> []"
proof -
  have get: "dget (group_routes rs) t = Some grp"
    using assms group_routes_distinct by simp
  then show eq: "grp = filter (\<lambda>r. entry_inbound_tag r = t) rs"
    using group_routes_fold [of rs "[]" t] by (simp add: group_routes_def dget_or_def)
  have "t \<in> entry_inbound_tag ` set rs"
    using assms group_routes_keys [of rs "[]"] by (force simp: group_routes_def)
  then show "grp \<noteq> []"
    by (auto simp: eq filter_empty_conv)
qed

definition group_balanced :: "string \<times> cascade_route list \<Rightarrow> bool" where
  "group_balanced g \<longleftrightarrow> length (group_selector (snd g) []) > 1"

definition group_rule :: "string \<times> cascade_route list \<Rightarrow> obj" where
  "group_rule g = (if group_balanced g then build_balancer_rule (fst g) (cascade_balancer_tag (fst g))
                   else build_routing_rule (hd (snd g)))"

definition group_balancers :: "string \<Rightarrow> (string \<times> cascade_route list) list \<Rightarrow> obj list" where
  "group_balancers strategy gs =
     map (\<lambda>g. build_balancer (cascade_balancer_tag (fst g)) (group_selector (snd g) []) strategy)
       (filter group_balanced gs)"

lemma add_groups_eq:
  assumes "get_list_or routing ''rules'' = Inr R" and "get_list_or routing ''balancers'' = Inr B"
  shows "\<exists>routing'. add_groups strategy gs (routing, hb) = Inr (routing', hb \<or> group_balancers strategy gs \<noteq> []) \<and>
    get_list_or routing' ''rules'' = Inr (R @ map (\<lambda>g. JObj (group_rule g)) gs) \<and>
    get_list_or routing' ''balancers'' = Inr (B @ map JObj (group_balancers strategy gs)) \<and>
    (\<forall>k. k \<noteq> ''rules'' \<longrightarrow> k \<noteq> ''balancers'' \<longrightarrow> dget routing' k = dget routing k)"
  using assms
proof (induction gs arbitrary: routing hb R B)
  case (Cons g gs)
  obtain t grp where g: "g = (t, grp)" by (cases g)
  show ?case
  proof (cases "group_balanced g")
    case True
    let ?b = "JObj (build_balancer (cascade_balancer_tag t) (group_selector grp []) strategy)"
    let ?r = "dput ''rules'' (JList (R @ [JObj (group_rule g)])) (dput ''balancers'' (JList (B @ [?b])) routing)"
    have "add_groups strategy (g # gs) (routing, hb) = add_groups strategy gs (?r, True)"
      using True Cons.prems by (simp add: g group_balanced_def group_rule_def Let_def)
    with True Cons.IH [of ?r "R @ [JObj (group_rule g)]" "B @ [?b]" True] show ?thesis
      by (simp add: group_balancers_def g)
  next
    case False
    let ?r = "dput ''rules'' (JList (R @ [JObj (group_rule g)])) routing"
    have "add_groups strategy (g # gs) (routing, hb) = add_groups strategy gs (?r, hb)"
      using False Cons.prems by (simp add: g group_balanced_def group_rule_def)
    with False Cons.IH [of ?r "R @ [JObj (group_rule g)]" B hb] Cons.prems show ?thesis
      by (simp add: group_balancers_def g)
  qed
qed (simp add: group_balancers_def)

text \<open>
  The documents the entry role accepts: a list of outbounds and, when there is a routing section,
  an object whose rules and balancers are lists.
\<close>

definition entry_base :: "obj \<Rightarrow> json list \<Rightarrow> json list \<Rightarrow> json list \<Rightarrow> bool" where
  "entry_base d outs rules bals \<longleftrightarrow>
     bindE (jindex d ''outbounds'') as_list = Inr outs \<and>
     (case dget d ''routing'' of
        None \<Rightarrow> rules = [] \<and> bals = []
      | Some v \<Rightarrow> bindE (as_obj v) (\<lambda>r. get_list_or r ''rules'') = Inr rules \<and>
                  bindE (as_obj v) (\<lambda>r. get_list_or r ''balancers'') = Inr bals)"

lemma cascade_entry_result:
  assumes "entry_base (cfg_doc base) outs rules bals" and "ca_role a = ''entry''" and "ca_routes a \<noteq> []"
  defines "gs \<equiv> group_routes (ca_routes a)"
  shows "\<exists>cfg. cascade_config base a = Inr cfg \<and>
    entry_base (cfg_doc cfg)
      (outs @ map (\<lambda>r. JObj (build_cascade_outbound r)) (fresh_routes (ca_routes a) []))
      (rules @ map (\<lambda>g. JObj (group_rule g)) gs)
      (bals @ map JObj (group_balancers (ca_strategy a) gs)) \<and>
    (\<forall>k. k \<notin> {''outbounds'', ''routing'', ''observatory'', ''burstObservatory''} \<longrightarrow>
       dget (cfg_doc cfg) k = dget (cfg_doc base) k) \<and>
    cfg_by_tag cfg = cfg_by_tag base"
proof -
  let ?outs' = "add_outbounds (ca_routes a) [] outs"
  define d1 where "d1 = dput ''outbounds'' (JList ?outs') (cfg_doc base)"
  define d2 where "d2 = dsetdefault ''routing'' (JObj []) d1"
  obtain routing where r: "as_obj (jget d2 ''routing'') = Inr routing"
    "get_list_or routing ''rules'' = Inr rules" "get_list_or routing ''balancers'' = Inr bals"
    using assms(1) by (cases "dget (cfg_doc base) ''routing''")
      (auto simp: entry_base_def d2_def d1_def dsetdefault_def bindE_Inr_iff jget_def dget_or_def)
  obtain routing' where r': "add_groups (ca_strategy a) gs (routing, False) =
      Inr (routing', group_balancers (ca_strategy a) gs \<noteq> [])"
    "get_list_or routing' ''rules'' = Inr (rules @ map (\<lambda>g. JObj (group_rule g)) gs)"
    "get_list_or routing' ''balancers'' = Inr (bals @ map JObj (group_balancers (ca_strategy a) gs))"
    using add_groups_eq [OF r(2,3), of "ca_strategy a" gs False] by auto
  let ?cfg = "base\<lparr>cfg_doc := add_observatory (ca_strategy a) (group_balancers (ca_strategy a) gs \<noteq> [])
                (dput ''routing'' (JObj routing') d2)\<rparr>"
  have outs: "bindE (jindex (cfg_doc base) ''outbounds'') as_list = Inr outs"
    using assms(1) by (simp add: entry_base_def)
  have "cascade_config base a = Inr ?cfg"
    using assms(2,3) outs r(1) r'(1) by (simp add: cascade_config_def d1_def d2_def gs_def)
  moreover have "entry_base (cfg_doc ?cfg) ?outs' (rules @ map (\<lambda>g. JObj (group_rule g)) gs)
      (bals @ map JObj (group_balancers (ca_strategy a) gs))"
    using r'(2,3)
    by (simp add: entry_base_def add_observatory_def d2_def d1_def dsetdefault_def jindex_def)
  moreover have "dget (cfg_doc ?cfg) k = dget (cfg_doc base) k"
    if "k \<notin> {''outbounds'', ''routing'', ''observatory'', ''burstObservatory''}" for k
    using that by (simp add: add_observatory_def d2_def d1_def dsetdefault_def)
  ultimately show ?thesis
    by (auto simp: add_outbounds_eq)
qed

section \<open>Where the added rules lead\<close>

fun json_tagged :: "string \<Rightarrow> json \<Rightarrow> bool" where
  "json_tagged t (JObj d) = has_tag t d"
| "json_tagged t _ = False"

definition json_strings :: "json \<Rightarrow> string list" where
  "json_strings v = (case v of JList xs \<Rightarrow> concat (map (\<lambda>x. case x of JStr s \<Rightarrow> [s] | _ \<Rightarrow> []) xs) | _ \<Rightarrow> [])"

lemma json_strings_map [simp]: "json_strings (JList (map JStr ss)) = ss"
  by (simp add: json_strings_def comp_def)

lemma json_strings_single [simp]: "json_strings (JList [JStr s]) = [s]"
  by (simp add: json_strings_def)

definition rule_entries :: "json \<Rightarrow> string list" where
  "rule_entries rule = (case rule of JObj r \<Rightarrow> json_strings (jget r ''inboundTag'') | _ \<Rightarrow> [])"

text \<open>The outbound tags a rule can send traffic to, through its balancer when it names one.\<close>

definition balancer_targets :: "json \<Rightarrow> json \<Rightarrow> string list" where
  "balancer_targets bal_tag b = (case b of
       JObj d \<Rightarrow> if jget d ''tag'' = bal_tag then json_strings (jget d ''selector'') else []
     | _ \<Rightarrow> [])"

definition rule_targets :: "json list \<Rightarrow> json \<Rightarrow> string list" where
  "rule_targets bals rule = (case rule of
       JObj r \<Rightarrow> (case jget r ''outboundTag'' of
           JStr t \<Rightarrow> [t]
         | _ \<Rightarrow> concat (map (balancer_targets (jget r ''balancerTag'')) bals))
     | _ \<Rightarrow> [])"

lemma rule_entries_group: "rule_entries (JObj (group_rule (t, grp))) =
    [if group_balanced (t, grp) then t else entry_inbound_tag (hd grp)]"
  by (simp add: rule_entries_def group_rule_def build_balancer_rule_def build_routing_rule_def
      jget_def dget_or_def)

lemma cascade_balancer_tag_inject [simp]: "cascade_balancer_tag s = cascade_balancer_tag t \<longleftrightarrow> s = t"
  by (simp add: cascade_balancer_tag_def)

lemma balancer_targets_build:
  "balancer_targets (JStr t) (JObj (build_balancer b sel strategy)) = (if b = t then sel else [])"
  by (simp add: balancer_targets_def build_balancer_def jget_def dget_or_def)

lemma balanced_targets:
  assumes "group_balanced g" and "\<forall>b \<in> set bals. \<not> json_tagged (cascade_balancer_tag (fst g)) b"
  shows "set (rule_targets (bals @ map JObj (group_balancers strategy gs)) (JObj (group_rule g))) =
    (\<Union>h \<in> {h \<in> set gs. group_balanced h \<and> fst h = fst g}. set (group_selector (snd h) []))"
proof -
  have base: "balancer_targets (JStr (cascade_balancer_tag (fst g))) b = []" if "b \<in> set bals" for b
    using assms(2) that
    by (auto simp: balancer_targets_def has_tag_def jget_def dget_or_def split: json.splits option.splits)
  have "rule_targets (bals @ map JObj (group_balancers strategy gs)) (JObj (group_rule g)) =
    concat (map (balancer_targets (JStr (cascade_balancer_tag (fst g)))) bals) @
    concat (map (balancer_targets (JStr (cascade_balancer_tag (fst g)))) (map JObj (group_balancers strategy gs)))"
    using assms(1)
    by (simp add: rule_targets_def group_rule_def build_balancer_rule_def jget_def dget_or_def)
  moreover have "concat (map (balancer_targets (JStr (cascade_balancer_tag (fst g)))) bals) = []"
    by (simp add: base)
  ultimately show ?thesis
    by (auto simp: group_balancers_def balancer_targets_build split: if_splits)
qed

lemma group_rule_targets:
  assumes "(t, grp) \<in> set (group_routes rs)"
    and "\<forall>b \<in> set bals. \<not> json_tagged (cascade_balancer_tag t) b"
  shows "rule_entries (JObj (group_rule (t, grp))) = [t] \<and>
    set (rule_targets (bals @ map JObj (group_balancers strategy (group_routes rs)))
           (JObj (group_rule (t, grp)))) =
      out_tag ` {r \<in> set rs. entry_inbound_tag r = t}"
proof -
  note grp = group_routes_member [OF assms(1)]
  have hd: "hd grp \<in> set grp" using grp(2) by simp
  then have hd_t: "entry_inbound_tag (hd grp) = t" using grp(1) by auto
  have sel: "set (group_selector grp []) = out_tag ` {r \<in> set rs. entry_inbound_tag r = t}"
    by (simp add: group_selector_set grp(1))
  show ?thesis
  proof (cases "group_balanced (t, grp)")
    case True
    have "{h \<in> set (group_routes rs). group_balanced h \<and> fst h = t} = {(t, grp)}"
      using True assms(1) group_routes_distinct [of rs] by (auto dest: eq_key_imp_eq_value)
    with balanced_targets [of "(t, grp)" bals strategy "group_routes rs"] True assms(2) sel
    show ?thesis by (simp add: rule_entries_group)
  next
    case False
    have "length (group_selector grp []) \<le> 1"
      using False by (simp add: group_balanced_def)
    moreover have "out_tag (hd grp) \<in> set (group_selector grp [])"
      using hd by (simp add: group_selector_set)
    ultimately have "group_selector grp [] = [out_tag (hd grp)]"
      by (cases "group_selector grp []") auto
    then have "{out_tag (hd grp)} = out_tag ` {r \<in> set rs. entry_inbound_tag r = t}"
      using sel by simp
    moreover have "rule_targets (bals @ map JObj (group_balancers strategy (group_routes rs)))
        (JObj (group_rule (t, grp))) = [out_tag (hd grp)]"
      using False by (simp add: rule_targets_def group_rule_def build_routing_rule_def
          jget_def dget_or_def out_tag_def)
    ultimately show ?thesis
      using False hd_t by (simp add: rule_entries_group)
  qed
qed

lemma json_tagged_build: "json_tagged t (JObj (build_cascade_outbound r)) \<longleftrightarrow> t = out_tag r"
  by (auto simp: has_tag_def build_cascade_outbound_def out_tag_def)

lemma fresh_outbound_exists:
  assumes "r \<in> set rs"
  shows "\<exists>ob \<in> set (map (\<lambda>r. JObj (build_cascade_outbound r)) (fresh_routes rs [])). json_tagged (out_tag r) ob"
proof -
  have "out_tag r \<in> out_tag ` set (fresh_routes rs [])"
    using assms by (simp add: fresh_routes_tags)
  then show ?thesis by (auto simp: has_tag_def build_cascade_outbound_def out_tag_def)
qed

section \<open>Properties\<close>


text \<open>On an exit node adding the service client is idempotent: the cascade part applied to its
  own result changes nothing.\<close>

theorem cascade_exit_idempotent:
  assumes "ca_role a = ''exit''" and "cascade_config base a = Inr cfg"
  shows "cascade_config cfg a = Inr cfg"
proof (cases "ca_clients a = []")
  case False
  let ?f = "inject_if_listed (uuid_by_tag (ca_clients a))"
  obtain ibs ibs' where ibs: "mapE ?f ibs = Inr ibs'"
    "cfg = base\<lparr>cfg_doc := put_objs ''inbounds'' ibs' (cfg_doc base)\<rparr>"
    using assms False by (auto simp: cascade_config_def bindE_Inr_iff)
  have "mapE ?f ibs' = Inr ibs'"
    using ibs(1) by (rule mapE_fixed) (rule inject_if_listed_idem)
  moreover have "put_objs ''inbounds'' ibs' (put_objs ''inbounds'' ibs' (cfg_doc base)) =
      put_objs ''inbounds'' ibs' (cfg_doc base)"
    unfolding put_objs_def by (rule dput_eq_same) simp_all
  ultimately show ?thesis
    using assms(1) False ibs(2) by (simp add: cascade_config_def)
qed (use assms in \<open>simp add: cascade_config_def\<close>)

section \<open>Witnesses\<close>

definition sample_route :: "string \<Rightarrow> int \<Rightarrow> cascade_route" where
  "sample_route entry n = \<lparr>entry_inbound_tag = entry, exit_node_id = n, cascade_inbound_tag = ''IN'',
     route_address = ''10.0.0.1'', route_port = JInt 443, route_uuid = ''u'', route_public_key = ''k'',
     route_short_id = JStr ''ab'', route_sni = JStr ''example.org'', route_fingerprint = JStr []\<rparr>"

definition sample_base :: xray_config where
  "sample_base = \<lparr>cfg_doc = [(''inbounds'', JList [JObj [(''tag'', JStr ''IN'')]]),
       (''outbounds'', JList [JObj [(''tag'', JStr ''direct'')]])],
     cfg_api_host = ''127.0.0.1'', cfg_api_port = 8080, cfg_by_protocol = [], cfg_by_tag = []\<rparr>"

definition sample_entry_args :: cascade_args where
  "sample_entry_args = \<lparr>ca_role = ''entry'', ca_clients = [],
     ca_routes = [sample_route ''A'' 1, sample_route ''A'' 2, sample_route ''B'' 1], ca_strategy = ''leastPing''\<rparr>"

definition sample_exit_args :: cascade_args where
  "sample_exit_args = \<lparr>ca_role = ''exit'', ca_clients = [\<lparr>cc_inbound_tag = ''IN'', cc_uuid = ''u''\<rparr>],
     ca_routes = [], ca_strategy = ''random''\<rparr>"


lemma cascade_exit_idempotent_witness:
  "\<exists>cfg. cascade_config sample_base sample_exit_args = Inr cfg \<and> cfg \<noteq> sample_base \<and>
     cascade_config cfg sample_exit_args = Inr cfg"
proof -
  let ?c = "cascade_config sample_base sample_exit_args"
  obtain cfg where cfg: "?c = Inr cfg" "cfg \<noteq> sample_base"
    by (simp add: cascade_config_def sample_base_def sample_exit_args_def section_objs_def jindex_def
        uuid_by_tag_def dsetdefault_def inject_if_listed_def inject_cascade_client_def jget_def
        dget_or_def tag_of_def put_objs_def)
  then show ?thesis
    using cascade_exit_idempotent [of sample_exit_args sample_base cfg]
    by (simp add: sample_exit_args_def)
qed

end
