(* ===== verification/NodeConfig.thy ===== *)
theory NodeConfig
  imports InboundFilter BsLimit CascadeConfig "HOL-Library.Multiset"
begin

text \<open>
  app/xray/node_config.py: the configuration of one node, its signature, and the cache of finished
  configurations that one wave of connections shares. A serialised configuration is represented by
  the document that is serialised; the sorted rendering in a signature by the document with its
  keys sorted. The locks serialise the calls, so the operations are modelled one after another.
\<close>

section \<open>Node signature\<close>

text \<open>\<open>node_has_inbound\<close>: an unknown or empty set of tags filters nothing.\<close>

definition node_has_inbound :: "string list option \<Rightarrow> string \<Rightarrow> bool" where
  "node_has_inbound tags t \<longleftrightarrow> (case tags of None \<Rightarrow> True | Some ts \<Rightarrow> ts = [] \<or> t \<in> set ts)"

fun sort_keys :: "json \<Rightarrow> json" where
  "sort_keys (JList xs) = JList (map sort_keys xs)"
| "sort_keys (JObj d) = JObj (sort_key fst (map (\<lambda>(k, v). (k, sort_keys v)) d))"
| "sort_keys v = v"

text \<open>The keyword dictionary that app/xray/operations.py hands over for each role.\<close>

definition client_json :: "cascade_client \<Rightarrow> json" where
  "client_json c = JObj [(''inbound_tag'', JStr (cc_inbound_tag c)), (''uuid'', JStr (cc_uuid c))]"

definition route_json :: "cascade_route \<Rightarrow> json" where
  "route_json r = JObj
     [(''entry_inbound_tag'', JStr (entry_inbound_tag r)),
      (''exit_node_id'', JInt (exit_node_id r)),
      (''cascade_inbound_tag'', JStr (cascade_inbound_tag r)),
      (''address'', JStr (route_address r)),
      (''port'', route_port r),
      (''uuid'', JStr (route_uuid r)),
      (''public_key'', JStr (route_public_key r)),
      (''short_id'', route_short_id r),
      (''sni'', route_sni r),
      (''fingerprint'', route_fingerprint r)]"

definition kwargs_json :: "cascade_args \<Rightarrow> json" where
  "kwargs_json a = JObj ((''role'', JStr (ca_role a)) #
     (if ca_role a = ''exit'' then [(''cascade_clients'', JList (map client_json (ca_clients a)))]
      else if ca_role a = ''entry'' then
        [(''entry_routes'', JList (map route_json (ca_routes a))), (''strategy'', JStr (ca_strategy a))]
      else []))"

record node_key =
  key_tags :: "string list"
  key_kwargs :: json
  key_blocked :: "int list"

definition node_signature :: "string list option \<Rightarrow> cascade_args \<Rightarrow> int list option \<Rightarrow> node_key" where
  "node_signature tags a blocked =
     \<lparr>key_tags = sort (case tags of None \<Rightarrow> [] | Some ts \<Rightarrow> ts),
      key_kwargs = sort_keys (kwargs_json a),
      key_blocked = sort (case blocked of None \<Rightarrow> [] | Some us \<Rightarrow> us)\<rparr>"

section \<open>Building and certificates\<close>

record node_request =
  req_tags :: "string list option"
  req_cascade :: cascade_args
  req_blocked :: "int list option"

definition build_node_config :: "xray_config \<Rightarrow> node_request \<Rightarrow> xray_config result" where
  "build_node_config base q =
     bindE (apply_inbound_filter base (req_tags q)) (\<lambda>filtered.
       bindE (cascade_config filtered (req_cascade q)) (\<lambda>cascaded.
         strip_blocked_clients cascaded (case req_blocked q of None \<Rightarrow> [] | Some us \<Rightarrow> us)))"

definition build_node_config_json :: "xray_config \<Rightarrow> node_request \<Rightarrow> obj result" where
  "build_node_config_json base q = bindE (build_node_config base q) (\<lambda>cfg. Inr (cfg_doc cfg))"

text \<open>\<open>open(path).readlines()\<close> is the parameter \<open>read_lines\<close>: the file system is not the program's.\<close>

type_synonym reader = "json \<Rightarrow> string list result"

definition inline_file :: "reader \<Rightarrow> string \<Rightarrow> string \<Rightarrow> obj \<Rightarrow> obj result" where
  "inline_file read_lines file_key key c =
     (if truthy (jget c file_key) then
        bindE (read_lines (jget c file_key)) (\<lambda>ls.
          Inr (ddel file_key (dput key (JList (map (\<lambda>l. JStr (strip l)) ls)) c)))
      else Inr c)"

definition inline_certificate :: "reader \<Rightarrow> obj \<Rightarrow> obj result" where
  "inline_certificate read_lines c =
     bindE (inline_file read_lines ''certificateFile'' ''certificate'' c)
       (inline_file read_lines ''keyFile'' ''key'')"

text \<open>\<open>x.get(k) or {}\<close>, changed in place when it is there.\<close>

definition update_sub :: "string \<Rightarrow> (json \<Rightarrow> json result) \<Rightarrow> obj \<Rightarrow> obj result" where
  "update_sub k f d =
     (if truthy (jget d k) then bindE (f (jget d k)) (\<lambda>v. Inr (dput k v d)) else Inr d)"

definition on_obj :: "(obj \<Rightarrow> obj result) \<Rightarrow> json \<Rightarrow> json result" where
  "on_obj f v = bindE (as_obj v) (\<lambda>d. bindE (f d) (\<lambda>d'. Inr (JObj d')))"

definition on_list :: "(json \<Rightarrow> json result) \<Rightarrow> json \<Rightarrow> json result" where
  "on_list f v = bindE (as_list v) (\<lambda>xs. bindE (mapE f xs) (\<lambda>ys. Inr (JList ys)))"

definition inline_inbound :: "reader \<Rightarrow> obj \<Rightarrow> obj result" where
  "inline_inbound read_lines =
     update_sub ''streamSettings'' (on_obj
       (update_sub ''tlsSettings'' (on_obj
          (update_sub ''certificates'' (on_list (on_obj (inline_certificate read_lines)))))))"

definition inline_local_certificates :: "reader \<Rightarrow> obj \<Rightarrow> obj result" where
  "inline_local_certificates read_lines config =
     (case dget config ''inbounds'' of
        None \<Rightarrow> Inr config
      | Some v \<Rightarrow> bindE (on_list (on_obj (inline_inbound read_lines)) v)
                   (\<lambda>v'. Inr (dput ''inbounds'' v' config)))"

section \<open>The cache of one wave\<close>

text \<open>
  \<open>cached\<close> looks a key up and, on a miss, builds and stores; a build that raises stores nothing.
\<close>

record ('k, 'v) memo =
  entries :: "('k \<times> 'v) list"
  build_count :: nat

definition cached :: "'k \<Rightarrow> 'v result \<Rightarrow> ('k, 'v) memo \<Rightarrow> 'v result \<times> ('k, 'v) memo" where
  "cached key built m =
     (case dget (entries m) key of
        Some v \<Rightarrow> (Inr v, m)
      | None \<Rightarrow> (case built of
            Inl e \<Rightarrow> (Inl e, m)
          | Inr v \<Rightarrow> (Inr v, m\<lparr>entries := dput key v (entries m), build_count := Suc (build_count m)\<rparr>)))"

type_synonym node_json_cache = "(node_key, obj) memo"

definition empty_cache :: node_json_cache where
  "empty_cache = \<lparr>entries = [], build_count = 0\<rparr>"

text \<open>\<open>_NodeJsonCache.get\<close> over its base configuration, with the process-wide number of builds.\<close>

definition cache_get ::
  "xray_config \<Rightarrow> node_request \<Rightarrow> node_json_cache \<times> nat \<Rightarrow> obj result \<times> node_json_cache \<times> nat" where
  "cache_get base q st =
     (let (m, builds) = st;
          (r, m') = cached (node_signature (req_tags q) (req_cascade q) (req_blocked q))
                      (build_node_config_json base q) m
      in (r, m', if build_count m' = build_count m then builds else Suc builds))"

text \<open>
  \<open>node_config_json\<close>: the wave's configuration object carries its cache, created on first use; an
  object that takes no attribute is served by a fresh cache each time.
\<close>

record wave_config =
  wave_base :: xray_config
  wave_cache :: "node_json_cache option"
  takes_attribute :: bool

definition node_config_json ::
  "node_request \<Rightarrow> wave_config \<times> nat \<Rightarrow> obj result \<times> wave_config \<times> nat" where
  "node_config_json q st =
     (let (w, builds) = st;
          m = (case wave_cache w of Some m \<Rightarrow> m | None \<Rightarrow> empty_cache);
          (r, m', builds') = cache_get (wave_base w) q (m, builds)
      in (r, if wave_cache w = None \<and> \<not> takes_attribute w then w else w\<lparr>wave_cache := Some m'\<rparr>, builds'))"

fun serve :: "node_request list \<Rightarrow> wave_config \<times> nat \<Rightarrow> obj result list \<times> wave_config \<times> nat" where
  "serve [] st = ([], st)"
| "serve (q # qs) st =
     (let (r, st1) = node_config_json q st; (rs, st2) = serve qs st1 in (r # rs, st2))"

section \<open>Memoisation\<close>

text \<open>
  What a cache owes its caller: the key of a request determines what building it gives. A cache
  that was only filled by \<open>cached\<close> then answers every request as building it would.
\<close>

locale memo_build =
  fixes key :: "'q \<Rightarrow> 'k"
    and build :: "'q \<Rightarrow> 'v result"
    and ok :: "'q \<Rightarrow> bool"
  assumes key_determines: "ok x \<Longrightarrow> ok y \<Longrightarrow> key x = key y \<Longrightarrow> build x = build y"
begin

definition faithful :: "('k, 'v) memo \<Rightarrow> bool" where
  "faithful m \<longleftrightarrow> (\<forall>k v. dget (entries m) k = Some v \<longrightarrow> (\<exists>x. ok x \<and> key x = k \<and> build x = Inr v)) \<and>
     distinct (map fst (entries m)) \<and> build_count m = length (entries m)"

lemma empty_faithful: "faithful \<lparr>entries = [], build_count = 0\<rparr>"
  by (simp add: faithful_def)

lemma cached_result:
  assumes "faithful m" and "ok x"
  shows "fst (cached (key x) (build x) m) = build x"
proof (cases "dget (entries m) (key x)")
  case None
  then show ?thesis by (simp add: cached_def split: sum.splits)
next
  case (Some v)
  then obtain y where "ok y" "key y = key x" "build y = Inr v"
    using assms(1) unfolding faithful_def by blast
  with Some assms(2) key_determines [of y x] show ?thesis
    by (simp add: cached_def)
qed

lemma length_dput_fresh: "dget d k = None \<Longrightarrow> length (dput k v d) = Suc (length d)"
  by (induction d) (auto split: if_splits)

lemma cached_faithful:
  assumes "faithful m" and "ok x"
  shows "faithful (snd (cached (key x) (build x) m))"
proof (cases "dget (entries m) (key x)")
  case None
  show ?thesis
  proof (cases "build x")
    case (Inr v)
    with None assms show ?thesis
      by (auto simp: cached_def faithful_def distinct_dput length_dput_fresh)
  qed (use None assms in \<open>simp add: cached_def\<close>)
qed (use assms in \<open>simp add: cached_def\<close>)

text \<open>Every key is built at most once.\<close>

lemma builds_le_keys:
  assumes "faithful m" and "finite K" and "set (map fst (entries m)) \<subseteq> K"
  shows "build_count m \<le> card K"
proof -
  have "build_count m = card (set (map fst (entries m)))"
    using assms(1) distinct_card [of "map fst (entries m)"] by (simp add: faithful_def)
  then show ?thesis using assms(2,3) by (simp add: card_mono)
qed

end

section \<open>The signature determines the configuration\<close>

lemma sort_eq_set: "sort xs = sort ys \<Longrightarrow> set xs = set (ys :: 'a::linorder list)"
  by (metis set_sort)

lemma tag_in_set: "set ts = set us \<Longrightarrow> tag_in ts v = tag_in us v"
  by (simp add: tag_in_def split: json.splits)

lemma apply_inbound_filter_set:
  assumes "set (case p of None \<Rightarrow> [] | Some ts \<Rightarrow> ts) = set (case q of None \<Rightarrow> [] | Some ts \<Rightarrow> ts)"
  shows "apply_inbound_filter base p = apply_inbound_filter base q"
proof -
  define tags where "tags r = (case r of None \<Rightarrow> [] | Some ts \<Rightarrow> ts)" for r :: "string list option"
  have keep: "keep_inbound m ts = keep_inbound m us" if "set ts = set us" for m ts us
    by (rule ext) (simp only: keep_inbound_def tag_in_set [OF that])
  have filtered: "filtered_inbounds ibs m ts = filtered_inbounds ibs m us" if "set ts = set us" for ibs m ts us
    by (simp only: filtered_inbounds_def keep [OF that])
  have eq: "apply_inbound_filter base r = (if set (tags r) = {} then Inr base
      else bindE (section_objs (cfg_doc base) ''inbounds'') (\<lambda>ibs.
             bindE (filtered_inbounds ibs (map fst (cfg_by_tag base)) (tags r)) (\<lambda>kept.
               Inr (base\<lparr>cfg_doc := put_objs ''inbounds'' kept (cfg_doc base)\<rparr>))))" for r
    by (simp add: apply_inbound_filter_def tags_def split: option.split)
  show ?thesis
    using assms unfolding tags_def [symmetric]
    by (simp only: eq filtered [where ts = "tags p" and us = "tags q"])
qed

lemma strip_blocked_clients_set:
  assumes "set us = set vs"
  shows "strip_blocked_clients cfg us = strip_blocked_clients cfg vs"
proof -
  have blocked: "email_blocked us = email_blocked vs"
    by (simp add: fun_eq_iff email_blocked_def assms)
  have "strip_inbound us = strip_inbound vs"
    unfolding strip_inbound_def blocked ..
  moreover have "us = [] \<longleftrightarrow> vs = []"
    using assms by (metis set_empty)
  ultimately show ?thesis by (simp add: strip_blocked_clients_def)
qed

fun scalar :: "json \<Rightarrow> bool" where
  "scalar (JList _) = False"
| "scalar (JObj _) = False"
| "scalar _ = True"

lemma sort_keys_scalar [simp]: "scalar v \<Longrightarrow> sort_keys v = v"
  by (cases v) auto

definition scalar_route :: "cascade_route \<Rightarrow> bool" where
  "scalar_route r \<longleftrightarrow> scalar (route_port r) \<and> scalar (route_short_id r) \<and> scalar (route_sni r) \<and>
     scalar (route_fingerprint r)"

lemma dget_sort_key:
  assumes "distinct (map fst d)"
  shows "dget (sort_key fst d) k = dget d k"
proof -
  have "mset (map fst (sort_key fst d)) = mset (map fst d)" by simp
  then have "distinct (map fst (sort_key fst d))"
    using assms mset_eq_imp_distinct_iff by metis
  with assms have "dget (sort_key fst d) = dget d"
    by (simp add: map_of_inject_set)
  then show ?thesis by simp
qed

lemma sort_keys_obj_eq:
  assumes "sort_keys (JObj d) = sort_keys (JObj e)" and "distinct (map fst d)" and "distinct (map fst e)"
  shows "map_option sort_keys (dget d k) = map_option sort_keys (dget e k)"
proof -
  have sorted: "dget (sort_key fst (map (\<lambda>(k, v). (k, sort_keys v)) d)) k = map_option sort_keys (dget d k)"
    if "distinct (map fst d)" for d
  proof -
    have "map fst (map (\<lambda>(k, v). (k, sort_keys v)) d) = map fst d" by (induction d) auto
    with that have "distinct (map fst (map (\<lambda>(k, v). (k, sort_keys v)) d))" by (simp only:)
    then show ?thesis by (simp only: dget_sort_key) (simp add: map_of_map)
  qed
  from assms(1) have "dget (sort_key fst (map (\<lambda>(k, v). (k, sort_keys v)) d)) k =
      dget (sort_key fst (map (\<lambda>(k, v). (k, sort_keys v)) e)) k" by simp
  then show ?thesis by (simp only: sorted assms(2,3))
qed

lemma sort_keys_client:
  assumes "sort_keys (client_json c) = sort_keys (client_json d)"
  shows "c = d"
proof -
  note eq = sort_keys_obj_eq [OF assms [unfolded client_json_def]]
  show ?thesis
    using eq [of "''inbound_tag''"] eq [of "''uuid''"] by simp
qed

lemma sort_keys_route:
  assumes "sort_keys (route_json r) = sort_keys (route_json s)" and "scalar_route r" and "scalar_route s"
  shows "r = s"
proof -
  note eq = sort_keys_obj_eq [OF assms(1) [unfolded route_json_def], simplified]
  have json: "route_port r = route_port s" "route_short_id r = route_short_id s"
    "route_sni r = route_sni s" "route_fingerprint r = route_fingerprint s"
    using eq [of "''port''"] eq [of "''short_id''"] eq [of "''sni''"] eq [of "''fingerprint''"] assms(2,3)
    by (simp_all add: scalar_route_def)
  have strings: "entry_inbound_tag r = entry_inbound_tag s" "exit_node_id r = exit_node_id s"
    "cascade_inbound_tag r = cascade_inbound_tag s" "route_address r = route_address s"
    "route_uuid r = route_uuid s" "route_public_key r = route_public_key s"
    using eq [of "''entry_inbound_tag''"] eq [of "''exit_node_id''"] eq [of "''cascade_inbound_tag''"]
      eq [of "''address''"] eq [of "''uuid''"] eq [of "''public_key''"]
    by simp_all
  from json strings show ?thesis by simp
qed

lemma map_inj_on_list:
  assumes "map f xs = map f ys" and "\<And>x y. x \<in> set xs \<Longrightarrow> y \<in> set ys \<Longrightarrow> f x = f y \<Longrightarrow> x = y"
  shows "xs = ys"
  using assms by (induction xs arbitrary: ys) (auto simp: Cons_eq_map_conv)

definition scalar_args :: "cascade_args \<Rightarrow> bool" where
  "scalar_args a \<longleftrightarrow> (\<forall>r \<in> set (ca_routes a). scalar_route r)"

lemma kwargs_json_determines:
  assumes "sort_keys (kwargs_json a) = sort_keys (kwargs_json b)" and "scalar_args a" and "scalar_args b"
  shows "cascade_config base a = cascade_config base b"
proof -
  have "distinct (map fst ((''role'', JStr (ca_role x)) #
     (if ca_role x = ''exit'' then [(''cascade_clients'', JList (map client_json (ca_clients x)))]
      else if ca_role x = ''entry'' then
        [(''entry_routes'', JList (map route_json (ca_routes x))), (''strategy'', JStr (ca_strategy x))]
      else [])))" for x
    by auto
  note eq = sort_keys_obj_eq [OF assms(1) [unfolded kwargs_json_def] this this]
  have role: "ca_role a = ca_role b"
    using eq [of "''role''"] by simp
  show ?thesis
  proof (cases "ca_role b = ''exit''")
    case True
    with role have "map (\<lambda>c. sort_keys (client_json c)) (ca_clients a) =
        map (\<lambda>c. sort_keys (client_json c)) (ca_clients b)"
      using eq [of "''cascade_clients''"] by (simp add: comp_def)
    then have "ca_clients a = ca_clients b"
      by (rule map_inj_on_list) (rule sort_keys_client)
    with role True show ?thesis by (simp add: cascade_config_def)
  next
    case exit: False
    show ?thesis
    proof (cases "ca_role b = ''entry''")
      case True
      with role have "map (\<lambda>r. sort_keys (route_json r)) (ca_routes a) =
          map (\<lambda>r. sort_keys (route_json r)) (ca_routes b)"
        using eq [of "''entry_routes''"] by (simp add: comp_def)
      then have "ca_routes a = ca_routes b"
        by (rule map_inj_on_list) (use assms(2,3) sort_keys_route in \<open>auto simp: scalar_args_def\<close>)
      moreover have "ca_strategy a = ca_strategy b"
        using role True eq [of "''strategy''"] by simp
      ultimately show ?thesis using role True by (simp add: cascade_config_def)
    qed (use role exit in \<open>simp add: cascade_config_def\<close>)
  qed
qed

definition req_key :: "node_request \<Rightarrow> node_key" where
  "req_key q = node_signature (req_tags q) (req_cascade q) (req_blocked q)"

definition scalar_req :: "node_request \<Rightarrow> bool" where
  "scalar_req q \<longleftrightarrow> scalar_args (req_cascade q)"

lemma req_key_determines:
  assumes "scalar_req p" and "scalar_req q" and "req_key p = req_key q"
  shows "build_node_config_json base p = build_node_config_json base q"
proof -
  note sig = assms(3) [unfolded req_key_def node_signature_def, simplified]
  have "set (case req_tags p of None \<Rightarrow> [] | Some ts \<Rightarrow> ts) =
      set (case req_tags q of None \<Rightarrow> [] | Some ts \<Rightarrow> ts)"
    and blocked: "set (case req_blocked p of None \<Rightarrow> [] | Some us \<Rightarrow> us) =
      set (case req_blocked q of None \<Rightarrow> [] | Some us \<Rightarrow> us)"
    and cascade: "sort_keys (kwargs_json (req_cascade p)) = sort_keys (kwargs_json (req_cascade q))"
    by (rule sort_eq_set, rule sig [THEN conjunct1], rule sort_eq_set,
        rule sig [THEN conjunct2, THEN conjunct2], rule sig [THEN conjunct2, THEN conjunct1])
  then have "apply_inbound_filter base (req_tags p) = apply_inbound_filter base (req_tags q)"
    by (intro apply_inbound_filter_set)
  moreover have "cascade_config cfg (req_cascade p) = cascade_config cfg (req_cascade q)" for cfg
    by (rule kwargs_json_determines) (use assms cascade in \<open>simp_all add: scalar_req_def\<close>)
  ultimately show ?thesis
    unfolding build_node_config_json_def build_node_config_def
    using strip_blocked_clients_set [OF blocked] by (simp cong: bindE_cong)
qed

interpretation node_cache: memo_build req_key "build_node_config_json base" scalar_req for base
  by unfold_locales (rule req_key_determines)

section \<open>The cache is transparent\<close>

lemma cache_get_eq:
  "cache_get base q (m, builds) =
    (let (r, m') = cached (req_key q) (build_node_config_json base q) m
     in (r, m', if build_count m' = build_count m then builds else Suc builds))"
  by (simp add: cache_get_def req_key_def)

definition wave_faithful :: "wave_config \<Rightarrow> bool" where
  "wave_faithful w \<longleftrightarrow> (case wave_cache w of None \<Rightarrow> True | Some m \<Rightarrow> node_cache.faithful (wave_base w) m)"

lemma node_config_json_step:
  assumes "wave_faithful w" and "scalar_req q"
  shows "fst (node_config_json q (w, builds)) = build_node_config_json (wave_base w) q"
    and "wave_faithful (fst (snd (node_config_json q (w, builds))))"
    and "wave_base (fst (snd (node_config_json q (w, builds)))) = wave_base w"
proof -
  define m where "m = (case wave_cache w of Some m \<Rightarrow> m | None \<Rightarrow> empty_cache)"
  have m: "node_cache.faithful (wave_base w) m"
    using assms(1) node_cache.empty_faithful
    by (auto simp: m_def wave_faithful_def empty_cache_def split: option.splits)
  define c where "c = cached (req_key q) (build_node_config_json (wave_base w) q) m"
  have eq: "node_config_json q (w, builds) =
    (fst c, if wave_cache w = None \<and> \<not> takes_attribute w then w else w\<lparr>wave_cache := Some (snd c)\<rparr>,
     if build_count (snd c) = build_count m then builds else Suc builds)"
    by (simp add: node_config_json_def cache_get_eq m_def [symmetric] c_def [symmetric] split: prod.split)
  show "fst (node_config_json q (w, builds)) = build_node_config_json (wave_base w) q"
    using node_cache.cached_result [OF m assms(2)] by (simp add: eq c_def)
  show "wave_faithful (fst (snd (node_config_json q (w, builds))))"
    using node_cache.cached_faithful [OF m assms(2)] assms(1) by (simp add: eq c_def wave_faithful_def)
  show "wave_base (fst (snd (node_config_json q (w, builds)))) = wave_base w"
    by (simp add: eq)
qed

lemma serve_Cons:
  "snd (serve (q # qs) st) = snd (serve qs (snd (node_config_json q st)))"
  by (simp split: prod.split)

lemma serve_transparent:
  assumes "wave_faithful w" and "\<forall>q \<in> set qs. scalar_req q"
  shows "fst (serve qs (w, builds)) = map (build_node_config_json (wave_base w)) qs"
  using assms
proof (induction qs arbitrary: w builds)
  case (Cons q qs)
  obtain r w1 b1 where step: "node_config_json q (w, builds) = (r, w1, b1)"
    by (cases "node_config_json q (w, builds)") auto
  with Cons.prems node_config_json_step [of w q builds]
  have "r = build_node_config_json (wave_base w) q" "wave_faithful w1" "wave_base w1 = wave_base w"
    by simp_all
  with Cons.IH [of w1 b1] Cons.prems step show ?case
    by (auto split: prod.split)
qed simp

text \<open>The invariant of a cache that has served only requests with keys in a finite set.\<close>

lemma serve_builds:
  assumes "wave_faithful w" and "\<forall>q \<in> set qs. scalar_req q" and "wave_cache w \<noteq> None \<or> takes_attribute w"
    and "set (map fst (entries (case wave_cache w of Some m \<Rightarrow> m | None \<Rightarrow> empty_cache))) \<subseteq> K"
    and "req_key ` set qs \<subseteq> K"
  shows "\<exists>w' b'. snd (serve qs (w, builds)) = (w', b') \<and> wave_faithful w' \<and> wave_base w' = wave_base w \<and>
    set (map fst (entries (case wave_cache w' of Some m \<Rightarrow> m | None \<Rightarrow> empty_cache))) \<subseteq> K \<and>
    b' + build_count (case wave_cache w of Some m \<Rightarrow> m | None \<Rightarrow> empty_cache) =
      builds + build_count (case wave_cache w' of Some m \<Rightarrow> m | None \<Rightarrow> empty_cache)"
  using assms
proof (induction qs arbitrary: w builds)
  case (Cons q qs)
  define m where "m = (case wave_cache w of Some m \<Rightarrow> m | None \<Rightarrow> empty_cache)"
  define c where "c = cached (req_key q) (build_node_config_json (wave_base w) q) m"
  let ?w1 = "w\<lparr>wave_cache := Some (snd c)\<rparr>"
  let ?b1 = "if build_count (snd c) = build_count m then builds else Suc builds"
  have step: "node_config_json q (w, builds) = (fst c, ?w1, ?b1)"
    using Cons.prems(3)
    by (auto simp: node_config_json_def cache_get_eq m_def [symmetric] c_def [symmetric] split: prod.split)
  have w1: "wave_faithful ?w1"
    using node_config_json_step(2) [OF Cons.prems(1), of q builds] Cons.prems(2) step by simp
  have keys: "set (map fst (entries (snd c))) \<subseteq> K"
    using Cons.prems(4,5)
    by (auto simp: c_def cached_def m_def [symmetric] dkeys_dput simp del: set_map split: option.split sum.split)
  have count: "?b1 + build_count m = builds + build_count (snd c)"
    by (simp add: c_def cached_def split: option.split sum.split)
  obtain w' b' where IH: "snd (serve qs (?w1, ?b1)) = (w', b')" "wave_faithful w'" "wave_base w' = wave_base w"
    "set (map fst (entries (case wave_cache w' of Some m \<Rightarrow> m | None \<Rightarrow> empty_cache))) \<subseteq> K"
    "b' + build_count (snd c) = ?b1 + build_count (case wave_cache w' of Some m \<Rightarrow> m | None \<Rightarrow> empty_cache)"
    using Cons.IH [of ?w1 ?b1] w1 keys Cons.prems by auto
  have "snd (serve (q # qs) (w, builds)) = (w', b')"
    using IH(1) by (simp only: serve_Cons step snd_conv)
  then show ?case
    using IH count unfolding m_def [symmetric] by auto
qed simp

section \<open>Certificates\<close>

text \<open>What one pass leaves, a pass with any other reader leaves alone.\<close>

lemma update_sub_fixed:
  assumes "update_sub k f d = Inr d'" and "\<And>v w. f v = Inr w \<Longrightarrow> g w = Inr w" and "\<And>v w. f v = Inr w \<Longrightarrow> w \<noteq> JNull"
  shows "update_sub k g d' = Inr d'"
proof (cases "truthy (jget d k)")
  case True
  then obtain w where w: "f (jget d k) = Inr w" "d' = dput k w d"
    using assms(1) by (auto simp: update_sub_def bindE_Inr_iff)
  have "dput k w d' = d'"
    using assms(3) [OF w(1)] by (intro dput_eq_same) (simp_all add: w(2))
  with assms(2) [OF w(1)] w(2) show ?thesis
    by (simp add: update_sub_def)
qed (use assms(1) in \<open>simp add: update_sub_def\<close>)

lemma on_obj_fixed:
  assumes "on_obj f v = Inr w" and "\<And>d e. f d = Inr e \<Longrightarrow> g e = Inr e"
  shows "on_obj g w = Inr w"
  using assms by (auto simp: on_obj_def bindE_Inr_iff)

lemma on_list_fixed:
  assumes "on_list f v = Inr w" and "\<And>d e. f d = Inr e \<Longrightarrow> g e = Inr e"
  shows "on_list g w = Inr w"
proof -
  obtain xs ys where "mapE f xs = Inr ys" "w = JList ys"
    using assms(1) by (auto simp: on_list_def bindE_Inr_iff)
  with mapE_fixed [of f xs ys g] assms(2) show ?thesis
    by (simp add: on_list_def)
qed

lemma on_obj_not_null: "on_obj f v = Inr w \<Longrightarrow> w \<noteq> JNull"
  by (auto simp: on_obj_def bindE_Inr_iff)

lemma on_list_not_null: "on_list f v = Inr w \<Longrightarrow> w \<noteq> JNull"
  by (auto simp: on_list_def bindE_Inr_iff)

lemma jget_ddel [simp]: "jget (ddel k d) k' = (if k' = k then JNull else jget d k')"
  by (simp add: jget_def dget_or_def)

lemma inline_file_gone:
  assumes "inline_file read_lines fk k c = Inr c'" and "fk \<noteq> k"
  shows "\<not> truthy (jget c' fk) \<and> (\<forall>j. j \<noteq> fk \<longrightarrow> j \<noteq> k \<longrightarrow> jget c' j = jget c j)"
  using assms by (auto simp: inline_file_def bindE_Inr_iff split: if_splits)

lemma inline_certificate_fixed:
  assumes "inline_certificate read_lines c = Inr c'"
  shows "inline_certificate other_reader c' = Inr c'"
proof -
  obtain c1 where c1: "inline_file read_lines ''certificateFile'' ''certificate'' c = Inr c1"
    "inline_file read_lines ''keyFile'' ''key'' c1 = Inr c'"
    using assms by (auto simp: inline_certificate_def bindE_Inr_iff)
  have "\<not> truthy (jget c' ''certificateFile'')" "\<not> truthy (jget c' ''keyFile'')"
    using inline_file_gone [OF c1(1)] inline_file_gone [OF c1(2)] by simp_all
  then show ?thesis
    by (simp add: inline_certificate_def inline_file_def)
qed

lemmas inline_fixed = update_sub_fixed on_obj_fixed on_list_fixed inline_certificate_fixed
  on_obj_not_null on_list_not_null

lemma inline_inbound_fixed:
  "inline_inbound read_lines d = Inr e \<Longrightarrow> inline_inbound other_reader e = Inr e"
  unfolding inline_inbound_def by (elim inline_fixed)

section \<open>Properties\<close>

text \<open>C3: Sharing one cache of finished node configurations among the nodes of a wave is invisible:
  every node gets exactly what building its own configuration would give, errors included.\<close>

theorem node_config_json_transparent:
  assumes "\<forall>q \<in> set qs. scalar_req q"
  shows "fst (serve qs (\<lparr>wave_base = base, wave_cache = None, takes_attribute = b\<rparr>, builds)) =
    map (build_node_config_json base) qs"
  using serve_transparent [of "\<lparr>wave_base = base, wave_cache = None, takes_attribute = b\<rparr>" qs builds] assms
  by (simp add: wave_faithful_def)

text \<open>The number of configurations built in a wave is at most the number of distinct node
  signatures among its requests, however many nodes connect.\<close>

theorem node_config_json_builds:
  assumes "\<forall>q \<in> set qs. scalar_req q"
    and "serve qs (\<lparr>wave_base = base, wave_cache = None, takes_attribute = True\<rparr>, builds) = (rs, w', builds')"
  shows "builds' \<le> builds + card (req_key ` set qs)"
proof -
  let ?w = "\<lparr>wave_base = base, wave_cache = None, takes_attribute = True\<rparr>"
  let ?m' = "case wave_cache w' of Some m \<Rightarrow> m | None \<Rightarrow> empty_cache"
  have w': "wave_faithful w'" "wave_base w' = base" "set (map fst (entries ?m')) \<subseteq> req_key ` set qs"
    "builds' = builds + build_count ?m'"
    using serve_builds [of ?w qs "req_key ` set qs" builds] assms
    by (auto simp: wave_faithful_def empty_cache_def)
  have "node_cache.faithful base ?m'"
    using w'(1,2) node_cache.empty_faithful
    by (auto simp: wave_faithful_def empty_cache_def split: option.split)
  then have "build_count ?m' \<le> card (req_key ` set qs)"
    by (rule node_cache.builds_le_keys) (use w'(3) in simp_all)
  then show ?thesis using w'(4) by simp
qed

text \<open>Inlining the certificates of a configuration is idempotent: after one pass no certificate
  refers to a file, so a second pass reads nothing and changes nothing.\<close>

theorem inline_local_certificates_idempotent:
  assumes "inline_local_certificates read_lines config = Inr config'"
  shows "inline_local_certificates other_reader config' = Inr config'"
proof (cases "dget config ''inbounds''")
  case None
  with assms show ?thesis by (simp add: inline_local_certificates_def)
next
  case (Some v)
  then obtain w where w: "on_list (on_obj (inline_inbound read_lines)) v = Inr w" "config' = dput ''inbounds'' w config"
    using assms by (auto simp: inline_local_certificates_def bindE_Inr_iff)
  have "on_list (on_obj (inline_inbound other_reader)) w = Inr w"
    using w(1) by (elim on_list_fixed on_obj_fixed inline_inbound_fixed)
  moreover have "dput ''inbounds'' w config' = config'"
    by (rule dput_same) (simp add: w(2))
  ultimately show ?thesis
    by (simp add: inline_local_certificates_def w(2))
qed

section \<open>Witnesses\<close>

definition sample_requests :: "node_request list" where
  "sample_requests =
     [\<lparr>req_tags = Some [''B'', ''A''], req_cascade = sample_exit_args, req_blocked = None\<rparr>,
      \<lparr>req_tags = Some [''A'', ''B''], req_cascade = sample_exit_args, req_blocked = Some []\<rparr>]"

lemma node_config_json_transparent_witness:
  "fst (serve sample_requests (\<lparr>wave_base = sample_base, wave_cache = None, takes_attribute = True\<rparr>, 0)) =
     map (build_node_config_json sample_base) sample_requests"
  by (rule node_config_json_transparent)
    (simp add: sample_requests_def scalar_req_def scalar_args_def sample_exit_args_def)

lemma node_config_json_builds_witness:
  "snd (snd (serve sample_requests
      (\<lparr>wave_base = sample_base, wave_cache = None, takes_attribute = True\<rparr>, 0))) \<le> 1"
proof -
  let ?w = "\<lparr>wave_base = sample_base, wave_cache = None, takes_attribute = True\<rparr>"
  obtain rs w' b where run: "serve sample_requests (?w, 0) = (rs, w', b)"
    by (cases "serve sample_requests (?w, 0)") auto
  have "sort [''B'', ''A''] = sort [''A'', ''B'']"
    by simp
  then have "req_key ` set sample_requests =
      {req_key \<lparr>req_tags = Some [''A'', ''B''], req_cascade = sample_exit_args, req_blocked = None\<rparr>}"
    by (simp add: sample_requests_def req_key_def node_signature_def)
  moreover have "b \<le> 0 + card (req_key ` set sample_requests)"
    by (rule node_config_json_builds [OF _ run])
      (simp add: sample_requests_def scalar_req_def scalar_args_def sample_exit_args_def)
  ultimately show ?thesis
    by (simp add: run)
qed

definition sample_cert_config :: obj where
  "sample_cert_config = [(''inbounds'', JList [JObj [(''streamSettings'', JObj [(''tlsSettings'', JObj
     [(''certificates'', JList [JObj [(''certificateFile'', JStr ''a.pem'')]])])])]])]"

lemma inline_local_certificates_idempotent_witness:
  "\<exists>config'. inline_local_certificates (\<lambda>_. Inr [''X '']) sample_cert_config = Inr config' \<and>
     config' \<noteq> sample_cert_config \<and> inline_local_certificates (\<lambda>_. Inl (ValueError [])) config' = Inr config'"
proof -
  let ?r = "inline_local_certificates (\<lambda>_. Inr [''X '']) sample_cert_config"
  obtain c where c: "?r = Inr c" "c \<noteq> sample_cert_config"
    by (simp add: inline_local_certificates_def sample_cert_config_def on_list_def on_obj_def
        inline_inbound_def update_sub_def inline_certificate_def inline_file_def jget_def dget_or_def)
  from inline_local_certificates_idempotent [OF c(1)] c show ?thesis by blast
qed

end
