(* ===== verification/BsAccounting.thy ===== *)
theory BsAccounting
  imports BsLimit
begin

text \<open>
  The BS limit end to end: the purchased pool of a user (app/db/crud.py), its read-only view on the
  user object (app/db/models.py), the recording of a tick (app/jobs/record_usages.py) and the job
  that blocks and unblocks users (app/jobs/review_bs_nodes.py), over one database state. Tables are
  lists of rows in the order a scan returns them; a SQL NULL is \<open>None\<close> and satisfies no comparison.
  A set of pairs is visited in the order in which its elements were produced.
\<close>

section \<open>The tables\<close>

record bs_node =
  nd_id :: int
  nd_is_bs :: bool
  nd_owner :: "int option"

record bs_user =
  bu_id :: int
  bu_extra :: "int option"
  bu_extra_period :: "string option"
  bu_bot :: "int option"
  bu_status :: user_status

record bs_usage =
  us_node :: int
  us_user :: int
  us_used :: int
  us_period :: "string option"

record bs_block =
  bl_id :: int
  bl_node :: int
  bl_user :: int

record bs_db =
  db_nodes :: "bs_node list"
  db_users :: "bs_user list"
  db_usage :: "bs_usage list"
  db_daily :: "((int \<times> int \<times> int) \<times> int \<times> bool) list"
  db_blocks :: "bs_block list"
  db_next_block :: int
  db_limit :: int

definition bs_node_ids :: "bs_db \<Rightarrow> int list" where
  "bs_node_ids db = map nd_id (filter nd_is_bs (db_nodes db))"

definition bs_rows :: "bs_db \<Rightarrow> bs_usage list" where
  "bs_rows db = filter (\<lambda>r. us_node r \<in> set (bs_node_ids db)) (db_usage db)"

definition usage_dict :: "bs_usage \<Rightarrow> bs_usage_row" where
  "usage_dict r = \<lparr>row_user = us_user r, row_used = Some (us_used r), row_period = us_period r\<rparr>"

definition get_user_by_id :: "bs_db \<Rightarrow> int \<Rightarrow> bs_user option" where
  "get_user_by_id db uid = find (\<lambda>u. bu_id u = uid) (db_users db)"

section \<open>The purchased pool (app/db/crud.py)\<close>

definition get_bs_usage_totals :: "bs_db \<Rightarrow> int \<Rightarrow> string \<Rightarrow> int" where
  "get_bs_usage_totals db uid yyyymm =
     dget_or (aggregate_bs_usage (map usage_dict (filter (\<lambda>r. us_user r = uid) (bs_rows db))) yyyymm) uid 0"

definition stale_period :: "string \<Rightarrow> string \<Rightarrow> string option \<Rightarrow> bool" where
  "stale_period yyyymm since p \<longleftrightarrow> (case p of None \<Rightarrow> False | Some q \<Rightarrow> q \<noteq> yyyymm \<and> since \<le> q)"

definition get_bs_usage_totals_stale :: "bs_db \<Rightarrow> int \<Rightarrow> string \<Rightarrow> string \<Rightarrow> int" where
  "get_bs_usage_totals_stale db uid yyyymm since =
     sum_list (map us_used (filter (\<lambda>r. us_user r = uid \<and> stale_period yyyymm since (us_period r)) (bs_rows db)))"

definition set_pool :: "bs_db \<Rightarrow> int \<Rightarrow> int \<Rightarrow> string \<Rightarrow> bs_db" where
  "set_pool db uid pool yyyymm = db\<lparr>db_users :=
     map (\<lambda>u. if bu_id u = uid then u\<lparr>bu_extra := Some pool, bu_extra_period := Some yyyymm\<rparr> else u) (db_users db)\<rparr>"

definition normalize_bs_extra_period :: "bs_db \<Rightarrow> int \<Rightarrow> int \<Rightarrow> string \<Rightarrow> bool \<Rightarrow> int \<times> bs_db" where
  "normalize_bs_extra_period db uid monthly_limit yyyymm persist =
     (case get_user_by_id db uid of
        None \<Rightarrow> (0, db)
      | Some u \<Rightarrow>
          (let pool = or0 (bu_extra u) in
           case bu_extra_period u of
             None \<Rightarrow> (pool, db)
           | Some period \<Rightarrow>
               if period = [] \<or> period \<ge> yyyymm then (pool, db)
               else (let new_pool = carry_over_pool (Some pool)
                           (get_bs_usage_totals_stale db uid yyyymm period) (Some monthly_limit)
                     in (new_pool, if persist then set_pool db uid new_pool yyyymm else db))))"

record bs_state =
  st_monthly_used :: int
  st_monthly_limit :: int
  st_pool :: int
  st_limit_total :: int

definition get_bs_state :: "bs_db \<Rightarrow> int \<Rightarrow> ym \<Rightarrow> bs_state" where
  "get_bs_state db uid now =
     (let monthly_limit = db_limit db; yyyymm = period_keys now;
          pool = fst (normalize_bs_extra_period db uid monthly_limit yyyymm False)
      in \<lparr>st_monthly_used = get_bs_usage_totals db uid yyyymm,
          st_monthly_limit = monthly_limit,
          st_pool = pool,
          st_limit_total = (if monthly_limit \<noteq> 0 then monthly_effective_limit (Some monthly_limit) (Some pool)
                            else 0)\<rparr>)"

definition set_user_bs_extra_amount :: "bs_db \<Rightarrow> int \<Rightarrow> int \<Rightarrow> ym \<Rightarrow> bs_db result" where
  "set_user_bs_extra_amount db uid extra_bytes now =
     (let monthly_limit = db_limit db; yyyymm = period_keys now in
      if monthly_limit = 0 then
        (if extra_bytes \<noteq> 0 then Inl (ValueError ''bs_monthly_limit is 0'') else Inr (set_pool db uid 0 yyyymm))
      else Inr (set_pool (snd (normalize_bs_extra_period db uid monthly_limit yyyymm True)) uid
                  (max 0 extra_bytes) yyyymm))"

definition set_user_bs_limit_total :: "bs_db \<Rightarrow> int \<Rightarrow> int \<Rightarrow> ym \<Rightarrow> bs_db result" where
  "set_user_bs_limit_total db uid limit_total now =
     (let monthly_limit = db_limit db; yyyymm = period_keys now in
      if monthly_limit = 0 then
        (if limit_total \<noteq> 0 then Inl (ValueError ''bs_monthly_limit is 0'') else Inr (set_pool db uid 0 yyyymm))
      else (let db1 = snd (normalize_bs_extra_period db uid monthly_limit yyyymm True) in
            if limit_total < monthly_limit then Inl (ValueError ''total below the panel limit'')
            else Inr (set_pool db1 uid (limit_total - monthly_limit) yyyymm)))"

definition reset_user_bs_extra_pool :: "bs_db \<Rightarrow> int \<Rightarrow> ym \<Rightarrow> bs_db" where
  "reset_user_bs_extra_pool db uid now = set_pool db uid 0 (period_keys now)"

text \<open>The bot's setting \<open>bs_extra_reset_pool_on_prolong\<close> is the argument \<open>reset_on_prolong\<close>.\<close>

definition modify_user_bs_extra :: "bool \<Rightarrow> bs_db \<Rightarrow> int \<Rightarrow> int option \<Rightarrow> bool \<Rightarrow> ym \<Rightarrow> bs_db result" where
  "modify_user_bs_extra reset_on_prolong db uid delta_bytes reset now =
     (if reset then (if \<not> reset_on_prolong then Inr db else Inr (reset_user_bs_extra_pool db uid now))
      else (case delta_bytes of
          None \<Rightarrow> Inl (ValueError ''either delta_bytes or reset must be provided'')
        | Some delta \<Rightarrow>
            (let (pool, db1) = normalize_bs_extra_period db uid (db_limit db) (period_keys now) True
             in Inr (set_pool db1 uid (pool + delta) (period_keys now)))))"

definition get_blocked_bs_node_ids :: "bs_db \<Rightarrow> int \<Rightarrow> int list" where
  "get_blocked_bs_node_ids db uid = map bl_node (filter (\<lambda>b. bl_user b = uid) (db_blocks db))"

section \<open>The pool on the user object (app/db/models.py)\<close>

text \<open>
  \<open>_bs_pool_state\<close> with its cache on the instance, keyed by pool, period, limit and month.
  \<open>attached\<close>: the object still has a session.
\<close>

type_synonym pool_key = "int \<times> string option \<times> int \<times> string"
type_synonym pool_cache = "(pool_key \<times> int \<times> int) option"

definition bs_pool_state :: "bs_db \<Rightarrow> bool \<Rightarrow> bs_user \<Rightarrow> ym \<Rightarrow> pool_cache \<Rightarrow> (int \<times> int) option \<times> pool_cache" where
  "bs_pool_state db attached u now cache =
     (let monthly_limit = (if attached then db_limit db else 0) in
      if monthly_limit = 0 then (None, cache)
      else
        (let raw_pool = or0 (bu_extra u); period = bu_extra_period u; yyyymm = period_keys now;
             key = (raw_pool, period, monthly_limit, yyyymm);
             fresh = (let pool = (case period of
                          Some p \<Rightarrow> if attached \<and> p \<noteq> [] \<and> p < yyyymm
                                    then carry_over_pool (Some raw_pool)
                                           (get_bs_usage_totals_stale db (bu_id u) yyyymm p) (Some monthly_limit)
                                    else raw_pool
                        | None \<Rightarrow> raw_pool)
                      in (monthly_limit, pool))
         in case cache of
              Some (key', st) \<Rightarrow> if key' = key then (Some st, cache) else (Some fresh, Some (key, fresh))
            | None \<Rightarrow> (Some fresh, Some (key, fresh))))"

definition bs_monthly_limit_total :: "bs_db \<Rightarrow> bool \<Rightarrow> bs_user \<Rightarrow> ym \<Rightarrow> pool_cache \<Rightarrow> int option \<times> pool_cache" where
  "bs_monthly_limit_total db attached u now cache =
     (case bs_pool_state db attached u now cache of
        (None, c) \<Rightarrow> (None, c)
      | (Some (limit, pool), c) \<Rightarrow> (Some (monthly_effective_limit (Some limit) (Some pool)), c))"

definition bs_extra_effective :: "bs_db \<Rightarrow> bool \<Rightarrow> bs_user \<Rightarrow> ym \<Rightarrow> pool_cache \<Rightarrow> int \<times> pool_cache" where
  "bs_extra_effective db attached u now cache =
     (case bs_pool_state db attached u now cache of
        (None, c) \<Rightarrow> (0, c)
      | (Some (limit, pool), c) \<Rightarrow> (pool, c))"

text \<open>\<open>bs_monthly_used\<close> reads every counter row of the user, whatever the node is now.\<close>

definition bs_monthly_used :: "bs_db \<Rightarrow> bool \<Rightarrow> bs_user \<Rightarrow> ym \<Rightarrow> pool_cache \<Rightarrow> int \<times> pool_cache" where
  "bs_monthly_used db attached u now cache =
     (case bs_monthly_limit_total db attached u now cache of
        (None, c) \<Rightarrow> (0, c)
      | (Some _, c) \<Rightarrow>
          (dget_or (aggregate_bs_usage (map usage_dict (filter (\<lambda>r. us_user r = bu_id u) (db_usage db)))
              (period_keys now)) (bu_id u) 0, c))"

section \<open>Recording a tick (app/jobs/record_usages.py)\<close>

text \<open>A statistic of one user: the id before the dot of the e-mail, and the bytes.\<close>

record user_stat =
  stat_uid :: int
  stat_value :: int

definition bs_deltas :: "user_stat list \<Rightarrow> rat \<Rightarrow> (int \<times> int) list" where
  "bs_deltas params factor =
     dsum [] (map (\<lambda>p. (stat_uid p, py_int (of_int (stat_value p) * factor))) params)"

definition existing_counters :: "bs_db \<Rightarrow> int \<Rightarrow> int list \<Rightarrow> (int \<times> bs_counter) list" where
  "existing_counters db node_id uids =
     map (\<lambda>r. (us_user r, \<lparr>monthly_used = us_used r, monthly_period = us_period r\<rparr>))
       (filter (\<lambda>r. us_node r = node_id \<and> us_user r \<in> set uids) (db_usage db))"

definition stale_users :: "bs_db \<Rightarrow> int list \<Rightarrow> string \<Rightarrow> int list" where
  "stale_users db uids yyyymm =
     sort (map bu_id (filter (\<lambda>u. bu_id u \<in> set uids \<and>
       (case bu_extra_period u of None \<Rightarrow> False | Some p \<Rightarrow> p < yyyymm)) (db_users db)))"

definition write_counter :: "int \<Rightarrow> int \<Rightarrow> bs_counter \<Rightarrow> bool \<Rightarrow> bs_usage list \<Rightarrow> bs_usage list" where
  "write_counter node_id uid c exists rows =
     (if exists then map (\<lambda>r. if us_node r = node_id \<and> us_user r = uid
                              then r\<lparr>us_used := monthly_used c, us_period := monthly_period c\<rparr> else r) rows
      else rows @ [\<lparr>us_node = node_id, us_user = uid, us_used = monthly_used c, us_period = monthly_period c\<rparr>])"

fun write_counters :: "int \<Rightarrow> (int \<times> bs_counter) list \<Rightarrow> string \<Rightarrow> (int \<times> int) list \<Rightarrow> bs_usage list \<Rightarrow> bs_usage list" where
  "write_counters node_id existing yyyymm [] rows = rows"
| "write_counters node_id existing yyyymm ((uid, delta) # ds) rows =
     write_counters node_id existing yyyymm ds
       (write_counter node_id uid (bs_counter_step (dget existing uid) delta yyyymm)
          (dget existing uid \<noteq> None) rows)"

fun bot_totals :: "bs_db \<Rightarrow> (int \<times> int) list \<Rightarrow> (int \<times> int) list \<Rightarrow> (int \<times> int) list" where
  "bot_totals db [] acc = acc"
| "bot_totals db ((uid, delta) # ds) acc =
     bot_totals db ds
       (case Option.bind (get_user_by_id db uid) bu_bot of None \<Rightarrow> acc | Some b \<Rightarrow> dadd b delta acc)"

definition upsert_daily :: "int \<Rightarrow> int \<Rightarrow> bool \<Rightarrow> int \<times> int \<Rightarrow>
    ((int \<times> int \<times> int) \<times> int \<times> bool) list \<Rightarrow> ((int \<times> int \<times> int) \<times> int \<times> bool) list" where
  "upsert_daily node_id day billable bu daily =
     (let key = (fst bu, node_id, day) in
      case dget daily key of
        None \<Rightarrow> dput key (snd bu, billable) daily
      | Some (used, b) \<Rightarrow> dput key (used + snd bu, b) daily)"

definition record_bot_bs_daily :: "bs_db \<Rightarrow> int \<Rightarrow> (int \<times> int) list \<Rightarrow> int \<Rightarrow> bool \<Rightarrow> bs_db" where
  "record_bot_bs_daily db node_id deltas day billable =
     db\<lparr>db_daily := fold (upsert_daily node_id day billable) (bot_totals db deltas []) (db_daily db)\<rparr>"

definition record_bs_user_stats :: "user_stat list \<Rightarrow> int \<Rightarrow> rat \<Rightarrow> bool \<Rightarrow> ym \<Rightarrow> int \<Rightarrow> bs_db \<Rightarrow> bs_db" where
  "record_bs_user_stats params node_id factor billable now today db =
     (if params = [] then db
      else
        (let yyyymm = period_keys now;
             deltas = bs_deltas params factor;
             uids = map fst deltas;
             existing = existing_counters db node_id uids;
             db1 = fold (\<lambda>uid d. snd (normalize_bs_extra_period d uid (db_limit d) yyyymm True))
                     (stale_users db uids yyyymm) db;
             db2 = db1\<lparr>db_usage := write_counters node_id existing yyyymm deltas (db_usage db1)\<rparr>
         in record_bot_bs_daily db2 node_id deltas today billable))"

section \<open>Blocking and unblocking (app/jobs/review_bs_nodes.py)\<close>

definition stale_used_since :: "(string \<times> int) list \<Rightarrow> string \<Rightarrow> int" where
  "stale_used_since rows since = sum_list (map snd (filter (\<lambda>r. fst r \<ge> since) rows))"

definition effective_pool :: "int \<Rightarrow> string option \<Rightarrow> string \<Rightarrow> (string \<times> int) list \<Rightarrow> int \<Rightarrow> int" where
  "effective_pool bs_extra extra_period yyyymm stale_rows monthly_limit =
     (case extra_period of
        None \<Rightarrow> bs_extra
      | Some p \<Rightarrow> if p = [] \<or> p \<ge> yyyymm then bs_extra
                  else carry_over_pool (Some bs_extra) (stale_used_since stale_rows p) (Some monthly_limit))"

text \<open>The grouped query of the counters outside the current month, and the dictionary built from it.\<close>

definition stale_groups :: "bs_db \<Rightarrow> int list \<Rightarrow> string \<Rightarrow> ((int \<times> string) \<times> int) list" where
  "stale_groups db user_ids yyyymm =
     dsum [] (concat (map (\<lambda>r. case us_period r of
         Some q \<Rightarrow> if us_user r \<in> set user_ids \<and> q \<noteq> yyyymm then [((us_user r, q), us_used r)] else []
       | None \<Rightarrow> []) (bs_rows db)))"

definition stale_by_user :: "((int \<times> string) \<times> int) list \<Rightarrow> (int \<times> (string \<times> int) list) list" where
  "stale_by_user groups = fold (\<lambda>g d. dappend (fst (fst g)) (snd (fst g), snd g) d) groups []"

definition over_users :: "bs_db \<Rightarrow> string \<Rightarrow> int list" where
  "over_users db yyyymm =
     (let totals = aggregate_bs_usage (map usage_dict (bs_rows db)) yyyymm;
          user_ids = map fst totals;
          stale = stale_by_user (stale_groups db user_ids yyyymm);
          monthly_limit = db_limit db
      in map fst (filter (\<lambda>(uid, used).
           let (extra, period) = (case get_user_by_id db uid of
                   None \<Rightarrow> (0, None) | Some u \<Rightarrow> (or0 (bu_extra u), bu_extra_period u));
               pool = effective_pool extra period yyyymm (dget_or stale uid []) monthly_limit
           in over_limit_monthly_pool used (Some monthly_limit) (Some pool)) totals))"

datatype bs_event = BsRemoved int int | BsAdded int int

definition block_user :: "int \<times> int \<Rightarrow> bs_db \<times> bs_event list \<Rightarrow> bs_db \<times> bs_event list" where
  "block_user nu st =
     (let (node_id, uid) = nu; (db, evs) = st in
      case get_user_by_id db uid of
        None \<Rightarrow> (db, evs)
      | Some _ \<Rightarrow>
          (db\<lparr>db_blocks := db_blocks db @ [\<lparr>bl_id = db_next_block db, bl_node = node_id, bl_user = uid\<rparr>],
              db_next_block := db_next_block db + 1\<rparr>,
           evs @ [BsRemoved uid node_id]))"

definition unblock_user :: "((int \<times> int) \<times> int) list \<Rightarrow> int \<times> int \<Rightarrow> bs_db \<times> bs_event list \<Rightarrow> bs_db \<times> bs_event list" where
  "unblock_user block_id nu st =
     (let (node_id, uid) = nu; (db, evs) = st;
          db' = (case dget block_id (node_id, uid) of
                   None \<Rightarrow> db
                 | Some bid \<Rightarrow> db\<lparr>db_blocks := filter (\<lambda>b. bl_id b \<noteq> bid) (db_blocks db)\<rparr>)
      in case get_user_by_id db' uid of
           None \<Rightarrow> (db', evs)
         | Some u \<Rightarrow> (db', if bu_status u = Active \<or> bu_status u = OnHold then evs @ [BsAdded uid node_id] else evs))"

definition review_bs_nodes :: "ym \<Rightarrow> bs_db \<Rightarrow> bs_db \<times> bs_event list" where
  "review_bs_nodes now db =
     (if bs_node_ids db = [] then (db, [])
      else
        (let desired = remdups [(nid, uid). uid \<leftarrow> over_users db (period_keys now), nid \<leftarrow> bs_node_ids db];
             current = map (\<lambda>b. (bl_node b, bl_user b)) (db_blocks db);
             block_id = map (\<lambda>b. ((bl_node b, bl_user b), bl_id b)) (db_blocks db);
             (to_block, to_unblock) = diff_blocks (set desired) (set current)
         in fold (unblock_user block_id) (filter (\<lambda>nu. nu \<in> to_unblock) current)
              (fold block_user (filter (\<lambda>nu. nu \<in> to_block) desired) (db, []))))"

section \<open>The pool: batch, read-only and writing views agree\<close>

lemma stale_by_user_get:
  "dget_or (fold (\<lambda>g d. dappend (fst (fst g)) (snd (fst g), snd g) d) groups d0) uid [] =
     dget_or d0 uid [] @ map (\<lambda>g. (snd (fst g), snd g)) (filter (\<lambda>g. fst (fst g) = uid) groups)"
  by (induction groups arbitrary: d0) (auto simp: dappend_def)

lemma stale_used_since_groups:
  "stale_used_since (dget_or (stale_by_user groups) uid []) since =
     sum_list (map snd (filter (\<lambda>g. fst (fst g) = uid \<and> since \<le> snd (fst g)) groups))"
  by (simp add: stale_by_user_def stale_by_user_get stale_used_since_def filter_map comp_def conj_commute)

lemma stale_groups_sum:
  assumes "uid \<in> set user_ids"
  shows "sum_list (map snd (filter (\<lambda>g. fst (fst g) = uid \<and> since \<le> snd (fst g)) (stale_groups db user_ids yyyymm))) =
    get_bs_usage_totals_stale db uid yyyymm since"
proof -
  let ?P = "\<lambda>k :: int \<times> string. fst k = uid \<and> since \<le> snd k"
  let ?f = "\<lambda>r. case us_period r of
         Some q \<Rightarrow> if us_user r \<in> set user_ids \<and> q \<noteq> yyyymm then [((us_user r, q), us_used r)] else []
       | None \<Rightarrow> []"
  have "sum_list (map snd (filter (\<lambda>g. ?P (fst g)) (concat (map ?f rows)))) =
    sum_list (map us_used (filter (\<lambda>r. us_user r = uid \<and> stale_period yyyymm since (us_period r)) rows))" for rows
    using assms by (induction rows) (auto simp: stale_period_def split: option.split)
  then show ?thesis
    unfolding stale_groups_def sum_list_dsum [where P = ?P] get_bs_usage_totals_stale_def by simp
qed

lemma effective_pool_normalize:
  assumes "get_user_by_id db uid = Some u" and "uid \<in> set user_ids"
  shows "effective_pool (or0 (bu_extra u)) (bu_extra_period u) yyyymm
      (dget_or (stale_by_user (stale_groups db user_ids yyyymm)) uid []) limit =
    fst (normalize_bs_extra_period db uid limit yyyymm False)"
proof (cases "bu_extra_period u")
  case (Some p)
  have "stale_used_since (dget_or (stale_by_user (stale_groups db user_ids yyyymm)) uid []) p =
      get_bs_usage_totals_stale db uid yyyymm p"
    using stale_groups_sum [OF assms(2)] by (simp only: stale_used_since_groups)
  with Some assms(1) show ?thesis
    by (simp add: effective_pool_def normalize_bs_extra_period_def Let_def)
qed (simp add: effective_pool_def normalize_bs_extra_period_def assms(1))

lemma normalize_persist_same_pool:
  "fst (normalize_bs_extra_period db uid limit y b) = fst (normalize_bs_extra_period db uid limit y False)"
  by (simp add: normalize_bs_extra_period_def Let_def split: option.split)

lemma find_map_update:
  assumes "\<And>u. P (f u) = P u"
  shows "find P (map f us) = map_option f (find P us)"
  using assms by (induction us) auto

lemma get_user_set_pool:
  "get_user_by_id (set_pool db uid pool y) v =
     map_option (\<lambda>u. if bu_id u = uid then u\<lparr>bu_extra := Some pool, bu_extra_period := Some y\<rparr> else u)
       (get_user_by_id db v)"
proof -
  let ?f = "\<lambda>u. if bu_id u = uid then u\<lparr>bu_extra := Some pool, bu_extra_period := Some y\<rparr> else u"
  have "find (\<lambda>u. bu_id u = v) (map ?f us) = map_option ?f (find (\<lambda>u. bu_id u = v) us)" for us
    by (rule find_map_update) simp
  then show ?thesis by (simp add: get_user_by_id_def set_pool_def)
qed

lemma find_bu_id: "find (\<lambda>u. bu_id u = v) us = Some u \<Longrightarrow> bu_id u = v"
  by (induction us) (auto split: if_splits)

lemma get_user_id: "get_user_by_id db v = Some u \<Longrightarrow> bu_id u = v"
  unfolding get_user_by_id_def by (rule find_bu_id)

lemma bs_rows_set_pool [simp]: "bs_rows (set_pool db uid pool y) = bs_rows db"
  by (simp add: bs_rows_def bs_node_ids_def set_pool_def)

lemma stale_set_pool [simp]:
  "get_bs_usage_totals_stale (set_pool db uid pool y) v y' s = get_bs_usage_totals_stale db v y' s"
  by (simp add: get_bs_usage_totals_stale_def)

lemma pool_state_normalize:
  assumes "get_user_by_id db uid = Some u" and "db_limit db \<noteq> 0"
  shows "fst (bs_extra_effective db True u now None) =
    fst (normalize_bs_extra_period db uid (db_limit db) (period_keys now) False)"
  using assms get_user_id [OF assms(1)]
  by (auto simp: bs_extra_effective_def bs_pool_state_def normalize_bs_extra_period_def Let_def
      split: option.split)

lemma normalize_persist_again:
  assumes "normalize_bs_extra_period db uid limit y True = (pool, db')"
  shows "normalize_bs_extra_period db' uid limit y b = (pool, db')"
proof (cases "get_user_by_id db uid")
  case (Some u)
  show ?thesis
  proof (cases "\<exists>p. bu_extra_period u = Some p \<and> p \<noteq> [] \<and> p < y")
    case True
    then obtain p where p: "bu_extra_period u = Some p" "p \<noteq> []" "p < y" by blast
    with assms Some have db': "db' = set_pool db uid pool y"
      by (auto simp: normalize_bs_extra_period_def Let_def leD split: if_splits)
    have "get_user_by_id db' uid = Some (u\<lparr>bu_extra := Some pool, bu_extra_period := Some y\<rparr>)"
      using Some get_user_id [OF Some] by (simp add: db' get_user_set_pool)
    then show ?thesis
      by (simp add: normalize_bs_extra_period_def)
  next
    case False
    with assms Some show ?thesis
      by (auto simp: normalize_bs_extra_period_def Let_def split: option.splits if_splits)
  qed
qed (use assms in \<open>simp add: normalize_bs_extra_period_def\<close>)

section \<open>Blocks\<close>

lemma aggregate_of_user:
  "dget_or (aggregate_bs_usage (map usage_dict rows) y) uid 0 =
   dget_or (aggregate_bs_usage (map usage_dict (filter (\<lambda>r. us_user r = uid) rows)) y) uid 0"
proof -
  have "filter (\<lambda>r. row_period r = Some y \<and> row_user r = uid) (map usage_dict rows) =
    filter (\<lambda>r. row_period r = Some y \<and> row_user r = uid)
      (map usage_dict (filter (\<lambda>r. us_user r = uid) rows))"
    by (induction rows) (auto simp: usage_dict_def)
  then show ?thesis by (simp only: aggregate_bs_usage_total)
qed

lemma distinct_aggregate: "distinct (map fst (aggregate_bs_usage rows y))"
proof -
  have "distinct (map fst (aggregate_loop y t rows))" if "distinct (map fst t)" for t
    using that by (induction y t rows rule: aggregate_loop.induct) (auto simp: dadd_def distinct_dput)
  then show ?thesis by (simp add: aggregate_bs_usage_def)
qed

definition measured :: "bs_db \<Rightarrow> int \<Rightarrow> string \<Rightarrow> bool" where
  "measured db uid y \<longleftrightarrow> (\<exists>r \<in> set (bs_rows db). us_user r = uid \<and> us_period r = Some y)"

lemma get_bs_state_simps:
  "st_monthly_used (get_bs_state db uid now) = get_bs_usage_totals db uid (period_keys now)"
  "st_monthly_limit (get_bs_state db uid now) = db_limit db"
  "st_pool (get_bs_state db uid now) = fst (normalize_bs_extra_period db uid (db_limit db) (period_keys now) False)"
  "st_limit_total (get_bs_state db uid now) = (if db_limit db = 0 then 0
     else db_limit db + fst (normalize_bs_extra_period db uid (db_limit db) (period_keys now) False))"
  by (simp_all add: get_bs_state_def Let_def monthly_effective_limit_def)

lemma filter_keys_iff:
  "x \<in> set (map fst (filter (\<lambda>(a, b). P a b) T)) \<longleftrightarrow> (\<exists>v. (x, v) \<in> set T \<and> P x v)"
  by force

lemma over_users_iff:
  assumes "get_user_by_id db uid = Some u"
  shows "uid \<in> set (over_users db (period_keys now)) \<longleftrightarrow>
    measured db uid (period_keys now) \<and> db_limit db \<noteq> 0 \<and>
    st_limit_total (get_bs_state db uid now) \<le> st_monthly_used (get_bs_state db uid now)"
proof -
  let ?y = "period_keys now"
  let ?totals = "aggregate_bs_usage (map usage_dict (bs_rows db)) ?y"
  have keys: "uid \<in> set (map fst ?totals) \<longleftrightarrow> measured db uid ?y"
  proof -
    have "set (map fst ?totals) = row_user ` set (filter (\<lambda>r. row_period r = Some ?y) (map usage_dict (bs_rows db)))"
      unfolding aggregate_bs_usage_def aggregate_loop_keys by simp
    then show ?thesis by (auto simp: measured_def usage_dict_def image_iff simp del: set_map) (auto simp: usage_dict_def)
  qed
  have val: "(uid, v) \<in> set ?totals \<longleftrightarrow> uid \<in> set (map fst ?totals) \<and> v = get_bs_usage_totals db uid ?y" for v
  proof -
    have "(uid, v) \<in> set ?totals \<longleftrightarrow> dget ?totals uid = Some v"
      by (simp add: distinct_aggregate)
    moreover have "dget ?totals uid = Some (dget_or ?totals uid 0)" if "uid \<in> set (map fst ?totals)"
      using that dget_None_iff [of ?totals uid] by (auto simp: dget_or_def split: option.split)
    moreover have "dget_or ?totals uid 0 = get_bs_usage_totals db uid ?y"
      by (simp add: get_bs_usage_totals_def aggregate_of_user [of "bs_rows db"])
    ultimately show ?thesis using dget_None_iff [of ?totals uid] by (auto simp del: set_map)
  qed
  let ?pool = "effective_pool (or0 (bu_extra u)) (bu_extra_period u) ?y
      (dget_or (stale_by_user (stale_groups db (map fst ?totals) ?y)) uid []) (db_limit db)"
  have mem: "uid \<in> set (over_users db ?y) \<longleftrightarrow> uid \<in> set (map fst ?totals) \<and>
      over_limit_monthly_pool (get_bs_usage_totals db uid ?y) (Some (db_limit db)) (Some ?pool)"
    unfolding over_users_def Let_def filter_keys_iff by (simp add: val assms del: set_map)
  have pool: "?pool = fst (normalize_bs_extra_period db uid (db_limit db) ?y False)"
    if "uid \<in> set (map fst ?totals)"
    using effective_pool_normalize [OF assms that] .
  show ?thesis
    using pool by (auto simp: mem keys over_limit_pool_iff get_bs_state_simps simp del: set_map)
qed

lemma block_user_db: "fst (block_user nu (db, evs)) = (case get_user_by_id db (snd nu) of None \<Rightarrow> db | Some _ \<Rightarrow>
    db\<lparr>db_blocks := db_blocks db @ [\<lparr>bl_id = db_next_block db, bl_node = fst nu, bl_user = snd nu\<rparr>],
       db_next_block := db_next_block db + 1\<rparr>)"
  by (cases nu) (simp add: block_user_def split: option.split)

definition block_pairs :: "bs_db \<Rightarrow> (int \<times> int) list" where
  "block_pairs db = map (\<lambda>b. (bl_node b, bl_user b)) (db_blocks db)"

definition blocks_ok :: "bs_db \<Rightarrow> bool" where
  "blocks_ok db \<longleftrightarrow> distinct (map bl_id (db_blocks db)) \<and> distinct (block_pairs db) \<and>
     (\<forall>b \<in> set (db_blocks db). bl_id b < db_next_block db)"

definition same_but_blocks :: "bs_db \<Rightarrow> bs_db \<Rightarrow> bool" where
  "same_but_blocks db db' \<longleftrightarrow> db_nodes db' = db_nodes db \<and> db_users db' = db_users db \<and>
     db_usage db' = db_usage db \<and> db_daily db' = db_daily db \<and> db_limit db' = db_limit db"

lemma same_but_blocks_refl: "same_but_blocks db db"
  by (simp add: same_but_blocks_def)

lemma same_but_blocks_trans: "same_but_blocks a b \<Longrightarrow> same_but_blocks b c \<Longrightarrow> same_but_blocks a c"
  by (simp add: same_but_blocks_def)

lemma same_but_blocks_user: "same_but_blocks db db' \<Longrightarrow> get_user_by_id db' uid = get_user_by_id db uid"
  by (simp add: same_but_blocks_def get_user_by_id_def)

lemma same_but_blocks_over:
  assumes "same_but_blocks db db'"
  shows "over_users db' y = over_users db y" and "bs_node_ids db' = bs_node_ids db"
proof -
  show ids: "bs_node_ids db' = bs_node_ids db"
    using assms by (simp add: same_but_blocks_def bs_node_ids_def)
  then have "bs_rows db' = bs_rows db"
    using assms by (simp add: same_but_blocks_def bs_rows_def)
  moreover have "get_user_by_id db' = get_user_by_id db"
    using same_but_blocks_user [OF assms] by (simp add: fun_eq_iff)
  moreover have "db_limit db' = db_limit db"
    using assms by (simp add: same_but_blocks_def)
  ultimately show "over_users db' y = over_users db y"
    unfolding over_users_def stale_groups_def by (simp only:)
qed

lemma block_users:
  assumes "blocks_ok db" and "distinct nus" and "set nus \<inter> set (block_pairs db) = {}"
  shows "\<exists>db' evs'. fold block_user nus (db, evs) = (db', evs') \<and> same_but_blocks db db' \<and> blocks_ok db' \<and>
    (\<exists>new. db_blocks db' = db_blocks db @ new) \<and>
    set (block_pairs db') = set (block_pairs db) \<union> {nu \<in> set nus. get_user_by_id db (snd nu) \<noteq> None}"
  using assms
proof (induction nus arbitrary: db evs)
  case (Cons nu nus)
  show ?case
  proof (cases "get_user_by_id db (snd nu)")
    case None
    then have "block_user nu (db, evs) = (db, evs)"
      by (cases nu) (simp add: block_user_def)
    with Cons.IH [of db evs] Cons.prems None show ?thesis by auto
  next
    case (Some u)
    let ?db1 = "db\<lparr>db_blocks := db_blocks db @ [\<lparr>bl_id = db_next_block db, bl_node = fst nu, bl_user = snd nu\<rparr>],
       db_next_block := db_next_block db + 1\<rparr>"
    have step: "block_user nu (db, evs) = (?db1, evs @ [BsRemoved (snd nu) (fst nu)])"
      using Some by (cases nu) (simp add: block_user_def)
    have ok: "blocks_ok ?db1"
      using Cons.prems by (auto simp: blocks_ok_def block_pairs_def)
    have pairs: "set (block_pairs ?db1) = insert nu (set (block_pairs db))"
      by (simp add: block_pairs_def)
    have users: "get_user_by_id ?db1 v = get_user_by_id db v" for v
      by (simp add: get_user_by_id_def)
    obtain db' evs' new where IH: "fold block_user nus (?db1, evs @ [BsRemoved (snd nu) (fst nu)]) = (db', evs')"
      "same_but_blocks ?db1 db'" "blocks_ok db'" "db_blocks db' = db_blocks ?db1 @ new"
      "set (block_pairs db') = insert nu (set (block_pairs db)) \<union> {nu \<in> set nus. get_user_by_id db (snd nu) \<noteq> None}"
      using Cons.IH [OF ok, of "evs @ [BsRemoved (snd nu) (fst nu)]"] Cons.prems pairs by (auto simp: users)
    have "same_but_blocks db ?db1"
      by (simp add: same_but_blocks_def)
    with IH step Some show ?thesis
      by (auto intro: same_but_blocks_trans)
  qed
qed (auto simp: same_but_blocks_refl)

lemma same_id_iff_same_pair:
  assumes "blocks_ok db" and "b \<in> set (db_blocks db)" and "c \<in> set (db_blocks db)"
  shows "bl_id b = bl_id c \<longleftrightarrow> (bl_node b, bl_user b) = (bl_node c, bl_user c)"
proof -
  have inj: "inj_on bl_id (set (db_blocks db))" "inj_on (\<lambda>b. (bl_node b, bl_user b)) (set (db_blocks db))"
    using assms(1) by (simp_all add: blocks_ok_def block_pairs_def distinct_map)
  show ?thesis
    using inj_on_eq_iff [OF inj(1) assms(2,3)] inj_on_eq_iff [OF inj(2) assms(2,3)] by simp
qed

lemma unblock_users:
  assumes "blocks_ok db0" and "set (db_blocks db) \<subseteq> set (db_blocks db0)"
    and "\<forall>nu \<in> set nus. \<exists>b \<in> set (db_blocks db0). dget block_id nu = Some (bl_id b) \<and> nu = (bl_node b, bl_user b)"
  shows "\<exists>db' evs'. fold (unblock_user block_id) nus (db, evs) = (db', evs') \<and> same_but_blocks db db' \<and>
    db_blocks db' = filter (\<lambda>b. (bl_node b, bl_user b) \<notin> set nus) (db_blocks db)"
  using assms(2,3)
proof (induction nus arbitrary: db evs)
  case (Cons nu nus)
  obtain b where b: "b \<in> set (db_blocks db0)" "dget block_id nu = Some (bl_id b)" "nu = (bl_node b, bl_user b)"
    using Cons.prems(2) by auto
  let ?db1 = "db\<lparr>db_blocks := filter (\<lambda>c. bl_id c \<noteq> bl_id b) (db_blocks db)\<rparr>"
  have "db_blocks ?db1 = filter (\<lambda>c. (bl_node c, bl_user c) \<noteq> nu) (db_blocks db)"
    using Cons.prems(1) b same_id_iff_same_pair [OF assms(1) _ b(1)] by (auto intro!: filter_cong)
  moreover obtain evs1 where "unblock_user block_id nu (db, evs) = (?db1, evs1)"
    using b by (cases "get_user_by_id ?db1 (bl_user b)") (simp_all add: unblock_user_def Let_def)
  moreover have "same_but_blocks db ?db1"
    by (simp add: same_but_blocks_def)
  moreover obtain db' evs' where "fold (unblock_user block_id) nus (?db1, evs1) = (db', evs')"
    "same_but_blocks ?db1 db'"
    "db_blocks db' = filter (\<lambda>b. (bl_node b, bl_user b) \<notin> set nus) (db_blocks ?db1)"
    using Cons.IH [of ?db1 evs1] Cons.prems by fastforce
  ultimately show ?case
    by (auto intro: same_but_blocks_trans simp: conj_commute)
qed (simp add: same_but_blocks_refl)

definition desired_blocks :: "bs_db \<Rightarrow> string \<Rightarrow> (int \<times> int) set" where
  "desired_blocks db y = {(nid, uid). uid \<in> set (over_users db y) \<and> nid \<in> set (bs_node_ids db)}"

lemma review_bs_nodes_blocks:
  assumes "blocks_ok db" and "bs_node_ids db \<noteq> []" and "review_bs_nodes now db = (db', evs)"
  shows "same_but_blocks db db' \<and> set (block_pairs db') =
    {nu \<in> desired_blocks db (period_keys now). nu \<in> set (block_pairs db) \<or> get_user_by_id db (snd nu) \<noteq> None}"
proof -
  define D where "D = remdups [(nid, uid). uid \<leftarrow> over_users db (period_keys now), nid \<leftarrow> bs_node_ids db]"
  let ?C = "block_pairs db"
  let ?ids = "map (\<lambda>b. ((bl_node b, bl_user b), bl_id b)) (db_blocks db)"
  let ?new = "filter (\<lambda>nu. nu \<in> set D - set ?C) D"
  let ?gone = "filter (\<lambda>nu. nu \<in> set ?C - set D) ?C"
  have D: "set D = desired_blocks db (period_keys now)"
    by (auto simp: desired_blocks_def D_def)
  obtain db1 evs1 new where db1: "fold block_user ?new (db, []) = (db1, evs1)" "same_but_blocks db db1"
    "blocks_ok db1" "db_blocks db1 = db_blocks db @ new"
    "set (block_pairs db1) = set ?C \<union> {nu \<in> set ?new. get_user_by_id db (snd nu) \<noteq> None}"
    using block_users [OF assms(1), of ?new "[]"] by (fastforce simp: D_def)
  have ids: "\<exists>b \<in> set (db_blocks db1). dget ?ids nu = Some (bl_id b) \<and> nu = (bl_node b, bl_user b)"
    if "nu \<in> set ?gone" for nu
  proof -
    obtain b where b: "b \<in> set (db_blocks db)" "nu = (bl_node b, bl_user b)"
      using \<open>nu \<in> set ?gone\<close> by (auto simp: block_pairs_def)
    have "distinct (map fst ?ids)"
      using assms(1) by (simp add: blocks_ok_def block_pairs_def comp_def)
    moreover have "((bl_node b, bl_user b), bl_id b) \<in> set ?ids"
      using b(1) by force
    ultimately have "dget ?ids nu = Some (bl_id b)"
      using b(2) by simp
    with b show ?thesis by (auto simp: db1(4))
  qed
  obtain db2 evs2 where db2: "fold (unblock_user ?ids) ?gone (db1, evs1) = (db2, evs2)" "same_but_blocks db1 db2"
    "db_blocks db2 = filter (\<lambda>b. (bl_node b, bl_user b) \<notin> set ?gone) (db_blocks db1)"
    using unblock_users [OF db1(3), of db1 ?gone ?ids evs1] ids by blast
  have "review_bs_nodes now db = fold (unblock_user ?ids) ?gone (fold block_user ?new (db, []))"
    using assms(2) by (simp add: review_bs_nodes_def diff_blocks_def block_pairs_def Let_def D_def)
  with db1(1) db2(1) assms(3) have "db' = db2" by simp
  moreover have "set (block_pairs db2) = {nu \<in> set (block_pairs db1). nu \<notin> set ?gone}"
    by (auto simp: block_pairs_def db2(3))
  ultimately show ?thesis
    using same_but_blocks_trans [OF db1(2) db2(2)] by (auto simp: db1(5) D)
qed

section \<open>A tick reaches both aggregates\<close>

definition month_sum :: "int list \<Rightarrow> int \<Rightarrow> string \<Rightarrow> bs_usage list \<Rightarrow> int" where
  "month_sum ids uid y rows =
     sum_list (map us_used (filter (\<lambda>r. us_node r \<in> set ids \<and> us_user r = uid \<and> us_period r = Some y) rows))"

lemma get_bs_usage_totals_month_sum:
  "get_bs_usage_totals db uid y = month_sum (bs_node_ids db) uid y (db_usage db)"
proof -
  have "map (\<lambda>r. or0 (row_used r)) (filter (\<lambda>r. row_period r = Some y \<and> row_user r = uid)
      (map usage_dict (filter (\<lambda>r. us_user r = uid) (filter (\<lambda>r. us_node r \<in> set ids) rows)))) =
    map us_used (filter (\<lambda>r. us_node r \<in> set ids \<and> us_user r = uid \<and> us_period r = Some y) rows)" for ids rows
    by (induction rows) (auto simp: usage_dict_def)
  then show ?thesis
    by (simp add: get_bs_usage_totals_def aggregate_bs_usage_total month_sum_def bs_rows_def)
qed

definition usage_keys :: "bs_usage list \<Rightarrow> (int \<times> int) list" where
  "usage_keys rows = map (\<lambda>r. (us_node r, us_user r)) rows"

definition row_counter :: "int \<Rightarrow> int \<Rightarrow> bs_usage list \<Rightarrow> bs_counter option" where
  "row_counter node_id uid rows = map_option (\<lambda>r. \<lparr>monthly_used = us_used r, monthly_period = us_period r\<rparr>)
     (find (\<lambda>r. us_node r = node_id \<and> us_user r = uid) rows)"

lemma row_counter_None: "row_counter n u rows = None \<longleftrightarrow> (n, u) \<notin> set (usage_keys rows)"
  by (auto simp: row_counter_def find_None_iff usage_keys_def)

lemma existing_counters_get:
  assumes "uid \<in> set uids"
  shows "dget (existing_counters db n uids) uid = row_counter n uid (db_usage db)"
proof -
  have "dget (map (\<lambda>r. (us_user r, \<lparr>monthly_used = us_used r, monthly_period = us_period r\<rparr>))
      (filter (\<lambda>r. us_node r = n \<and> us_user r \<in> set uids) rows)) uid = row_counter n uid rows" for rows
    using assms by (induction rows) (auto simp: row_counter_def)
  then show ?thesis by (simp add: existing_counters_def)
qed

lemma usage_keys_write: "usage_keys (write_counter n u c ex rows) = usage_keys rows @ (if ex then [] else [(n, u)])"
  by (auto simp: usage_keys_def write_counter_def)

lemma row_counter_write_other:
  "v \<noteq> u \<Longrightarrow> row_counter n v (write_counter n u c ex rows) = row_counter n v rows"
  by (induction rows) (auto simp: row_counter_def write_counter_def)

lemma month_sum_append: "month_sum ids v y (xs @ ys) = month_sum ids v y xs + month_sum ids v y ys"
  by (simp add: month_sum_def)

lemma month_sum_Cons: "month_sum ids v y (r # rows) =
    (if us_node r \<in> set ids \<and> us_user r = v \<and> us_period r = Some y then us_used r else 0) + month_sum ids v y rows"
  by (simp add: month_sum_def)

definition overwrite :: "int \<Rightarrow> int \<Rightarrow> int \<Rightarrow> string \<Rightarrow> bs_usage \<Rightarrow> bs_usage" where
  "overwrite n u used y r = (if us_node r = n \<and> us_user r = u then r\<lparr>us_used := used, us_period := Some y\<rparr> else r)"

lemma overwrite_absent: "(n, u) \<notin> set (usage_keys rows) \<Longrightarrow> map (overwrite n u used y) rows = rows"
  by (induction rows) (auto simp: overwrite_def usage_keys_def)

lemma month_sum_overwrite:
  assumes "distinct (usage_keys rows)" and "row_counter n u rows = Some c"
  shows "month_sum ids v y (map (overwrite n u ((if monthly_period c = Some y then monthly_used c else 0) + d) y) rows) =
    month_sum ids v y rows + (if v = u \<and> n \<in> set ids then d else 0)"
  using assms
proof (induction rows)
  case (Cons r rows)
  show ?case
  proof (cases "us_node r = n \<and> us_user r = u")
    case True
    then have "(n, u) \<notin> set (usage_keys rows)"
      using Cons.prems(1) by (auto simp: usage_keys_def)
    then have tail: "map (overwrite n u used y) rows = rows" for used
      by (rule overwrite_absent)
    have "c = \<lparr>monthly_used = us_used r, monthly_period = us_period r\<rparr>"
      using True Cons.prems(2) by (simp add: row_counter_def)
    with True show ?thesis
      unfolding list.map tail month_sum_Cons by (auto simp: overwrite_def)
  next
    case False
    then have same: "overwrite n u used y r = r" for used
      by (auto simp: overwrite_def)
    have "distinct (usage_keys rows)" "row_counter n u rows = Some c"
      using False Cons.prems by (auto simp: row_counter_def usage_keys_def split: if_splits)
    from Cons.IH [OF this] show ?thesis
      unfolding list.map same month_sum_Cons by simp
  qed
qed (simp add: row_counter_def)

lemma write_counter_overwrite: "write_counter n u (bs_counter_step (Some c) d y) True rows =
    map (overwrite n u ((if monthly_period c = Some y then monthly_used c else 0) + d) y) rows"
  by (simp add: write_counter_def bs_counter_step_def overwrite_def Let_def)

lemma month_sum_write:
  assumes "distinct (usage_keys rows)"
  shows "month_sum ids v y (write_counter n u (bs_counter_step (row_counter n u rows) d y)
           (row_counter n u rows \<noteq> None) rows) =
    month_sum ids v y rows + (if v = u \<and> n \<in> set ids then d else 0)"
proof (cases "row_counter n u rows")
  case None
  then show ?thesis
    by (simp add: write_counter_def bs_counter_step_def month_sum_append) (simp add: month_sum_def)
next
  case (Some c)
  with month_sum_overwrite [OF assms Some, of ids v y d] show ?thesis
    by (simp add: write_counter_overwrite)
qed

lemma month_sum_write_counters:
  assumes "distinct (usage_keys rows)" and "distinct (map fst ds)"
    and "\<forall>u \<in> set (map fst ds). dget existing u = row_counter n u rows"
  shows "month_sum ids v y (write_counters n existing y ds rows) =
      month_sum ids v y rows + (if n \<in> set ids then dget_or ds v 0 else 0) \<and>
    distinct (usage_keys (write_counters n existing y ds rows))"
  using assms
proof (induction ds arbitrary: rows)
  case (Cons p ds)
  obtain u d where p: "p = (u, d)" by (cases p)
  let ?rows1 = "write_counter n u (bs_counter_step (row_counter n u rows) d y) (row_counter n u rows \<noteq> None) rows"
  have run: "write_counters n existing y (p # ds) rows = write_counters n existing y ds ?rows1"
    using Cons.prems(3) by (simp add: p)
  have keys: "distinct (usage_keys ?rows1)"
    using Cons.prems(1) row_counter_None [of n u rows] by (simp add: usage_keys_write)
  have ex: "\<forall>w \<in> set (map fst ds). dget existing w = row_counter n w ?rows1"
  proof
    fix w assume w: "w \<in> set (map fst ds)"
    with Cons.prems(2) have "w \<noteq> u" by (auto simp: p)
    with w Cons.prems(3) show "dget existing w = row_counter n w ?rows1"
      by (auto simp: row_counter_write_other)
  qed
  have "dget ds u = None"
    using Cons.prems(2) by (simp add: p map_of_eq_None_iff)
  then have head: "dget_or (p # ds) v 0 = (if v = u then d else 0) + dget_or ds v 0"
    by (simp add: p dget_or_def)
  show ?case
    unfolding run head using Cons.IH [OF keys _ ex] Cons.prems(2) month_sum_write [OF Cons.prems(1), of ids v y n u d]
    by simp
qed simp

section \<open>Daily totals of the bots\<close>

definition bot_of :: "bs_db \<Rightarrow> int \<Rightarrow> int option" where
  "bot_of db uid = Option.bind (get_user_by_id db uid) bu_bot"

lemma bot_totals_get:
  "dget_or (bot_totals db ds acc) b 0 =
     dget_or acc b 0 + sum_list (map snd (filter (\<lambda>p. bot_of db (fst p) = Some b) ds))"
  by (induction db ds acc rule: bot_totals.induct) (auto simp: bot_of_def dget_or_dadd split: option.split)

lemma bot_totals_distinct: "distinct (map fst acc) \<Longrightarrow> distinct (map fst (bot_totals db ds acc))"
  by (induction db ds acc rule: bot_totals.induct) (auto simp: dadd_def distinct_dput split: option.split)

definition daily_used :: "((int \<times> int \<times> int) \<times> int \<times> bool) list \<Rightarrow> int \<times> int \<times> int \<Rightarrow> int" where
  "daily_used daily key = (case dget daily key of None \<Rightarrow> 0 | Some (used, b) \<Rightarrow> used)"

lemma daily_used_upsert:
  "daily_used (upsert_daily n day b bu daily) key =
     daily_used daily key + (if key = (fst bu, n, day) then snd bu else 0)"
  by (auto simp: upsert_daily_def daily_used_def split: option.split)

lemma daily_used_fold:
  "distinct (map fst bs) \<Longrightarrow> daily_used (fold (upsert_daily n day b) bs daily) (bt, n, day) =
     daily_used daily (bt, n, day) + dget_or bs bt 0"
proof (induction bs arbitrary: daily)
  case (Cons p bs)
  then have "dget bs (fst p) = None"
    by (simp add: map_of_eq_None_iff)
  with Cons show ?case
    by (cases p) (auto simp: daily_used_upsert dget_or_def)
qed simp

text \<open>Whether a stored day counts in the partner's bill is decided when its row is first written.\<close>

lemma upsert_daily_keeps_billable:
  "dget daily key = Some (used, b) \<Longrightarrow> \<exists>used'. dget (fold (upsert_daily n day b') bs daily) key = Some (used', b)"
proof (induction bs arbitrary: daily used)
  case (Cons bu bs)
  have "\<exists>used'. dget (upsert_daily n day b' bu daily) key = Some (used', b)"
    using Cons.prems by (auto simp: upsert_daily_def Let_def split: option.split)
  then show ?case using Cons.IH by auto
qed auto

lemma normalize_frame:
  "db_usage (snd (normalize_bs_extra_period db uid l y b)) = db_usage db"
  "db_nodes (snd (normalize_bs_extra_period db uid l y b)) = db_nodes db"
  "db_daily (snd (normalize_bs_extra_period db uid l y b)) = db_daily db"
  "db_limit (snd (normalize_bs_extra_period db uid l y b)) = db_limit db"
  "bot_of (snd (normalize_bs_extra_period db uid l y b)) v = bot_of db v"
  by (auto simp: normalize_bs_extra_period_def Let_def set_pool_def bot_of_def get_user_set_pool [unfolded set_pool_def]
      split: option.split bind_split)

lemma normalize_fold_frame:
  fixes y
  defines "f \<equiv> \<lambda>uid d. snd (normalize_bs_extra_period d uid (db_limit d) y True)"
  shows "db_usage (fold f uids db) = db_usage db \<and> db_nodes (fold f uids db) = db_nodes db \<and>
    db_daily (fold f uids db) = db_daily db \<and> bot_of (fold f uids db) v = bot_of db v"
  unfolding f_def by (induction uids arbitrary: db) (simp_all add: normalize_frame)

lemma bs_deltas_distinct: "distinct (map fst (bs_deltas params factor))"
  by (simp add: bs_deltas_def distinct_dsum)

section \<open>Properties\<close>

text \<open>C1: The panel and the enforcement agree on the BS limit: the job that reviews the nodes blocks
  exactly the users with counted traffic this month whose usage has reached the total limit that the
  API reports for them, on every BS node, and no one else.\<close>

theorem review_blocks_match_reported_limit:
  assumes "blocks_ok db" and "bs_node_ids db \<noteq> []" and "review_bs_nodes now db = (db', evs)"
    and "get_user_by_id db uid = Some u"
  shows "(nid, uid) \<in> set (block_pairs db') \<longleftrightarrow> nid \<in> set (bs_node_ids db) \<and>
    measured db uid (period_keys now) \<and> st_monthly_limit (get_bs_state db uid now) \<noteq> 0 \<and>
    st_limit_total (get_bs_state db uid now) \<le> st_monthly_used (get_bs_state db uid now)"
  using review_bs_nodes_blocks [OF assms(1-3)] over_users_iff [OF assms(4), of now] assms(4)
  by (auto simp: desired_blocks_def get_bs_state_simps)

text \<open>C4: Bringing a purchased pool to the current month charges the overspending once: repeating
  it, in either mode, returns the same pool and leaves the stored state as it is, and the amount
  written is the amount that the read-only view and the user object report.\<close>

theorem pool_charged_once:
  assumes "normalize_bs_extra_period db uid (db_limit db) (period_keys now) True = (pool, db')"
  shows "normalize_bs_extra_period db' uid (db_limit db) (period_keys now) b = (pool, db') \<and>
    st_pool (get_bs_state db uid now) = pool \<and> st_pool (get_bs_state db' uid now) = pool \<and>
    (\<forall>u. get_user_by_id db uid = Some u \<longrightarrow> db_limit db \<noteq> 0 \<longrightarrow> fst (bs_extra_effective db True u now None) = pool)"
proof -
  have again: "normalize_bs_extra_period db' uid (db_limit db) (period_keys now) b' = (pool, db')" for b'
    by (rule normalize_persist_again [OF assms])
  have "db_limit db' = db_limit db"
    using normalize_frame(4) [of db uid "db_limit db" "period_keys now" True] assms by simp
  moreover have "fst (normalize_bs_extra_period db uid (db_limit db) (period_keys now) False) = pool"
    using normalize_persist_same_pool [of db uid "db_limit db" "period_keys now" True] assms by simp
  ultimately show ?thesis
    using again pool_state_normalize by (simp add: get_bs_state_simps)
qed

text \<open>One tick of a BS node raises the monthly usage of every user by exactly the bytes counted
  for that user and the day's total of every bot by exactly the bytes of its users, so the two
  aggregates grow by the same traffic.\<close>

theorem tick_reaches_both_aggregates:
  assumes "distinct (usage_keys (db_usage db))" and "nid \<in> set (bs_node_ids db)"
    and "db' = record_bs_user_stats params nid factor billable now today db"
  shows "get_bs_usage_totals db' uid (period_keys now) =
      get_bs_usage_totals db uid (period_keys now) + dget_or (bs_deltas params factor) uid 0 \<and>
    daily_used (db_daily db') (bid, nid, today) = daily_used (db_daily db) (bid, nid, today) +
      sum_list (map snd (filter (\<lambda>p. bot_of db (fst p) = Some bid) (bs_deltas params factor)))"
proof (cases "params = []")
  case False
  let ?y = "period_keys now"
  let ?ds = "bs_deltas params factor"
  let ?ex = "existing_counters db nid (map fst ?ds)"
  define db1 where "db1 = fold (\<lambda>uid d. snd (normalize_bs_extra_period d uid (db_limit d) ?y True))
    (stale_users db (map fst ?ds) ?y) db"
  have frame: "db_usage db1 = db_usage db" "db_nodes db1 = db_nodes db" "db_daily db1 = db_daily db"
    "\<And>v. bot_of db1 v = bot_of db v"
    using normalize_fold_frame by (simp_all add: db1_def)
  define db2 where "db2 = db1\<lparr>db_usage := write_counters nid ?ex ?y ?ds (db_usage db1)\<rparr>"
  have db': "db' = record_bot_bs_daily db2 nid ?ds today billable"
    using False by (simp add: assms(3) record_bs_user_stats_def Let_def db1_def db2_def)
  have "\<forall>u \<in> set (map fst ?ds). dget ?ex u = row_counter nid u (db_usage db)"
    using existing_counters_get by blast
  from month_sum_write_counters [OF assms(1) bs_deltas_distinct this, of "bs_node_ids db" uid ?y]
  have "month_sum (bs_node_ids db) uid ?y (db_usage db2) =
      month_sum (bs_node_ids db) uid ?y (db_usage db) + dget_or ?ds uid 0"
    using assms(2) by (simp add: db2_def frame)
  moreover have "bs_node_ids db' = bs_node_ids db"
    by (simp add: db' record_bot_bs_daily_def db2_def bs_node_ids_def frame)
  moreover have "db_usage db' = db_usage db2" "db_daily db2 = db_daily db"
    by (simp_all add: db' record_bot_bs_daily_def db2_def frame)
  moreover have "bot_of db2 = bot_of db"
    using frame(4) by (simp add: db2_def bot_of_def get_user_by_id_def fun_eq_iff)
  moreover have "daily_used (db_daily db') (bid, nid, today) =
      daily_used (db_daily db2) (bid, nid, today) + dget_or (bot_totals db2 ?ds []) bid 0"
    by (simp add: db' record_bot_bs_daily_def daily_used_fold bot_totals_distinct)
  ultimately show ?thesis
    by (simp add: get_bs_usage_totals_month_sum bot_totals_get)
qed (simp add: assms(3) record_bs_user_stats_def bs_deltas_def)

section \<open>Witnesses\<close>

definition sample_now :: ym where
  "sample_now = \<lparr>year = 2026, month = 2\<rparr>"

definition sample_db :: bs_db where
  "sample_db =
     \<lparr>db_nodes = [\<lparr>nd_id = 7, nd_is_bs = True, nd_owner = None\<rparr>],
      db_users = [\<lparr>bu_id = 1, bu_extra = Some 50, bu_extra_period = Some ''2026-01'', bu_bot = Some 3, bu_status = Active\<rparr>],
      db_usage = [\<lparr>us_node = 7, us_user = 1, us_used = 90, us_period = Some ''2026-02''\<rparr>],
      db_daily = [], db_blocks = [], db_next_block = 1, db_limit = 100\<rparr>"

lemma sample_user: "get_user_by_id sample_db 1 =
    Some \<lparr>bu_id = 1, bu_extra = Some 50, bu_extra_period = Some ''2026-01'', bu_bot = Some 3, bu_status = Active\<rparr>"
  by (simp add: get_user_by_id_def sample_db_def)

lemma review_blocks_match_reported_limit_witness:
  "(7, 1) \<in> set (block_pairs (fst (review_bs_nodes sample_now sample_db))) \<longleftrightarrow>
     measured sample_db 1 (period_keys sample_now) \<and> st_monthly_limit (get_bs_state sample_db 1 sample_now) \<noteq> 0 \<and>
     st_limit_total (get_bs_state sample_db 1 sample_now) \<le> st_monthly_used (get_bs_state sample_db 1 sample_now)"
proof -
  have "blocks_ok sample_db"
    by (simp add: blocks_ok_def block_pairs_def sample_db_def)
  moreover have "bs_node_ids sample_db = [7]"
    by (simp add: bs_node_ids_def sample_db_def)
  moreover obtain db' evs where "review_bs_nodes sample_now sample_db = (db', evs)"
    by (cases "review_bs_nodes sample_now sample_db")
  ultimately show ?thesis
    using review_blocks_match_reported_limit [of sample_db sample_now db' evs 1 _ 7] sample_user by simp
qed

lemma pool_charged_once_witness:
  "\<exists>pool db'. normalize_bs_extra_period sample_db 1 (db_limit sample_db) (period_keys sample_now) True = (pool, db') \<and>
     normalize_bs_extra_period db' 1 (db_limit sample_db) (period_keys sample_now) True = (pool, db')"
proof -
  obtain pool db' where run: "normalize_bs_extra_period sample_db 1 (db_limit sample_db) (period_keys sample_now) True = (pool, db')"
    by (cases "normalize_bs_extra_period sample_db 1 (db_limit sample_db) (period_keys sample_now) True")
  with pool_charged_once [OF run, of True] show ?thesis by blast
qed

lemma tick_reaches_both_aggregates_witness:
  "get_bs_usage_totals (record_bs_user_stats [\<lparr>stat_uid = 1, stat_value = 10\<rparr>] 7 (3 / 2) True sample_now 5 sample_db)
     1 (period_keys sample_now) =
   get_bs_usage_totals sample_db 1 (period_keys sample_now) + 15"
proof -
  have "dget_or (bs_deltas [\<lparr>stat_uid = 1, stat_value = 10\<rparr>] (3 / 2)) 1 0 = 15"
    by (simp add: bs_deltas_def dadd_def dget_or_def py_int_def)
  moreover have "distinct (usage_keys (db_usage sample_db))" "7 \<in> set (bs_node_ids sample_db)"
    by (simp_all add: usage_keys_def sample_db_def bs_node_ids_def)
  ultimately show ?thesis
    using tick_reaches_both_aggregates [of sample_db 7 _ "[\<lparr>stat_uid = 1, stat_value = 10\<rparr>]" "3 / 2" True
        sample_now 5 1 3] by simp
qed

end
