(* ===== verification/AddressPolicy.thy ===== *)
theory AddressPolicy
  imports Prelude "HOL-Library.Char_ord" "HOL-Library.List_Lexorder" "HOL-Library.Product_Lexorder"
begin

text \<open>
  app/xray/address_policy.py and app/subscription/address_context.py: which nodes and addresses of a
  host one user gets. The hash function and the logarithm are arguments (\<open>hasher\<close>): what is proved
  does not depend on their values. Floating point weights are exact rationals.
\<close>

record hasher =
  digest :: "string \<Rightarrow> nat"
  neg_log :: "rat \<Rightarrow> rat"

datatype akey = NodeKey int | AddrKey string

fun key_str :: "akey \<Rightarrow> string" where
  "key_str (NodeKey n) = int_str n"
| "key_str (AddrKey s) = s"

section \<open>app/xray/address_policy.py\<close>

definition HASH_SPACE :: nat where
  "HASH_SPACE = 2 ^ (8 * 8)"

definition EXHAUSTED_WEIGHT :: rat where
  "EXHAUSTED_WEIGHT = 1"

definition cutoff_ratio :: "int \<Rightarrow> rat" where
  "cutoff_ratio cutoff_percent =
     (if 0 < cutoff_percent \<and> cutoff_percent \<le> 100 then of_int cutoff_percent / 100 else 1)"

definition is_exhausted :: "rat option \<Rightarrow> rat option \<Rightarrow> int \<Rightarrow> bool" where
  "is_exhausted used limit cutoff_percent =
     (case limit of
        None \<Rightarrow> False
      | Some l \<Rightarrow> if l \<le> 0 then False
                  else (case used of None \<Rightarrow> False | Some u \<Rightarrow> u \<ge> l * cutoff_ratio cutoff_percent))"

definition unit_hash :: "hasher \<Rightarrow> string list \<Rightarrow> rat" where
  "unit_hash H parts = (of_nat (digest H (join '':'' parts)) + 1) / (of_nat HASH_SPACE + 1)"

definition score :: "hasher \<Rightarrow> int \<Rightarrow> akey \<Rightarrow> int \<Rightarrow> rat \<Rightarrow> rat" where
  "score H user_id key epoch weight =
     (let u = unit_hash H [int_str user_id, key_str key, int_str epoch];
          u' = (if u \<ge> 1 then 1 - 1 / 10 ^ 12 else u)
      in max weight EXHAUSTED_WEIGHT / neg_log H u')"

definition rank_key :: "hasher \<Rightarrow> int \<Rightarrow> int \<Rightarrow> akey \<times> rat \<Rightarrow> rat \<times> string" where
  "rank_key H user_id epoch item = (- score H user_id (fst item) epoch (snd item), key_str (fst item))"

definition pick_keys :: "hasher \<Rightarrow> int \<Rightarrow> (akey \<times> rat) list \<Rightarrow> int \<Rightarrow> int \<Rightarrow> akey list" where
  "pick_keys H user_id candidates n epoch =
     (if n \<le> 0 \<or> candidates = [] then []
      else if int (length candidates) \<le> n then map fst candidates
      else (let ranked = sort_key (rank_key H user_id epoch) candidates;
                chosen = map fst (take (nat n) ranked)
            in filter (\<lambda>k. k \<in> set chosen) (map fst candidates)))"

definition smear :: "hasher \<Rightarrow> int \<Rightarrow> int \<Rightarrow> int" where
  "smear H user_id period_days =
     py_int (unit_hash H [''smear'', int_str user_id] * of_int period_days) mod period_days"

definition epoch_for :: "hasher \<Rightarrow> int \<Rightarrow> int \<Rightarrow> int \<Rightarrow> int \<Rightarrow> int" where
  "epoch_for H user_id day_index period_days offset =
     (let period = max 1 period_days in (day_index + smear H user_id period) div period + offset)"

definition epoch_start_day :: "hasher \<Rightarrow> int \<Rightarrow> int \<Rightarrow> int \<Rightarrow> int" where
  "epoch_start_day H user_id day_index period_days =
     (let period = max 1 period_days; s = smear H user_id period
      in (day_index + s) div period * period - s)"

definition WEIGHT_SNAPSHOT_MAX_AGE_DAYS :: int where
  "WEIGHT_SNAPSHOT_MAX_AGE_DAYS = 2"

definition ARCHIVE_RETENTION_DAYS :: int where
  "ARCHIVE_RETENTION_DAYS = 90"

section \<open>app/subscription/address_context.py\<close>

record subset_settings =
  ss_enabled :: bool
  ss_size :: int
  ss_rotation_days :: int

definition narrows :: "subset_settings \<Rightarrow> bool" where
  "narrows s \<longleftrightarrow> ss_enabled s \<and> ss_size s > 0"

definition DISABLED_SETTINGS :: subset_settings where
  "DISABLED_SETTINGS = \<lparr>ss_enabled = False, ss_size = 0, ss_rotation_days = 1\<rparr>"

definition DEFAULT_ROTATION_DAYS :: int where
  "DEFAULT_ROTATION_DAYS = 2"

text \<open>The three columns of a host that \<open>settings_from_host\<close> reads.\<close>

record host_subset =
  hs_enabled :: bool
  hs_size :: "int option"
  hs_rotation_days :: "int option"

definition settings_from_host :: "host_subset \<Rightarrow> subset_settings" where
  "settings_from_host h =
     (if \<not> hs_enabled h then DISABLED_SETTINGS
      else (let size = or0 (hs_size h) in
            if size \<le> 0 then DISABLED_SETTINGS
            else \<lparr>ss_enabled = True, ss_size = size,
                  ss_rotation_days = max 1 (if truthy_int (hs_rotation_days h) then or0 (hs_rotation_days h)
                                            else DEFAULT_ROTATION_DAYS)\<rparr>))"

definition collect_rotation_periods :: "host_subset list list \<Rightarrow> int set" where
  "collect_rotation_periods host_lists =
     set (map ss_rotation_days (filter narrows (map settings_from_host (concat host_lists))))"

type_synonym weights = "(int \<times> rat) list"

definition median :: "rat list \<Rightarrow> rat" where
  "median xs = (let s = sort xs; n = length xs in
     if odd n then s ! (n div 2) else (s ! (n div 2 - 1) + s ! (n div 2)) / 2)"

definition dict_of_keys :: "('a \<Rightarrow> 'b) \<Rightarrow> 'a list \<Rightarrow> ('a \<times> 'b) list" where
  "dict_of_keys f ks = fold (\<lambda>k d. dput k (f k) d) ks []"

definition weighted_candidates :: "weights \<Rightarrow> int list \<Rightarrow> weights" where
  "weighted_candidates w node_ids =
     (let known = map (\<lambda>n. dget_or w n 0) (filter (\<lambda>n. n \<in> set (map fst w)) node_ids) in
      if known = [] then dict_of_keys (\<lambda>_. 0) node_ids
      else (let fallback = median known in dict_of_keys (\<lambda>n. dget_or w n fallback) node_ids))"

definition choose_nodes :: "hasher \<Rightarrow> int \<Rightarrow> int list \<Rightarrow> weights \<Rightarrow> int list \<Rightarrow> int \<Rightarrow> int \<Rightarrow> int list" where
  "choose_nodes H user_id node_ids w exhausted sz epoch =
     (let alive0 = filter (\<lambda>n. n \<notin> set exhausted) node_ids;
          alive = (if alive0 = [] then node_ids else alive0)
      in if int (length alive) \<le> sz then alive
         else (let candidates = map (\<lambda>(n, x). (NodeKey n, x)) (weighted_candidates w alive)
               in concat (map (\<lambda>k. case k of NodeKey n \<Rightarrow> [n] | AddrKey _ \<Rightarrow> [])
                    (pick_keys H user_id candidates sz epoch))))"

definition exhausted_from_snapshot :: "weights \<Rightarrow> (int \<times> int) list \<Rightarrow> int \<Rightarrow> int list" where
  "exhausted_from_snapshot w limits cutoff_percent =
     map fst (filter (\<lambda>(n, x). case dget limits n of
         None \<Rightarrow> False
       | Some l \<Rightarrow> is_exhausted (Some (of_int l - x)) (Some (of_int l)) cutoff_percent) w)"

record address_context =
  ac_user_id :: int
  ac_day_index :: int
  ac_offset :: int
  ac_weights_by_day :: "(int \<times> weights) list"
  ac_exhausted :: "int list"
  ac_enabled :: bool
  ac_pins :: "(int \<times> int list) list"

definition disabled_context :: address_context where
  "disabled_context = \<lparr>ac_user_id = 0, ac_day_index = 0, ac_offset = 0, ac_weights_by_day = [],
     ac_exhausted = [], ac_enabled = False, ac_pins = []\<rparr>"

definition ctx_weights :: "hasher \<Rightarrow> address_context \<Rightarrow> subset_settings \<Rightarrow> weights" where
  "ctx_weights H ctx s =
     dget_or (ac_weights_by_day ctx) (epoch_start_day H (ac_user_id ctx) (ac_day_index ctx) (ss_rotation_days s)) []"

definition select_pairs :: "string list \<Rightarrow> int list \<Rightarrow> int list \<Rightarrow> string list" where
  "select_pairs addresses node_ids chosen = map fst (filter (\<lambda>p. snd p \<in> set chosen) (zip addresses node_ids))"

definition pick_by_nodes :: "hasher \<Rightarrow> address_context \<Rightarrow> string list \<Rightarrow> int list \<Rightarrow> subset_settings \<Rightarrow> string list" where
  "pick_by_nodes H ctx addresses node_ids s =
     (let chosen = choose_nodes H (ac_user_id ctx) node_ids (ctx_weights H ctx s) (ac_exhausted ctx) (ss_size s)
           (epoch_for H (ac_user_id ctx) (ac_day_index ctx) (ss_rotation_days s) (ac_offset ctx))
      in select_pairs addresses node_ids chosen)"

definition pinned_nodes :: "address_context \<Rightarrow> int list \<Rightarrow> bool \<Rightarrow> int option \<Rightarrow> int list" where
  "pinned_nodes ctx node_ids from_nodes host_id =
     (case host_id of
        None \<Rightarrow> []
      | Some h \<Rightarrow> (case dget (ac_pins ctx) h of
            None \<Rightarrow> []
          | Some ns \<Rightarrow> if from_nodes then filter (\<lambda>n. n \<in> set node_ids) ns else []))"

definition ctx_pick :: "hasher \<Rightarrow> address_context \<Rightarrow> string list \<Rightarrow> int list \<Rightarrow> bool \<Rightarrow> int option \<Rightarrow> subset_settings \<Rightarrow> string list" where
  "ctx_pick H ctx addresses node_ids from_nodes host_id s =
     (let pinned = pinned_nodes ctx node_ids from_nodes host_id in
      if pinned \<noteq> [] then select_pairs addresses node_ids pinned
      else if \<not> ac_enabled ctx \<or> \<not> narrows s then addresses
      else if from_nodes \<and> node_ids \<noteq> [] then pick_by_nodes H ctx addresses node_ids s
      else if int (length addresses) \<le> ss_size s then addresses
      else (let by_address = map (\<lambda>a. (AddrKey a, 0)) addresses;
                epoch = epoch_for H (ac_user_id ctx) (ac_day_index ctx) (ss_rotation_days s) (ac_offset ctx);
                chosen = pick_keys H (ac_user_id ctx) by_address (ss_size s) epoch
            in filter (\<lambda>a. AddrKey a \<in> set chosen) addresses))"

section \<open>Rendezvous choice\<close>

lemma set_take_remove:
  "set (take n xs) - {c} \<subseteq> set (take n (filter (\<lambda>x. x \<noteq> c) xs))"
proof (induction xs arbitrary: n)
  case (Cons x xs)
  show ?case
  proof (cases n)
    case (Suc m)
    have "set (take m ys) \<subseteq> set (take (Suc m) ys)" for ys :: "'a list"
      by (simp add: set_take_subset_set_take)
    with Cons.IH [of m] Suc show ?thesis by (cases "x = c") force+
  qed simp
qed simp

lemma take_remove_unchosen:
  "c \<notin> set (take n xs) \<Longrightarrow> take n (filter (\<lambda>x. x \<noteq> c) xs) = take n xs"
proof (induction xs arbitrary: n)
  case (Cons x xs)
  then show ?case by (cases n) auto
qed simp

text \<open>The ranking itself: the keys of the \<open>n\<close> best candidates.\<close>

definition best :: "hasher \<Rightarrow> int \<Rightarrow> int \<Rightarrow> nat \<Rightarrow> (akey \<times> rat) list \<Rightarrow> (akey \<times> rat) list" where
  "best H user_id epoch n candidates = take n (sort_key (rank_key H user_id epoch) candidates)"

lemma best_all: "length cs \<le> n \<Longrightarrow> set (best H u e n cs) = set cs"
  by (simp add: best_def)

lemma fst_in_distinct:
  "distinct (map fst cs) \<Longrightarrow> B \<subseteq> set cs \<Longrightarrow> (fst c \<in> fst ` B \<and> c \<in> set cs) \<longleftrightarrow> c \<in> B"
  by (auto simp: distinct_map dest: inj_onD)

lemma pick_keys_best:
  assumes "0 < n"
  shows "pick_keys H u cs n e = filter (\<lambda>k. k \<in> fst ` set (best H u e (nat n) cs)) (map fst cs)"
proof (cases "int (length cs) \<le> n")
  case True
  then have "set (best H u e (nat n) cs) = set cs"
    by (intro best_all) simp
  with True assms show ?thesis
    by (auto simp: pick_keys_def filter_id_conv [symmetric])
next
  case False
  with assms show ?thesis
    by (auto simp: pick_keys_def best_def Let_def)
qed

lemma set_pick_keys:
  assumes "0 < n"
  shows "set (pick_keys H u cs n e) = fst ` set (best H u e (nat n) cs)"
proof -
  have "set (best H u e (nat n) cs) \<subseteq> set cs"
    by (metis best_def set_sort set_take_subset)
  then show ?thesis
    by (auto simp: pick_keys_best [OF assms])
qed

lemma subseq_pick_keys: "subseq (pick_keys H u cs n e) (map fst cs)"
  by (simp add: pick_keys_def Let_def subseq_filter_left)

lemma length_pick_keys:
  assumes "distinct (map fst cs)" and "0 \<le> n"
  shows "length (pick_keys H u cs n e) = min (length cs) (nat n)"
proof (cases "n = 0")
  case False
  with assms have n: "0 < n" by simp
  have sub: "set (best H u e (nat n) cs) \<subseteq> set cs"
    by (metis best_def set_sort set_take_subset)
  have "distinct (best H u e (nat n) cs)"
    using assms(1) by (simp add: best_def distinct_map)
  moreover have "inj_on fst (set (best H u e (nat n) cs))"
    using assms(1) sub by (auto simp: distinct_map intro: inj_on_subset)
  ultimately have "card (fst ` set (best H u e (nat n) cs)) = length (best H u e (nat n) cs)"
    by (simp add: card_image distinct_card)
  moreover have "distinct (pick_keys H u cs n e)"
    using assms(1) by (simp add: pick_keys_best [OF n])
  then have "length (pick_keys H u cs n e) = card (set (pick_keys H u cs n e))"
    by (simp add: distinct_card)
  ultimately show ?thesis
    by (simp add: set_pick_keys [OF n] best_def)
qed (simp add: pick_keys_def)

lemma best_remove:
  "set (best H u e n cs) - {c} \<subseteq> set (best H u e n (filter (\<lambda>x. x \<noteq> c) cs))"
  by (simp add: best_def filter_sort [symmetric] set_take_remove)

lemma best_remove_unchosen:
  "c \<notin> set (best H u e n cs) \<Longrightarrow> best H u e n (filter (\<lambda>x. x \<noteq> c) cs) = best H u e n cs"
  by (simp add: best_def filter_sort [symmetric] take_remove_unchosen)

lemma filter_key_eq:
  assumes "distinct (map fst cs)" and "(k, w) \<in> set cs"
  shows "filter (\<lambda>x. fst x \<noteq> k) cs = filter (\<lambda>x. x \<noteq> (k, w)) cs"
  using assms by (intro filter_cong) (auto dest: eq_key_imp_eq_value)

lemma key_chosen_iff:
  assumes "distinct (map fst cs)" and "(k, w) \<in> set cs"
  shows "k \<in> fst ` set (best H u e n cs) \<longleftrightarrow> (k, w) \<in> set (best H u e n cs)"
proof -
  have "set (best H u e n cs) \<subseteq> set cs"
    by (metis best_def set_sort set_take_subset)
  with assms show ?thesis
    by (force dest: eq_key_imp_eq_value)
qed

section \<open>Epochs\<close>

lemma smear_bounds: "0 < p \<Longrightarrow> 0 \<le> smear H u p \<and> smear H u p < p"
  by (simp add: smear_def)

lemma epoch_start_day_bounds:
  "epoch_start_day H u d p \<le> d \<and> d < epoch_start_day H u d p + max 1 p"
proof -
  let ?p = "max 1 p"
  let ?x = "d + smear H u ?p"
  have "?x div ?p * ?p = ?x - ?x mod ?p"
    by (simp add: minus_mod_eq_div_mult)
  moreover have "0 \<le> ?x mod ?p" "?x mod ?p < ?p"
    by simp_all
  ultimately show ?thesis
    by (simp add: epoch_start_day_def Let_def)
qed

lemma epoch_same_iff:
  "epoch_start_day H u d p = epoch_start_day H u d' p \<longleftrightarrow> epoch_for H u d p off = epoch_for H u d' p off"
proof -
  have "max 1 p \<noteq> (0 :: int)" by simp
  then show ?thesis
    by (simp add: epoch_start_day_def epoch_for_def Let_def del: max.absorb1 max.absorb2)
qed

section \<open>What a user gets\<close>

lemma select_pairs_subseq:
  assumes "length addresses = length node_ids"
  shows "subseq (select_pairs addresses node_ids chosen) addresses"
proof -
  have "subseq (map fst (filter (\<lambda>p. snd p \<in> set chosen) (zip addresses node_ids))) (map fst (zip addresses node_ids))"
    by (simp add: subseq_map)
  with assms show ?thesis by (simp add: select_pairs_def)
qed

lemma select_pairs_nonempty:
  assumes "length addresses = length node_ids" and "n \<in> set node_ids" and "n \<in> set chosen"
  shows "select_pairs addresses node_ids chosen \<noteq> []"
proof -
  obtain i where "i < length node_ids" "node_ids ! i = n"
    using assms(2) by (auto simp: in_set_conv_nth)
  with assms(1) have "(addresses ! i, n) \<in> set (zip addresses node_ids)"
    by (auto simp: set_zip)
  with assms(3) show ?thesis
    by (force simp: select_pairs_def filter_empty_conv)
qed

lemma length_select_pairs:
  assumes "distinct node_ids"
  shows "length (select_pairs addresses node_ids chosen) \<le> length (remdups chosen)"
proof -
  let ?q = "filter (\<lambda>p. snd p \<in> set chosen) (zip addresses node_ids)"
  have "distinct (map snd (zip addresses node_ids))"
    using assms by (simp add: map_snd_zip_take)
  then have "distinct (map snd ?q)"
    by (metis distinct_map_filter)
  then have "length ?q = card (set (map snd ?q))"
    by (metis distinct_card length_map)
  also have "\<dots> \<le> card (set chosen)"
    by (intro card_mono) auto
  finally show ?thesis
    by (simp add: select_pairs_def length_remdups_card_conv)
qed

lemma dict_of_keys_keys_fold: "set (map fst (fold (\<lambda>k d. dput k (f k) d) ks d)) = set (map fst d) \<union> set ks"
  by (induction ks arbitrary: d) (auto simp: dkeys_dput simp del: set_map)

lemma dict_of_keys_distinct_fold: "distinct (map fst d) \<Longrightarrow> distinct (map fst (fold (\<lambda>k d. dput k (f k) d) ks d))"
  by (induction ks arbitrary: d) (auto simp: distinct_dput)

lemma dict_of_keys_keys: "set (map fst (dict_of_keys f ks)) = set ks" "distinct (map fst (dict_of_keys f ks))"
  unfolding dict_of_keys_def by (simp only: dict_of_keys_keys_fold, simp)
    (rule dict_of_keys_distinct_fold, simp)

lemma weighted_candidates_keys:
  "set (map fst (weighted_candidates w ns)) = set ns" "distinct (map fst (weighted_candidates w ns))"
  by (simp_all add: weighted_candidates_def Let_def dict_of_keys_keys [simplified])

definition node_candidates :: "weights \<Rightarrow> int list \<Rightarrow> (akey \<times> rat) list" where
  "node_candidates w ns = map (\<lambda>(n, x). (NodeKey n, x)) (weighted_candidates w ns)"

lemma node_candidates_keys: "map fst (node_candidates w ns) = map NodeKey (map fst (weighted_candidates w ns))"
  by (simp add: node_candidates_def case_prod_unfold)

lemma node_candidates_distinct: "distinct (map fst (node_candidates w ns))"
proof -
  have "inj_on NodeKey (set (map fst (weighted_candidates w ns)))"
    by (simp add: inj_on_def)
  with weighted_candidates_keys(2) show ?thesis
    unfolding node_candidates_keys by (subst distinct_map) blast
qed

definition node_keys :: "akey list \<Rightarrow> int list" where
  "node_keys ks = concat (map (\<lambda>k. case k of NodeKey n \<Rightarrow> [n] | AddrKey _ \<Rightarrow> []) ks)"

lemma node_keys_NodeKey: "set ks \<subseteq> range NodeKey \<Longrightarrow> length (node_keys ks) = length ks \<and> NodeKey ` set (node_keys ks) = set ks"
  by (induction ks) (auto simp: node_keys_def)

definition alive_nodes :: "int list \<Rightarrow> int list \<Rightarrow> int list" where
  "alive_nodes node_ids exhausted =
     (let alive = filter (\<lambda>n. n \<notin> set exhausted) node_ids in if alive = [] then node_ids else alive)"

lemma alive_nodes_mem: "n \<in> set (alive_nodes ns ex) \<Longrightarrow> n \<notin> set ex \<or> set ns \<subseteq> set ex"
  by (auto simp: alive_nodes_def Let_def filter_empty_conv split: if_splits)

lemma choose_nodes_eq:
  "choose_nodes H u ns w ex sz e = (let alive = alive_nodes ns ex in
     if int (length alive) \<le> sz then alive else node_keys (pick_keys H u (node_candidates w alive) sz e))"
  by (simp add: choose_nodes_def alive_nodes_def node_candidates_def node_keys_def Let_def)

lemma choose_nodes_facts:
  assumes "0 < sz" and "ns \<noteq> []" and "distinct ns"
  shows "set (choose_nodes H u ns w ex sz e) \<subseteq> set (alive_nodes ns ex)"
    and "choose_nodes H u ns w ex sz e \<noteq> []"
    and "int (length (choose_nodes H u ns w ex sz e)) \<le> sz"
proof -
  let ?al = "alive_nodes ns ex"
  let ?cs = "node_candidates w ?al"
  let ?ks = "pick_keys H u ?cs sz e"
  have al: "?al \<noteq> []"
    using assms(2) by (auto simp: alive_nodes_def Let_def)
  have "set (map fst ?cs) = NodeKey ` set ?al"
    unfolding node_candidates_keys by (subst set_map) (simp only: weighted_candidates_keys)
  moreover have "set ?ks \<subseteq> set (map fst ?cs)"
    by (metis notin_set_nthsI set_nths_subset subseq_conv_nths subseq_pick_keys subset_iff)
  ultimately have ks: "set ?ks \<subseteq> NodeKey ` set ?al" by simp
  then have "set ?ks \<subseteq> range NodeKey" by auto
  note nkf = node_keys_NodeKey [OF this]
  note nk = conjunct1 [OF nkf] conjunct2 [OF nkf]
  have len: "length ?ks = min (length ?cs) (nat sz)"
    using length_pick_keys [OF node_candidates_distinct] assms(1) by simp
  show "set (choose_nodes H u ns w ex sz e) \<subseteq> set ?al"
    using ks nk(2) by (auto simp: choose_nodes_eq Let_def)
  show "int (length (choose_nodes H u ns w ex sz e)) \<le> sz"
    using len nk(1) assms(1) by (simp add: choose_nodes_eq Let_def) linarith
  have "?cs \<noteq> []"
    using al \<open>set (map fst ?cs) = NodeKey ` set ?al\<close> by auto
  then have "0 < length ?ks"
    using len assms(1) by simp
  then show "choose_nodes H u ns w ex sz e \<noteq> []"
    using nk(1) al by (auto simp: choose_nodes_eq Let_def)
qed

lemma pinned_nodes_subset: "set (pinned_nodes ctx ns b h) \<subseteq> set ns"
  by (auto simp: pinned_nodes_def split: option.splits if_splits)

section \<open>Properties\<close>

text \<open>C6: The weighted choice disturbs as little as it can: removing a candidate that was not chosen
  changes nothing, and removing a chosen one keeps all the others, so a change of the fleet moves
  only the assignments it must.\<close>

theorem pick_keys_minimal_disruption:
  assumes "distinct (map fst cs)" and "0 < n" and "(k, w) \<in> set cs"
  shows "(k \<notin> set (pick_keys H u cs n e) \<longrightarrow>
      set (pick_keys H u (filter (\<lambda>x. fst x \<noteq> k) cs) n e) = set (pick_keys H u cs n e)) \<and>
    set (pick_keys H u cs n e) - {k} \<subseteq> set (pick_keys H u (filter (\<lambda>x. fst x \<noteq> k) cs) n e)"
proof
  note keys = set_pick_keys [OF assms(2)]
  show "k \<notin> set (pick_keys H u cs n e) \<longrightarrow>
      set (pick_keys H u (filter (\<lambda>x. fst x \<noteq> k) cs) n e) = set (pick_keys H u cs n e)"
  proof
    assume "k \<notin> set (pick_keys H u cs n e)"
    then have "(k, w) \<notin> set (best H u e (nat n) cs)"
      by (simp add: keys key_chosen_iff [OF assms(1,3)])
    then show "set (pick_keys H u (filter (\<lambda>x. fst x \<noteq> k) cs) n e) = set (pick_keys H u cs n e)"
      by (simp add: keys filter_key_eq [OF assms(1,3)] best_remove_unchosen)
  qed
  have "set (best H u e (nat n) cs) - {(k, w)} \<subseteq> set (best H u e (nat n) (filter (\<lambda>x. fst x \<noteq> k) cs))"
    unfolding filter_key_eq [OF assms(1,3)] by (rule best_remove)
  then show "set (pick_keys H u cs n e) - {k} \<subseteq> set (pick_keys H u (filter (\<lambda>x. fst x \<noteq> k) cs) n e)"
    by (force simp: keys)
qed

text \<open>A subscription never loses all addresses of a host: whatever is pinned, exhausted, weighted
  or missing, the addresses a user gets are a non-empty selection from the host's own list in its
  order.\<close>

theorem ctx_pick_never_empty:
  assumes "addresses \<noteq> []" and "from_nodes \<Longrightarrow> length addresses = length node_ids" and "distinct node_ids"
  shows "ctx_pick H ctx addresses node_ids from_nodes host_id s \<noteq> [] \<and>
    subseq (ctx_pick H ctx addresses node_ids from_nodes host_id s) addresses"
proof -
  consider (pin) "pinned_nodes ctx node_ids from_nodes host_id \<noteq> []"
    | (all) "pinned_nodes ctx node_ids from_nodes host_id = []" "\<not> ac_enabled ctx \<or> \<not> narrows s"
    | (nodes) "pinned_nodes ctx node_ids from_nodes host_id = []" "ac_enabled ctx" "narrows s" "from_nodes \<and> node_ids \<noteq> []"
    | (addr) "pinned_nodes ctx node_ids from_nodes host_id = []" "ac_enabled ctx" "narrows s" "\<not> (from_nodes \<and> node_ids \<noteq> [])"
    by blast
  then show ?thesis
  proof cases
    case pin
    then have "from_nodes"
      by (auto simp: pinned_nodes_def split: option.splits if_splits)
    moreover obtain n where "n \<in> set (pinned_nodes ctx node_ids from_nodes host_id)"
      using pin by (cases "pinned_nodes ctx node_ids from_nodes host_id") auto
    ultimately show ?thesis
      using pin assms(2) pinned_nodes_subset [of ctx node_ids from_nodes host_id]
        select_pairs_subseq select_pairs_nonempty
      by (auto simp: ctx_pick_def Let_def)
  next
    case nodes
    let ?c = "choose_nodes H (ac_user_id ctx) node_ids (ctx_weights H ctx s) (ac_exhausted ctx) (ss_size s)
           (epoch_for H (ac_user_id ctx) (ac_day_index ctx) (ss_rotation_days s) (ac_offset ctx))"
    have sz: "0 < ss_size s" using nodes(3) by (simp add: narrows_def)
    note facts = choose_nodes_facts [OF sz conjunct2 [OF nodes(4)] assms(3)]
    have "set (alive_nodes node_ids (ac_exhausted ctx)) \<subseteq> set node_ids"
      by (auto simp: alive_nodes_def Let_def)
    with facts(1,2) obtain n where "n \<in> set ?c" "n \<in> set node_ids"
      by (metis list.set_intros(1) neq_Nil_conv subset_iff)
    moreover have len: "length addresses = length node_ids"
      using assms(2) nodes(4) by blast
    ultimately have "select_pairs addresses node_ids ?c \<noteq> []"
      by (intro select_pairs_nonempty)
    moreover have "ctx_pick H ctx addresses node_ids from_nodes host_id s = select_pairs addresses node_ids ?c"
      using nodes by (simp add: ctx_pick_def pick_by_nodes_def)
    ultimately show ?thesis
      using select_pairs_subseq [OF len] by simp
  next
    case addr
    let ?e = "epoch_for H (ac_user_id ctx) (ac_day_index ctx) (ss_rotation_days s) (ac_offset ctx)"
    let ?cs = "map (\<lambda>a. (AddrKey a, 0)) addresses"
    have sz: "0 < ss_size s" using addr(3) by (simp add: narrows_def)
    have "length (best H (ac_user_id ctx) ?e (nat (ss_size s)) ?cs) = min (length addresses) (nat (ss_size s))"
      by (simp add: best_def)
    then have "0 < length (best H (ac_user_id ctx) ?e (nat (ss_size s)) ?cs)"
      using assms(1) sz by simp
    moreover have "set (best H (ac_user_id ctx) ?e (nat (ss_size s)) ?cs) \<subseteq> set ?cs"
      by (metis best_def set_sort set_take_subset)
    ultimately obtain a where "a \<in> set addresses" "(AddrKey a, 0) \<in> set (best H (ac_user_id ctx) ?e (nat (ss_size s)) ?cs)"
      by (cases "best H (ac_user_id ctx) ?e (nat (ss_size s)) ?cs") auto
    then have "AddrKey a \<in> set (pick_keys H (ac_user_id ctx) ?cs (ss_size s) ?e)"
      by (force simp: set_pick_keys [OF sz])
    with \<open>a \<in> set addresses\<close> addr assms(1) show ?thesis
      by (auto simp: ctx_pick_def Let_def filter_empty_conv)
  qed (use assms(1) in \<open>simp add: ctx_pick_def\<close>)
qed

text \<open>When the selection of a host is narrowed by its nodes and no pin applies, the user gets at
  most the configured number of addresses, and none of them belongs to an exhausted node while the
  host has a node that is not.\<close>

theorem ctx_pick_narrowed:
  assumes "distinct node_ids" and "node_ids \<noteq> []" and "length addresses = length node_ids"
    and "ac_enabled ctx" and "narrows s" and "pinned_nodes ctx node_ids True host_id = []"
  shows "int (length (ctx_pick H ctx addresses node_ids True host_id s)) \<le> ss_size s \<and>
    (\<forall>a \<in> set (ctx_pick H ctx addresses node_ids True host_id s).
       \<exists>n. (a, n) \<in> set (zip addresses node_ids) \<and>
         (n \<notin> set (ac_exhausted ctx) \<or> set node_ids \<subseteq> set (ac_exhausted ctx)))"
proof -
  let ?c = "choose_nodes H (ac_user_id ctx) node_ids (ctx_weights H ctx s) (ac_exhausted ctx) (ss_size s)
         (epoch_for H (ac_user_id ctx) (ac_day_index ctx) (ss_rotation_days s) (ac_offset ctx))"
  have "0 < ss_size s" using assms(5) by (simp add: narrows_def)
  note facts = choose_nodes_facts [OF this assms(2,1)]
  have pick: "ctx_pick H ctx addresses node_ids True host_id s = select_pairs addresses node_ids ?c"
    using assms(2,4,5,6) by (simp add: ctx_pick_def pick_by_nodes_def)
  have "length (remdups ?c) \<le> length ?c"
    by (rule length_remdups_leq)
  with length_select_pairs [OF assms(1)] facts(3)
  have "int (length (select_pairs addresses node_ids ?c)) \<le> ss_size s"
    by (meson le_trans of_nat_mono order_trans)
  moreover have "n \<notin> set (ac_exhausted ctx) \<or> set node_ids \<subseteq> set (ac_exhausted ctx)" if "n \<in> set ?c" for n
    using subsetD [OF facts(1) that] by (rule alive_nodes_mem)
  ultimately show ?thesis
    unfolding pick by (fastforce simp: select_pairs_def)
qed

text \<open>Within one rotation epoch the selection does not move: on two days of the same epoch the
  same context gives the same addresses, and an epoch is a window of the rotation period.\<close>

theorem ctx_pick_constant_in_epoch:
  assumes "epoch_start_day H (ac_user_id ctx) d (ss_rotation_days s) = epoch_start_day H (ac_user_id ctx) d' (ss_rotation_days s)"
  shows "ctx_pick H (ctx\<lparr>ac_day_index := d\<rparr>) addresses node_ids b host_id s =
      ctx_pick H (ctx\<lparr>ac_day_index := d'\<rparr>) addresses node_ids b host_id s \<and>
    epoch_start_day H (ac_user_id ctx) d (ss_rotation_days s) \<le> d \<and>
    d < epoch_start_day H (ac_user_id ctx) d (ss_rotation_days s) + max 1 (ss_rotation_days s)"
proof -
  have "epoch_for H (ac_user_id ctx) d (ss_rotation_days s) off = epoch_for H (ac_user_id ctx) d' (ss_rotation_days s) off" for off
    using assms epoch_same_iff by blast
  then have "pick_by_nodes H (ctx\<lparr>ac_day_index := d\<rparr>) addresses node_ids s =
      pick_by_nodes H (ctx\<lparr>ac_day_index := d'\<rparr>) addresses node_ids s"
    and "epoch_for H (ac_user_id ctx) d (ss_rotation_days s) (ac_offset ctx) =
      epoch_for H (ac_user_id ctx) d' (ss_rotation_days s) (ac_offset ctx)"
    using assms by (simp_all add: pick_by_nodes_def ctx_weights_def)
  moreover have "pinned_nodes (ctx\<lparr>ac_day_index := x\<rparr>) node_ids b host_id = pinned_nodes ctx node_ids b host_id" for x
    by (simp add: pinned_nodes_def split: option.split)
  ultimately have "ctx_pick H (ctx\<lparr>ac_day_index := d\<rparr>) addresses node_ids b host_id s =
      ctx_pick H (ctx\<lparr>ac_day_index := d'\<rparr>) addresses node_ids b host_id s"
    by (simp add: ctx_pick_def Let_def cong: if_cong)
  then show ?thesis
    using epoch_start_day_bounds by blast
qed

section \<open>Witnesses\<close>

definition sample_hasher :: hasher where
  "sample_hasher = \<lparr>digest = length, neg_log = (\<lambda>x. 1 - x)\<rparr>"

definition sample_context :: address_context where
  "sample_context = \<lparr>ac_user_id = 5, ac_day_index = 0, ac_offset = 0, ac_weights_by_day = [],
     ac_exhausted = [1], ac_enabled = True, ac_pins = []\<rparr>"

definition sample_settings :: subset_settings where
  "sample_settings = \<lparr>ss_enabled = True, ss_size = 2, ss_rotation_days = 2\<rparr>"

lemma pick_keys_minimal_disruption_witness:
  "set (pick_keys sample_hasher 5 [(NodeKey 1, 5), (NodeKey 2, 7)] 1 0) - {NodeKey 2} \<subseteq>
     set (pick_keys sample_hasher 5 [(NodeKey 1, 5)] 1 0)"
  using pick_keys_minimal_disruption [of "[(NodeKey 1, 5), (NodeKey 2, 7)]" 1 "NodeKey 2" 7 sample_hasher 5 0]
  by simp

lemma ctx_pick_never_empty_witness:
  "ctx_pick sample_hasher sample_context [''a'', ''b'', ''c''] [1, 2, 3] True None sample_settings \<noteq> []"
  using ctx_pick_never_empty [of "[''a'', ''b'', ''c'']" True "[1, 2, 3]"] by simp

lemma ctx_pick_narrowed_witness:
  "int (length (ctx_pick sample_hasher sample_context [''a'', ''b'', ''c''] [1, 2, 3] True None sample_settings)) \<le> 2"
  using ctx_pick_narrowed [of "[1, 2, 3]" "[''a'', ''b'', ''c'']" sample_context sample_settings None sample_hasher]
  by (simp add: sample_context_def sample_settings_def narrows_def pinned_nodes_def)

lemma sample_smear: "smear sample_hasher 5 2 = 0"
  by (simp add: smear_def unit_hash_def sample_hasher_def HASH_SPACE_def py_int_def int_str_def
      nat_str.simps digit_char_def floor_eq_iff)

lemma ctx_pick_constant_in_epoch_witness:
  "ctx_pick sample_hasher (sample_context\<lparr>ac_day_index := 4\<rparr>) [''a'', ''b'', ''c''] [1, 2, 3] True None sample_settings =
   ctx_pick sample_hasher (sample_context\<lparr>ac_day_index := 5\<rparr>) [''a'', ''b'', ''c''] [1, 2, 3] True None sample_settings"
proof -
  have "epoch_start_day sample_hasher (ac_user_id sample_context) 4 (ss_rotation_days sample_settings) =
      epoch_start_day sample_hasher (ac_user_id sample_context) 5 (ss_rotation_days sample_settings)"
    by (simp add: epoch_start_day_def sample_context_def sample_settings_def sample_smear)
  from ctx_pick_constant_in_epoch [OF this] show ?thesis by blast
qed

end
