(* ===== verification/AddressHistory.thy ===== *)
theory AddressHistory
  imports AddressPolicy
begin

text \<open>
  Where addresses come from and what can be said about them later: the nodes a host stands for
  (app/xray/host_addresses.py), pins and daily snapshots (app/db/crud.py), the hourly snapshot job
  (app/jobs/snapshot_host_composition.py), the context of a live subscription
  (app/subscription/address_context_builder.py) and the journal that reconstructs past days
  (app/services/address_history.py). Times are microseconds since 2026-01-01 UTC.
\<close>

section \<open>Hosts (app/xray/host_addresses.py)\<close>

record ah_node =
  an_id :: int
  an_address :: string
  an_status :: node_status
  an_is_bs :: bool

record ah_host =
  ah_id :: int
  ah_remark :: string
  ah_address :: string
  ah_inbound_tag :: string
  ah_disabled :: bool
  ah_hidden :: bool
  ah_bots :: "string list"
  ah_nodes :: "ah_node list"
  ah_source :: string
  ah_balancer_nodes :: "ah_node list"
  ah_subset :: host_subset

definition addresses_from_nodes :: "ah_host \<Rightarrow> bool" where
  "addresses_from_nodes h \<longleftrightarrow> ah_source h = ''selected'' \<or> ah_address h = []"

definition visible_nodes :: "ah_host \<Rightarrow> ah_node list" where
  "visible_nodes h =
     (if ah_source h = ''selected''
      then sort_key an_id (filter (\<lambda>n. an_status n \<noteq> NodeDisabled) (ah_balancer_nodes h))
      else if ah_address h \<noteq> [] then ah_nodes h
      else filter (\<lambda>n. an_status n \<noteq> NodeDisabled) (ah_nodes h))"

definition resolve_host_addresses :: "ah_host \<Rightarrow> string list" where
  "resolve_host_addresses h =
     (if \<not> addresses_from_nodes h then map strip (split_on (CHR '','') (ah_address h))
      else map an_address (visible_nodes h))"

definition resolve_host_node_ids :: "ah_host \<Rightarrow> int list" where
  "resolve_host_node_ids h = map an_id (visible_nodes h)"

definition host_has_bs_node :: "ah_host \<Rightarrow> bool" where
  "host_has_bs_node h = list_ex an_is_bs (visible_nodes h)"

definition host_allowed_for_bot :: "string list \<Rightarrow> string option \<Rightarrow> bool" where
  "host_allowed_for_bot bot_usernames user_bot \<longleftrightarrow>
     (case user_bot of None \<Rightarrow> False | Some b \<Rightarrow> b \<noteq> [] \<and> b \<in> set bot_usernames)"

section \<open>The tables (app/db/models.py)\<close>

record pin_row =
  pn_id :: int
  pn_user :: int
  pn_host :: int
  pn_nodes :: "int list"
  pn_created :: int
  pn_expires :: int
  pn_by :: string
  pn_note :: "string option"

record weight_row =
  wr_epoch :: int
  wr_node :: int
  wr_weight :: int

type_synonym payload = "(int option \<times> string) list"

record comp_row =
  cr_epoch :: int
  cr_host :: int
  cr_payload :: payload
  cr_composite :: bool
  cr_hidden :: bool

record limit_row =
  lr_node :: int
  lr_limit :: "int option"
  lr_used :: "int option"

record ah_db =
  db_hosts :: "ah_host list"
  db_pins :: "pin_row list"
  db_next_pin :: int
  db_weights :: "weight_row list"
  db_comps :: "comp_row list"
  db_limits :: "limit_row list"

section \<open>Pins (app/db/crud.py)\<close>

definition pin_order :: "pin_row list \<Rightarrow> pin_row list" where
  "pin_order = sort_key (\<lambda>p. (pn_host p, pn_created p, pn_id p))"

definition pins_by_host :: "pin_row list \<Rightarrow> (int \<times> int list) list" where
  "pins_by_host rows = fold (\<lambda>p d. dput (pn_host p) (pn_nodes p) d) rows []"

definition get_active_pins :: "ah_db \<Rightarrow> int \<Rightarrow> int \<Rightarrow> (int \<times> int list) list" where
  "get_active_pins db uid now =
     pins_by_host (pin_order (filter (\<lambda>p. pn_user p = uid \<and> pn_expires p > now) (db_pins db)))"

definition create_user_node_pin ::
  "int \<Rightarrow> int \<Rightarrow> int list \<Rightarrow> int \<Rightarrow> string \<Rightarrow> string option \<Rightarrow> int \<Rightarrow> ah_db \<Rightarrow> pin_row \<times> ah_db" where
  "create_user_node_pin uid host_id node_ids expires_at created_by note now db =
     (let pin = \<lparr>pn_id = db_next_pin db, pn_user = uid, pn_host = host_id, pn_nodes = node_ids,
                 pn_created = now, pn_expires = expires_at, pn_by = created_by, pn_note = note\<rparr>
      in (pin, db\<lparr>db_pins := db_pins db @ [pin], db_next_pin := db_next_pin db + 1\<rparr>))"

definition delete_user_node_pin :: "int \<Rightarrow> int \<Rightarrow> int \<Rightarrow> ah_db \<Rightarrow> nat \<times> ah_db" where
  "delete_user_node_pin uid host_id now db =
     (let hit = (\<lambda>p. pn_user p = uid \<and> pn_host p = host_id \<and> pn_expires p > now)
      in (length (filter hit (db_pins db)),
          db\<lparr>db_pins := map (\<lambda>p. if hit p then p\<lparr>pn_expires := now\<rparr> else p) (db_pins db)\<rparr>))"

definition list_active_pins :: "ah_db \<Rightarrow> int \<Rightarrow> int \<Rightarrow> pin_row list" where
  "list_active_pins db uid now =
     map snd (fold (\<lambda>p d. dput (pn_host p) p d)
       (pin_order (filter (\<lambda>p. pn_user p = uid \<and> pn_expires p > now) (db_pins db))) [])"

definition get_pins_covering_day :: "ah_db \<Rightarrow> int \<Rightarrow> int \<Rightarrow> int \<Rightarrow> (int \<times> int list) list" where
  "get_pins_covering_day db uid day_start day_end =
     pins_by_host (pin_order (filter (\<lambda>p. pn_user p = uid \<and> pn_created p < day_end \<and> pn_expires p > day_start)
       (db_pins db)))"

definition get_pins_covering_range :: "ah_db \<Rightarrow> int \<Rightarrow> int \<Rightarrow> int \<Rightarrow> pin_row list" where
  "get_pins_covering_range db uid range_start range_end =
     pin_order (filter (\<lambda>p. pn_user p = uid \<and> pn_created p < range_end \<and> pn_expires p > range_start) (db_pins db))"

section \<open>Weights, limits and compositions (app/db/crud.py)\<close>

definition put_weight :: "weight_row \<Rightarrow> weights \<Rightarrow> weights" where
  "put_weight r w = dput (wr_node r) (of_int (wr_weight r)) w"

definition get_weight_snapshots_range :: "ah_db \<Rightarrow> int \<Rightarrow> int \<Rightarrow> (int \<times> weights) list" where
  "get_weight_snapshots_range db first_day last_day =
     fold (\<lambda>r d. dput (wr_epoch r) (put_weight r (dget_or d (wr_epoch r) [])) d)
       (filter (\<lambda>r. first_day - WEIGHT_SNAPSHOT_MAX_AGE_DAYS \<le> wr_epoch r \<and> wr_epoch r \<le> last_day) (db_weights db)) []"

definition get_exhausted_node_ids :: "ah_db \<Rightarrow> int \<Rightarrow> int list" where
  "get_exhausted_node_ids db cutoff_percent =
     (let ratio = cutoff_ratio cutoff_percent in
      map lr_node (filter (\<lambda>r. case (lr_limit r, lr_used r) of
          (Some l, Some u) \<Rightarrow> l > 0 \<and> of_int u \<ge> of_int l * ratio
        | _ \<Rightarrow> False) (db_limits db)))"

definition get_node_limits :: "ah_db \<Rightarrow> (int \<times> int) list" where
  "get_node_limits db =
     fold (\<lambda>r d. case lr_limit r of Some l \<Rightarrow> if l > 0 then dput (lr_node r) l d else d | None \<Rightarrow> d) (db_limits db) []"

definition latest_epoch :: "int list \<Rightarrow> int \<Rightarrow> int option" where
  "latest_epoch epochs e = (let below = filter (\<lambda>x. x \<le> e) epochs in
     if below = [] then None else Some (foldr max below (hd below)))"

definition get_weight_snapshot :: "ah_db \<Rightarrow> int \<Rightarrow> weights" where
  "get_weight_snapshot db epoch_index =
     (case latest_epoch (map wr_epoch (db_weights db)) epoch_index of
        None \<Rightarrow> []
      | Some latest \<Rightarrow>
          if epoch_index - latest > WEIGHT_SNAPSHOT_MAX_AGE_DAYS then []
          else fold put_weight (filter (\<lambda>r. wr_epoch r = latest) (db_weights db)) [])"

definition write_host_composition_snapshot :: "int \<Rightarrow> int \<Rightarrow> payload \<Rightarrow> bool \<Rightarrow> bool \<Rightarrow> ah_db \<Rightarrow> ah_db" where
  "write_host_composition_snapshot epoch_index host_id payload is_composite is_hidden db =
     (if list_ex (\<lambda>r. cr_epoch r = epoch_index \<and> cr_host r = host_id) (db_comps db) then db
      else db\<lparr>db_comps := db_comps db @ [\<lparr>cr_epoch = epoch_index, cr_host = host_id, cr_payload = payload,
                 cr_composite = is_composite, cr_hidden = is_hidden\<rparr>]\<rparr>)"

definition get_host_composition :: "ah_db \<Rightarrow> int \<Rightarrow> (int \<times> payload) list" where
  "get_host_composition db epoch_index =
     fold (\<lambda>r d. dput (cr_host r) (cr_payload r) d)
       (filter (\<lambda>r. cr_epoch r = epoch_index \<and> \<not> cr_composite r \<and> \<not> cr_hidden r) (db_comps db)) []"

definition get_host_composition_range :: "ah_db \<Rightarrow> int \<Rightarrow> int \<Rightarrow> (int \<times> (int \<times> payload) list) list" where
  "get_host_composition_range db first_day last_day =
     fold (\<lambda>r d. dput (cr_epoch r) (dput (cr_host r) (cr_payload r) (dget_or d (cr_epoch r) [])) d)
       (filter (\<lambda>r. \<not> cr_composite r \<and> \<not> cr_hidden r \<and> first_day \<le> cr_epoch r \<and> cr_epoch r \<le> last_day) (db_comps db)) []"

definition prune_host_composition_snapshots :: "int \<Rightarrow> int \<Rightarrow> ah_db \<Rightarrow> ah_db" where
  "prune_host_composition_snapshots epoch_index retention_days db =
     db\<lparr>db_comps := filter (\<lambda>r. \<not> cr_epoch r < epoch_index - retention_days) (db_comps db)\<rparr>"

section \<open>The snapshot job (app/jobs/snapshot_host_composition.py)\<close>

definition DAY :: int where
  "DAY = 86400 * 10 ^ 6"

definition day_index :: "int \<Rightarrow> int" where
  "day_index now = now div DAY"

definition day_start_at :: "int \<Rightarrow> int" where
  "day_start_at d = d * DAY"

definition host_payload :: "ah_host \<Rightarrow> payload" where
  "host_payload h =
     (let addresses = resolve_host_addresses h in
      if \<not> addresses_from_nodes h then map (\<lambda>a. (None, a)) addresses
      else zip (map Some (resolve_host_node_ids h)) addresses)"

text \<open>\<open>classify\<close> tells whether a host is composed by injection (app/services/xray_templates.py).\<close>

definition snapshot_host_composition :: "(ah_host \<Rightarrow> bool) \<Rightarrow> int \<Rightarrow> ah_db \<Rightarrow> ah_db" where
  "snapshot_host_composition classify now db =
     (let epoch = day_index now;
          written = fold (\<lambda>h d. write_host_composition_snapshot epoch (ah_id h)
                        (if classify h then [] else host_payload h) (classify h) (ah_hidden h) d)
                      (filter (\<lambda>h. \<not> ah_disabled h) (db_hosts db)) db
      in prune_host_composition_snapshots epoch ARCHIVE_RETENTION_DAYS written)"

section \<open>The context of a live subscription (app/subscription/address_context_builder.py)\<close>

definition EXHAUSTED_TTL :: int where
  "EXHAUSTED_TTL = 60 * 10 ^ 6"

type_synonym exhausted_cache = "(int \<times> int list) option"

text \<open>\<open>get_exhausted_nodes\<close> at the monotonic time \<open>now\<close>; \<open>cutoff\<close> is \<open>HOSTING_USAGE_CUTOFF_PERCENT\<close>.\<close>

definition get_exhausted_nodes :: "int \<Rightarrow> int \<Rightarrow> ah_db \<Rightarrow> exhausted_cache \<Rightarrow> int list \<times> exhausted_cache" where
  "get_exhausted_nodes cutoff now db cache =
     (case cache of
        Some (t, ns) \<Rightarrow>
          if now - t < EXHAUSTED_TTL then (ns, cache)
          else (let e = get_exhausted_node_ids db cutoff in (e, Some (now, e)))
      | None \<Rightarrow> (let e = get_exhausted_node_ids db cutoff in (e, Some (now, e))))"

record subscriber =
  sb_id :: int
  sb_offset :: "int option"
  sb_rotation_at :: "int option"
  sb_bot :: "string option"
  sb_inbounds :: "(string \<times> string list) list"

definition snapshots_for :: "hasher \<Rightarrow> ah_db \<Rightarrow> int \<Rightarrow> int \<Rightarrow> int list \<Rightarrow> (int \<times> weights) list" where
  "snapshots_for H db uid today periods =
     fold (\<lambda>p d. let day = epoch_start_day H uid today p in
                 if dget d day \<noteq> None then d else dput day (get_weight_snapshot db day) d) periods []"

definition build_address_context ::
  "hasher \<Rightarrow> int \<Rightarrow> ah_db \<Rightarrow> subscriber \<Rightarrow> bool \<Rightarrow> bool \<Rightarrow> int list \<Rightarrow> int \<Rightarrow> exhausted_cache \<Rightarrow> address_context \<times> exhausted_cache" where
  "build_address_context H cutoff db u is_revoked is_expired rotation_periods now cache =
     (if is_revoked \<or> is_expired then (disabled_context, cache)
      else
        (let today = day_index now;
             base = \<lparr>ac_user_id = sb_id u, ac_day_index = today, ac_offset = or0 (sb_offset u), ac_weights_by_day = [],
                     ac_exhausted = [], ac_enabled = True, ac_pins = get_active_pins db (sb_id u) now\<rparr>
         in if rotation_periods = [] then (base, cache)
            else (let (ex, cache') = get_exhausted_nodes cutoff now db cache
                  in (base\<lparr>ac_weights_by_day := snapshots_for H db (sb_id u) today rotation_periods,
                           ac_exhausted := ex\<rparr>, cache'))))"

section \<open>The journal (app/services/address_history.py)\<close>

datatype source = FromPin | FromAuto | Unknown

record assignment =
  as_host :: int
  as_remark :: string
  as_source :: source
  as_restorable :: bool
  as_nodes :: "int list"
  as_addresses :: "string list"

definition unknown_assignment :: "ah_host \<Rightarrow> assignment" where
  "unknown_assignment h = \<lparr>as_host = ah_id h, as_remark = ah_remark h, as_source = Unknown, as_restorable = False,
     as_nodes = [], as_addresses = []\<rparr>"

definition visible_inbound_tags :: "subscriber \<Rightarrow> string list" where
  "visible_inbound_tags u = concat (map snd (sb_inbounds u))"

definition list_pinnable_hosts :: "(ah_host \<Rightarrow> bool) \<Rightarrow> ah_db \<Rightarrow> subscriber \<Rightarrow> (int \<times> string \<times> int list) list" where
  "list_pinnable_hosts classify db u =
     map (\<lambda>h. (ah_id h, ah_remark h, map an_id (visible_nodes h)))
       (filter (\<lambda>h. \<not> classify h \<and> addresses_from_nodes h \<and> visible_nodes h \<noteq> [] \<and>
            host_allowed_for_bot (ah_bots h) (sb_bot u) \<and> ah_inbound_tag h \<in> set (visible_inbound_tags u))
         (sort_key ah_id (filter (\<lambda>h. \<not> ah_disabled h) (db_hosts db))))"

record history_scope =
  sc_user_id :: int
  sc_offset :: int
  sc_rotation_at :: "int option"
  sc_hosts :: "ah_host list"
  sc_composition :: "(int \<times> (int \<times> payload) list) list"
  sc_pins :: "pin_row list"
  sc_snapshots :: "(int \<times> weights) list"
  sc_node_limits :: "(int \<times> int) list"

definition pins_on_day :: "history_scope \<Rightarrow> int \<Rightarrow> int \<Rightarrow> (int \<times> int list) list" where
  "pins_on_day sc day_start day_end =
     fold (\<lambda>p d. if pn_created p < day_end \<and> pn_expires p > day_start then dput (pn_host p) (pn_nodes p) d else d)
       (sc_pins sc) []"

definition weights_for :: "hasher \<Rightarrow> history_scope \<Rightarrow> int \<Rightarrow> int \<Rightarrow> weights" where
  "weights_for H sc day period_days =
     (let snapshot_day = epoch_start_day H (sc_user_id sc) day period_days in
      case latest_epoch (map fst (sc_snapshots sc)) snapshot_day of
        None \<Rightarrow> []
      | Some latest \<Rightarrow> if snapshot_day - latest > WEIGHT_SNAPSHOT_MAX_AGE_DAYS then []
                       else dget_or (sc_snapshots sc) latest [])"

definition build_scope :: "(ah_host \<Rightarrow> bool) \<Rightarrow> ah_db \<Rightarrow> subscriber option \<Rightarrow> int \<Rightarrow> int \<Rightarrow> int \<Rightarrow> history_scope" where
  "build_scope classify db dbuser user_id first_day last_day =
     (let bot_name = Option.bind dbuser sb_bot;
          visible = (case dbuser of None \<Rightarrow> [] | Some u \<Rightarrow> visible_inbound_tags u);
          hosts = filter (\<lambda>h. \<not> ah_disabled h \<and> host_allowed_for_bot (ah_bots h) bot_name \<and>
                       (dbuser = None \<or> ah_inbound_tag h \<in> set visible)) (sort_key ah_id (db_hosts db));
          uncertain = map ah_id (filter (\<lambda>h. ah_hidden h \<or> classify h) hosts);
          composition = map (\<lambda>(day, d). (day, filter (\<lambda>hp. fst hp \<notin> set uncertain) d))
                          (get_host_composition_range db first_day last_day)
      in \<lparr>sc_user_id = user_id,
          sc_offset = (case dbuser of None \<Rightarrow> 0 | Some u \<Rightarrow> or0 (sb_offset u)),
          sc_rotation_at = Option.bind dbuser sb_rotation_at,
          sc_hosts = hosts,
          sc_composition = composition,
          sc_pins = get_pins_covering_range db user_id (day_start_at first_day) (day_start_at (last_day + 1)),
          sc_snapshots = get_weight_snapshots_range db (first_day - ARCHIVE_RETENTION_DAYS) last_day,
          sc_node_limits = get_node_limits db\<rparr>)"

definition select_items :: "payload \<Rightarrow> int list \<Rightarrow> payload" where
  "select_items items chosen = filter (\<lambda>i. case fst i of None \<Rightarrow> False | Some n \<Rightarrow> n \<in> set chosen) items"

definition item_nodes :: "payload \<Rightarrow> int list" where
  "item_nodes items = concat (map (\<lambda>i. case fst i of None \<Rightarrow> [] | Some n \<Rightarrow> [n]) items)"

definition known :: "source \<Rightarrow> ah_host \<Rightarrow> int list \<Rightarrow> string list \<Rightarrow> assignment" where
  "known src h ns addrs = \<lparr>as_host = ah_id h, as_remark = ah_remark h, as_source = src, as_restorable = True,
     as_nodes = ns, as_addresses = addrs\<rparr>"

definition offset_known :: "history_scope \<Rightarrow> int \<Rightarrow> bool" where
  "offset_known sc day = (case sc_rotation_at sc of None \<Rightarrow> True | Some t \<Rightarrow> day_start_at day \<ge> t)"

text \<open>One host of one day: the body of the loop of \<open>_reconstruct_day\<close>.\<close>

definition reconstruct_host :: "hasher \<Rightarrow> int \<Rightarrow> history_scope \<Rightarrow> int \<Rightarrow> ah_host \<Rightarrow> assignment" where
  "reconstruct_host H cutoff sc day h =
     (case dget (dget_or (sc_composition sc) day []) (ah_id h) of
        None \<Rightarrow> unknown_assignment h
      | Some items \<Rightarrow>
          (let from_nodes = items \<noteq> [] \<and> list_all (\<lambda>i. fst i \<noteq> None) items;
               nodes_all = item_nodes items;
               addresses_all = map snd items;
               pinned = (case dget (pins_on_day sc (day_start_at day) (day_start_at (day + 1))) (ah_id h) of
                           None \<Rightarrow> []
                         | Some ns \<Rightarrow> if from_nodes then filter (\<lambda>n. n \<in> set nodes_all) ns else [])
           in if pinned \<noteq> [] then
                known FromPin h (item_nodes (select_items items pinned)) (map snd (select_items items pinned))
              else
                (let settings = settings_from_host (ah_subset h);
                     sz = (if narrows settings then ss_size settings else 0)
                 in if sz \<le> 0 \<or> int (length addresses_all) \<le> sz then known FromAuto h nodes_all addresses_all
                    else (let w = weights_for H sc day (ss_rotation_days settings) in
                      if w = [] then unknown_assignment h
                      else if \<not> offset_known sc day then unknown_assignment h
                      else (let epoch = epoch_for H (sc_user_id sc) day (ss_rotation_days settings) (sc_offset sc) in
                        if from_nodes then
                          (let chosen = select_items items (choose_nodes H (sc_user_id sc) nodes_all w
                                 (exhausted_from_snapshot w (sc_node_limits sc) cutoff) sz epoch)
                           in known FromAuto h (item_nodes chosen) (map snd chosen))
                        else
                          (let chosen = pick_keys H (sc_user_id sc) (map (\<lambda>a. (AddrKey a, 0)) addresses_all) sz epoch
                           in known FromAuto h [] (filter (\<lambda>a. AddrKey a \<in> set chosen) addresses_all)))))))"

definition reconstruct_day :: "hasher \<Rightarrow> int \<Rightarrow> history_scope \<Rightarrow> int \<Rightarrow> assignment list" where
  "reconstruct_day H cutoff sc day = map (reconstruct_host H cutoff sc day) (sc_hosts sc)"

definition reconstruct_range ::
  "hasher \<Rightarrow> int \<Rightarrow> (ah_host \<Rightarrow> bool) \<Rightarrow> ah_db \<Rightarrow> subscriber option \<Rightarrow> int \<Rightarrow> int \<Rightarrow> int \<Rightarrow> (int \<times> assignment list) list" where
  "reconstruct_range H cutoff classify db dbuser user_id first_day last_day =
     (let sc = build_scope classify db dbuser user_id first_day last_day
      in map (\<lambda>d. (d, reconstruct_day H cutoff sc d)) [first_day..last_day])"

definition reconstruct ::
  "hasher \<Rightarrow> int \<Rightarrow> (ah_host \<Rightarrow> bool) \<Rightarrow> ah_db \<Rightarrow> subscriber option \<Rightarrow> int \<Rightarrow> int \<Rightarrow> assignment list" where
  "reconstruct H cutoff classify db dbuser user_id day =
     dget_or (reconstruct_range H cutoff classify db dbuser user_id day day) day []"

section \<open>Addresses and nodes of a host correspond\<close>

lemma resolve_lengths:
  "addresses_from_nodes h \<Longrightarrow> length (resolve_host_addresses h) = length (resolve_host_node_ids h)"
  by (simp add: resolve_host_addresses_def resolve_host_node_ids_def)

lemma host_payload_addresses: "map snd (host_payload h) = resolve_host_addresses h"
  by (simp add: host_payload_def Let_def comp_def resolve_lengths)

lemma host_payload_nodes:
  "item_nodes (host_payload h) = (if addresses_from_nodes h then resolve_host_node_ids h else [])"
proof (cases "addresses_from_nodes h")
  case True
  have "item_nodes (zip (map Some ns) as) = ns" if "length as = length ns" for ns and as :: "string list"
    using that by (induction as ns rule: list_induct2) (auto simp: item_nodes_def)
  with True show ?thesis by (simp add: host_payload_def Let_def resolve_lengths)
next
  case False
  have "item_nodes (map (\<lambda>a. (None, a)) as) = []" for as :: "string list"
    by (induction as) (auto simp: item_nodes_def)
  with False show ?thesis by (simp add: host_payload_def Let_def)
qed

text \<open>A payload whose items all name a node is the list of its nodes zipped with its addresses.\<close>

lemma items_zip:
  assumes "list_all (\<lambda>i. fst i \<noteq> None) items"
  shows "length (item_nodes items) = length items"
    and "select_items items chosen = map (\<lambda>(a, n). (Some n, a)) (filter (\<lambda>p. snd p \<in> set chosen) (zip (map snd items) (item_nodes items)))"
  using assms by (induction items) (auto simp: item_nodes_def select_items_def)

lemma select_items_addresses:
  assumes "list_all (\<lambda>i. fst i \<noteq> None) items"
  shows "map snd (select_items items chosen) = select_pairs (map snd items) (item_nodes items) chosen"
  by (simp add: items_zip(2) [OF assms] select_pairs_def case_prod_unfold comp_def)

lemma choose_nodes_all_alive:
  assumes "set ns \<inter> set ex = {}" and "int (length ns) \<le> sz"
  shows "choose_nodes H u ns w ex sz e = ns"
proof -
  have "filter (\<lambda>n. n \<notin> set ex) ns = ns"
    using assms(1) by (auto simp: filter_id_conv)
  with assms(2) show ?thesis by (simp add: choose_nodes_def)
qed

lemma select_pairs_all:
  "length as = length ns \<Longrightarrow> select_pairs as ns ns = as"
proof -
  assume len: "length as = length ns"
  have "filter (\<lambda>p. snd p \<in> set ns) (zip as ns) = zip as ns"
    by (auto simp: filter_id_conv dest: set_zip_rightD)
  with len show ?thesis by (simp add: select_pairs_def)
qed

section \<open>The last row of a host decides\<close>

lemma fold_dput_get:
  "dget (fold (\<lambda>p d. dput (k p) (v p) d) rows d) h =
     (case filter (\<lambda>p. k p = h) (rev rows) of [] \<Rightarrow> dget d h | p # _ \<Rightarrow> Some (v p))"
proof (induction rows rule: rev_induct)
  case (snoc p rows)
  then show ?case by simp
qed simp

lemma pins_by_host_get:
  "dget (pins_by_host rows) h =
     (case filter (\<lambda>p. pn_host p = h) (rev rows) of [] \<Rightarrow> None | p # _ \<Rightarrow> Some (pn_nodes p))"
  unfolding pins_by_host_def fold_dput_get by (simp split: list.split)

lemma insort_key_map: "(\<And>x. k (f x) = k x) \<Longrightarrow> insort_key k (f x) (map f xs) = map f (insort_key k x xs)"
  by (induction xs) auto

lemma sort_key_map: "(\<And>x. k (f x) = k x) \<Longrightarrow> sort_key k (map f xs) = map f (sort_key k xs)"
  by (induction xs) (auto simp: insort_key_map)

lemma pins_by_host_map:
  assumes "\<And>p. pn_host (f p) = pn_host p" and "\<And>p. pn_nodes (f p) = pn_nodes p"
  shows "pins_by_host (map f rows) = pins_by_host rows"
proof -
  have "fold (\<lambda>p d. dput (pn_host p) (pn_nodes p) d) (map f rows) d =
      fold (\<lambda>p d. dput (pn_host p) (pn_nodes p) d) rows d" for d
    by (induction rows arbitrary: d) (auto simp: assms)
  then show ?thesis by (simp add: pins_by_host_def)
qed

lemma filter_map_same:
  assumes "\<And>p. p \<in> set xs \<Longrightarrow> P (f p) = P p"
  shows "filter P (map f xs) = map f (filter P xs)"
  using assms by (induction xs) auto

lemma pin_order_Nil [simp]: "pin_order [] = []"
  by (simp add: pin_order_def)

lemma filter_map_fixed:
  assumes "\<And>p. Q (f p) = Q p" and "\<And>p. Q p \<Longrightarrow> f p = p"
  shows "filter Q (map f ps) = filter Q ps"
  using assms by (induction ps) auto

lemma pin_order_filter: "filter P (pin_order rows) = pin_order (filter P rows)"
  by (simp add: pin_order_def filter_sort)

lemma pins_on_day_filter:
  "pins_on_day sc ds de = pins_by_host (filter (\<lambda>p. pn_created p < de \<and> pn_expires p > ds) (sc_pins sc))"
proof -
  have "fold (\<lambda>p d. if pn_created p < de \<and> pn_expires p > ds then dput (pn_host p) (pn_nodes p) d else d) ps d =
      fold (\<lambda>p d. dput (pn_host p) (pn_nodes p) d) (filter (\<lambda>p. pn_created p < de \<and> pn_expires p > ds) ps) d" for ps d
    by (induction ps arbitrary: d) auto
  then show ?thesis by (simp add: pins_on_day_def pins_by_host_def)
qed

section \<open>The nearest snapshot\<close>

lemma foldr_max: "foldr max xs a = (m :: int) \<Longrightarrow> (m = a \<or> m \<in> set xs) \<and> a \<le> m \<and> (\<forall>x \<in> set xs. x \<le> m)"
  by (induction xs arbitrary: m) (auto simp: max_def)

lemma latest_epoch_Some:
  "latest_epoch es e = Some m \<longleftrightarrow> m \<in> set es \<and> m \<le> e \<and> (\<forall>x \<in> set es. x \<le> e \<longrightarrow> x \<le> m)"
proof -
  let ?b = "filter (\<lambda>x. x \<le> e) es"
  show ?thesis
  proof (cases "?b = []")
    case True
    then show ?thesis by (auto simp: latest_epoch_def filter_empty_conv Let_def)
  next
    case False
    then have hd: "hd ?b \<in> set ?b" by (rule hd_in_set)
    define n where "n = foldr max ?b (hd ?b)"
    have n: "n \<in> set ?b" "\<forall>x \<in> set ?b. x \<le> n"
      using foldr_max [of ?b "hd ?b" n] hd by (auto simp: n_def)
    have "latest_epoch es e = Some n"
      using False by (simp add: latest_epoch_def n_def Let_def)
    with n show ?thesis by (auto intro: antisym)
  qed
qed

lemma latest_epoch_None: "latest_epoch es e = None \<longleftrightarrow> (\<forall>x \<in> set es. \<not> x \<le> e)"
  by (auto simp: latest_epoch_def filter_empty_conv Let_def)

lemma snapshots_range_fold:
  "dget_or (fold (\<lambda>r d. dput (wr_epoch r) (put_weight r (dget_or d (wr_epoch r) [])) d) rows d) e [] =
     fold put_weight (filter (\<lambda>r. wr_epoch r = e) rows) (dget_or d e [])"
  by (induction rows arbitrary: d) auto

lemma snapshots_range_keys_fold:
  "set (map fst (fold (\<lambda>r d. dput (wr_epoch r) (put_weight r (dget_or d (wr_epoch r) [])) d) rows d)) =
     set (map fst d) \<union> wr_epoch ` set rows"
  by (induction rows arbitrary: d) (auto simp: dkeys_dput simp del: set_map)

definition in_range :: "int \<Rightarrow> int \<Rightarrow> weight_row \<Rightarrow> bool" where
  "in_range f l r \<longleftrightarrow> f - WEIGHT_SNAPSHOT_MAX_AGE_DAYS \<le> wr_epoch r \<and> wr_epoch r \<le> l"

lemma snapshots_range_get:
  assumes "f - WEIGHT_SNAPSHOT_MAX_AGE_DAYS \<le> e" and "e \<le> l"
  shows "dget_or (get_weight_snapshots_range db f l) e [] = fold put_weight (filter (\<lambda>r. wr_epoch r = e) (db_weights db)) []"
proof -
  have "filter (\<lambda>r. wr_epoch r = e) (filter (\<lambda>r. f - WEIGHT_SNAPSHOT_MAX_AGE_DAYS \<le> wr_epoch r \<and> wr_epoch r \<le> l) rows) =
      filter (\<lambda>r. wr_epoch r = e) rows" for rows :: "weight_row list"
    using assms by (induction rows) auto
  then show ?thesis by (simp only: get_weight_snapshots_range_def snapshots_range_fold dget_or_Nil)
qed

lemma snapshots_range_keys:
  "set (map fst (get_weight_snapshots_range db f l)) =
     {e \<in> wr_epoch ` set (db_weights db). f - WEIGHT_SNAPSHOT_MAX_AGE_DAYS \<le> e \<and> e \<le> l}"
  unfolding get_weight_snapshots_range_def snapshots_range_keys_fold by auto

lemma weights_for_snapshot:
  assumes "sc_snapshots sc = get_weight_snapshots_range db f l"
    and "f \<le> epoch_start_day H (sc_user_id sc) day p" and "epoch_start_day H (sc_user_id sc) day p \<le> l"
  shows "weights_for H sc day p = get_weight_snapshot db (epoch_start_day H (sc_user_id sc) day p)"
proof -
  let ?e = "epoch_start_day H (sc_user_id sc) day p"
  let ?all = "map wr_epoch (db_weights db)"
  let ?rng = "map fst (sc_snapshots sc)"
  have rng: "set ?rng = {e \<in> set ?all. f - WEIGHT_SNAPSHOT_MAX_AGE_DAYS \<le> e \<and> e \<le> l}"
    unfolding assms(1) snapshots_range_keys by simp
  show ?thesis
  proof (cases "latest_epoch ?all ?e")
    case None
    then have "latest_epoch ?rng ?e = None"
      unfolding latest_epoch_None using rng by blast
    with None show ?thesis by (simp add: weights_for_def get_weight_snapshot_def)
  next
    case (Some m)
    note m = Some [unfolded latest_epoch_Some]
    show ?thesis
    proof (cases "?e - m > WEIGHT_SNAPSHOT_MAX_AGE_DAYS")
      case True
      have "?e - m' > WEIGHT_SNAPSHOT_MAX_AGE_DAYS" if "latest_epoch ?rng ?e = Some m'" for m'
      proof -
        have "m' \<le> m" using that [unfolded latest_epoch_Some] m rng by blast
        with True show ?thesis by linarith
      qed
      with True Some show ?thesis
        by (auto simp: weights_for_def get_weight_snapshot_def Let_def split: option.split)
    next
      case False
      then have m_range: "f - WEIGHT_SNAPSHOT_MAX_AGE_DAYS \<le> m" "m \<le> l"
        using assms(2,3) m by auto
      then have "m \<in> set ?rng" using m rng by blast
      then have "latest_epoch ?rng ?e = Some m"
        unfolding latest_epoch_Some using m rng by blast
      with False Some snapshots_range_get [OF m_range] assms(1) show ?thesis
        by (simp add: weights_for_def get_weight_snapshot_def Let_def)
    qed
  qed
qed

section \<open>Snapshots of the composition\<close>

definition comp_keys :: "ah_db \<Rightarrow> (int \<times> int) list" where
  "comp_keys db = map (\<lambda>r. (cr_epoch r, cr_host r)) (db_comps db)"

lemma write_keeps:
  "set (db_comps db) \<subseteq> set (db_comps (write_host_composition_snapshot e h p c hid db))"
  by (auto simp: write_host_composition_snapshot_def)

lemma write_distinct:
  "distinct (comp_keys db) \<Longrightarrow> distinct (comp_keys (write_host_composition_snapshot e h p c hid db))"
  by (auto simp: write_host_composition_snapshot_def comp_keys_def list_ex_iff)

lemma write_present:
  "\<exists>r \<in> set (db_comps (write_host_composition_snapshot e h p c hid db)). cr_epoch r = e \<and> cr_host r = h"
  by (auto simp: write_host_composition_snapshot_def list_ex_iff)

lemma write_fold:
  fixes e classify
  defines "w \<equiv> \<lambda>h d. write_host_composition_snapshot e (ah_id h) (if classify h then [] else host_payload h)
                (classify h) (ah_hidden h) d"
  shows "set (db_comps db) \<subseteq> set (db_comps (fold w hs db)) \<and>
    (distinct (comp_keys db) \<longrightarrow> distinct (comp_keys (fold w hs db))) \<and>
    (\<forall>h \<in> set hs. \<exists>r \<in> set (db_comps (fold w hs db)). cr_epoch r = e \<and> cr_host r = ah_id h)"
proof (induction hs arbitrary: db)
  case (Cons h hs)
  have "set (db_comps db) \<subseteq> set (db_comps (w h db))"
    "distinct (comp_keys db) \<Longrightarrow> distinct (comp_keys (w h db))"
    "\<exists>r \<in> set (db_comps (w h db)). cr_epoch r = e \<and> cr_host r = ah_id h"
    unfolding w_def by (rule write_keeps, rule write_distinct, assumption, rule write_present)
  with Cons.IH [of "w h db"] show ?case by auto
qed simp

section \<open>The journal follows the live selection\<close>

definition live_context :: "hasher \<Rightarrow> int \<Rightarrow> history_scope \<Rightarrow> int \<Rightarrow> subset_settings \<Rightarrow> address_context" where
  "live_context H cutoff sc day s =
     (let w = weights_for H sc day (ss_rotation_days s) in
      \<lparr>ac_user_id = sc_user_id sc, ac_day_index = day, ac_offset = sc_offset sc,
       ac_weights_by_day = [(epoch_start_day H (sc_user_id sc) day (ss_rotation_days s), w)],
       ac_exhausted = exhausted_from_snapshot w (sc_node_limits sc) cutoff,
       ac_enabled = True,
       ac_pins = pins_on_day sc (day_start_at day) (day_start_at (day + 1))\<rparr>)"

definition payload_from_nodes :: "payload \<Rightarrow> bool" where
  "payload_from_nodes items \<longleftrightarrow> items \<noteq> [] \<and> list_all (\<lambda>i. fst i \<noteq> None) items"

lemma live_context_simps:
  "ac_user_id (live_context H c sc d s) = sc_user_id sc"
  "ac_day_index (live_context H c sc d s) = d"
  "ac_offset (live_context H c sc d s) = sc_offset sc"
  "ac_enabled (live_context H c sc d s)"
  "ac_pins (live_context H c sc d s) = pins_on_day sc (day_start_at d) (day_start_at (d + 1))"
  "ctx_weights H (live_context H c sc d s) s = weights_for H sc d (ss_rotation_days s)"
  "ac_exhausted (live_context H c sc d s) =
     exhausted_from_snapshot (weights_for H sc d (ss_rotation_days s)) (sc_node_limits sc) c"
  by (simp_all add: live_context_def ctx_weights_def dget_or_def Let_def)

lemma reconstruct_host_live:
  assumes items: "dget (dget_or (sc_composition sc) day []) (ah_id h) = Some items"
    and restorable: "as_restorable (reconstruct_host H cutoff sc day h)"
    and room: "payload_from_nodes items \<Longrightarrow> narrows (settings_from_host (ah_subset h)) \<Longrightarrow>
      int (length items) \<le> ss_size (settings_from_host (ah_subset h)) \<Longrightarrow>
      set (item_nodes items) \<inter> set (ac_exhausted (live_context H cutoff sc day (settings_from_host (ah_subset h)))) = {}"
  shows "as_addresses (reconstruct_host H cutoff sc day h) =
    ctx_pick H (live_context H cutoff sc day (settings_from_host (ah_subset h)))
      (map snd items) (item_nodes items) (payload_from_nodes items) (Some (ah_id h)) (settings_from_host (ah_subset h))"
proof -
  define s where "s = settings_from_host (ah_subset h)"
  define ctx where "ctx = live_context H cutoff sc day s"
  define pinned where "pinned = pinned_nodes ctx (item_nodes items) (payload_from_nodes items) (Some (ah_id h))"
  have pinned_eq: "pinned = (case dget (pins_on_day sc (day_start_at day) (day_start_at (day + 1))) (ah_id h) of
      None \<Rightarrow> [] | Some ns \<Rightarrow> if payload_from_nodes items then filter (\<lambda>n. n \<in> set (item_nodes items)) ns else [])"
    by (simp add: pinned_def pinned_nodes_def ctx_def live_context_simps)
  have pairs: "map snd (select_items items chosen) = select_pairs (map snd items) (item_nodes items) chosen"
    if "payload_from_nodes items" for chosen
    using that select_items_addresses by (simp add: payload_from_nodes_def)
  let ?sz = "if narrows s then ss_size s else 0"
  let ?w = "weights_for H sc day (ss_rotation_days s)"
  let ?ex = "exhausted_from_snapshot ?w (sc_node_limits sc) cutoff"
  let ?e = "epoch_for H (sc_user_id sc) day (ss_rotation_days s) (sc_offset sc)"
  have rec: "reconstruct_host H cutoff sc day h =
    (if pinned \<noteq> [] then known FromPin h (item_nodes (select_items items pinned)) (map snd (select_items items pinned))
     else if ?sz \<le> 0 \<or> int (length items) \<le> ?sz then known FromAuto h (item_nodes items) (map snd items)
     else if ?w = [] then unknown_assignment h
     else if \<not> offset_known sc day then unknown_assignment h
     else if payload_from_nodes items then
       known FromAuto h (item_nodes (select_items items (choose_nodes H (sc_user_id sc) (item_nodes items) ?w ?ex ?sz ?e)))
         (map snd (select_items items (choose_nodes H (sc_user_id sc) (item_nodes items) ?w ?ex ?sz ?e)))
     else known FromAuto h [] (filter (\<lambda>a. AddrKey a \<in> set (pick_keys H (sc_user_id sc)
            (map (\<lambda>a. (AddrKey a, 0)) (map snd items)) ?sz ?e)) (map snd items)))"
    using items unfolding reconstruct_host_def pinned_eq payload_from_nodes_def s_def Let_def by simp
  have pick: "ctx_pick H ctx (map snd items) (item_nodes items) (payload_from_nodes items) (Some (ah_id h)) s =
    (if pinned \<noteq> [] then select_pairs (map snd items) (item_nodes items) pinned
     else if \<not> ac_enabled ctx \<or> \<not> narrows s then map snd items
     else if payload_from_nodes items \<and> item_nodes items \<noteq> [] then
       pick_by_nodes H ctx (map snd items) (item_nodes items) s
     else if int (length items) \<le> ss_size s then map snd items
     else filter (\<lambda>a. AddrKey a \<in> set (pick_keys H (ac_user_id ctx) (map (\<lambda>a. (AddrKey a, 0)) (map snd items)) (ss_size s)
            (epoch_for H (ac_user_id ctx) (ac_day_index ctx) (ss_rotation_days s) (ac_offset ctx)))) (map snd items))"
    unfolding ctx_pick_def pinned_def Let_def by simp
  have addrs: "as_addresses (known src h ns as) = as" "\<not> as_restorable (unknown_assignment h)" for src ns as
    by (simp_all add: known_def unknown_assignment_def)
  consider (pin) "pinned \<noteq> []" | (off) "pinned = []" "\<not> narrows s"
    | (small) "pinned = []" "narrows s" "int (length items) \<le> ss_size s"
    | (big) "pinned = []" "narrows s" "\<not> int (length items) \<le> ss_size s"
    by blast
  then have "as_addresses (reconstruct_host H cutoff sc day h) =
      ctx_pick H ctx (map snd items) (item_nodes items) (payload_from_nodes items) (Some (ah_id h)) s"
  proof cases
    case pin
    then have "payload_from_nodes items"
      unfolding pinned_eq by (auto split: option.splits if_splits)
    with pin show ?thesis
      unfolding rec pick by (simp add: addrs pairs)
  next
    case off
    then show ?thesis
      by (simp add: rec addrs pick)
  next
    case small
    have "ctx_pick H ctx (map snd items) (item_nodes items) (payload_from_nodes items) (Some (ah_id h)) s = map snd items"
    proof (cases "payload_from_nodes items")
      case True
      then have len: "length (item_nodes items) = length items"
        by (simp add: payload_from_nodes_def items_zip)
      have "choose_nodes H (sc_user_id sc) (item_nodes items) ?w ?ex (ss_size s) ?e = item_nodes items"
        using room [OF True] small len by (intro choose_nodes_all_alive) (simp_all add: s_def live_context_simps)
      with small True len show ?thesis
        unfolding pick by (simp add: pick_by_nodes_def ctx_def live_context_simps select_pairs_all)
    next
      case False
      with small show ?thesis unfolding pick by simp
    qed
    with small show ?thesis by (simp add: rec addrs)
  next
    case big
    then have "0 < ss_size s" by (simp add: narrows_def)
    with big restorable have ok: "?w \<noteq> []" "offset_known sc day"
      by (auto simp: rec addrs split: if_splits)
    show ?thesis
    proof (cases "payload_from_nodes items")
      case True
      then have "length (item_nodes items) = length items" "items \<noteq> []"
        using items_zip(1) [of items] by (simp_all add: payload_from_nodes_def)
      then have "item_nodes items \<noteq> []" by auto
      with big ok True \<open>0 < ss_size s\<close> show ?thesis
        unfolding rec pick by (simp add: addrs pairs pick_by_nodes_def ctx_def live_context_simps)
    next
      case False
      with big ok \<open>0 < ss_size s\<close> show ?thesis
        unfolding rec pick by (simp add: addrs ctx_def live_context_simps comp_def)
    qed
  qed
  then show ?thesis by (simp add: ctx_def s_def)
qed

section \<open>Properties\<close>


text \<open>The weights the journal uses for a past day are the snapshot the live selection read on that
  day: the nearest not later than the start of the user's epoch, and none when it is too old.\<close>

theorem journal_weights_are_live_weights:
  assumes "first_day \<le> day" and "day \<le> last_day" and "p \<le> ARCHIVE_RETENTION_DAYS"
  shows "weights_for H (build_scope classify db dbuser uid first_day last_day) day p =
    get_weight_snapshot db (epoch_start_day H uid day p)"
proof -
  let ?sc = "build_scope classify db dbuser uid first_day last_day"
  have sc: "sc_user_id ?sc = uid"
    "sc_snapshots ?sc = get_weight_snapshots_range db (first_day - ARCHIVE_RETENTION_DAYS) last_day"
    by (simp_all add: build_scope_def Let_def)
  have "first_day - ARCHIVE_RETENTION_DAYS \<le> epoch_start_day H uid day p" "epoch_start_day H uid day p \<le> last_day"
    using epoch_start_day_bounds [of H uid day p] assms by (auto simp: ARCHIVE_RETENTION_DAYS_def max_def split: if_splits)
  with weights_for_snapshot [OF sc(2), of H day p] show ?thesis
    by (simp add: sc(1))
qed

text \<open>Lifting a pin ends it at once and rewrites no history: the host is no longer pinned from now
  on, the pins of every other host and user are as they were, and so is every day that began
  before.\<close>

theorem delete_pin_keeps_history:
  assumes "delete_user_node_pin uid host_id now db = (n, db')"
  shows "(now \<le> t \<longrightarrow> dget (get_active_pins db' uid t) host_id = None) \<and>
    (v \<noteq> uid \<or> h \<noteq> host_id \<longrightarrow> dget (get_active_pins db' v t) h = dget (get_active_pins db v t) h) \<and>
    (day_start < now \<longrightarrow> get_pins_covering_day db' v day_start day_end = get_pins_covering_day db v day_start day_end)"
proof -
  define f :: "pin_row \<Rightarrow> pin_row" where "f = (\<lambda>p. if pn_user p = uid \<and> pn_host p = host_id \<and> pn_expires p > now then p\<lparr>pn_expires := now\<rparr> else p)"
  have pins: "db_pins db' = map f (db_pins db)"
    using assms by (auto simp: delete_user_node_pin_def Let_def f_def)
  have f: "pn_user (f p) = pn_user p" "pn_host (f p) = pn_host p" "pn_created (f p) = pn_created p"
    "pn_id (f p) = pn_id p" "pn_nodes (f p) = pn_nodes p" for p
    by (simp_all add: f_def)
  have gone: "filter (\<lambda>p. pn_host p = host_id) (filter (\<lambda>p. pn_user p = uid \<and> pn_expires p > t) (map f ps)) = []"
    if "now \<le> t" for ps
    unfolding filter_filter filter_map filter_empty_conv using that by (auto simp: f_def filter_empty_conv)
  have others: "filter (\<lambda>p. pn_host p = h) (filter (\<lambda>p. pn_user p = v \<and> pn_expires p > t) (map f ps)) =
      filter (\<lambda>p. pn_host p = h) (filter (\<lambda>p. pn_user p = v \<and> pn_expires p > t) ps)"
    if "v \<noteq> uid \<or> h \<noteq> host_id" for ps
    unfolding filter_filter by (rule filter_map_fixed) (use that in \<open>auto simp: f_def\<close>)
  have past: "pins_by_host (pin_order (filter (\<lambda>p. pn_user p = v \<and> pn_created p < day_end \<and> pn_expires p > day_start) (map f ps))) =
      pins_by_host (pin_order (filter (\<lambda>p. pn_user p = v \<and> pn_created p < day_end \<and> pn_expires p > day_start) ps))"
    if "day_start < now" for ps
  proof -
    have "filter (\<lambda>p. pn_user p = v \<and> pn_created p < day_end \<and> pn_expires p > day_start) (map f ps) =
        map f (filter (\<lambda>p. pn_user p = v \<and> pn_created p < day_end \<and> pn_expires p > day_start) ps)"
      using that by (intro filter_map_same) (auto simp: f_def)
    moreover have "pin_order (map f qs) = map f (pin_order qs)" for qs
      unfolding pin_order_def by (rule sort_key_map) (simp add: f)
    moreover have "pins_by_host (map f qs) = pins_by_host qs" for qs
      by (rule pins_by_host_map) (simp_all add: f)
    ultimately show ?thesis by simp
  qed
  show ?thesis
    using gone [of "db_pins db"] others [of "db_pins db"] past [of "db_pins db"]
    by (auto simp: get_active_pins_def get_pins_covering_day_def pins pins_by_host_get rev_filter [symmetric]
        pin_order_filter simp del: filter_filter)
qed

text \<open>A new pin takes effect: from its creation until it expires it is the one in force for its
  host, whatever older pins the user has, and other hosts keep theirs.\<close>

theorem create_pin_takes_effect:
  assumes "create_user_node_pin uid host_id nodes expires by_whom note now db = (pin, db')"
    and "\<forall>p \<in> set (db_pins db). pn_created p \<le> now \<and> pn_id p < db_next_pin db"
    and "t < expires"
  shows "dget (get_active_pins db' uid t) host_id = Some nodes \<and>
    (h \<noteq> host_id \<longrightarrow> dget (get_active_pins db' uid t) h = dget (get_active_pins db uid t) h)"
proof -
  define P :: "pin_row \<Rightarrow> bool" where "P = (\<lambda>p. pn_user p = uid \<and> pn_expires p > t)"
  have pin: "pn_user pin = uid" "pn_host pin = host_id" "pn_nodes pin = nodes" "pn_created pin = now"
    "pn_expires pin = expires" "pn_id pin = db_next_pin db" and pins: "db_pins db' = db_pins db @ [pin]"
    using assms(1) by (auto simp: create_user_node_pin_def Let_def)
  have P: "filter P (db_pins db') = filter P (db_pins db) @ [pin]"
    using assms(3) by (simp add: pins P_def pin)
  let ?H = "\<lambda>(g :: int) (p :: pin_row). pn_host p = g"
  have act: "dget (get_active_pins d uid t) g = (case rev (pin_order (filter (?H g) (filter P (db_pins d)))) of
      [] \<Rightarrow> None | p # _ \<Rightarrow> Some (pn_nodes p))" for d g
    by (simp add: get_active_pins_def pins_by_host_get P_def rev_filter [symmetric] pin_order_filter)
  have "pin_order (filter (?H host_id) (filter P (db_pins db)) @ [pin]) =
      pin_order (filter (?H host_id) (filter P (db_pins db))) @ [pin]"
    unfolding pin_order_def by (rule sort_key_snoc) (use assms(2) in \<open>auto simp: pin\<close>)
  then show ?thesis
    by (simp add: act P pin del: filter_filter)
qed

text \<open>The archive of host compositions is written once: a run of the snapshot job adds a row for
  every enabled host that has none for the day, changes no row that exists, and drops only rows older
  than the retention horizon.\<close>

theorem snapshot_job_append_only:
  assumes "distinct (comp_keys db)" and "db' = snapshot_host_composition classify now db"
  shows "distinct (comp_keys db') \<and>
    (\<forall>r \<in> set (db_comps db). day_index now - ARCHIVE_RETENTION_DAYS \<le> cr_epoch r \<longrightarrow> r \<in> set (db_comps db')) \<and>
    (\<forall>h \<in> set (db_hosts db). \<not> ah_disabled h \<longrightarrow>
       (\<exists>r \<in> set (db_comps db'). cr_epoch r = day_index now \<and> cr_host r = ah_id h)) \<and>
    (\<forall>r \<in> set (db_comps db'). day_index now - ARCHIVE_RETENTION_DAYS \<le> cr_epoch r)"
proof -
  define written where "written = fold (\<lambda>h d. write_host_composition_snapshot (day_index now) (ah_id h)
      (if classify h then [] else host_payload h) (classify h) (ah_hidden h) d)
    (filter (\<lambda>h. \<not> ah_disabled h) (db_hosts db)) db"
  have db': "db_comps db' = filter (\<lambda>r. \<not> cr_epoch r < day_index now - ARCHIVE_RETENTION_DAYS) (db_comps written)"
    by (simp add: assms(2) snapshot_host_composition_def written_def prune_host_composition_snapshots_def Let_def)
  have w: "set (db_comps db) \<subseteq> set (db_comps written)" "distinct (comp_keys written)"
    "\<forall>h \<in> set (filter (\<lambda>h. \<not> ah_disabled h) (db_hosts db)). \<exists>r \<in> set (db_comps written). cr_epoch r = day_index now \<and> cr_host r = ah_id h"
    using write_fold [where db = db and e = "day_index now" and classify = classify
        and hs = "filter (\<lambda>h. \<not> ah_disabled h) (db_hosts db)"] assms(1)
    by (simp_all add: written_def)
  have "distinct (comp_keys db')"
    using w(2) unfolding comp_keys_def db' by (rule distinct_map_filter)
  moreover have "0 \<le> ARCHIVE_RETENTION_DAYS"
    by (simp add: ARCHIVE_RETENTION_DAYS_def)
  ultimately show ?thesis
    using w(1,3) by (auto simp: db') force
qed

section \<open>Where the journal overstates\<close>

text \<open>
  A host whose nodes all fit into the configured size is restored as its full composition, without
  looking at the weights. The live selection subtracts exhausted nodes before it compares with the
  size, so on the day below the user got one address and the journal shows two.
\<close>

definition two_node_host :: ah_host where
  "two_node_host = \<lparr>ah_id = 1, ah_remark = ''NL'', ah_address = [], ah_inbound_tag = ''IN'', ah_disabled = False,
     ah_hidden = False, ah_bots = [''bot''],
     ah_nodes = [\<lparr>an_id = 1, an_address = ''10.0.0.1'', an_status = NodeConnected, an_is_bs = False\<rparr>,
                 \<lparr>an_id = 2, an_address = ''10.0.0.2'', an_status = NodeConnected, an_is_bs = False\<rparr>],
     ah_source = ''host'', ah_balancer_nodes = [],
     ah_subset = \<lparr>hs_enabled = True, hs_size = Some 3, hs_rotation_days = Some 1\<rparr>\<rparr>"

definition exhausted_scope :: history_scope where
  "exhausted_scope = \<lparr>sc_user_id = 5, sc_offset = 0, sc_rotation_at = None, sc_hosts = [two_node_host],
     sc_composition = [(10, [(1, host_payload two_node_host)])], sc_pins = [],
     sc_snapshots = [(10, [(1, 900), (2, 0)])], sc_node_limits = [(1, 1000), (2, 1000)]\<rparr>"

lemma two_node_payload: "host_payload two_node_host = [(Some 1, ''10.0.0.1''), (Some 2, ''10.0.0.2'')]"
  by (simp add: host_payload_def two_node_host_def addresses_from_nodes_def resolve_host_addresses_def
      resolve_host_node_ids_def visible_nodes_def)

lemma two_node_settings: "settings_from_host (ah_subset two_node_host) = \<lparr>ss_enabled = True, ss_size = 3, ss_rotation_days = 1\<rparr>"
  by (simp add: settings_from_host_def two_node_host_def)

lemma one_day_epoch: "epoch_start_day H u d 1 = d"
  by (simp add: epoch_start_day_def smear_def)

lemma exhausted_scope_weights: "weights_for H exhausted_scope 10 1 = [(1, 900), (2, 0)]"
  by (simp add: weights_for_def exhausted_scope_def one_day_epoch latest_epoch_def dget_or_def
      WEIGHT_SNAPSHOT_MAX_AGE_DAYS_def)

lemma journal_overstates_small_hosts:
  "as_restorable (reconstruct_host sample_hasher 90 exhausted_scope 10 two_node_host) \<and>
   as_addresses (reconstruct_host sample_hasher 90 exhausted_scope 10 two_node_host) = [''10.0.0.1'', ''10.0.0.2''] \<and>
   ctx_pick sample_hasher (live_context sample_hasher 90 exhausted_scope 10 (settings_from_host (ah_subset two_node_host)))
     [''10.0.0.1'', ''10.0.0.2''] [1, 2] True (Some 1) (settings_from_host (ah_subset two_node_host)) = [''10.0.0.1'']"
proof -
  have pins: "pins_on_day exhausted_scope (day_start_at 10) (day_start_at (10 + 1)) = []"
    by (simp add: pins_on_day_def exhausted_scope_def)
  have comp: "dget (dget_or (sc_composition exhausted_scope) 10 []) (ah_id two_node_host) = Some (host_payload two_node_host)"
    by (simp add: exhausted_scope_def dget_or_def) (simp add: two_node_host_def)
  have journal: "reconstruct_host sample_hasher 90 exhausted_scope 10 two_node_host =
      known FromAuto two_node_host [1, 2] [''10.0.0.1'', ''10.0.0.2'']"
    unfolding reconstruct_host_def comp two_node_payload pins two_node_settings
    by (simp add: narrows_def item_nodes_def)
  have ex: "exhausted_from_snapshot [(1, 900), (2, 0)] (sc_node_limits exhausted_scope) 90 = [2]"
    by (simp add: exhausted_from_snapshot_def exhausted_scope_def is_exhausted_def cutoff_ratio_def)
  have "ctx_pick sample_hasher (live_context sample_hasher 90 exhausted_scope 10 (settings_from_host (ah_subset two_node_host)))
     [''10.0.0.1'', ''10.0.0.2''] [1, 2] True (Some 1) (settings_from_host (ah_subset two_node_host)) = [''10.0.0.1'']"
    unfolding two_node_settings ctx_pick_def pinned_nodes_def pick_by_nodes_def live_context_simps
      subset_settings.simps exhausted_scope_weights ex pins
    by (simp add: narrows_def choose_nodes_def select_pairs_def live_context_simps)
  with journal show ?thesis by (simp add: known_def)
qed

section \<open>Witnesses\<close>


lemma journal_weights_are_live_weights_witness:
  "weights_for sample_hasher (build_scope (\<lambda>_. False)
      \<lparr>db_hosts = [], db_pins = [], db_next_pin = 0, db_weights = [\<lparr>wr_epoch = 9, wr_node = 1, wr_weight = 7\<rparr>],
       db_comps = [], db_limits = []\<rparr> None 5 10 12) 11 2 =
   get_weight_snapshot
      \<lparr>db_hosts = [], db_pins = [], db_next_pin = 0, db_weights = [\<lparr>wr_epoch = 9, wr_node = 1, wr_weight = 7\<rparr>],
       db_comps = [], db_limits = []\<rparr> (epoch_start_day sample_hasher 5 11 2)"
  by (rule journal_weights_are_live_weights) (simp_all add: ARCHIVE_RETENTION_DAYS_def)

definition sample_pin_db :: ah_db where
  "sample_pin_db = \<lparr>db_hosts = [two_node_host],
     db_pins = [\<lparr>pn_id = 0, pn_user = 5, pn_host = 1, pn_nodes = [1], pn_created = 10, pn_expires = 100, pn_by = ''a'', pn_note = None\<rparr>],
     db_next_pin = 1, db_weights = [],
     db_comps = [\<lparr>cr_epoch = 0, cr_host = 1, cr_payload = [], cr_composite = False, cr_hidden = False\<rparr>], db_limits = []\<rparr>"

lemma delete_pin_keeps_history_witness:
  "\<exists>n db'. delete_user_node_pin 5 1 50 sample_pin_db = (n, db') \<and> dget (get_active_pins db' 5 60) 1 = None \<and>
     get_pins_covering_day db' 5 0 40 = get_pins_covering_day sample_pin_db 5 0 40"
proof -
  obtain n db' where run: "delete_user_node_pin 5 1 50 sample_pin_db = (n, db')"
    by (cases "delete_user_node_pin 5 1 50 sample_pin_db")
  with delete_pin_keeps_history [OF run, of 60 5 1 0 40] show ?thesis by auto
qed

lemma create_pin_takes_effect_witness:
  "\<exists>pin db'. create_user_node_pin 5 1 [2] 500 ''a'' None 20 sample_pin_db = (pin, db') \<and>
     dget (get_active_pins db' 5 30) 1 = Some [2]"
proof -
  obtain pin db' where run: "create_user_node_pin 5 1 [2] 500 ''a'' None 20 sample_pin_db = (pin, db')"
    by (cases "create_user_node_pin 5 1 [2] 500 ''a'' None 20 sample_pin_db")
  with create_pin_takes_effect [OF run, of 30 2] show ?thesis
    by (auto simp: sample_pin_db_def)
qed

lemma snapshot_job_append_only_witness:
  "\<lparr>cr_epoch = 0, cr_host = 1, cr_payload = [], cr_composite = False, cr_hidden = False\<rparr>
     \<in> set (db_comps (snapshot_host_composition (\<lambda>_. False) 5 sample_pin_db))"
  using snapshot_job_append_only [of sample_pin_db _ "\<lambda>_. False" 5]
  by (simp add: sample_pin_db_def comp_keys_def day_index_def DAY_def ARCHIVE_RETENTION_DAYS_def)

end
