(* ===== verification/ConnectSlots.thy ===== *)
theory ConnectSlots
  imports Prelude
begin

text \<open>
  Connecting nodes: the connect slots of app/xray/operations.py (one owner per node, a generation
  token, reclaiming of hung owners), the system of threads that use them, the connect procedure
  itself over the node's remote interface, and the health check that schedules connects
  (app/jobs/0_xray_core.py). Times are integers; every block under the module's lock is one step.
\<close>

section \<open>Connect slots (app/xray/operations.py)\<close>

record slots =
  sl_connecting :: "int list"
  sl_started_at :: "(int \<times> int) list"
  sl_generation :: "(int \<times> int) list"

definition is_connect_in_progress :: "slots \<Rightarrow> int \<Rightarrow> bool" where
  "is_connect_in_progress s n \<longleftrightarrow> n \<in> set (sl_connecting s)"

text \<open>\<open>timeout\<close> is \<open>XRAY_NODE_CONNECT_STALE_TIMEOUT\<close>.\<close>

definition is_connect_stale :: "int \<Rightarrow> slots \<Rightarrow> int \<Rightarrow> int \<Rightarrow> bool" where
  "is_connect_stale timeout s n now \<longleftrightarrow>
     (if n \<notin> set (sl_connecting s) then False else now - dget_or (sl_started_at s) n 0 \<ge> timeout)"

definition drop_slot :: "int \<Rightarrow> slots \<Rightarrow> slots" where
  "drop_slot n s = s\<lparr>sl_connecting := removeAll n (sl_connecting s), sl_started_at := ddel n (sl_started_at s)\<rparr>"

definition bump :: "int \<Rightarrow> slots \<Rightarrow> slots" where
  "bump n s = s\<lparr>sl_generation := dput n (dget_or (sl_generation s) n 0 + 1) (sl_generation s)\<rparr>"

definition invalidate_connect_slot :: "int \<Rightarrow> slots \<Rightarrow> slots" where
  "invalidate_connect_slot n s = drop_slot n (bump n s)"

definition take_slot :: "int \<Rightarrow> int \<Rightarrow> slots \<Rightarrow> int \<times> slots" where
  "take_slot n now s =
     (let gen = dget_or (sl_generation s) n 0 + 1 in
      (gen, s\<lparr>sl_generation := dput n gen (sl_generation s),
              sl_connecting := n # removeAll n (sl_connecting s),
              sl_started_at := dput n now (sl_started_at s)\<rparr>))"

definition acquire_connect_slot :: "int \<Rightarrow> int \<Rightarrow> int \<Rightarrow> slots \<Rightarrow> int option \<times> slots" where
  "acquire_connect_slot timeout n now s =
     (if n \<in> set (sl_connecting s) then
        (let age = now - dget_or (sl_started_at s) n now in
         if age \<ge> timeout then
           (let (gen, s') = take_slot n now (drop_slot n (bump n s)) in (Some gen, s'))
         else (None, s))
      else (let (gen, s') = take_slot n now s in (Some gen, s')))"

definition release_connect_slot :: "int \<Rightarrow> int option \<Rightarrow> slots \<Rightarrow> slots" where
  "release_connect_slot n generation s =
     (case generation of
        None \<Rightarrow> drop_slot n s
      | Some g \<Rightarrow> if dget (sl_generation s) n \<noteq> Some g then s else drop_slot n s)"

section \<open>Threads over the slots\<close>

text \<open>A thread is idle or between its acquire and its release, holding the token it was given.\<close>

record system =
  sys_slots :: slots
  sys_held :: "nat \<Rightarrow> (int \<times> int) option"

definition init_system :: system where
  "init_system = \<lparr>sys_slots = \<lparr>sl_connecting = [], sl_started_at = [], sl_generation = []\<rparr>, sys_held = (\<lambda>_. None)\<rparr>"

inductive sys_step :: "int \<Rightarrow> system \<Rightarrow> system \<Rightarrow> bool" for timeout :: int where
  acquire: "sys_held c t = None \<Longrightarrow> acquire_connect_slot timeout n now (sys_slots c) = (Some g, s) \<Longrightarrow>
     sys_step timeout c (c\<lparr>sys_slots := s, sys_held := (sys_held c)(t := Some (n, g))\<rparr>)"
| busy: "sys_held c t = None \<Longrightarrow> acquire_connect_slot timeout n now (sys_slots c) = (None, s) \<Longrightarrow>
     sys_step timeout c (c\<lparr>sys_slots := s\<rparr>)"
| release: "sys_held c t = Some (n, g) \<Longrightarrow>
     sys_step timeout c (c\<lparr>sys_slots := release_connect_slot n (Some g) (sys_slots c), sys_held := (sys_held c)(t := None)\<rparr>)"
| invalidate: "sys_step timeout c (c\<lparr>sys_slots := invalidate_connect_slot n (sys_slots c)\<rparr>)"

inductive_cases sys_stepE: "sys_step timeout c d"

inductive reachable :: "int \<Rightarrow> system \<Rightarrow> bool" for timeout :: int where
  start: "reachable timeout init_system"
| step: "reachable timeout c \<Longrightarrow> sys_step timeout c d \<Longrightarrow> reachable timeout d"

text \<open>The owner of a busy slot is the thread that holds the node's current generation.\<close>

definition owns :: "system \<Rightarrow> nat \<Rightarrow> int \<Rightarrow> bool" where
  "owns c t n \<longleftrightarrow> (\<exists>g. sys_held c t = Some (n, g) \<and> dget (sl_generation (sys_slots c)) n = Some g) \<and>
     n \<in> set (sl_connecting (sys_slots c))"

definition gen_of :: "slots \<Rightarrow> int \<Rightarrow> int" where
  "gen_of s n = dget_or (sl_generation s) n 0"

definition slots_inv :: "system \<Rightarrow> bool" where
  "slots_inv c \<longleftrightarrow>
     (\<forall>t n g. sys_held c t = Some (n, g) \<longrightarrow> 1 \<le> g \<and> g \<le> gen_of (sys_slots c) n) \<and>
     (\<forall>t t' n g. sys_held c t = Some (n, g) \<longrightarrow> sys_held c t' = Some (n, g) \<longrightarrow> t = t') \<and>
     (\<forall>n \<in> set (sl_connecting (sys_slots c)). \<exists>t. sys_held c t = Some (n, gen_of (sys_slots c) n)) \<and>
     (\<forall>n. 0 \<le> gen_of (sys_slots c) n)"

lemma gen_of_simps [simp]:
  "gen_of (drop_slot n s) m = gen_of s m"
  "gen_of (bump n s) m = gen_of s m + (if m = n then 1 else 0)"
  "gen_of (snd (take_slot n now s)) m = gen_of s m + (if m = n then 1 else 0)"
  "gen_of (invalidate_connect_slot n s) m = gen_of s m + (if m = n then 1 else 0)"
  by (auto simp: gen_of_def drop_slot_def bump_def take_slot_def invalidate_connect_slot_def Let_def)

lemma connecting_simps [simp]:
  "set (sl_connecting (drop_slot n s)) = set (sl_connecting s) - {n}"
  "set (sl_connecting (bump n s)) = set (sl_connecting s)"
  "set (sl_connecting (snd (take_slot n now s))) = insert n (set (sl_connecting s))"
  "set (sl_connecting (invalidate_connect_slot n s)) = set (sl_connecting s) - {n}"
  by (auto simp: drop_slot_def bump_def take_slot_def invalidate_connect_slot_def Let_def)

lemma fst_take_slot: "fst (take_slot n now s) = gen_of s n + 1"
  by (simp add: take_slot_def gen_of_def Let_def)

lemma take_slot_pair: "take_slot n now s = (gen_of s n + 1, snd (take_slot n now s))"
  by (simp add: take_slot_def gen_of_def Let_def)

lemma acquire_cases:
  assumes "acquire_connect_slot timeout n now s = (Some g, s')"
  obtains "n \<notin> set (sl_connecting s)" and "g = gen_of s n + 1" and "s' = snd (take_slot n now s)"
  | "n \<in> set (sl_connecting s)" and "g = gen_of s n + 2" and "s' = snd (take_slot n now (drop_slot n (bump n s)))"
    and "timeout \<le> now - dget_or (sl_started_at s) n now"
proof (cases "n \<in> set (sl_connecting s)")
  case True
  with assms take_slot_pair [of n now "drop_slot n (bump n s)"] that(2) show ?thesis
    by (auto simp: acquire_connect_slot_def Let_def case_prod_beta split: if_splits)
next
  case False
  with assms take_slot_pair [of n now s] that(1) show ?thesis
    by (auto simp: acquire_connect_slot_def case_prod_beta)
qed

lemma acquire_Some:
  assumes "acquire_connect_slot timeout n now s = (Some g, s')"
  shows "gen_of s n < g" and "gen_of s' n = g" and "m \<noteq> n \<Longrightarrow> gen_of s' m = gen_of s m"
    and "set (sl_connecting s') = insert n (set (sl_connecting s))"
  using assms by (auto elim!: acquire_cases)

lemma acquire_None: "acquire_connect_slot timeout n now s = (None, s') \<Longrightarrow> s' = s"
  by (auto simp: acquire_connect_slot_def Let_def split: if_splits prod.splits)

lemma release_stale: "gen_of s n \<noteq> g \<Longrightarrow> 1 \<le> g \<Longrightarrow> release_connect_slot n (Some g) s = s"
  by (auto simp: release_connect_slot_def gen_of_def dget_or_def)

lemma release_current: "gen_of s n = g \<Longrightarrow> 1 \<le> g \<Longrightarrow> release_connect_slot n (Some g) s = drop_slot n s"
  by (auto simp: release_connect_slot_def gen_of_def dget_or_def split: option.splits)

lemma slots_inv_init: "slots_inv init_system"
  by (simp add: slots_inv_def init_system_def gen_of_def)

lemma slots_inv_step:
  assumes "slots_inv c" and "sys_step timeout c d"
  shows "slots_inv d"
  using assms(2)
proof cases
  case (acquire t n now g s)
  note a = acquire_Some [OF acquire(3)]
  have held: "1 \<le> k \<and> k \<le> gen_of (sys_slots c) m" if "sys_held c u = Some (m, k)" for u m k
    using assms(1) that by (auto simp: slots_inv_def)
  have gen: "gen_of (sys_slots c) m \<le> gen_of s m" for m
    using a(1) a(2) a(3) [of m] by (cases "m = n") auto
  have held': "1 \<le> k \<and> k \<le> gen_of s m" if "sys_held c u = Some (m, k)" for u m k
    using held [OF that] gen [of m] by linarith
  have fresh: "sys_held c u \<noteq> Some (n, g)" for u
    using held a(1) by force
  have owner: "\<exists>u. ((sys_held c)(t := Some (n, g))) u = Some (m, gen_of s m)" if "m \<in> set (sl_connecting s)" for m
  proof (cases "m = n")
    case True
    with a(2) show ?thesis by auto
  next
    case False
    with that a(4) assms(1) obtain u where u: "sys_held c u = Some (m, gen_of (sys_slots c) m)"
      by (auto simp: slots_inv_def)
    with acquire(2) have "u \<noteq> t" by auto
    with u a(3) [OF False] show ?thesis by auto
  qed
  have "1 \<le> g" using a(1) assms(1) by (smt (verit) slots_inv_def)
  moreover have "0 \<le> gen_of s m" for m
    using gen [of m] assms(1) by (meson order_trans slots_inv_def)
  ultimately show ?thesis
    unfolding slots_inv_def acquire(1) using held' fresh owner assms(1) a(2)
    by (auto simp: slots_inv_def)
next
  case (busy t n now s)
  with assms(1) acquire_None show ?thesis by (metis (no_types, lifting) system.surjective system.update_convs(1))
next
  case (release t n g)
  have g: "1 \<le> g" "g \<le> gen_of (sys_slots c) n"
    using assms(1) release(2) by (auto simp: slots_inv_def)
  have others: "u \<noteq> t" if "sys_held c u = Some (m, gen_of (sys_slots c) m)" "m \<noteq> n \<or> gen_of (sys_slots c) n \<noteq> g" for u m
    using that release(2) by auto
  show ?thesis
  proof (cases "gen_of (sys_slots c) n = g")
    case True
    with assms(1) release_current [OF True g(1)] others show ?thesis
      by (fastforce simp: slots_inv_def release(1))
  next
    case False
    with assms(1) release_stale [OF False g(1)] others show ?thesis
      by (fastforce simp: slots_inv_def release(1))
  qed
next
  case (invalidate n)
  with assms(1) show ?thesis
    by (fastforce simp: slots_inv_def)
qed

lemma reachable_inv: "reachable timeout c \<Longrightarrow> slots_inv c"
  by (induction rule: reachable.induct) (auto intro: slots_inv_init slots_inv_step)


section \<open>Properties of the slots\<close>

lemma owner_unique: "slots_inv c \<Longrightarrow> owns c t n \<Longrightarrow> owns c t' n \<Longrightarrow> t = t'"
  by (auto simp: slots_inv_def owns_def)

lemma busy_has_owner:
  assumes "slots_inv c" and "n \<in> set (sl_connecting (sys_slots c))"
  shows "\<exists>t. owns c t n"
proof -
  from assms obtain t where t: "sys_held c t = Some (n, gen_of (sys_slots c) n)"
    by (auto simp: slots_inv_def)
  with assms(1) have "1 \<le> gen_of (sys_slots c) n"
    by (auto simp: slots_inv_def)
  then have "dget (sl_generation (sys_slots c)) n = Some (gen_of (sys_slots c) n)"
    by (auto simp: gen_of_def dget_or_def split: option.splits)
  with t assms(2) show ?thesis
    by (auto simp: owns_def)
qed

lemma superseded_release:
  assumes "slots_inv c" and "sys_held c t = Some (n, g)" and "\<not> owns c t n" and "n \<in> set (sl_connecting (sys_slots c))"
  shows "release_connect_slot n (Some g) (sys_slots c) = sys_slots c"
  using assms by (auto simp: owns_def release_connect_slot_def)

text \<open>C8: Whatever the interleaving of connects, releases and invalidations, a node's slot is owned by
  at most one thread, a busy slot is owned by a thread that is still running, and a thread whose slot was
  taken over by another connect (after a reclaim or an edit of the node) leaves the slots as they are
  when it releases.\<close>

theorem one_connect_per_node:
  assumes "reachable timeout c"
  shows "(\<forall>n t t'. owns c t n \<longrightarrow> owns c t' n \<longrightarrow> t = t') \<and>
    (\<forall>n. is_connect_in_progress (sys_slots c) n \<longrightarrow> (\<exists>t. owns c t n)) \<and>
    (\<forall>t n g. sys_held c t = Some (n, g) \<longrightarrow> \<not> owns c t n \<longrightarrow> is_connect_in_progress (sys_slots c) n \<longrightarrow>
       release_connect_slot n (Some g) (sys_slots c) = sys_slots c)"
  using reachable_inv [OF assms] owner_unique busy_has_owner superseded_release
  by (auto simp: is_connect_in_progress_def)

definition sample_system :: system where
  "sample_system = init_system\<lparr>
     sys_slots := \<lparr>sl_connecting = [5], sl_started_at = [(5, 200)], sl_generation = [(5, 3)]\<rparr>,
     sys_held := (\<lambda>_. None)(0 := Some (5, 1), 1 := Some (5, 3))\<rparr>"

text \<open>Thread 0 connects node 5 at time 0, hangs, and thread 1 reclaims the slot at time 200.\<close>

lemma sample_system_reachable: "reachable 120 sample_system"
proof -
  define s1 where "s1 = \<lparr>sl_connecting = [5::int], sl_started_at = [(5::int, 0::int)], sl_generation = [(5::int, 1::int)]\<rparr>"
  define c1 where "c1 = init_system\<lparr>sys_slots := s1, sys_held := (sys_held init_system)(0 := Some (5, 1))\<rparr>"
  have "acquire_connect_slot 120 5 0 (sys_slots init_system) = (Some 1, s1)"
    by (simp add: init_system_def acquire_connect_slot_def take_slot_def Let_def s1_def)
  then have "sys_step 120 init_system c1"
    unfolding c1_def by (intro sys_step.acquire) (simp add: init_system_def)
  then have r: "reachable 120 c1"
    by (rule reachable.step [OF reachable.start])
  have "acquire_connect_slot 120 5 200 (sys_slots c1) = (Some 3, sys_slots sample_system)"
    by (simp add: sample_system_def c1_def s1_def acquire_connect_slot_def take_slot_def drop_slot_def bump_def
        dget_or_def Let_def)
  then have "sys_step 120 c1 (c1\<lparr>sys_slots := sys_slots sample_system, sys_held := (sys_held c1)(1 := Some (5, 3))\<rparr>)"
    by (intro sys_step.acquire) (simp add: c1_def init_system_def)
  moreover have "c1\<lparr>sys_slots := sys_slots sample_system, sys_held := (sys_held c1)(1 := Some (5, 3))\<rparr> = sample_system"
    by (simp add: c1_def sample_system_def init_system_def)
  ultimately show ?thesis
    using reachable.step [OF r] by simp
qed

theorem one_connect_per_node_witness:
  "owns sample_system 1 5 \<and> \<not> owns sample_system 0 5 \<and>
   release_connect_slot 5 (Some 1) (sys_slots sample_system) = sys_slots sample_system \<and>
   {t. owns sample_system t 5} = {1}"
proof -
  note p = one_connect_per_node [OF sample_system_reachable]
  have o: "owns sample_system 1 5" "\<not> owns sample_system 0 5"
    by (simp_all add: owns_def sample_system_def init_system_def)
  have "sys_held sample_system 0 = Some (5, 1)" "is_connect_in_progress (sys_slots sample_system) 5"
    by (simp_all add: sample_system_def is_connect_in_progress_def)
  then have "release_connect_slot 5 (Some 1) (sys_slots sample_system) = sys_slots sample_system"
    using conjunct2 [OF conjunct2 [OF p], rule_format, of 0 5 1] o(2) by simp
  moreover have "{t. owns sample_system t 5} = {1}"
    using conjunct1 [OF p, rule_format] o(1) by blast
  ultimately show ?thesis
    using o by (intro conjI)
qed

text \<open>A connect is refused exactly while another one holds the node's slot for less than the
  stale timeout; otherwise it gets a token that no earlier connect of the node had, the slot is
  busy from then on, and only the holder of that token (or an edit of the node) frees it.\<close>

theorem acquire_connect_slot_exact:
  "(fst (acquire_connect_slot timeout n now s) = None \<longleftrightarrow>
      is_connect_in_progress s n \<and> now - dget_or (sl_started_at s) n now < timeout) \<and>
   (\<forall>g s'. acquire_connect_slot timeout n now s = (Some g, s') \<longrightarrow>
      gen_of s n < g \<and> is_connect_in_progress s' n \<and> dget (sl_started_at s') n = Some now \<and>
      \<not> is_connect_in_progress (release_connect_slot n (Some g) s') n \<and>
      (\<forall>h. h \<noteq> g \<longrightarrow> release_connect_slot n (Some h) s' = s'))"
proof -
  have "dget (sl_generation s') n = Some g \<and> dget (sl_started_at s') n = Some now"
    if "acquire_connect_slot timeout n now s = (Some g, s')" for g s'
    using that
    by (cases rule: acquire_cases) (auto simp: take_slot_def gen_of_def bump_def drop_slot_def Let_def)
  moreover have "fst (acquire_connect_slot timeout n now s) = None \<longleftrightarrow>
      is_connect_in_progress s n \<and> now - dget_or (sl_started_at s) n now < timeout"
    by (auto simp: acquire_connect_slot_def is_connect_in_progress_def Let_def case_prod_beta)
  ultimately show ?thesis
    by (auto simp: is_connect_in_progress_def release_connect_slot_def acquire_Some)
qed

theorem acquire_connect_slot_exact_witness:
  "let s = \<lparr>sl_connecting = [5], sl_started_at = [(5, 0)], sl_generation = [(5, 1)]\<rparr>;
       s' = \<lparr>sl_connecting = [5], sl_started_at = [(5, 200)], sl_generation = [(5, 3)]\<rparr>
   in fst (acquire_connect_slot 120 5 119 s) = None \<and>
      acquire_connect_slot 120 5 200 s = (Some 3, s') \<and> release_connect_slot 5 (Some 1) s' = s'"
proof -
  define s :: slots where "s = \<lparr>sl_connecting = [5], sl_started_at = [(5, 0)], sl_generation = [(5, 1)]\<rparr>"
  define s' :: slots where "s' = \<lparr>sl_connecting = [5], sl_started_at = [(5, 200)], sl_generation = [(5, 3)]\<rparr>"
  have a: "acquire_connect_slot 120 5 200 s = (Some 3, s')"
    by (simp add: s_def s'_def acquire_connect_slot_def take_slot_def drop_slot_def bump_def dget_or_def Let_def)
  have b: "is_connect_in_progress s 5" "119 - dget_or (sl_started_at s) 5 119 < (120::int)"
    by (simp_all add: s_def is_connect_in_progress_def dget_or_def)
  have "fst (acquire_connect_slot 120 5 119 s) = None"
    using conjunct1 [OF acquire_connect_slot_exact [of 120 5 119 s]] b by blast
  moreover have "release_connect_slot 5 (Some 1) s' = s'"
    using conjunct2 [OF acquire_connect_slot_exact [of 120 5 200 s]] a by simp
  ultimately show ?thesis
    using a by (simp add: Let_def s_def s'_def)
qed

end
