(* ===== verification/Effects.thy ===== *)
theory Effects
  imports Prelude
begin

text \<open>
  Code that reads and writes a state and may raise: a computation maps a state to an exception or a
  result, and the state it leaves in both cases (Python keeps the effects made before the raise).
  The locale states what a reflexive and transitive relation between the states before and after
  needs to be followed by every computation built from the combinators.
\<close>

type_synonym ('s, 'e, 'a) eff = "'s \<Rightarrow> ('e + 'a) \<times> 's"

definition ret :: "'a \<Rightarrow> ('s, 'e, 'a) eff" where
  "ret x = (\<lambda>s. (Inr x, s))"

definition throw :: "'e \<Rightarrow> ('s, 'e, 'a) eff" where
  "throw e = (\<lambda>s. (Inl e, s))"

definition bindS :: "('s, 'e, 'a) eff \<Rightarrow> ('a \<Rightarrow> ('s, 'e, 'b) eff) \<Rightarrow> ('s, 'e, 'b) eff" where
  "bindS m f = (\<lambda>s. case m s of (Inl e, s') \<Rightarrow> (Inl e, s') | (Inr x, s') \<Rightarrow> f x s')"

abbreviation thenS :: "('s, 'e, 'a) eff \<Rightarrow> ('s, 'e, 'b) eff \<Rightarrow> ('s, 'e, 'b) eff" where
  "thenS m n \<equiv> bindS m (\<lambda>_. n)"

text \<open>\<open>try: m except e: h(e)\<close> and \<open>try: m finally: c\<close> (a raise of \<open>c\<close> replaces the outcome).\<close>

definition catchS :: "('s, 'e, 'a) eff \<Rightarrow> ('e \<Rightarrow> ('s, 'e, 'a) eff) \<Rightarrow> ('s, 'e, 'a) eff" where
  "catchS m h = (\<lambda>s. case m s of (Inl e, s') \<Rightarrow> h e s' | (Inr x, s') \<Rightarrow> (Inr x, s'))"

definition finallyS :: "('s, 'e, 'a) eff \<Rightarrow> ('s, 'e, 'b) eff \<Rightarrow> ('s, 'e, 'a) eff" where
  "finallyS m c = (\<lambda>s. case m s of (r, s') \<Rightarrow>
     (case c s' of (Inl e, s'') \<Rightarrow> (Inl e, s'') | (Inr _, s'') \<Rightarrow> (r, s'')))"

definition getS :: "('s, 'e, 's) eff" where
  "getS = (\<lambda>s. (Inr s, s))"

definition modS :: "('s \<Rightarrow> 's) \<Rightarrow> ('s, 'e, unit) eff" where
  "modS f = (\<lambda>s. (Inr (), f s))"

lemmas eff_defs = ret_def throw_def bindS_def catchS_def finallyS_def getS_def modS_def

lemma bindS_cong [fundef_cong]:
  "m s = m' s' \<Longrightarrow> (\<And>x t. m' s' = (Inr x, t) \<Longrightarrow> f x t = g x t) \<Longrightarrow> bindS m f s = bindS m' g s'"
  by (auto simp: bindS_def split: sum.splits prod.splits)

lemma bindS_ret [simp]: "bindS m ret = m"
  by (rule ext) (simp add: bindS_def ret_def split: prod.split sum.split)

lemma thenS_ret_unit [simp]: "thenS m (ret ()) = m" for m :: "('s, 'e, unit) eff"
  by (rule ext) (simp add: bindS_def ret_def split: prod.split sum.split)

section \<open>Relations that every computation follows\<close>

definition follows :: "('s \<Rightarrow> 's \<Rightarrow> bool) \<Rightarrow> ('s, 'e, 'a) eff \<Rightarrow> bool" where
  "follows R m \<longleftrightarrow> (\<forall>s. R s (snd (m s)))"

lemma followsD: "follows R m \<Longrightarrow> m s = (r, s') \<Longrightarrow> R s s'"
  unfolding follows_def by (metis snd_conv)

locale state_relation =
  fixes R :: "'s \<Rightarrow> 's \<Rightarrow> bool"
  assumes refl_R: "R s s"
    and trans_R: "R s t \<Longrightarrow> R t u \<Longrightarrow> R s u"
begin

lemma f_ret: "follows R (ret x)"
  by (simp add: follows_def ret_def refl_R)

lemma f_throw: "follows R (throw e)"
  by (simp add: follows_def throw_def refl_R)

lemma f_get: "follows R getS"
  by (simp add: follows_def getS_def refl_R)

lemma f_mod: "(\<And>s. R s (f s)) \<Longrightarrow> follows R (modS f)"
  by (simp add: follows_def modS_def)

lemma f_bind: "follows R m \<Longrightarrow> (\<And>x. follows R (f x)) \<Longrightarrow> follows R (bindS m f)"
  unfolding follows_def bindS_def
  by (auto split: prod.split sum.split) (metis snd_conv trans_R)+

lemma f_bind_get: "(\<And>s. R s (snd (f s s))) \<Longrightarrow> follows R (bindS getS f)"
  by (simp add: follows_def bindS_def getS_def)

lemma f_catch: "follows R m \<Longrightarrow> (\<And>e. follows R (h e)) \<Longrightarrow> follows R (catchS m h)"
  unfolding follows_def catchS_def
  by (auto split: prod.split sum.split) (metis snd_conv trans_R)+

lemma f_finally: "follows R m \<Longrightarrow> follows R c \<Longrightarrow> follows R (finallyS m c)"
  unfolding follows_def finallyS_def
  by (auto split: prod.split sum.split) (metis snd_conv trans_R)+

lemma f_if: "(b \<Longrightarrow> follows R m) \<Longrightarrow> (\<not> b \<Longrightarrow> follows R n) \<Longrightarrow> follows R (if b then m else n)"
  by simp

lemmas f_intros = f_ret f_throw f_get f_bind f_catch f_finally f_if

end

section \<open>Outcomes\<close>

text \<open>
  \<open>outcome P m Q E\<close>: started in a state with \<open>P\<close>, a result \<open>x\<close> comes with \<open>Q x\<close> and an
  exception \<open>e\<close> with \<open>E e\<close> of the final state.
\<close>

definition outcome :: "('s \<Rightarrow> bool) \<Rightarrow> ('s, 'e, 'a) eff \<Rightarrow> ('a \<Rightarrow> 's \<Rightarrow> bool) \<Rightarrow> ('e \<Rightarrow> 's \<Rightarrow> bool) \<Rightarrow> bool" where
  "outcome P m Q E \<longleftrightarrow> (\<forall>s. P s \<longrightarrow> (case m s of (Inl e, s') \<Rightarrow> E e s' | (Inr x, s') \<Rightarrow> Q x s'))"

lemma outcome_ret: "(\<And>s. P s \<Longrightarrow> Q x s) \<Longrightarrow> outcome P (ret x) Q E"
  by (simp add: outcome_def ret_def)

lemma outcome_throw: "(\<And>s. P s \<Longrightarrow> E e s) \<Longrightarrow> outcome P (throw e) Q E"
  by (simp add: outcome_def throw_def)

lemma outcome_mod: "(\<And>s. P s \<Longrightarrow> Q () (f s)) \<Longrightarrow> outcome P (modS f) Q E"
  by (simp add: outcome_def modS_def)

lemma outcome_bind:
  "outcome P m Q' E \<Longrightarrow> (\<And>x. outcome (Q' x) (f x) Q E) \<Longrightarrow> outcome P (bindS m f) Q E"
  unfolding outcome_def bindS_def by (fastforce split: prod.splits sum.splits)

lemma outcome_get: "(\<And>s. outcome (\<lambda>t. t = s \<and> P t) (f s) Q E) \<Longrightarrow> outcome P (bindS getS f) Q E"
  unfolding outcome_def bindS_def getS_def by auto

lemma outcome_catch:
  "outcome P m Q E' \<Longrightarrow> (\<And>e. outcome (E' e) (h e) Q E) \<Longrightarrow> outcome P (catchS m h) Q E"
  unfolding outcome_def catchS_def by (fastforce split: prod.splits sum.splits)

lemma outcome_if:
  "(b \<Longrightarrow> outcome P m Q E) \<Longrightarrow> (\<not> b \<Longrightarrow> outcome P n Q E) \<Longrightarrow> outcome P (if b then m else n) Q E"
  by simp

lemma outcome_weaken:
  "outcome P m Q' E' \<Longrightarrow> (\<And>s. P' s \<Longrightarrow> P s) \<Longrightarrow> (\<And>x s. Q' x s \<Longrightarrow> Q x s) \<Longrightarrow> (\<And>e s. E' e s \<Longrightarrow> E e s) \<Longrightarrow>
   outcome P' m Q E"
  unfolding outcome_def by (fastforce split: prod.splits sum.splits)

lemma outcome_case_sum:
  "(\<And>a. x = Inl a \<Longrightarrow> outcome P (f a) Q E) \<Longrightarrow> (\<And>b. x = Inr b \<Longrightarrow> outcome P (g b) Q E) \<Longrightarrow>
   outcome P (case x of Inl a \<Rightarrow> f a | Inr b \<Rightarrow> g b) Q E"
  by (cases x) auto

lemma outcome_result: "outcome P m Q E \<Longrightarrow> P s \<Longrightarrow> m s = (Inr x, t) \<Longrightarrow> Q x t"
  unfolding outcome_def by fastforce

lemma outcome_raise: "outcome P m Q E \<Longrightarrow> P s \<Longrightarrow> m s = (Inl e, t) \<Longrightarrow> E e t"
  unfolding outcome_def by fastforce

end
