(* ===== verification/NodeSession.thy ===== *)
theory NodeSession
  imports Effects
begin

text \<open>
  The REST client of a node, \<open>ReSTXRayNode\<close> of app/xray/node.py: its local session state (session id,
  pinned certificate, HTTP transport, gRPC channel) and its operations against a remote side that
  answers arbitrarily. The remote side is a parameter that sees the whole traffic so far. A temporary
  file is its contents; \<open>session.verify\<close> is the certificate that TLS is pinned to (None: the
  default trust store). The log streaming and the RPyC client are left out.
\<close>

section \<open>State, traffic and exceptions\<close>

datatype node_exc =
    NodeAPIError int json
  | NodeConnectionError string
  | NodeAssertion string
  | NodeXrayError string
  | NodePyError py_error

datatype event =
    Posted string json "string option" "string option"
  | CertFetched
  | GrpcTried string

datatype http_reply =
    NetworkFailure string
  | OtherFailure string
  | Answer int json

record remote =
  rm_post :: "event list \<Rightarrow> http_reply"
  rm_certificate :: "event list \<Rightarrow> string + string"
  rm_grpc_ready :: "event list \<Rightarrow> bool"

record rnode =
  rn_session :: json
  rn_cert :: "string option"
  rn_certfile :: "string option"
  rn_verify :: "string option"
  rn_started :: json
  rn_api :: "string option"
  rn_tags :: "string list option"
  rn_log :: "event list"

type_synonym 'a node_op = "(rnode, node_exc, 'a) eff"

definition new_rnode :: "event list \<Rightarrow> rnode" where
  "new_rnode hist = \<lparr>rn_session = JNull, rn_cert = None, rn_certfile = None, rn_verify = None, rn_started = JBool False,
     rn_api = None, rn_tags = None, rn_log = hist\<rparr>"

section \<open>Classifying failures\<close>

definition is_session_invalid :: "node_exc \<Rightarrow> bool" where
  "is_session_invalid e \<longleftrightarrow> (case e of
     NodeAPIError code detail \<Rightarrow> code = 403 \<or>
       (case detail of JStr d \<Rightarrow> contains ''session id mismatch'' (map lower_char d) | _ \<Rightarrow> False)
   | _ \<Rightarrow> False)"

definition is_transport_error :: "http_reply \<Rightarrow> bool" where
  "is_transport_error r \<longleftrightarrow> (case r of
     NetworkFailure _ \<Rightarrow> True
   | OtherFailure m \<Rightarrow> list_ex (\<lambda>t. contains t (map lower_char m))
       [''timed out'', ''connection aborted'', ''unexpected eof'', ''broken pipe'', ''connection reset'',
        ''write operation timed out'', ''temporarily unavailable'']
   | Answer _ _ \<Rightarrow> False)"

section \<open>Transport\<close>

definition recreate_session :: "rnode \<Rightarrow> rnode" where
  "recreate_session s = s\<lparr>rn_verify := None\<rparr>"

definition reset_local_state :: "bool \<Rightarrow> rnode \<Rightarrow> rnode" where
  "reset_local_state recreate s =
     (let s' = s\<lparr>rn_api := None, rn_certfile := None, rn_session := JNull, rn_started := JBool False\<rparr>
      in if recreate then recreate_session s' else s')"

definition refresh_http_transport :: "rnode \<Rightarrow> rnode" where
  "refresh_http_transport s =
     (let s' = recreate_session s in
      if truthy_str (rn_cert s') then s'\<lparr>rn_certfile := rn_cert s', rn_verify := rn_cert s'\<rparr> else s')"

fun detail_of :: "json \<Rightarrow> json result" where
  "detail_of (JObj d) = jindex d ''detail''"
| "detail_of _ = Inl (TypeError ''detail'')"

text \<open>What \<open>make_request\<close> raises on a reply, if anything.\<close>

definition reply_error :: "http_reply \<Rightarrow> node_exc option" where
  "reply_error r = (case r of
     NetworkFailure m \<Rightarrow> Some (NodeAPIError 0 (JStr m))
   | OtherFailure m \<Rightarrow> Some (NodeAPIError 0 (JStr m))
   | Answer code data \<Rightarrow>
       if code = 200 then None
       else (case detail_of data of Inl e \<Rightarrow> Some (NodePyError e) | Inr d \<Rightarrow> Some (NodeAPIError code d)))"

fun reply_data :: "http_reply \<Rightarrow> json" where
  "reply_data (Answer code data) = data"
| "reply_data _ = JNull"

definition make_request :: "remote \<Rightarrow> string \<Rightarrow> string option \<Rightarrow> json node_op" where
  "make_request env path config =
     thenS (modS (\<lambda>s. s\<lparr>rn_log := rn_log s @ [Posted path (rn_session s) config (rn_verify s)]\<rparr>))
       (bindS getS (\<lambda>s.
          let r = rm_post env (rn_log s) in
          thenS (modS (\<lambda>s. if is_transport_error r then refresh_http_transport s else s))
            (case reply_error r of None \<Rightarrow> ret (reply_data r) | Some e \<Rightarrow> throw e)))"

text \<open>\<open>res.get(k, d)\<close> on the body of a reply.\<close>

definition body_get :: "json \<Rightarrow> string \<Rightarrow> json \<Rightarrow> json node_op" where
  "body_get b k d = (case b of JObj o' \<Rightarrow> ret (dget_or o' k d) | _ \<Rightarrow> throw (NodePyError (AttributeError ''get'')))"

definition catch_api_error :: "'a node_op \<Rightarrow> (node_exc \<Rightarrow> 'a node_op) \<Rightarrow> 'a node_op" where
  "catch_api_error m h = catchS m (\<lambda>e. case e of NodeAPIError _ _ \<Rightarrow> h e | _ \<Rightarrow> throw e)"

text \<open>\<open>retries\<close> is \<open>XRAY_NODE_GRPC_READY_RETRIES\<close>; a call makes \<open>max(1, retries)\<close> attempts.\<close>

fun wait_for_grpc_ready :: "remote \<Rightarrow> nat \<Rightarrow> string \<Rightarrow> unit node_op" where
  "wait_for_grpc_ready env 0 cert = throw (NodeConnectionError ''grpc'')"
| "wait_for_grpc_ready env (Suc k) cert =
     thenS (modS (\<lambda>s. s\<lparr>rn_log := rn_log s @ [GrpcTried cert]\<rparr>))
       (bindS getS (\<lambda>s. if rm_grpc_ready env (rn_log s) then ret () else wait_for_grpc_ready env k cert))"

definition setup_api :: "remote \<Rightarrow> nat \<Rightarrow> unit node_op" where
  "setup_api env retries = bindS getS (\<lambda>s. case rn_cert s of
     None \<Rightarrow> throw (NodePyError (AttributeError ''_node_cert''))
   | Some c \<Rightarrow> thenS (wait_for_grpc_ready env (max 1 retries) c) (modS (\<lambda>s. s\<lparr>rn_api := Some c\<rparr>)))"

section \<open>Operations\<close>

text \<open>\<open>res["session_id"]\<close>.\<close>

definition session_id_of :: "json \<Rightarrow> json node_op" where
  "session_id_of b = (case b of
     JObj d \<Rightarrow> (case jindex d ''session_id'' of Inl e \<Rightarrow> throw (NodePyError e) | Inr v \<Rightarrow> ret v)
   | _ \<Rightarrow> throw (NodePyError (TypeError ''session_id'')))"

definition connect :: "remote \<Rightarrow> unit node_op" where
  "connect env =
     thenS (bindS getS (\<lambda>s. if truthy (rn_session s)
              then catch_api_error (thenS (make_request env ''/disconnect'' None) (ret ())) (\<lambda>_. ret ())
              else ret ()))
     (thenS (modS (reset_local_state True))
     (thenS (modS (\<lambda>s. s\<lparr>rn_log := rn_log s @ [CertFetched]\<rparr>))
     (bindS getS (\<lambda>s. case rm_certificate env (rn_log s) of
        Inl m \<Rightarrow> throw (NodeConnectionError m)
      | Inr c \<Rightarrow>
          thenS (modS (\<lambda>s. s\<lparr>rn_cert := Some c, rn_certfile := Some c, rn_verify := Some c\<rparr>))
          (bindS (make_request env ''/connect'' None) (\<lambda>res.
           bindS (session_id_of res) (\<lambda>v. modS (\<lambda>s. s\<lparr>rn_session := v\<rparr>))))))))"

definition disconnect :: "remote \<Rightarrow> unit node_op" where
  "disconnect env =
     finallyS
       (catch_api_error
         (bindS getS (\<lambda>s. if truthy (rn_session s) then thenS (make_request env ''/disconnect'' None) (ret ()) else ret ()))
         (\<lambda>_. ret ()))
       (modS (reset_local_state True))"

text \<open>The property \<open>connected\<close>: a ping; only an explicit rejection drops the session.\<close>

definition connected :: "remote \<Rightarrow> bool node_op" where
  "connected env = bindS getS (\<lambda>s.
     if \<not> truthy (rn_session s) then ret False
     else catch_api_error (thenS (make_request env ''/ping'' None) (ret True))
       (\<lambda>e. if is_session_invalid e then thenS (modS (reset_local_state True)) (ret False) else ret False))"

definition started :: "remote \<Rightarrow> json node_op" where
  "started env =
     bindS (make_request env ''/'' None) (\<lambda>res.
     bindS (body_get res ''started'' (JBool False)) (\<lambda>v.
     thenS (modS (\<lambda>s. s\<lparr>rn_started := v\<rparr>))
     (thenS (modS (\<lambda>s. if truthy v then s else s\<lparr>rn_api := None\<rparr>))
     (ret v))))"

definition api :: "string node_op" where
  "api = bindS getS (\<lambda>s.
     if \<not> truthy (rn_session s) then throw (NodeConnectionError ''Node is not connected'')
     else (case rn_api s of
        Some c \<Rightarrow> ret c
      | None \<Rightarrow>
          if rn_started s = JBool True
          then (case rn_cert s of
                  None \<Rightarrow> throw (NodePyError (AttributeError ''_node_cert''))
                | Some c \<Rightarrow> thenS (modS (\<lambda>s. s\<lparr>rn_api := Some c\<rparr>)) (ret c))
          else throw (NodeConnectionError ''Node is not started'')))"

definition ensure_control_session :: "remote \<Rightarrow> unit node_op" where
  "ensure_control_session env = bindS getS (\<lambda>s.
     if truthy (rn_session s)
     then bindS (catch_api_error (thenS (make_request env ''/ping'' None) (ret True))
            (\<lambda>e. if is_session_invalid e then thenS (modS (reset_local_state True)) (ret False) else throw e))
          (\<lambda>alive. if alive then ret () else connect env)
     else connect env)"

definition get_version :: "remote \<Rightarrow> json node_op" where
  "get_version env = bindS (make_request env ''/'' None) (\<lambda>res. body_get res ''core_version'' JNull)"

definition mark_started :: "remote \<Rightarrow> nat \<Rightarrow> unit node_op" where
  "mark_started env retries = thenS (modS (\<lambda>s. s\<lparr>rn_started := JBool True\<rparr>)) (setup_api env retries)"

definition try_restore :: "remote \<Rightarrow> nat \<Rightarrow> bool node_op" where
  "try_restore env retries = bindS getS (\<lambda>s.
     if \<not> truthy (rn_session s) then ret False
     else if \<not> truthy_str (rn_cert s) then ret False
     else bindS
       (catch_api_error
         (thenS (make_request env ''/ping'' None)
           (bindS (make_request env ''/'' None) (\<lambda>info. ret (Some info))))
         (\<lambda>e. if is_session_invalid e then thenS (modS (reset_local_state True)) (ret None) else throw e))
       (\<lambda>info. case info of None \<Rightarrow> ret False | Some b \<Rightarrow>
          bindS (body_get b ''started'' JNull) (\<lambda>v.
          if truthy v then thenS (mark_started env retries) (ret True) else ret False)))"

text \<open>\<open>start\<close> and \<open>restart\<close> as the callers use them, with the configuration already rendered.\<close>

definition start_core :: "remote \<Rightarrow> nat \<Rightarrow> string \<Rightarrow> json node_op" where
  "start_core env retries config_json =
     bindS (catch_api_error (bindS (make_request env ''/start'' (Some config_json)) (\<lambda>res. ret (Inl res)))
        (\<lambda>e. case e of
           NodeAPIError _ d \<Rightarrow> if d = JStr ''Xray is started already'' then ret (Inr ()) else throw e
         | _ \<Rightarrow> throw e))
     (\<lambda>r. thenS (mark_started env retries)
        (case r of Inl res \<Rightarrow> ret res | Inr _ \<Rightarrow> ret (JObj [(''started'', JBool True)])))"

definition start :: "remote \<Rightarrow> nat \<Rightarrow> string \<Rightarrow> json node_op" where
  "start env retries config_json =
     thenS (ensure_control_session env)
       (bindS
         (catch_api_error
           (bindS (make_request env ''/'' None) (\<lambda>info.
              bindS (body_get info ''started'' JNull) (\<lambda>v.
              if truthy v then thenS (mark_started env retries) (ret (Some info)) else ret None)))
           (\<lambda>_. ret None))
         (\<lambda>r. case r of Some info \<Rightarrow> ret info | None \<Rightarrow> start_core env retries config_json))"

definition stop :: "remote \<Rightarrow> unit node_op" where
  "stop env =
     thenS (ensure_control_session env)
       (thenS (make_request env ''/stop'' None)
         (modS (\<lambda>s. s\<lparr>rn_api := None, rn_started := JBool False\<rparr>)))"

definition restart :: "remote \<Rightarrow> nat \<Rightarrow> string \<Rightarrow> json node_op" where
  "restart env retries config_json =
     thenS (ensure_control_session env)
       (bindS (make_request env ''/restart'' (Some config_json)) (\<lambda>res.
         thenS (mark_started env retries) (ret res)))"


section \<open>Traffic only grows\<close>

lemma make_request_run:
  "make_request env path config s =
     (let s1 = s\<lparr>rn_log := rn_log s @ [Posted path (rn_session s) config (rn_verify s)]\<rparr>;
          r = rm_post env (rn_log s1) in
      (case reply_error r of None \<Rightarrow> Inr (reply_data r) | Some e \<Rightarrow> Inl e,
       if is_transport_error r then refresh_http_transport s1 else s1))"
  by (auto simp: make_request_def eff_defs Let_def split: option.splits)

lemma refresh_simps [simp]:
  "rn_log (refresh_http_transport s) = rn_log s"
  "rn_session (refresh_http_transport s) = rn_session s"
  "rn_cert (refresh_http_transport s) = rn_cert s"
  "rn_started (refresh_http_transport s) = rn_started s"
  "rn_api (refresh_http_transport s) = rn_api s"
  by (simp_all add: refresh_http_transport_def recreate_session_def Let_def)

lemma refresh_verify: "truthy_str (rn_cert s) \<Longrightarrow> rn_verify (refresh_http_transport s) = rn_cert s"
  by (simp add: refresh_http_transport_def recreate_session_def Let_def)

lemma reset_simps [simp]:
  "rn_log (reset_local_state b s) = rn_log s"
  "rn_session (reset_local_state b s) = JNull"
  "rn_cert (reset_local_state b s) = rn_cert s"
  "rn_started (reset_local_state b s) = JBool False"
  "rn_api (reset_local_state b s) = None"
  by (simp_all add: reset_local_state_def recreate_session_def Let_def)

definition log_grows :: "rnode \<Rightarrow> rnode \<Rightarrow> bool" where
  "log_grows s s' \<longleftrightarrow> prefix (rn_log s) (rn_log s')"

interpretation grow: state_relation log_grows
  by unfold_locales (auto simp: log_grows_def)

lemma grow_mod: "(\<And>s. prefix (rn_log s) (rn_log (f s))) \<Longrightarrow> follows log_grows (modS f)"
  by (rule grow.f_mod) (simp add: log_grows_def)

lemma grow_request: "follows log_grows (make_request env path config)"
  by (auto simp: follows_def make_request_run Let_def log_grows_def)

lemma grow_catch_api:
  "follows log_grows m \<Longrightarrow> (\<And>e. follows log_grows (h e)) \<Longrightarrow> follows log_grows (catch_api_error m h)"
  unfolding catch_api_error_def by (rule grow.f_catch) (auto split: node_exc.split intro: grow.f_throw)

lemma grow_grpc: "follows log_grows (wait_for_grpc_ready env k c)"
  by (induction k) (auto intro!: grow.f_intros grow_mod)

lemma grow_body_get: "follows log_grows (body_get b k d)"
  by (auto simp: body_get_def intro: grow.f_intros split: json.split)

lemma grow_setup_api: "follows log_grows (setup_api env retries)"
  unfolding setup_api_def
  by (auto intro!: grow.f_intros grow_mod grow_grpc split: option.split)

lemma grow_mark_started: "follows log_grows (mark_started env retries)"
  unfolding mark_started_def by (auto intro!: grow.f_intros grow_mod grow_setup_api)

lemma grow_reset: "follows log_grows (modS (reset_local_state True))"
  by (rule grow_mod) simp

lemma grow_session_id: "follows log_grows (session_id_of b)"
  by (auto simp: session_id_of_def intro: grow.f_intros split: json.split sum.split)

lemmas grow_basic = grow.f_intros grow_request grow_catch_api grow_body_get grow_mark_started grow_reset grow_session_id

lemma grow_connect: "follows log_grows (connect env)"
  unfolding connect_def
  by (auto intro!: grow_basic grow_mod split: sum.split)

lemma grow_ensure: "follows log_grows (ensure_control_session env)"
  unfolding ensure_control_session_def by (auto intro!: grow_basic grow_connect)

lemma grow_start_core: "follows log_grows (start_core env retries c)"
  unfolding start_core_def by (auto intro!: grow_basic split: node_exc.split sum.split)

lemma grow_start: "follows log_grows (start env retries c)"
  unfolding start_def by (auto intro!: grow_basic grow_ensure grow_start_core split: option.split)

lemma grow_try_restore: "follows log_grows (try_restore env retries)"
  unfolding try_restore_def by (auto intro!: grow_basic split: option.split)

lemma grow_connected: "follows log_grows (connected env)"
  unfolding connected_def by (auto intro!: grow_basic)


section \<open>Where secrets go\<close>

text \<open>
  An event is safe when it carries a session id or a configuration, or opens a session, only over a
  transport pinned to a certificate.
\<close>

definition safe_event :: "event \<Rightarrow> bool" where
  "safe_event ev \<longleftrightarrow> (case ev of
     Posted path sid config verify \<Rightarrow> truthy sid \<or> config \<noteq> None \<or> path = ''/connect'' \<longrightarrow> verify \<noteq> None
   | _ \<Rightarrow> True)"

definition pinned :: "rnode \<Rightarrow> bool" where
  "pinned s \<longleftrightarrow> rn_cert s \<noteq> Some [] \<and> (truthy (rn_session s) \<longrightarrow> rn_cert s \<noteq> None \<and> rn_verify s = rn_cert s) \<and>
     list_all safe_event (rn_log s)"

definition pinned_now :: "rnode \<Rightarrow> bool" where
  "pinned_now s \<longleftrightarrow> pinned s \<and> rn_cert s \<noteq> None \<and> rn_verify s = rn_cert s"

interpretation pin: state_relation "\<lambda>s s'. pinned s \<longrightarrow> pinned s'"
  by unfold_locales auto

interpretation pin_now: state_relation "\<lambda>s s'. pinned_now s \<longrightarrow> pinned_now s'"
  by unfold_locales auto

abbreviation keeps :: "(rnode \<Rightarrow> bool) \<Rightarrow> 'a node_op \<Rightarrow> bool" where
  "keeps P m \<equiv> follows (\<lambda>s s'. P s \<longrightarrow> P s') m"

lemma keeps_mod: "(\<And>s. P s \<Longrightarrow> P (f s)) \<Longrightarrow> keeps P (modS f)"
  by (simp add: follows_def modS_def)

lemma truthy_cert: "rn_cert s \<noteq> Some [] \<Longrightarrow> truthy_str (rn_cert s) \<longleftrightarrow> rn_cert s \<noteq> None"
  by (cases "rn_cert s") auto

lemma keeps_catch_api:
  "keeps P m \<Longrightarrow> (\<And>e. keeps P (h e)) \<Longrightarrow> keeps P (catch_api_error m h)"
  unfolding catch_api_error_def follows_def catchS_def throw_def
  by (auto split: prod.split sum.split node_exc.split)

lemma keeps_request: "path \<noteq> ''/connect'' \<Longrightarrow> keeps pinned (make_request env path None)"
  by (auto simp: follows_def make_request_run Let_def pinned_def safe_event_def refresh_verify truthy_cert)

lemma keeps_request_now: "keeps pinned_now (make_request env path config)"
  by (auto simp: follows_def make_request_run Let_def pinned_now_def pinned_def safe_event_def refresh_verify truthy_cert)

lemma pinned_upd [simp]:
  "pinned (s\<lparr>rn_started := v\<rparr>) = pinned s"
  "pinned (s\<lparr>rn_api := a\<rparr>) = pinned s"
  "pinned (s\<lparr>rn_api := a, rn_started := v\<rparr>) = pinned s"
  "pinned (s\<lparr>rn_tags := g\<rparr>) = pinned s"
  "pinned (s\<lparr>rn_log := rn_log s @ [GrpcTried c]\<rparr>) = pinned s"
  "pinned (s\<lparr>rn_log := rn_log s @ [CertFetched]\<rparr>) = pinned s"
  by (auto simp: pinned_def safe_event_def)

lemma pinned_now_upd [simp]:
  "pinned_now (s\<lparr>rn_started := v\<rparr>) = pinned_now s"
  "pinned_now (s\<lparr>rn_api := a\<rparr>) = pinned_now s"
  "pinned_now (s\<lparr>rn_api := a, rn_started := v\<rparr>) = pinned_now s"
  "pinned_now (s\<lparr>rn_log := rn_log s @ [GrpcTried c]\<rparr>) = pinned_now s"
  by (auto simp: pinned_now_def)

lemma keeps_grpc: "keeps pinned_now (wait_for_grpc_ready env k c)"
  by (induction k) (auto intro!: pin_now.f_intros keeps_mod)

lemma keeps_grpc': "keeps pinned (wait_for_grpc_ready env k c)"
  by (induction k) (auto intro!: pin.f_intros keeps_mod)

lemma keeps_mark_started: "keeps pinned_now (mark_started env retries)"
  unfolding mark_started_def setup_api_def
  by (auto intro!: pin_now.f_intros keeps_mod keeps_grpc split: option.split)

lemma keeps_mark_started': "keeps pinned (mark_started env retries)"
  unfolding mark_started_def setup_api_def
  by (auto intro!: pin.f_intros keeps_mod keeps_grpc' split: option.split)

lemma keeps_body_get: "keeps pinned (body_get b k d)" "keeps pinned_now (body_get b k d)"
  by (auto simp: body_get_def intro: pin.f_intros pin_now.f_intros split: json.split)

lemma keeps_reset: "keeps pinned (modS (reset_local_state True))"
  by (rule keeps_mod) (simp add: pinned_def)

lemmas pin_basic = pin.f_intros keeps_catch_api keeps_body_get(1) keeps_request keeps_mark_started' keeps_reset
lemmas pin_now_basic = pin_now.f_intros keeps_catch_api keeps_body_get(2) keeps_request_now keeps_mark_started

lemma outcome_followsI: "keeps P m \<Longrightarrow> outcome P m (\<lambda>_. P) (\<lambda>_. P)"
  unfolding outcome_def follows_def by (auto split: prod.split sum.split)

text \<open>\<open>genuine env\<close>: no server presents an empty certificate.\<close>

definition genuine :: "remote \<Rightarrow> bool" where
  "genuine env \<longleftrightarrow> (\<forall>h. rm_certificate env h \<noteq> Inr [])"

lemma pinned_now_imp: "pinned_now s \<Longrightarrow> pinned s"
  by (simp add: pinned_now_def)

lemma outcome_connect:
  assumes "genuine env"
  shows "outcome pinned (connect env) (\<lambda>_. pinned_now) (\<lambda>_. pinned)"
proof -
  have cert: "outcome (\<lambda>t. t = s \<and> pinned t)
      (case rm_certificate env (rn_log s) of Inl m \<Rightarrow> throw (NodeConnectionError m)
       | Inr c \<Rightarrow> thenS (modS (\<lambda>s. s\<lparr>rn_cert := Some c, rn_certfile := Some c, rn_verify := Some c\<rparr>))
          (bindS (make_request env ''/connect'' None) (\<lambda>res.
           bindS (session_id_of res) (\<lambda>v. modS (\<lambda>s. s\<lparr>rn_session := v\<rparr>)))))
      (\<lambda>_. pinned_now) (\<lambda>_. pinned)" for s
  proof (rule outcome_case_sum)
    fix c assume c: "rm_certificate env (rn_log s) = Inr c"
    with assms have "c \<noteq> []" by (auto simp: genuine_def)
    have sid: "outcome pinned_now (session_id_of res) (\<lambda>_. pinned_now) (\<lambda>_. pinned)" for res
      by (auto simp: session_id_of_def intro!: outcome_ret outcome_throw pinned_now_imp split: json.split sum.split)
    have set: "outcome pinned_now (modS (\<lambda>s. s\<lparr>rn_session := v\<rparr>)) (\<lambda>_. pinned_now) (\<lambda>_. pinned)" for v
      by (rule outcome_mod) (simp add: pinned_now_def pinned_def)
    have req: "outcome pinned_now (make_request env ''/connect'' None) (\<lambda>_. pinned_now) (\<lambda>_. pinned)"
      by (rule outcome_weaken [OF outcome_followsI [OF keeps_request_now]]) (auto intro: pinned_now_imp)
    have "outcome (\<lambda>t. t = s \<and> pinned t) (modS (\<lambda>s. s\<lparr>rn_cert := Some c, rn_certfile := Some c, rn_verify := Some c\<rparr>))
        (\<lambda>_. pinned_now) (\<lambda>_. pinned)"
      using \<open>c \<noteq> []\<close> by (intro outcome_mod) (simp add: pinned_now_def pinned_def)
    then show "outcome (\<lambda>t. t = s \<and> pinned t)
       (thenS (modS (\<lambda>s. s\<lparr>rn_cert := Some c, rn_certfile := Some c, rn_verify := Some c\<rparr>))
          (bindS (make_request env ''/connect'' None) (\<lambda>res.
           bindS (session_id_of res) (\<lambda>v. modS (\<lambda>s. s\<lparr>rn_session := v\<rparr>)))))
       (\<lambda>_. pinned_now) (\<lambda>_. pinned)"
      by (rule outcome_bind) (intro outcome_bind [OF req] outcome_bind [OF sid] set)
  qed (auto intro: outcome_throw)
  have one: "outcome pinned (bindS getS (\<lambda>s. if truthy (rn_session s)
              then catch_api_error (thenS (make_request env ''/disconnect'' None) (ret ())) (\<lambda>_. ret ())
              else ret ())) (\<lambda>_. pinned) (\<lambda>_. pinned)"
    by (rule outcome_followsI) (auto intro!: pin_basic)
  have two: "outcome pinned (modS (reset_local_state True) :: unit node_op) (\<lambda>_. pinned) (\<lambda>_. pinned)"
    by (rule outcome_followsI [OF keeps_reset])
  have three: "outcome pinned (modS (\<lambda>s. s\<lparr>rn_log := rn_log s @ [CertFetched]\<rparr>)) (\<lambda>_. pinned) (\<lambda>_. pinned)"
    by (rule outcome_mod) simp
  show ?thesis
    unfolding connect_def
    by (rule outcome_bind, rule one, rule outcome_bind, rule two, rule outcome_bind, rule three, rule outcome_get,
        rule cert)
qed

lemma outcome_ensure:
  assumes "genuine env"
  shows "outcome pinned (ensure_control_session env) (\<lambda>_. pinned_now) (\<lambda>_. pinned)"
  unfolding ensure_control_session_def
proof (intro outcome_get outcome_if)
  fix s :: rnode assume "truthy (rn_session s)"
  have req: "outcome (\<lambda>t. t = s \<and> pinned t) (make_request env ''/ping'' None) (\<lambda>_. pinned_now) (\<lambda>_. pinned)"
    using \<open>truthy (rn_session s)\<close>
    by (intro outcome_weaken [OF outcome_followsI [OF keeps_request_now]])
      (auto simp: pinned_now_def pinned_def)
  have ping: "outcome (\<lambda>t. t = s \<and> pinned t)
      (catch_api_error (thenS (make_request env ''/ping'' None) (ret True))
        (\<lambda>e. if is_session_invalid e then thenS (modS (reset_local_state True)) (ret False) else throw e))
      (\<lambda>alive t. if alive then pinned_now t else pinned t) (\<lambda>_. pinned)"
    unfolding catch_api_error_def
  proof (rule outcome_catch)
    show "outcome (\<lambda>t. t = s \<and> pinned t) (thenS (make_request env ''/ping'' None) (ret True))
        (\<lambda>alive t. if alive then pinned_now t else pinned t) (\<lambda>_. pinned)"
      by (rule outcome_bind [OF req]) (simp add: outcome_ret)
    have "outcome pinned (thenS (modS (reset_local_state True)) (ret False) :: bool node_op)
        (\<lambda>alive t. if alive then pinned_now t else pinned t) (\<lambda>_. pinned)"
      by (rule outcome_bind [OF outcome_followsI [OF keeps_reset]]) (simp add: outcome_ret)
    then show "outcome pinned (case e of NodeAPIError _ _ \<Rightarrow>
          if is_session_invalid e then thenS (modS (reset_local_state True)) (ret False) else throw e
        | _ \<Rightarrow> throw e) (\<lambda>alive t. if alive then pinned_now t else pinned t) (\<lambda>_. pinned)" for e
      by (cases e) (simp_all only: node_exc.case if_True if_False outcome_throw split: if_split, blast intro: outcome_throw)
  qed
  show "outcome (\<lambda>t. t = s \<and> pinned t)
      (bindS (catch_api_error (thenS (make_request env ''/ping'' None) (ret True))
            (\<lambda>e. if is_session_invalid e then thenS (modS (reset_local_state True)) (ret False) else throw e))
          (\<lambda>alive. if alive then ret () else connect env)) (\<lambda>_. pinned_now) (\<lambda>_. pinned)"
    by (rule outcome_bind [OF ping])
      (auto intro!: outcome_if outcome_ret outcome_weaken [OF outcome_connect [OF assms]])
next
  fix s :: rnode
  show "outcome (\<lambda>t. t = s \<and> pinned t) (connect env) (\<lambda>_. pinned_now) (\<lambda>_. pinned)"
    by (rule outcome_weaken [OF outcome_connect [OF assms]]) auto
qed

lemma outcome_now: "keeps pinned_now (m :: 'a node_op) \<Longrightarrow> outcome pinned_now m (\<lambda>_. pinned) (\<lambda>_. pinned)"
  by (rule outcome_weaken [OF outcome_followsI [where P = pinned_now]]) (auto intro: pinned_now_imp)

lemma outcome_imp_keeps: "outcome P m (\<lambda>_. P) (\<lambda>_. P) \<Longrightarrow> keeps P m"
  unfolding outcome_def follows_def by (auto split: prod.splits sum.splits) (metis prod.collapse sum.exhaust)

lemma keeps_connect: "genuine env \<Longrightarrow> keeps pinned (connect env)"
  by (rule outcome_imp_keeps, rule outcome_weaken [OF outcome_connect]) (auto intro: pinned_now_imp)

lemma keeps_start_core: "keeps pinned_now (start_core env retries c)"
  unfolding start_core_def by (auto intro!: pin_now_basic split: node_exc.split sum.split)

lemma keeps_start: "genuine env \<Longrightarrow> keeps pinned (start env retries c)"
  unfolding start_def
  by (rule outcome_imp_keeps, rule outcome_bind [OF outcome_ensure], assumption, rule outcome_now)
    (auto intro!: pin_now_basic keeps_start_core split: option.split)

lemma keeps_restart: "genuine env \<Longrightarrow> keeps pinned (restart env retries c)"
  unfolding restart_def
  by (rule outcome_imp_keeps, rule outcome_bind [OF outcome_ensure], assumption, rule outcome_now)
    (auto intro!: pin_now_basic)

lemma keeps_stop: "genuine env \<Longrightarrow> keeps pinned (stop env)"
  unfolding stop_def
  by (rule outcome_imp_keeps, rule outcome_bind [OF outcome_ensure], assumption, rule outcome_now)
    (auto intro!: pin_now_basic keeps_mod)

lemma keeps_try_restore: "keeps pinned (try_restore env retries)"
  unfolding try_restore_def by (auto intro!: pin_basic split: option.split)

lemma keeps_connected: "keeps pinned (connected env)"
  unfolding connected_def by (auto intro!: pin_basic)

lemma keeps_disconnect: "keeps pinned (disconnect env)"
  unfolding disconnect_def by (auto intro!: pin_basic)

lemma keeps_started: "keeps pinned (started env)"
  unfolding started_def by (auto intro!: pin_basic keeps_mod)

lemma keeps_get_version: "keeps pinned (get_version env)"
  unfolding get_version_def by (auto intro!: pin_basic)


text \<open>Any sequence of calls on the client, each with any outcome.\<close>

datatype node_call =
    CallConnect | CallDisconnect | CallConnected | CallStarted | CallRestore | CallStart string | CallStop
  | CallRestart string | CallVersion

definition run_call :: "remote \<Rightarrow> nat \<Rightarrow> node_call \<Rightarrow> rnode \<Rightarrow> rnode" where
  "run_call env retries c s = (case c of
     CallConnect \<Rightarrow> snd (connect env s)
   | CallDisconnect \<Rightarrow> snd (disconnect env s)
   | CallConnected \<Rightarrow> snd (connected env s)
   | CallStarted \<Rightarrow> snd (started env s)
   | CallRestore \<Rightarrow> snd (try_restore env retries s)
   | CallStart j \<Rightarrow> snd (start env retries j s)
   | CallStop \<Rightarrow> snd (stop env s)
   | CallRestart j \<Rightarrow> snd (restart env retries j s)
   | CallVersion \<Rightarrow> snd (get_version env s))"

definition run_calls :: "remote \<Rightarrow> nat \<Rightarrow> node_call list \<Rightarrow> rnode \<Rightarrow> rnode" where
  "run_calls env retries cs s = fold (run_call env retries) cs s"

lemma keepsD: "keeps P m \<Longrightarrow> P s \<Longrightarrow> P (snd (m s))"
  by (simp add: follows_def)

lemma pinned_run_call: "genuine env \<Longrightarrow> pinned s \<Longrightarrow> pinned (run_call env retries c s)"
  by (cases c) (simp_all add: run_call_def keepsD keeps_connect keeps_disconnect keeps_connected keeps_started
      keeps_try_restore keeps_start keeps_stop keeps_restart keeps_get_version)

lemma pinned_run_calls: "genuine env \<Longrightarrow> pinned s \<Longrightarrow> pinned (run_calls env retries cs s)"
  unfolding run_calls_def by (induction cs arbitrary: s) (auto intro: pinned_run_call)

lemma pinned_new: "pinned (new_rnode [])"
  by (simp add: pinned_def new_rnode_def)


definition flaky_remote :: remote where
  "flaky_remote = \<lparr>rm_post = (\<lambda>h. if length h = 4 then NetworkFailure ''broken pipe''
       else Answer 200 (JObj [(''session_id'', JStr ''s1''), (''started'', JBool True)])),
     rm_certificate = (\<lambda>_. Inr ''CERT''), rm_grpc_ready = (\<lambda>_. True)\<rparr>"

lemma flaky_traffic:
  "rn_log (run_calls flaky_remote 1 [CallRestart ''cfg'', CallConnected] (new_rnode [])) =
     [CertFetched, Posted ''/connect'' JNull None (Some ''CERT''),
      Posted ''/restart'' (JStr ''s1'') (Some ''cfg'') (Some ''CERT''), GrpcTried ''CERT'',
      Posted ''/ping'' (JStr ''s1'') None (Some ''CERT'')]"
  by code_simp


section \<open>When a session is given up\<close>

definition usable :: "rnode \<Rightarrow> bool" where
  "usable s \<longleftrightarrow> truthy (rn_session s) \<and> truthy_str (rn_cert s)"

definition rejected_in :: "remote \<Rightarrow> rnode \<Rightarrow> rnode \<Rightarrow> bool" where
  "rejected_in env s s' \<longleftrightarrow> (\<exists>h e. prefix h (rn_log s') \<and> length (rn_log s) < length h \<and>
     reply_error (rm_post env h) = Some e \<and> is_session_invalid e)"

definition gentle_event :: "event \<Rightarrow> bool" where
  "gentle_event ev \<longleftrightarrow> (case ev of
     Posted path _ _ _ \<Rightarrow> path \<in> set [''/ping'', ''/'', ''/start'']
   | CertFetched \<Rightarrow> False
   | GrpcTried _ \<Rightarrow> True)"

definition undisturbed :: "rnode \<Rightarrow> rnode \<Rightarrow> bool" where
  "undisturbed s s' \<longleftrightarrow> rn_session s' = rn_session s \<and> rn_cert s' = rn_cert s \<and>
     list_all gentle_event (drop (length (rn_log s)) (rn_log s'))"

definition gentle :: "remote \<Rightarrow> rnode \<Rightarrow> rnode \<Rightarrow> bool" where
  "gentle env s s' \<longleftrightarrow> log_grows s s' \<and> (usable s \<longrightarrow> undisturbed s s' \<or> rejected_in env s s')"

lemma rejected_grow: "rejected_in env s t \<Longrightarrow> log_grows t u \<Longrightarrow> rejected_in env s u"
  unfolding rejected_in_def log_grows_def using prefix_order.trans by blast

lemma grow_rejected: "log_grows s t \<Longrightarrow> rejected_in env t u \<Longrightarrow> rejected_in env s u"
  unfolding rejected_in_def log_grows_def by (meson order_le_less_trans prefix_length_le)

lemma undisturbed_trans:
  assumes "undisturbed s t" and "undisturbed t u" and "log_grows s t" and "log_grows t u"
  shows "undisturbed s u"
proof -
  from assms(3,4) obtain x y where "rn_log t = rn_log s @ x" "rn_log u = rn_log t @ y"
    by (auto simp: log_grows_def prefix_def)
  with assms(1,2) show ?thesis
    by (simp add: undisturbed_def)
qed

lemma gentle_trans:
  assumes "gentle env s t" and "gentle env t u"
  shows "gentle env s u"
proof -
  have g: "log_grows s t" "log_grows t u" "log_grows s u"
    using assms grow.trans_R unfolding gentle_def by blast+
  have "undisturbed s u \<or> rejected_in env s u" if "usable s"
  proof (cases "rejected_in env s t")
    case True
    with g(2) rejected_grow show ?thesis by blast
  next
    case False
    with that assms(1) have u: "undisturbed s t" by (simp add: gentle_def)
    with that have "usable t" by (simp add: usable_def undisturbed_def)
    with assms(2) u g show ?thesis
      unfolding gentle_def using undisturbed_trans grow_rejected by blast
  qed
  with g(3) show ?thesis by (simp add: gentle_def)
qed

interpretation gen: state_relation "gentle env" for env
proof
  show "gentle env s s" for s
    by (simp add: gentle_def undisturbed_def log_grows_def)
qed (rule gentle_trans)

lemma gentle_mod:
  "(\<And>s. rn_session (f s) = rn_session s \<and> rn_cert (f s) = rn_cert s \<and>
     (\<exists>new. rn_log (f s) = rn_log s @ new \<and> list_all gentle_event new)) \<Longrightarrow> follows (gentle env) (modS f)"
  unfolding follows_def modS_def gentle_def undisturbed_def log_grows_def
  by (simp add: prefix_def) (metis append_eq_conv_conj)

lemma gentle_request:
  "path \<in> set [''/ping'', ''/'', ''/start''] \<Longrightarrow> follows (gentle env) (make_request env path config)"
  by (auto simp: follows_def make_request_run Let_def gentle_def undisturbed_def log_grows_def gentle_event_def)

definition raises_rejected :: "remote \<Rightarrow> 'a node_op \<Rightarrow> bool" where
  "raises_rejected env m \<longleftrightarrow> (\<forall>s e s'. m s = (Inl e, s') \<longrightarrow> is_session_invalid e \<longrightarrow> rejected_in env s s')"

lemma rr_request: "raises_rejected env (make_request env path config)"
  by (fastforce simp: raises_rejected_def make_request_run Let_def rejected_in_def split: option.splits)

lemma rr_ret: "raises_rejected env (ret x)"
  by (simp add: raises_rejected_def ret_def)

lemma rr_bind:
  "raises_rejected env m \<Longrightarrow> follows log_grows m \<Longrightarrow> (\<And>x. raises_rejected env (f x)) \<Longrightarrow> raises_rejected env (bindS m f)"
  unfolding raises_rejected_def bindS_def
  by (auto split: prod.splits sum.splits dest: followsD intro: grow_rejected)

lemma gentle_catch:
  assumes "follows (gentle env) m" and "raises_rejected env m"
    and "\<And>e. \<not> is_session_invalid e \<Longrightarrow> follows (gentle env) (h e)"
    and "\<And>e. follows log_grows (h e)"
  shows "follows (gentle env) (catch_api_error m h)"
  unfolding follows_def
proof
  fix s
  obtain r s1 where r: "m s = (r, s1)" by (cases "m s") auto
  have g: "gentle env s s1" using assms(1) r by (rule followsD)
  show "gentle env s (snd (catch_api_error m h s))"
  proof (cases r)
    case (Inr x)
    with r g show ?thesis by (simp add: catch_api_error_def catchS_def)
  next
    case (Inl e)
    obtain s2 where s2: "s2 = snd (h e s1)" by simp
    have grow2: "log_grows s1 s2" using assms(4) s2 by (simp add: follows_def)
    have "gentle env s s2"
    proof (cases "is_session_invalid e")
      case True
      with assms(2) r Inl have "rejected_in env s s1" by (simp add: raises_rejected_def)
      with grow2 g show ?thesis
        unfolding gentle_def using rejected_grow grow.trans_R by blast
    next
      case False
      then have "gentle env s1 s2" using assms(3) s2 by (simp add: follows_def)
      with g show ?thesis by (rule gentle_trans)
    qed
    with Inl r g s2 show ?thesis
      by (auto simp: catch_api_error_def catchS_def throw_def split: node_exc.split)
  qed
qed


lemma gentle_body_get: "follows (gentle env) (body_get b k d)"
  by (auto simp: body_get_def intro: gen.f_intros split: json.split)

lemma gentle_grpc: "follows (gentle env) (wait_for_grpc_ready env k c)"
  by (induction k) (auto intro!: gen.f_intros gentle_mod simp: gentle_event_def)

lemma gentle_mark_started: "follows (gentle env) (mark_started env retries)"
  unfolding mark_started_def setup_api_def
  by (auto intro!: gen.f_intros gentle_mod gentle_grpc split: option.split)

lemmas gentle_basic = gen.f_intros gentle_request gentle_body_get gentle_mark_started

lemma ensure_run:
  "truthy (rn_session s) \<Longrightarrow> ensure_control_session env s =
     (case make_request env ''/ping'' None s of
        (Inr _, s1) \<Rightarrow> (Inr (), s1)
      | (Inl e, s1) \<Rightarrow> if is_session_invalid e then connect env (reset_local_state True s1) else (Inl e, s1))"
  by (auto simp: ensure_control_session_def catch_api_error_def eff_defs is_session_invalid_def
      split: prod.split sum.split node_exc.split)

lemma gentle_ensure: "follows (gentle env) (ensure_control_session env)"
  unfolding follows_def
proof
  fix s
  have grow: "log_grows s (snd (ensure_control_session env s))"
    using grow_ensure by (simp add: follows_def)
  show "gentle env s (snd (ensure_control_session env s))"
  proof (cases "truthy (rn_session s)")
    case True
    obtain r s1 where r: "make_request env ''/ping'' None s = (r, s1)"
      by (cases "make_request env ''/ping'' None s") auto
    have g: "gentle env s s1"
      by (rule followsD [OF gentle_request r]) simp
    show ?thesis
    proof (cases "\<exists>e. r = Inl e \<and> is_session_invalid e")
      case False
      with r g show ?thesis by (auto simp: ensure_run [OF True] split: sum.split)
    next
      case bad: True
      with r rr_request have rej: "rejected_in env s s1"
        unfolding raises_rejected_def by blast
      have "log_grows s1 (snd (connect env (reset_local_state True s1)))"
        using grow_connect [of env] by (simp add: follows_def log_grows_def) (metis reset_simps(1))
      with bad r rej have "rejected_in env s (snd (ensure_control_session env s))"
        by (auto simp: ensure_run [OF True] intro: rejected_grow)
      with grow show ?thesis by (simp add: gentle_def)
    qed
  next
    case False
    with grow show ?thesis by (simp add: gentle_def usable_def)
  qed
qed

lemma gentle_catch_simple:
  "follows (gentle env) m \<Longrightarrow> (\<And>e. follows (gentle env) (h e)) \<Longrightarrow> follows (gentle env) (catch_api_error m h)"
  unfolding catch_api_error_def by (rule gen.f_catch) (auto split: node_exc.split intro: gen.f_throw)

lemma gentle_start_core: "follows (gentle env) (start_core env retries c)"
  unfolding start_core_def
  by (auto intro!: gentle_basic gentle_catch_simple split: node_exc.split sum.split)

lemma gentle_start: "follows (gentle env) (start env retries c)"
  unfolding start_def
  by (auto intro!: gentle_basic gentle_catch_simple gentle_ensure gentle_start_core split: option.split)

lemma gentle_try_restore: "follows (gentle env) (try_restore env retries)"
  unfolding try_restore_def
  by (auto intro!: gentle_basic gentle_catch rr_bind rr_request rr_ret grow_basic split: option.split)

section \<open>What success means\<close>

definition attached :: "remote \<Rightarrow> rnode \<Rightarrow> bool" where
  "attached env s \<longleftrightarrow> rn_started s = JBool True \<and>
     (\<exists>c h. rn_cert s = Some c \<and> rn_api s = Some c \<and> rn_log s = h @ [GrpcTried c] \<and> rm_grpc_ready env (rn_log s))"

lemma grpc_success:
  "wait_for_grpc_ready env k c s = (Inr u, s') \<Longrightarrow>
     (\<exists>h. rn_log s' = h @ [GrpcTried c]) \<and> rm_grpc_ready env (rn_log s') \<and> rn_cert s' = rn_cert s \<and> rn_started s' = rn_started s"
proof (induction k arbitrary: s)
  case (Suc k)
  define s1 where "s1 = s\<lparr>rn_log := rn_log s @ [GrpcTried c]\<rparr>"
  show ?case
  proof (cases "rm_grpc_ready env (rn_log s1)")
    case True
    with Suc.prems show ?thesis by (auto simp: eff_defs s1_def)
  next
    case False
    with Suc.prems have "wait_for_grpc_ready env k c s1 = (Inr u, s')"
      by (auto simp: eff_defs s1_def)
    from Suc.IH [OF this] show ?thesis by (simp add: s1_def)
  qed
qed (simp add: eff_defs)

lemma attached_mark_started: "outcome P (mark_started env retries) (\<lambda>_. attached env) (\<lambda>_ _. True)"
  unfolding outcome_def
  by (auto simp: mark_started_def setup_api_def eff_defs attached_def split: prod.split sum.split option.split
      dest!: grpc_success)

lemma grpc_attempts:
  "length (rn_log (snd (wait_for_grpc_ready env k c s))) \<le> length (rn_log s) + k"
proof (induction k arbitrary: s)
  case (Suc k)
  from Suc.IH [of "s\<lparr>rn_log := rn_log s @ [GrpcTried c]\<rparr>"] show ?case
    by (auto simp: eff_defs)
qed (simp add: eff_defs)

lemma outcome_any: "outcome (\<lambda>_. True) m (\<lambda>_ _. True) (\<lambda>_ _. True)"
  by (auto simp: outcome_def split: prod.split sum.split)

lemma attached_restart: "outcome (\<lambda>_. True) (restart env retries c) (\<lambda>_. attached env) (\<lambda>_ _. True)"
  unfolding restart_def
  by (rule outcome_bind [OF outcome_any], rule outcome_bind [OF outcome_any], rule outcome_bind [OF attached_mark_started])
    (simp add: outcome_ret)

lemma attached_start_core: "outcome (\<lambda>_. True) (start_core env retries c) (\<lambda>_. attached env) (\<lambda>_ _. True)"
  unfolding start_core_def
  by (rule outcome_bind [OF outcome_any], rule outcome_bind [OF attached_mark_started])
    (simp add: outcome_ret split: sum.split)

lemma attached_start: "outcome (\<lambda>_. True) (start env retries c) (\<lambda>_. attached env) (\<lambda>_ _. True)"
proof -
  have "outcome (\<lambda>_. True)
         (catch_api_error
           (bindS (make_request env ''/'' None) (\<lambda>info.
              bindS (body_get info ''started'' JNull) (\<lambda>v.
              if truthy v then thenS (mark_started env retries) (ret (Some info)) else ret None)))
           (\<lambda>_. ret None))
      (\<lambda>r s. case r of None \<Rightarrow> True | Some i \<Rightarrow> attached env s) (\<lambda>_ _. True)"
    unfolding catch_api_error_def
    by (rule outcome_catch, rule outcome_bind [OF outcome_any], rule outcome_bind [OF outcome_any], rule outcome_if,
        rule outcome_bind [OF attached_mark_started])
      (auto intro: outcome_ret outcome_throw split: node_exc.split)
  then show ?thesis
    unfolding start_def
    by (rule outcome_bind [OF outcome_any outcome_bind])
      (auto intro: outcome_ret attached_start_core split: option.split)
qed

lemma attached_try_restore: "outcome (\<lambda>_. True) (try_restore env retries) (\<lambda>r s. r \<longrightarrow> attached env s) (\<lambda>_ _. True)"
  unfolding try_restore_def
proof -
  have "outcome (\<lambda>_. True) (bindS
       (catch_api_error
         (thenS (make_request env ''/ping'' None)
           (bindS (make_request env ''/'' None) (\<lambda>info. ret (Some info))))
         (\<lambda>e. if is_session_invalid e then thenS (modS (reset_local_state True)) (ret None) else throw e))
       (\<lambda>info. case info of None \<Rightarrow> ret False | Some b \<Rightarrow>
          bindS (body_get b ''started'' JNull) (\<lambda>v.
          if truthy v then thenS (mark_started env retries) (ret True) else ret False)))
     (\<lambda>r s. r \<longrightarrow> attached env s) (\<lambda>_ _. True)"
  proof (rule outcome_bind [OF outcome_any])
    fix info :: "json option"
    have "outcome (\<lambda>_. True) (bindS (body_get b ''started'' JNull) (\<lambda>v.
          if truthy v then thenS (mark_started env retries) (ret True) else ret False))
        (\<lambda>r s. r \<longrightarrow> attached env s) (\<lambda>_ _. True)" for b
      by (rule outcome_bind [OF outcome_any], rule outcome_if, rule outcome_bind [OF attached_mark_started])
        (auto intro: outcome_ret)
    then show "outcome (\<lambda>_. True) (case info of None \<Rightarrow> ret False | Some b \<Rightarrow>
          bindS (body_get b ''started'' JNull) (\<lambda>v.
          if truthy v then thenS (mark_started env retries) (ret True) else ret False))
        (\<lambda>r s. r \<longrightarrow> attached env s) (\<lambda>_ _. True)"
      by (auto intro: outcome_ret split: option.split)
  qed
  then show "outcome (\<lambda>_. True) (bindS getS (\<lambda>s.
     if \<not> truthy (rn_session s) then ret False
     else if \<not> truthy_str (rn_cert s) then ret False
     else bindS
       (catch_api_error
         (thenS (make_request env ''/ping'' None)
           (bindS (make_request env ''/'' None) (\<lambda>info. ret (Some info))))
         (\<lambda>e. if is_session_invalid e then thenS (modS (reset_local_state True)) (ret None) else throw e))
       (\<lambda>info. case info of None \<Rightarrow> ret False | Some b \<Rightarrow>
          bindS (body_get b ''started'' JNull) (\<lambda>v.
          if truthy v then thenS (mark_started env retries) (ret True) else ret False))))
     (\<lambda>r s. r \<longrightarrow> attached env s) (\<lambda>_ _. True)"
    by (intro outcome_get outcome_if outcome_ret) (auto elim: outcome_weaken)
qed


text \<open>When restart or start returns, or try_restore answers True, the client holds a gRPC
  channel authenticated with the certificate the session is pinned to, and the last thing it did was to
  see that channel ready; every other way out is an exception or the answer False.\<close>

theorem success_means_attached:
  "(restart env retries c s = (Inr x, t) \<longrightarrow> attached env t) \<and>
   (start env retries c s = (Inr x, t) \<longrightarrow> attached env t) \<and>
   (try_restore env retries s = (Inr True, t) \<longrightarrow> attached env t)"
  using outcome_result [OF attached_restart] outcome_result [OF attached_start]
    outcome_result [OF attached_try_restore] by blast

theorem success_means_attached_witness:
  "attached flaky_remote (snd (restart flaky_remote 1 ''cfg'' (new_rnode [])))"
proof -
  have "fst (restart flaky_remote 1 ''cfg'' (new_rnode [])) =
      Inr (JObj [(''session_id'', JStr ''s1''), (''started'', JBool True)])"
    by code_simp
  then have "restart flaky_remote 1 ''cfg'' (new_rnode []) =
      (Inr (JObj [(''session_id'', JStr ''s1''), (''started'', JBool True)]),
       snd (restart flaky_remote 1 ''cfg'' (new_rnode [])))"
    by (metis prod.collapse)
  with success_means_attached show ?thesis by blast
qed

end
