(* ===== verification/ConnectNode.thy ===== *)
theory ConnectNode
  imports ConnectSlots NodeSession
begin

text \<open>
  Connecting a node as a whole (app/xray/operations.py): the in-memory nodes, the status rows of the
  database, \<open>add_node\<close>, \<open>remove_node\<close>, the connect procedure with its soft and hard paths, and
  \<open>restart_node\<close>; then the health check that schedules them (app/jobs/0_xray_core.py). One call runs
  on its own here (theory ConnectSlots has the interleavings); the clock of the panel moves with the
  sleeps between attempts. \<open>render\<close> is the outcome of \<open>node_config_json\<close> for the node.
\<close>

section \<open>State\<close>

record dbnode =
  dn_status :: node_status
  dn_message :: "node_exc option"
  dn_version :: json
  dn_changed :: "int option"
  dn_tags :: "string list"

record panel =
  p_slots :: slots
  p_nodes :: "(int \<times> rnode) list"
  p_db :: "(int \<times> dbnode) list"
  p_traffic :: "(int \<times> event list) list"
  p_clock :: int

record connect_settings =
  st_stale_timeout :: int
  st_retries :: int
  st_retry_delay :: int
  st_grpc_retries :: nat

section \<open>Nodes in memory and their status\<close>

definition remove_node :: "(int \<Rightarrow> remote) \<Rightarrow> int \<Rightarrow> bool \<Rightarrow> panel \<Rightarrow> panel" where
  "remove_node env n invalidate p =
     (let p1 = (if invalidate then p\<lparr>p_slots := invalidate_connect_slot n (p_slots p)\<rparr> else p) in
      case dget (p_nodes p1) n of
        None \<Rightarrow> p1
      | Some nd \<Rightarrow> (let nd' = snd (disconnect (env n) nd) in
          p1\<lparr>p_nodes := ddel n (p_nodes p1), p_traffic := dput n (rn_log nd') (p_traffic p1)\<rparr>))"

definition add_node :: "(int \<Rightarrow> remote) \<Rightarrow> int \<Rightarrow> panel \<Rightarrow> panel" where
  "add_node env n p =
     (let p1 = remove_node env n False p in
      p1\<lparr>p_nodes := dput n (new_rnode (dget_or (p_traffic p1) n [])) (p_nodes p1)\<rparr>)"

definition update_node_status :: "int \<Rightarrow> node_status \<Rightarrow> node_exc option \<Rightarrow> json \<Rightarrow> dbnode \<Rightarrow> dbnode" where
  "update_node_status now st message version d =
     d\<lparr>dn_status := st, dn_message := message, dn_version := version, dn_changed := Some now\<rparr>"

definition change_node_status ::
    "(int \<Rightarrow> remote) \<Rightarrow> int \<Rightarrow> node_status \<Rightarrow> node_exc option \<Rightarrow> json \<Rightarrow> panel \<Rightarrow> bool \<times> panel" where
  "change_node_status env n st message version p =
     (case dget (p_db p) n of
        None \<Rightarrow> (False, p)
      | Some d \<Rightarrow>
          if dn_status d = NodeDisabled then (False, remove_node env n True p)
          else (True, p\<lparr>p_db := dput n (update_node_status (p_clock p) st message version d) (p_db p)\<rparr>))"

definition connecting_age_seconds :: "panel \<Rightarrow> int \<Rightarrow> int option" where
  "connecting_age_seconds p n =
     (case dget (p_db p) n of
        None \<Rightarrow> None
      | Some d \<Rightarrow> if dn_status d \<noteq> NodeConnecting then None
          else map_option (\<lambda>t. max 0 (p_clock p - t)) (dn_changed d))"

definition with_node :: "int \<Rightarrow> 'a node_op \<Rightarrow> panel \<Rightarrow> (node_exc + 'a) \<times> panel" where
  "with_node n m p =
     (case dget (p_nodes p) n of
        None \<Rightarrow> (Inl (NodePyError (KeyError (int_str n))), p)
      | Some nd \<Rightarrow> (let (r, nd') = m nd in
          (r, p\<lparr>p_nodes := dput n nd' (p_nodes p), p_traffic := dput n (rn_log nd') (p_traffic p)\<rparr>)))"

section \<open>The connect procedure\<close>

text \<open>True: the node is attached and the procedure goes on; False: deferred to the next health check.\<close>

definition soft_connect :: "remote \<Rightarrow> nat \<Rightarrow> string \<Rightarrow> bool node_op" where
  "soft_connect env grpc config_json =
     catchS
       (bindS (try_restore env grpc) (\<lambda>restored.
          if restored then ret True else thenS (start env grpc config_json) (ret True)))
       (\<lambda>e. bindS getS (\<lambda>s. if truthy (rn_session s) then ret False else throw e))"

definition hard_connect :: "remote \<Rightarrow> nat \<Rightarrow> int \<Rightarrow> string \<Rightarrow> unit node_op" where
  "hard_connect env grpc attempt config_json = bindS getS (\<lambda>s.
     if truthy (rn_session s) \<and> attempt > 1
     then thenS (restart env grpc config_json) (ret ())
     else thenS (modS (reset_local_state True))
       (thenS (connect env) (thenS (restart env grpc config_json) (ret ()))))"

definition connect_attempt ::
    "remote \<Rightarrow> nat \<Rightarrow> bool \<Rightarrow> int \<Rightarrow> node_exc + string \<Rightarrow> string list \<Rightarrow> json option node_op" where
  "connect_attempt env grpc force attempt render tags =
     (case render of
        Inl e \<Rightarrow> throw e
      | Inr config_json \<Rightarrow>
          bindS (if force then thenS (hard_connect env grpc attempt config_json) (ret True)
                 else soft_connect env grpc config_json)
            (\<lambda>go_on. if go_on
               then thenS (modS (\<lambda>s. s\<lparr>rn_tags := Some tags\<rparr>)) (bindS (get_version env) (\<lambda>v. ret (Some v)))
               else ret None))"

text \<open>\<open>left\<close> attempts remain after this one.\<close>

fun attempt_loop ::
    "(int \<Rightarrow> remote) \<Rightarrow> connect_settings \<Rightarrow> int \<Rightarrow> bool \<Rightarrow> node_exc + string \<Rightarrow> string list \<Rightarrow> nat \<Rightarrow> int \<Rightarrow> panel \<Rightarrow>
     (node_exc + json option) \<times> panel" where
  "attempt_loop env st n force render tags 0 attempt p =
     with_node n (connect_attempt (env n) (st_grpc_retries st) force attempt render tags) p"
| "attempt_loop env st n force render tags (Suc left) attempt p =
     (case with_node n (connect_attempt (env n) (st_grpc_retries st) force attempt render tags) p of
        (Inr x, p1) \<Rightarrow> (Inr x, p1)
      | (Inl e, p1) \<Rightarrow> attempt_loop env st n force render tags left (attempt + 1)
          (p1\<lparr>p_clock := p_clock p1 + max 0 (st_retry_delay st) * attempt\<rparr>))"

definition connect_retries :: "connect_settings \<Rightarrow> bool \<Rightarrow> nat" where
  "connect_retries st force = nat (if force then max 1 (st_retries st) else 1)"

definition connect_body ::
    "(int \<Rightarrow> remote) \<Rightarrow> connect_settings \<Rightarrow> node_exc + string \<Rightarrow> int \<Rightarrow> bool \<Rightarrow> panel \<Rightarrow> panel" where
  "connect_body env st render n force p =
     (case dget (p_db p) n of
        None \<Rightarrow> p
      | Some d \<Rightarrow>
          if dn_status d = NodeDisabled then remove_node env n True p
          else
            let p1 = (if dn_status d \<noteq> NodeConnecting then snd (change_node_status env n NodeConnecting None JNull p) else p);
                p2 = (case dget (p_nodes p1) n of Some _ \<Rightarrow> p1 | None \<Rightarrow> add_node env n p1);
                (r, p3) = attempt_loop env st n force render (dn_tags d) (connect_retries st force - 1) 1 p2
            in (case r of
                  Inr (Some v) \<Rightarrow> snd (change_node_status env n NodeConnected None v p3)
                | Inr None \<Rightarrow> p3
                | Inl e \<Rightarrow> snd (change_node_status env n NodeError (Some e) JNull p3)))"

definition connect_node_impl ::
    "(int \<Rightarrow> remote) \<Rightarrow> connect_settings \<Rightarrow> node_exc + string \<Rightarrow> int \<Rightarrow> bool \<Rightarrow> panel \<Rightarrow> panel" where
  "connect_node_impl env st render n force p =
     (case acquire_connect_slot (st_stale_timeout st) n (p_clock p) (p_slots p) of
        (None, s) \<Rightarrow> p\<lparr>p_slots := s\<rparr>
      | (Some g, s) \<Rightarrow>
          let p1 = connect_body env st render n force (p\<lparr>p_slots := s\<rparr>)
          in p1\<lparr>p_slots := release_connect_slot n (Some g) (p_slots p1)\<rparr>)"

text \<open>\<open>restart_node\<close>; the fallback is the threaded soft connect, run here at once.\<close>

definition restart_node ::
    "(int \<Rightarrow> remote) \<Rightarrow> connect_settings \<Rightarrow> node_exc + string \<Rightarrow> int \<Rightarrow> panel \<Rightarrow> panel" where
  "restart_node env st render n p =
     (case dget (p_db p) n of
        None \<Rightarrow> p
      | Some d \<Rightarrow>
          let p1 = (case dget (p_nodes p) n of Some _ \<Rightarrow> p | None \<Rightarrow> add_node env n p);
              (c, p2) = with_node n (connected (env n)) p1
          in (case c of
                Inl _ \<Rightarrow> p2
              | Inr False \<Rightarrow> connect_node_impl env st render n False p2
              | Inr True \<Rightarrow>
                  let (r, p3) = (case render of
                        Inl e \<Rightarrow> (Inl e, p2)
                      | Inr j \<Rightarrow> with_node n (thenS (restart (env n) (st_grpc_retries st) j)
                          (modS (\<lambda>s. s\<lparr>rn_tags := Some (dn_tags d)\<rparr>))) p2)
                  in (case r of
                        Inr _ \<Rightarrow> p3
                      | Inl e \<Rightarrow> snd (with_node n (disconnect (env n))
                          (snd (change_node_status env n NodeError (Some e) JNull p3))))))"


section \<open>One attempt\<close>

definition serving :: "rnode \<Rightarrow> bool" where
  "serving s \<longleftrightarrow> rn_started s = JBool True \<and> rn_cert s \<noteq> None \<and> rn_api s = rn_cert s"

lemma attached_serving: "attached env s \<Longrightarrow> serving s"
  by (auto simp: attached_def serving_def)

lemma serving_request: "serving s \<Longrightarrow> make_request env path c s = (r, s') \<Longrightarrow> serving s' \<and> rn_tags s' = rn_tags s"
  by (auto simp: make_request_run Let_def serving_def refresh_http_transport_def recreate_session_def split: if_splits)

lemma outcome_soft_connect:
  "outcome (\<lambda>_. True) (soft_connect env grpc j) (\<lambda>go s. if go then serving s else truthy (rn_session s)) (\<lambda>_ _. True)"
proof -
  have body: "outcome (\<lambda>_. True) (bindS (try_restore env grpc) (\<lambda>restored.
          if restored then ret True else thenS (start env grpc j) (ret True)))
      (\<lambda>go s. if go then serving s else truthy (rn_session s)) (\<lambda>_ _. True)"
    by (rule outcome_bind [OF attached_try_restore], rule outcome_if)
      (auto intro!: outcome_ret attached_serving intro: outcome_bind [OF outcome_weaken [OF attached_start]])
  show ?thesis
    unfolding soft_connect_def
    by (rule outcome_catch [OF body], rule outcome_get, rule outcome_if) (auto intro: outcome_ret outcome_throw)
qed

lemma outcome_hard_connect: "outcome (\<lambda>_. True) (hard_connect env grpc k j) (\<lambda>_. serving) (\<lambda>_ _. True)"
proof -
  have r: "outcome (\<lambda>_. True) (thenS (restart env grpc j) (ret ())) (\<lambda>_. serving) (\<lambda>_ _. True)"
    by (rule outcome_bind [OF attached_restart]) (simp add: outcome_ret attached_serving)
  have c: "outcome (\<lambda>_. True) (thenS (modS (reset_local_state True)) (thenS (connect env) (thenS (restart env grpc j) (ret ()))))
      (\<lambda>_. serving) (\<lambda>_ _. True)"
    by (rule outcome_bind [OF outcome_any], rule outcome_bind [OF outcome_any], rule r)
  show ?thesis
    unfolding hard_connect_def
    by (rule outcome_get, rule outcome_if) (auto intro: outcome_weaken [OF r] outcome_weaken [OF c])
qed

lemma outcome_get_version:
  "outcome (\<lambda>s. serving s \<and> rn_tags s = g) (get_version env) (\<lambda>_ s. serving s \<and> rn_tags s = g) (\<lambda>_ _. True)"
  unfolding get_version_def
  by (rule outcome_bind [where Q' = "\<lambda>_ s. serving s \<and> rn_tags s = g"])
    (auto simp: outcome_def body_get_def ret_def throw_def dest: serving_request split: prod.split sum.split json.split)

lemma outcome_attempt:
  "outcome (\<lambda>_. True) (connect_attempt env grpc force k render tags)
     (\<lambda>r s. case r of Some v \<Rightarrow> serving s \<and> rn_tags s = Some tags | None \<Rightarrow> \<not> force \<and> truthy (rn_session s)) (\<lambda>_ _. True)"
proof (cases render)
  case (Inr j)
  have one: "outcome (\<lambda>_. True) (if force then thenS (hard_connect env grpc k j) (ret True) else soft_connect env grpc j)
      (\<lambda>go s. if go then serving s else \<not> force \<and> truthy (rn_session s)) (\<lambda>_ _. True)"
    by (rule outcome_if, rule outcome_bind [OF outcome_hard_connect])
      (auto intro: outcome_ret outcome_weaken [OF outcome_soft_connect] split: if_splits)
  have tail: "outcome serving (thenS (modS (\<lambda>s. s\<lparr>rn_tags := Some tags\<rparr>)) (bindS (get_version env) (\<lambda>v. ret (Some v))))
      (\<lambda>r s. case r of Some v \<Rightarrow> serving s \<and> rn_tags s = Some tags | None \<Rightarrow> \<not> force \<and> truthy (rn_session s)) (\<lambda>_ _. True)"
    by (rule outcome_bind [where Q' = "\<lambda>_ s. serving s \<and> rn_tags s = Some tags"], rule outcome_mod, simp add: serving_def,
        rule outcome_bind [OF outcome_get_version]) (simp add: outcome_ret)
  show ?thesis
    unfolding connect_attempt_def Inr sum.case
    by (rule outcome_bind [OF one], rule outcome_if) (auto intro: outcome_weaken [OF tail] outcome_ret)
qed (simp add: connect_attempt_def outcome_throw)

section \<open>The attempts and the frame\<close>

definition only_node :: "int \<Rightarrow> panel \<Rightarrow> panel \<Rightarrow> bool" where
  "only_node n p p' \<longleftrightarrow> p_slots p' = p_slots p \<and> p_db p' = p_db p \<and>
     (\<forall>m. m \<noteq> n \<longrightarrow> dget (p_nodes p') m = dget (p_nodes p) m) \<and>
     (dget (p_nodes p) n \<noteq> None \<longrightarrow> dget (p_nodes p') n \<noteq> None)"

lemma only_node_trans: "only_node n p q \<Longrightarrow> only_node n q r \<Longrightarrow> only_node n p r"
  by (simp add: only_node_def)

lemma with_node_only: "with_node n m p = (r, p') \<Longrightarrow> only_node n p p'"
  by (auto simp: with_node_def only_node_def split: option.splits prod.splits)

lemma with_node_run:
  "with_node n m p = (r, p') \<Longrightarrow> dget (p_nodes p) n = Some nd \<Longrightarrow> \<exists>nd'. m nd = (r, nd') \<and> dget (p_nodes p') n = Some nd'"
  by (auto simp: with_node_def split: prod.splits)

lemma attempt_loop_only: "attempt_loop env st n force render tags left k p = (r, p') \<Longrightarrow> only_node n p p'"
proof (induction left arbitrary: k p)
  case 0
  then show ?case by (auto intro: with_node_only)
next
  case (Suc left)
  show ?case
  proof (cases "with_node n (connect_attempt (env n) (st_grpc_retries st) force k render tags) p")
    case (Pair r1 p1)
    note o1 = with_node_only [OF Pair]
    show ?thesis
    proof (cases r1)
      case (Inl e)
      with Suc.prems Pair have "only_node n (p1\<lparr>p_clock := p_clock p1 + max 0 (st_retry_delay st) * k\<rparr>) p'"
        by (auto intro: Suc.IH)
      with o1 show ?thesis by (simp add: only_node_def)
    next
      case (Inr x)
      with Suc.prems Pair o1 show ?thesis by simp
    qed
  qed
qed

lemma attempt_loop_result:
  assumes "attempt_loop env st n force render tags left k p = (Inr x, p')" and "dget (p_nodes p) n \<noteq> None"
  shows "\<exists>nd. dget (p_nodes p') n = Some nd \<and>
    (case x of Some v \<Rightarrow> serving nd \<and> rn_tags nd = Some tags | None \<Rightarrow> \<not> force \<and> truthy (rn_session nd))"
  using assms
proof (induction left arbitrary: k p)
  have run: "\<exists>nd. dget (p_nodes p') n = Some nd \<and>
      (case x of Some v \<Rightarrow> serving nd \<and> rn_tags nd = Some tags | None \<Rightarrow> \<not> force \<and> truthy (rn_session nd))"
    if w: "with_node n (connect_attempt (env n) (st_grpc_retries st) force k render tags) p = (Inr x, p')"
      and nd: "dget (p_nodes p) n \<noteq> None" for k p
  proof -
    from nd obtain m where "dget (p_nodes p) n = Some m" by auto
    from with_node_run [OF w this] obtain m' where
      "connect_attempt (env n) (st_grpc_retries st) force k render tags m = (Inr x, m')" "dget (p_nodes p') n = Some m'"
      by blast
    with outcome_result [OF outcome_attempt] show ?thesis by blast
  qed
  {
    case 0
    then show ?case by (auto intro: run)
  next
    case (Suc left)
    show ?case
    proof (cases "with_node n (connect_attempt (env n) (st_grpc_retries st) force k render tags) p")
      case (Pair r1 p1)
      then have "dget (p_nodes p1) n \<noteq> None"
        using with_node_only [OF Pair] Suc.prems(2) unfolding only_node_def by blast
      with Pair Suc show ?thesis
        by (cases r1) (auto intro: run)
    qed
  }
qed

lemma add_node_present: "\<exists>nd. dget (p_nodes (add_node env n p)) n = Some nd"
  by (simp add: add_node_def Let_def)

lemma add_node_only: "only_node n p (add_node env n p)"
  by (auto simp: add_node_def remove_node_def only_node_def Let_def split: option.split)

section \<open>The whole procedure\<close>

lemma change_status_enabled:
  "dget (p_db p) n = Some d \<Longrightarrow> dn_status d \<noteq> NodeDisabled \<Longrightarrow>
   change_node_status env n st msg v p =
     (True, p\<lparr>p_db := dput n (update_node_status (p_clock p) st msg v d) (p_db p)\<rparr>)"
  by (simp add: change_node_status_def)

text \<open>The body of a connect for an enabled node: what the attempts start from and what is written after.\<close>

lemma connect_body_enabled:
  assumes d: "dget (p_db p) n = Some d" and en: "dn_status d \<noteq> NodeDisabled"
  obtains p2 r p3 d2 where
    "attempt_loop env st n force render (dn_tags d) (connect_retries st force - 1) 1 p2 = (r, p3)"
    and "dget (p_nodes p2) n \<noteq> None" and "p_slots p2 = p_slots p"
    and "\<And>m. m \<noteq> n \<Longrightarrow> dget (p_nodes p2) m = dget (p_nodes p) m \<and> dget (p_db p2) m = dget (p_db p) m"
    and "dget (p_nodes p) n \<noteq> None \<Longrightarrow> dget (p_nodes p2) n = dget (p_nodes p) n"
    and "dget (p_db p3) n = Some d2" and "dn_status d2 = NodeConnecting"
    and "connect_body env st render n force p = (case r of
           Inr (Some v) \<Rightarrow> p3\<lparr>p_db := dput n (update_node_status (p_clock p3) NodeConnected None v d2) (p_db p3)\<rparr>
         | Inr None \<Rightarrow> p3
         | Inl e \<Rightarrow> p3\<lparr>p_db := dput n (update_node_status (p_clock p3) NodeError (Some e) JNull d2) (p_db p3)\<rparr>)"
proof -
  define p1 where "p1 = (if dn_status d \<noteq> NodeConnecting then snd (change_node_status env n NodeConnecting None JNull p) else p)"
  define p2 where "p2 = (case dget (p_nodes p1) n of Some _ \<Rightarrow> p1 | None \<Rightarrow> add_node env n p1)"
  obtain r p3 where run: "attempt_loop env st n force render (dn_tags d) (connect_retries st force - 1) 1 p2 = (r, p3)"
    by (metis surj_pair)
  have p1: "p_slots p1 = p_slots p" "p_nodes p1 = p_nodes p" "\<And>m. m \<noteq> n \<Longrightarrow> dget (p_db p1) m = dget (p_db p) m"
    "\<exists>d1. dget (p_db p1) n = Some d1 \<and> dn_status d1 = NodeConnecting"
    using change_status_enabled [OF d en, of env NodeConnecting None JNull] d
    by (auto simp: p1_def update_node_status_def)
  have p2: "only_node n p1 p2" "dget (p_nodes p2) n \<noteq> None" "dget (p_nodes p1) n \<noteq> None \<Longrightarrow> p2 = p1"
    using add_node_only [of n p1 env] add_node_present [of env n p1]
    by (auto simp: p2_def only_node_def split: option.split)
  from attempt_loop_only [OF run] p2(1) p1(4) obtain d2 where d2: "dget (p_db p3) n = Some d2" "dn_status d2 = NodeConnecting"
    by (auto simp: only_node_def)
  have body: "connect_body env st render n force p = (case r of
           Inr (Some v) \<Rightarrow> p3\<lparr>p_db := dput n (update_node_status (p_clock p3) NodeConnected None v d2) (p_db p3)\<rparr>
         | Inr None \<Rightarrow> p3
         | Inl e \<Rightarrow> p3\<lparr>p_db := dput n (update_node_status (p_clock p3) NodeError (Some e) JNull d2) (p_db p3)\<rparr>)"
    using run d2 en change_status_enabled [OF d2(1)]
    by (simp add: connect_body_def d p1_def [symmetric] p2_def [symmetric] Let_def split: sum.split option.split)
  show thesis
    by (rule that [OF run p2(2) _ _ _ d2 body]) (use p1 p2 in \<open>auto simp: only_node_def\<close>)
qed

lemma remove_node_slots: "p_slots (remove_node env n True p) = invalidate_connect_slot n (p_slots p)"
  by (simp add: remove_node_def Let_def split: option.split)

lemma connect_body_slots:
  "p_slots (connect_body env st render n force p) = p_slots p \<or>
   p_slots (connect_body env st render n force p) = invalidate_connect_slot n (p_slots p)"
proof (cases "dget (p_db p) n")
  case (Some d)
  show ?thesis
  proof (cases "dn_status d = NodeDisabled")
    case True
    with Some show ?thesis by (simp add: connect_body_def remove_node_slots)
  next
    case False
    from connect_body_enabled [OF Some False, of env st force render] obtain p2 r p3 d2 where
      b: "attempt_loop env st n force render (dn_tags d) (connect_retries st force - 1) 1 p2 = (r, p3)" "p_slots p2 = p_slots p"
      "connect_body env st render n force p = (case r of
           Inr (Some v) \<Rightarrow> p3\<lparr>p_db := dput n (update_node_status (p_clock p3) NodeConnected None v d2) (p_db p3)\<rparr>
         | Inr None \<Rightarrow> p3
         | Inl e \<Rightarrow> p3\<lparr>p_db := dput n (update_node_status (p_clock p3) NodeError (Some e) JNull d2) (p_db p3)\<rparr>)"
      by metis
    from attempt_loop_only [OF b(1)] b(2,3) show ?thesis
      by (auto simp: only_node_def split: sum.split option.split)
  qed
qed (simp add: connect_body_def)


lemma acquire_not_in_progress_after:
  assumes "acquire_connect_slot timeout n now s0 = (Some g, s)" and "s1 = s \<or> s1 = invalidate_connect_slot n s"
  shows "\<not> is_connect_in_progress (release_connect_slot n (Some g) s1) n"
proof -
  have "dget (sl_generation s) n = Some g"
    using assms(1) by (cases rule: acquire_cases) (auto simp: take_slot_def gen_of_def bump_def drop_slot_def Let_def)
  with assms(2) show ?thesis
    by (auto simp: release_connect_slot_def is_connect_in_progress_def)
qed

lemma slots_of_others:
  assumes "acquire_connect_slot timeout n now s0 = (r, s)" and "s1 = s \<or> s1 = invalidate_connect_slot n s" and "m \<noteq> n"
  shows "is_connect_in_progress (release_connect_slot n q s1) m = is_connect_in_progress s0 m"
proof -
  have "m \<in> set (sl_connecting s) \<longleftrightarrow> m \<in> set (sl_connecting s0)"
    using assms(1,3)
    by (cases r) (auto dest: acquire_None acquire_Some(4))
  with assms(2,3) show ?thesis
    by (auto simp: release_connect_slot_def is_connect_in_progress_def split: option.split)
qed

text \<open>C10: A connect that got the node's slot gives it back on every path (missing node, disabled
  node, success, deferred soft path, failed attempts), a connect that is refused changes nothing, and in
  no case is the slot of another node touched.\<close>

theorem connect_releases_its_slot:
  "(fst (acquire_connect_slot (st_stale_timeout st) n (p_clock p) (p_slots p)) = None \<longrightarrow>
      connect_node_impl env st render n force p = p) \<and>
   (fst (acquire_connect_slot (st_stale_timeout st) n (p_clock p) (p_slots p)) \<noteq> None \<longrightarrow>
      \<not> is_connect_in_progress (p_slots (connect_node_impl env st render n force p)) n) \<and>
   (\<forall>m. m \<noteq> n \<longrightarrow> is_connect_in_progress (p_slots (connect_node_impl env st render n force p)) m =
      is_connect_in_progress (p_slots p) m)"
proof -
  obtain r s where a: "acquire_connect_slot (st_stale_timeout st) n (p_clock p) (p_slots p) = (r, s)"
    by (cases "acquire_connect_slot (st_stale_timeout st) n (p_clock p) (p_slots p)") auto
  show ?thesis
  proof (cases r)
    case None
    with a acquire_None have "s = p_slots p" by blast
    with a None show ?thesis by (simp add: connect_node_impl_def)
  next
    case (Some g)
    define s1 where "s1 = p_slots (connect_body env st render n force (p\<lparr>p_slots := s\<rparr>))"
    have s1: "s1 = s \<or> s1 = invalidate_connect_slot n s"
      using connect_body_slots [of env st render n force "p\<lparr>p_slots := s\<rparr>"] by (simp add: s1_def)
    have "p_slots (connect_node_impl env st render n force p) = release_connect_slot n (Some g) s1"
      using a Some by (simp add: connect_node_impl_def s1_def Let_def)
    with a Some s1 show ?thesis
      using acquire_not_in_progress_after slots_of_others by auto
  qed
qed

definition sample_settings :: connect_settings where
  "sample_settings = \<lparr>st_stale_timeout = 120, st_retries = 3, st_retry_delay = 10, st_grpc_retries = 1\<rparr>"

definition sample_dbnode :: dbnode where
  "sample_dbnode = \<lparr>dn_status = NodeError, dn_message = None, dn_version = JNull, dn_changed = None, dn_tags = [''VLESS'']\<rparr>"

definition sample_panel :: panel where
  "sample_panel = \<lparr>p_slots = \<lparr>sl_connecting = [], sl_started_at = [], sl_generation = []\<rparr>, p_nodes = [],
     p_db = [(5, sample_dbnode)], p_traffic = [], p_clock = 100\<rparr>"

theorem connect_releases_its_slot_witness:
  "\<not> is_connect_in_progress
     (p_slots (connect_node_impl (\<lambda>_. flaky_remote) sample_settings (Inr ''cfg'') 5 True sample_panel)) 5"
proof -
  have "fst (acquire_connect_slot (st_stale_timeout sample_settings) 5 (p_clock sample_panel) (p_slots sample_panel)) \<noteq> None"
    by (simp add: sample_panel_def sample_settings_def acquire_connect_slot_def take_slot_def Let_def)
  with connect_releases_its_slot show ?thesis by blast
qed

text \<open>C11: After a connect that got the slot of an enabled node, the status written to the database
  tells the truth: connected only if the client serves the node (core started, gRPC channel up, the
  node's inbound tags recorded), connecting only if a soft attempt was deferred with its session
  kept, otherwise error with the exception as message; never anything else.\<close>

theorem connect_status_truthful:
  assumes "fst (acquire_connect_slot (st_stale_timeout st) n (p_clock p) (p_slots p)) \<noteq> None"
    and "dget (p_db p) n = Some d" and "dn_status d \<noteq> NodeDisabled"
    and "p' = connect_node_impl env st render n force p"
  shows "\<exists>d' nd. dget (p_db p') n = Some d' \<and> dget (p_nodes p') n = Some nd \<and>
    (case dn_status d' of
       NodeConnected \<Rightarrow> serving nd \<and> rn_tags nd = Some (dn_tags d) \<and> dn_message d' = None
     | NodeConnecting \<Rightarrow> \<not> force \<and> truthy (rn_session nd)
     | NodeError \<Rightarrow> dn_message d' \<noteq> None
     | NodeDisabled \<Rightarrow> False)"
proof -
  from assms(1) obtain g s where a: "acquire_connect_slot (st_stale_timeout st) n (p_clock p) (p_slots p) = (Some g, s)"
    by (metis option.exhaust prod.collapse)
  define q where "q = p\<lparr>p_slots := s\<rparr>"
  define b where "b = connect_body env st render n force q"
  have p': "p_db p' = p_db b" "p_nodes p' = p_nodes b"
    using a assms(4) by (simp_all add: connect_node_impl_def Let_def b_def q_def)
  from assms(2) have "dget (p_db q) n = Some d" by (simp add: q_def)
  from connect_body_enabled [OF this assms(3), of env st force render] obtain p2 r p3 d2 where
    run: "attempt_loop env st n force render (dn_tags d) (connect_retries st force - 1) 1 p2 = (r, p3)"
    and n2: "dget (p_nodes p2) n \<noteq> None"
    and d2: "dget (p_db p3) n = Some d2" "dn_status d2 = NodeConnecting"
    and body: "b = (case r of
           Inr (Some v) \<Rightarrow> p3\<lparr>p_db := dput n (update_node_status (p_clock p3) NodeConnected None v d2) (p_db p3)\<rparr>
         | Inr None \<Rightarrow> p3
         | Inl e \<Rightarrow> p3\<lparr>p_db := dput n (update_node_status (p_clock p3) NodeError (Some e) JNull d2) (p_db p3)\<rparr>)"
    unfolding b_def by metis
  show ?thesis
  proof (cases r)
    case (Inl e)
    obtain nd where "dget (p_nodes p3) n = Some nd"
      using attempt_loop_only [OF run] n2 by (auto simp: only_node_def)
    with Inl body p' show ?thesis by (simp add: update_node_status_def)
  next
    case (Inr x)
    from attempt_loop_result [OF run [unfolded Inr] n2] obtain nd where nd: "dget (p_nodes p3) n = Some nd"
      "case x of Some v \<Rightarrow> serving nd \<and> rn_tags nd = Some (dn_tags d) | None \<Rightarrow> \<not> force \<and> truthy (rn_session nd)"
      by blast
    with Inr body p' d2 show ?thesis by (cases x) (simp_all add: update_node_status_def)
  qed
qed

theorem connect_status_truthful_witness:
  "\<exists>d' nd. dget (p_db (connect_node_impl (\<lambda>_. flaky_remote) sample_settings (Inr ''cfg'') 5 True sample_panel)) 5 = Some d' \<and>
    dget (p_nodes (connect_node_impl (\<lambda>_. flaky_remote) sample_settings (Inr ''cfg'') 5 True sample_panel)) 5 = Some nd \<and>
    (case dn_status d' of
       NodeConnected \<Rightarrow> serving nd \<and> rn_tags nd = Some [''VLESS''] \<and> dn_message d' = None
     | NodeConnecting \<Rightarrow> \<not> True \<and> truthy (rn_session nd)
     | NodeError \<Rightarrow> dn_message d' \<noteq> None
     | NodeDisabled \<Rightarrow> False)"
proof -
  have a: "fst (acquire_connect_slot (st_stale_timeout sample_settings) 5 (p_clock sample_panel) (p_slots sample_panel)) \<noteq> None"
    by (simp add: sample_panel_def sample_settings_def acquire_connect_slot_def take_slot_def Let_def)
  have d: "dget (p_db sample_panel) 5 = Some sample_dbnode" "dn_status sample_dbnode \<noteq> NodeDisabled"
    by (simp_all add: sample_panel_def sample_dbnode_def)
  have tags: "dn_tags sample_dbnode = [''VLESS'']" by (simp add: sample_dbnode_def)
  from connect_status_truthful [OF a d refl, of "\<lambda>_. flaky_remote" "Inr ''cfg''" True] show ?thesis
    unfolding tags .
qed


section \<open>The soft path\<close>

lemma gentle_soft_connect: "follows (gentle env) (soft_connect env grpc j)"
  unfolding soft_connect_def
  by (auto intro!: gentle_basic gentle_try_restore gentle_start)

lemma gentle_soft_attempt: "follows (gentle env) (connect_attempt env grpc False k render tags)"
  unfolding connect_attempt_def get_version_def
  by (auto intro!: gentle_basic gentle_soft_connect gentle_mod split: sum.split)

text \<open>A soft reconnect (health check, background) never takes the node over: starting from a client
  with a session and a certificate, either the session and the certificate are the same afterwards and
  the panel only pinged, read the state, started a stopped core and reattached gRPC (no connect, no
  restart, no disconnect), or the node itself rejected the session in this very run.\<close>

theorem soft_reconnect_never_takes_over:
  assumes "fst (acquire_connect_slot (st_stale_timeout st) n (p_clock p) (p_slots p)) \<noteq> None"
    and "dget (p_db p) n = Some d" and "dn_status d \<noteq> NodeDisabled"
    and "dget (p_nodes p) n = Some nd" and "truthy (rn_session nd)" and "truthy_str (rn_cert nd)"
    and "dget (p_nodes (connect_node_impl env st render n False p)) n = Some nd'"
  shows "(rn_session nd' = rn_session nd \<and> rn_cert nd' = rn_cert nd \<and>
           list_all gentle_event (drop (length (rn_log nd)) (rn_log nd'))) \<or> rejected_in (env n) nd nd'"
proof -
  from assms(1) obtain g s where a: "acquire_connect_slot (st_stale_timeout st) n (p_clock p) (p_slots p) = (Some g, s)"
    by (metis option.exhaust prod.collapse)
  define q where "q = p\<lparr>p_slots := s\<rparr>"
  define b where "b = connect_body env st render n False q"
  have nd': "dget (p_nodes b) n = Some nd'"
    using a assms(7) by (simp add: connect_node_impl_def Let_def b_def q_def)
  from assms(2) have "dget (p_db q) n = Some d" by (simp add: q_def)
  from connect_body_enabled [OF this assms(3), of env st False render] obtain p2 r p3 d2 where
    run: "attempt_loop env st n False render (dn_tags d) (connect_retries st False - 1) 1 p2 = (r, p3)"
    and n2: "dget (p_nodes q) n \<noteq> None \<Longrightarrow> dget (p_nodes p2) n = dget (p_nodes q) n"
    and body: "b = (case r of
           Inr (Some v) \<Rightarrow> p3\<lparr>p_db := dput n (update_node_status (p_clock p3) NodeConnected None v d2) (p_db p3)\<rparr>
         | Inr None \<Rightarrow> p3
         | Inl e \<Rightarrow> p3\<lparr>p_db := dput n (update_node_status (p_clock p3) NodeError (Some e) JNull d2) (p_db p3)\<rparr>)"
    unfolding b_def by metis
  have start: "dget (p_nodes p2) n = Some nd"
    using n2 assms(4) by (simp add: q_def)
  have "with_node n (connect_attempt (env n) (st_grpc_retries st) False 1 render (dn_tags d)) p2 = (r, p3)"
    using run by (simp add: connect_retries_def)
  from with_node_run [OF this start] obtain nd3 where
    nd3: "connect_attempt (env n) (st_grpc_retries st) False 1 render (dn_tags d) nd = (r, nd3)" "dget (p_nodes p3) n = Some nd3"
    by blast
  have "dget (p_nodes b) n = dget (p_nodes p3) n"
    by (simp add: body split: sum.split option.split)
  with nd3 nd' have "nd3 = nd'" by simp
  with followsD [OF gentle_soft_attempt nd3(1)] assms(5,6) show ?thesis
    by (simp add: gentle_def usable_def undisturbed_def)
qed

text \<open>A node with a live session whose core was killed: the soft path starts it and keeps the session.\<close>

definition stopped_remote :: remote where
  "stopped_remote = \<lparr>rm_post = (\<lambda>h. Answer 200 (JObj [(''started'', JBool False), (''core_version'', JStr ''25'')])),
     rm_certificate = (\<lambda>_. Inr ''CERT''), rm_grpc_ready = (\<lambda>_. True)\<rparr>"

definition live_node :: rnode where
  "live_node = \<lparr>rn_session = JStr ''s1'', rn_cert = Some ''CERT'', rn_certfile = Some ''CERT'', rn_verify = Some ''CERT'',
     rn_started = JBool True, rn_api = Some ''CERT'', rn_tags = None, rn_log = []\<rparr>"

definition live_panel :: panel where
  "live_panel = sample_panel\<lparr>p_nodes := [(5, live_node)]\<rparr>"

lemma live_panel_after:
  "map_option (\<lambda>d. (rn_session d, map (\<lambda>ev. case ev of Posted p _ _ _ \<Rightarrow> p | _ \<Rightarrow> ''grpc'') (rn_log d)))
     (dget (p_nodes (connect_node_impl (\<lambda>_. stopped_remote) sample_settings (Inr ''cfg'') 5 False live_panel)) 5) =
   Some (JStr ''s1'', [''/ping'', ''/'', ''/ping'', ''/'', ''/start'', ''grpc'', ''/''])"
  by code_simp

theorem soft_reconnect_never_takes_over_witness:
  "\<exists>nd'. dget (p_nodes (connect_node_impl (\<lambda>_. stopped_remote) sample_settings (Inr ''cfg'') 5 False live_panel)) 5 = Some nd' \<and>
     rn_session nd' = JStr ''s1'' \<and>
     ((rn_session nd' = rn_session live_node \<and> rn_cert nd' = rn_cert live_node \<and>
       list_all gentle_event (drop (length (rn_log live_node)) (rn_log nd'))) \<or> rejected_in stopped_remote live_node nd')"
proof -
  from live_panel_after obtain nd' where
    nd': "dget (p_nodes (connect_node_impl (\<lambda>_. stopped_remote) sample_settings (Inr ''cfg'') 5 False live_panel)) 5 = Some nd'"
    and sid: "rn_session nd' = JStr ''s1''"
    by auto
  have a: "fst (acquire_connect_slot (st_stale_timeout sample_settings) 5 (p_clock live_panel) (p_slots live_panel)) \<noteq> None"
    by (simp add: live_panel_def sample_panel_def sample_settings_def acquire_connect_slot_def take_slot_def Let_def)
  have d: "dget (p_db live_panel) 5 = Some sample_dbnode" "dn_status sample_dbnode \<noteq> NodeDisabled"
    "dget (p_nodes live_panel) 5 = Some live_node" "truthy (rn_session live_node)" "truthy_str (rn_cert live_node)"
    by (simp_all add: live_panel_def sample_panel_def sample_dbnode_def live_node_def)
  from soft_reconnect_never_takes_over [OF a d nd'] nd' sid show ?thesis
    by blast
qed

text \<open>Connecting a disabled node never talks to it except to end a session it still has: the node is
  dropped from memory, its status stays disabled, and the only traffic is at most one disconnect.\<close>

theorem disabled_node_is_only_dropped:
  assumes "fst (acquire_connect_slot (st_stale_timeout st) n (p_clock p) (p_slots p)) \<noteq> None"
    and "dget (p_db p) n = Some d" and "dn_status d = NodeDisabled"
    and "p' = connect_node_impl env st render n force p"
  shows "p_db p' = p_db p \<and> dget (p_nodes p') n = None \<and>
    (\<forall>nd. dget (p_nodes p) n = Some nd \<longrightarrow>
       (\<exists>new. dget (p_traffic p') n = Some (rn_log nd @ new) \<and> length new \<le> 1 \<and>
          (\<forall>ev \<in> set new. \<exists>sid v. ev = Posted ''/disconnect'' sid None v)))"
proof -
  from assms(1) obtain g s where a: "acquire_connect_slot (st_stale_timeout st) n (p_clock p) (p_slots p) = (Some g, s)"
    by (metis option.exhaust prod.collapse)
  have log: "\<exists>new. rn_log (snd (disconnect e nd)) = rn_log nd @ new \<and> length new \<le> 1 \<and>
     (\<forall>ev \<in> set new. \<exists>sid v. ev = Posted ''/disconnect'' sid None v)" for e nd
    by (auto simp: disconnect_def catch_api_error_def eff_defs make_request_run Let_def
        split: option.split node_exc.split)
  define q where "q = remove_node env n True (p\<lparr>p_slots := s\<rparr>)"
  have p': "p_db p' = p_db q" "p_nodes p' = p_nodes q" "p_traffic p' = p_traffic q"
    using a assms(2-4) by (simp_all add: connect_node_impl_def Let_def connect_body_def q_def)
  show ?thesis
    unfolding p' q_def remove_node_def Let_def using log
    by (auto split: option.split)
qed

theorem disabled_node_is_only_dropped_witness:
  "dget (p_nodes (connect_node_impl (\<lambda>_. flaky_remote) sample_settings (Inr ''cfg'') 5 True
     (live_panel\<lparr>p_db := [(5, sample_dbnode\<lparr>dn_status := NodeDisabled\<rparr>)]\<rparr>))) 5 = None"
proof -
  let ?p = "live_panel\<lparr>p_db := [(5, sample_dbnode\<lparr>dn_status := NodeDisabled\<rparr>)]\<rparr>"
  have a: "fst (acquire_connect_slot (st_stale_timeout sample_settings) 5 (p_clock ?p) (p_slots ?p)) \<noteq> None"
    by (simp add: live_panel_def sample_panel_def sample_settings_def acquire_connect_slot_def take_slot_def Let_def)
  have d: "dget (p_db ?p) 5 = Some (sample_dbnode\<lparr>dn_status := NodeDisabled\<rparr>)"
    "dn_status (sample_dbnode\<lparr>dn_status := NodeDisabled\<rparr>) = NodeDisabled"
    by simp_all
  from disabled_node_is_only_dropped [OF a d refl] show ?thesis by blast
qed

end
