(* ===== verification/HealthCheck.thy ===== *)
theory HealthCheck
  imports ConnectNode
begin

text \<open>
  The health check of the nodes (app/jobs/0_xray_core.py): one tick looks at every enabled node and
  schedules soft or hard connects and core restarts. Scheduled calls run in other threads and are the
  result of the tick here; the main core and the rendering of the configuration are left out.
  \<open>stats_ok\<close> says whether the node's core answers the statistics call.
\<close>

datatype health_action = ScheduleConnect int bool | ScheduleRestart int

record health_settings =
  hc_stale_timeout :: int
  hc_error_interval :: int
  hc_max_connects :: int

record tick =
  tk_panel :: panel
  tk_error_last :: "(int \<times> int) list"
  tk_actions :: "health_action list"
  tk_count :: int

definition should_force_reconnect :: "health_settings \<Rightarrow> int \<Rightarrow> node_status \<Rightarrow> int \<Rightarrow> tick \<Rightarrow> bool \<times> tick" where
  "should_force_reconnect hc n status now tk =
     (if status = NodeConnecting then
        (if is_connect_stale (hc_stale_timeout hc) (p_slots (tk_panel tk)) n (p_clock (tk_panel tk)) then (True, tk)
         else (case connecting_age_seconds (tk_panel tk) n of
                 Some age \<Rightarrow> (age \<ge> hc_stale_timeout hc, tk)
               | None \<Rightarrow> (False, tk)))
      else if status \<noteq> NodeError then (False, tk)
      else if now - dget_or (tk_error_last tk) n 0 \<ge> hc_error_interval hc
      then (True, tk\<lparr>tk_error_last := dput n now (tk_error_last tk)\<rparr>)
      else (False, tk))"

text \<open>The check of a connected node: the REST state and the core's statistics.\<close>

definition core_healthy :: "remote \<Rightarrow> bool \<Rightarrow> bool node_op" where
  "core_healthy env stats_ok =
     catchS
       (bindS (started env) (\<lambda>v.
          if \<not> truthy v then throw (NodeAssertion ''Xray core is not started on node'')
          else bindS api (\<lambda>_. if stats_ok then ret True else throw (NodeXrayError ''stats''))))
       (\<lambda>e. case e of NodePyError _ \<Rightarrow> throw e | _ \<Rightarrow> ret False)"

definition schedule :: "health_action \<Rightarrow> tick \<Rightarrow> tick" where
  "schedule a tk = tk\<lparr>tk_actions := tk_actions tk @ [a]\<rparr>"

definition schedule_connect :: "int \<Rightarrow> bool \<Rightarrow> tick \<Rightarrow> tick" where
  "schedule_connect n force tk = schedule (ScheduleConnect n force) (tk\<lparr>tk_count := tk_count tk + 1\<rparr>)"

definition on_node :: "int \<Rightarrow> 'a node_op \<Rightarrow> tick \<Rightarrow> (node_exc + 'a) \<times> tick" where
  "on_node n m tk = (let (r, p) = with_node n m (tk_panel tk) in (r, tk\<lparr>tk_panel := p\<rparr>))"

definition max_reconnects :: "health_settings \<Rightarrow> int" where
  "max_reconnects hc = max 1 (hc_max_connects hc)"

text \<open>One node: the exception that ends the tick, or whether the loop breaks.\<close>

definition check_connected ::
    "(int \<Rightarrow> remote) \<Rightarrow> (int \<Rightarrow> bool) \<Rightarrow> health_settings \<Rightarrow> int \<Rightarrow> tick \<Rightarrow> (node_exc + bool) \<times> tick" where
  "check_connected env stats_ok hc n tk =
     (case on_node n (connected (env n)) tk of
        (Inl e, tk1) \<Rightarrow> (Inl e, tk1)
      | (Inr False, tk1) \<Rightarrow>
          if tk_count tk1 \<ge> max_reconnects hc then (Inr False, tk1)
          else if is_connect_in_progress (p_slots (tk_panel tk1)) n then (Inr False, tk1)
          else (Inr False, schedule_connect n False tk1)
      | (Inr True, tk1) \<Rightarrow>
          (case on_node n (core_healthy (env n) (stats_ok n)) tk1 of
             (Inl e, tk2) \<Rightarrow> (Inl e, tk2)
           | (Inr True, tk2) \<Rightarrow> (Inr False, tk2)
           | (Inr False, tk2) \<Rightarrow> (Inr False, schedule (ScheduleRestart n) tk2)))"

definition check_unconnected :: "health_settings \<Rightarrow> int \<Rightarrow> int \<Rightarrow> node_status \<Rightarrow> tick \<Rightarrow> (node_exc + bool) \<times> tick" where
  "check_unconnected hc now n status tk =
     (if status \<noteq> NodeError \<and> status \<noteq> NodeConnecting then (Inr False, tk)
      else if tk_count tk \<ge> max_reconnects hc then (Inr True, tk)
      else
        let (force, tk1) = should_force_reconnect hc n status now tk in
        if is_connect_in_progress (p_slots (tk_panel tk1)) n \<and>
           \<not> (force \<and> is_connect_stale (hc_stale_timeout hc) (p_slots (tk_panel tk1)) n (p_clock (tk_panel tk1)))
        then (Inr False, tk1)
        else (Inr False, schedule_connect n force tk1))"

definition check_node ::
    "(int \<Rightarrow> remote) \<Rightarrow> (int \<Rightarrow> bool) \<Rightarrow> health_settings \<Rightarrow> int \<Rightarrow> int \<times> node_status \<Rightarrow> tick \<Rightarrow> (node_exc + bool) \<times> tick" where
  "check_node env stats_ok hc now node tk =
     (let (n, status) = node;
          tk0 = (case dget (p_nodes (tk_panel tk)) n of
                   Some _ \<Rightarrow> tk | None \<Rightarrow> tk\<lparr>tk_panel := add_node env n (tk_panel tk)\<rparr>)
      in if status = NodeConnected then check_connected env stats_ok hc n tk0
         else check_unconnected hc now n status tk0)"

fun health_loop ::
    "(int \<Rightarrow> remote) \<Rightarrow> (int \<Rightarrow> bool) \<Rightarrow> health_settings \<Rightarrow> int \<Rightarrow> (int \<times> node_status) list \<Rightarrow> tick \<Rightarrow> (node_exc + unit) \<times> tick" where
  "health_loop env stats_ok hc now [] tk = (Inr (), tk)"
| "health_loop env stats_ok hc now (x # xs) tk =
     (case check_node env stats_ok hc now x tk of
        (Inl e, tk1) \<Rightarrow> (Inl e, tk1)
      | (Inr True, tk1) \<Rightarrow> (Inr (), tk1)
      | (Inr False, tk1) \<Rightarrow> health_loop env stats_ok hc now xs tk1)"

definition enabled_nodes :: "panel \<Rightarrow> (int \<times> node_status) list" where
  "enabled_nodes p = filter (\<lambda>x. snd x \<noteq> NodeDisabled) (map (\<lambda>(n, d). (n, dn_status d)) (p_db p))"

definition core_health_check ::
    "(int \<Rightarrow> remote) \<Rightarrow> (int \<Rightarrow> bool) \<Rightarrow> health_settings \<Rightarrow> (int \<times> int) list \<Rightarrow> panel \<Rightarrow> (node_exc + unit) \<times> tick" where
  "core_health_check env stats_ok hc error_last p =
     health_loop env stats_ok hc (p_clock p) (enabled_nodes p)
       \<lparr>tk_panel = p, tk_error_last = error_last, tk_actions = [], tk_count = 0\<rparr>"

section \<open>Lemmas\<close>

text \<open>What stays fixed during a tick: slots, database, clock.\<close>

definition same_frame :: "tick \<Rightarrow> tick \<Rightarrow> bool" where
  "same_frame a b \<longleftrightarrow> p_slots (tk_panel b) = p_slots (tk_panel a) \<and> p_db (tk_panel b) = p_db (tk_panel a) \<and>
     p_clock (tk_panel b) = p_clock (tk_panel a)"

lemma same_frame_refl [simp]: "same_frame a a"
  by (simp add: same_frame_def)

lemma same_frame_trans: "same_frame a b \<Longrightarrow> same_frame b c \<Longrightarrow> same_frame a c"
  by (simp add: same_frame_def)

lemma on_node_frame:
  "on_node n m tk = (r, tk') \<Longrightarrow> same_frame tk tk' \<and> tk_actions tk' = tk_actions tk \<and> tk_count tk' = tk_count tk \<and>
     tk_error_last tk' = tk_error_last tk"
  by (auto simp: on_node_def with_node_def same_frame_def split: option.splits prod.splits)

lemma add_node_frame: "same_frame tk (tk\<lparr>tk_panel := add_node env n (tk_panel tk)\<rparr>)"
  by (auto simp: same_frame_def add_node_def remove_node_def Let_def split: option.split)

lemma force_frame:
  "should_force_reconnect hc n status now tk = (f, tk') \<Longrightarrow> same_frame tk tk' \<and> tk_actions tk' = tk_actions tk \<and>
     tk_count tk' = tk_count tk \<and> (\<forall>m. m \<noteq> n \<longrightarrow> dget (tk_error_last tk') m = dget (tk_error_last tk) m) \<and>
     (f \<and> status = NodeError \<longrightarrow> hc_error_interval hc \<le> now - dget_or (tk_error_last tk) n 0 \<and>
        dget (tk_error_last tk') n = Some now) \<and>
     (f \<longrightarrow> status \<in> {NodeError, NodeConnecting})"
  by (auto simp: should_force_reconnect_def dget_or_def same_frame_def split: if_splits option.splits)

text \<open>What one node may add to the schedule.\<close>

definition fair_action :: "health_settings \<Rightarrow> int \<Rightarrow> panel \<Rightarrow> (int \<times> int) list \<Rightarrow> int \<times> node_status \<Rightarrow> health_action \<Rightarrow> bool" where
  "fair_action hc now p prev node a \<longleftrightarrow> (case a of
     ScheduleRestart m \<Rightarrow> m = fst node \<and> snd node = NodeConnected
   | ScheduleConnect m force \<Rightarrow> m = fst node \<and> snd node \<noteq> NodeDisabled \<and>
       (is_connect_in_progress (p_slots p) m \<longrightarrow> force \<and> is_connect_stale (hc_stale_timeout hc) (p_slots p) m (p_clock p)) \<and>
       (force \<longrightarrow> snd node \<noteq> NodeConnected) \<and>
       (force \<and> snd node = NodeError \<longrightarrow> hc_error_interval hc \<le> now - dget_or prev m 0))"

definition is_connect :: "health_action \<Rightarrow> bool" where
  "is_connect a \<longleftrightarrow> (case a of ScheduleConnect _ _ \<Rightarrow> True | ScheduleRestart _ \<Rightarrow> False)"

definition count_inv :: "health_settings \<Rightarrow> tick \<Rightarrow> bool" where
  "count_inv hc tk \<longleftrightarrow> tk_count tk = int (length (filter is_connect (tk_actions tk))) \<and> tk_count tk \<le> max_reconnects hc"

lemma schedule_simps [simp]:
  "tk_panel (schedule a tk) = tk_panel tk" "tk_error_last (schedule a tk) = tk_error_last tk"
  "tk_actions (schedule a tk) = tk_actions tk @ [a]" "tk_count (schedule a tk) = tk_count tk"
  "tk_panel (schedule_connect n f tk) = tk_panel tk" "tk_error_last (schedule_connect n f tk) = tk_error_last tk"
  "tk_actions (schedule_connect n f tk) = tk_actions tk @ [ScheduleConnect n f]"
  "tk_count (schedule_connect n f tk) = tk_count tk + 1"
  by (simp_all add: schedule_def schedule_connect_def)

text \<open>One node adds at most one action, a fair one, and keeps the count.\<close>

definition node_effect :: "health_settings \<Rightarrow> int \<Rightarrow> int \<times> node_status \<Rightarrow> tick \<Rightarrow> tick \<Rightarrow> bool" where
  "node_effect hc now node tk tk' \<longleftrightarrow> same_frame tk tk' \<and> count_inv hc tk' \<and>
     (\<forall>m. m \<noteq> fst node \<longrightarrow> dget (tk_error_last tk') m = dget (tk_error_last tk) m) \<and>
     (tk_actions tk' = tk_actions tk \<or>
      (\<exists>a. tk_actions tk' = tk_actions tk @ [a] \<and> fair_action hc now (tk_panel tk) (tk_error_last tk) node a \<and>
         (a = ScheduleConnect (fst node) True \<and> snd node = NodeError \<longrightarrow> dget (tk_error_last tk') (fst node) = Some now)))"

lemma count_inv_connect: "count_inv hc tk \<Longrightarrow> \<not> tk_count tk \<ge> max_reconnects hc \<Longrightarrow> count_inv hc (schedule_connect n f tk)"
  by (simp add: count_inv_def is_connect_def)

lemma count_inv_restart: "count_inv hc tk \<Longrightarrow> count_inv hc (schedule (ScheduleRestart n) tk)"
  by (simp add: count_inv_def is_connect_def)

lemma count_inv_same: "count_inv hc tk \<Longrightarrow> tk_actions tk' = tk_actions tk \<Longrightarrow> tk_count tk' = tk_count tk \<Longrightarrow> count_inv hc tk'"
  by (simp add: count_inv_def)


lemma check_connected_effect:
  assumes "check_connected env stats_ok hc n tk = (r, tk')" and "count_inv hc tk"
  shows "node_effect hc now (n, NodeConnected) tk tk'"
proof -
  obtain c tk1 where c: "on_node n (connected (env n)) tk = (c, tk1)"
    by (metis surj_pair)
  note f1 = on_node_frame [OF c]
  have inv1: "count_inv hc tk1"
    using count_inv_same [OF assms(2)] f1 by blast
  obtain h tk2 where h: "on_node n (core_healthy (env n) (stats_ok n)) tk1 = (h, tk2)"
    by (metis surj_pair)
  note f2 = on_node_frame [OF h]
  have inv2: "count_inv hc tk2"
    using count_inv_same [OF inv1] f2 by blast
  have same: "same_frame tk tk1" "same_frame tk tk2"
    using f1 f2 same_frame_trans by blast+
  show ?thesis
    using assms(1) c h f1 f2 inv1 inv2 same
    by (auto simp: check_connected_def node_effect_def fair_action_def count_inv_connect count_inv_restart same_frame_def
        split: sum.splits bool.splits if_splits)
qed

lemma check_unconnected_effect:
  assumes "check_unconnected hc now n status tk = (r, tk')" and "count_inv hc tk" and "status \<noteq> NodeConnected"
    and "status \<noteq> NodeDisabled"
  shows "node_effect hc now (n, status) tk tk'"
proof -
  obtain f tk1 where f: "should_force_reconnect hc n status now tk = (f, tk1)"
    by (metis surj_pair)
  note f1 = force_frame [OF f]
  have inv1: "count_inv hc tk1"
    using count_inv_same [OF assms(2)] f1 by blast
  show ?thesis
    using assms f f1 inv1
    by (auto simp: check_unconnected_def node_effect_def fair_action_def count_inv_connect same_frame_def split: if_splits)
qed

lemma check_node_effect:
  assumes "check_node env stats_ok hc now node tk = (r, tk')" and "count_inv hc tk" and "snd node \<noteq> NodeDisabled"
  shows "node_effect hc now node tk tk'"
proof -
  obtain n status where node: "node = (n, status)" by (cases node) auto
  define tk0 where "tk0 = (case dget (p_nodes (tk_panel tk)) n of
                   Some _ \<Rightarrow> tk | None \<Rightarrow> tk\<lparr>tk_panel := add_node env n (tk_panel tk)\<rparr>)"
  have f0: "same_frame tk tk0" "tk_actions tk0 = tk_actions tk" "tk_error_last tk0 = tk_error_last tk" "count_inv hc tk0"
    using assms(2) add_node_frame by (auto simp: tk0_def count_inv_def split: option.split)
  have "node_effect hc now node tk0 tk'"
  proof (cases "status = NodeConnected")
    case True
    with assms(1) have "check_connected env stats_ok hc n tk0 = (r, tk')"
      by (simp add: check_node_def node tk0_def Let_def)
    from check_connected_effect [OF this f0(4)] True node show ?thesis by simp
  next
    case False
    with assms(1) have "check_unconnected hc now n status tk0 = (r, tk')"
      by (simp add: check_node_def node tk0_def Let_def)
    from check_unconnected_effect [OF this f0(4) False] assms(3) node show ?thesis by simp
  qed
  moreover have "fair_action hc now (tk_panel tk0) prev nd a = fair_action hc now (tk_panel tk) prev nd a" for prev nd a
    using f0(1) by (cases a) (simp_all add: fair_action_def same_frame_def)
  ultimately show ?thesis
    using f0 by (auto simp: node_effect_def same_frame_def)
qed

definition target :: "health_action \<Rightarrow> int" where
  "target a = (case a of ScheduleConnect n _ \<Rightarrow> n | ScheduleRestart n \<Rightarrow> n)"

lemma fair_target: "fair_action hc now p prev node a \<Longrightarrow> target a = fst node"
  by (auto simp: fair_action_def target_def split: health_action.splits)

definition loop_effect :: "health_settings \<Rightarrow> int \<Rightarrow> (int \<times> node_status) list \<Rightarrow> tick \<Rightarrow> tick \<Rightarrow> bool" where
  "loop_effect hc now xs tk tk' \<longleftrightarrow> same_frame tk tk' \<and> count_inv hc tk' \<and>
     (\<forall>m. m \<notin> fst ` set xs \<longrightarrow> dget (tk_error_last tk') m = dget (tk_error_last tk) m) \<and>
     (\<exists>new. tk_actions tk' = tk_actions tk @ new \<and> distinct (map target new) \<and>
        (\<forall>a \<in> set new. \<exists>node \<in> set xs. fair_action hc now (tk_panel tk) (tk_error_last tk) node a \<and>
           (a = ScheduleConnect (fst node) True \<and> snd node = NodeError \<longrightarrow> dget (tk_error_last tk') (fst node) = Some now)))"

lemma fair_frame:
  "fair_action hc now p prev node a \<Longrightarrow> p_slots q = p_slots p \<Longrightarrow> p_clock q = p_clock p \<Longrightarrow>
   dget last' (fst node) = dget prev (fst node) \<Longrightarrow> fair_action hc now q last' node a"
  by (auto simp: fair_action_def dget_or_def split: health_action.splits)

lemma loop_effect_refl: "count_inv hc tk \<Longrightarrow> loop_effect hc now xs tk tk"
  by (simp add: loop_effect_def)

lemma loop_effect_Cons:
  assumes e: "node_effect hc now x tk tk1" and l: "loop_effect hc now xs tk1 tk'" and x: "fst x \<notin> fst ` set xs"
  shows "loop_effect hc now (x # xs) tk tk'"
proof -
  from l obtain new where new: "tk_actions tk' = tk_actions tk1 @ new" "distinct (map target new)"
    "\<And>a. a \<in> set new \<Longrightarrow> \<exists>node \<in> set xs. fair_action hc now (tk_panel tk1) (tk_error_last tk1) node a \<and>
       (a = ScheduleConnect (fst node) True \<and> snd node = NodeError \<longrightarrow> dget (tk_error_last tk') (fst node) = Some now)"
    unfolding loop_effect_def by blast
  have kept: "dget (tk_error_last tk') (fst x) = dget (tk_error_last tk1) (fst x)"
    using l x by (simp add: loop_effect_def)
  have traced: "\<exists>node \<in> set (x # xs). fair_action hc now (tk_panel tk) (tk_error_last tk) node a \<and>
       (a = ScheduleConnect (fst node) True \<and> snd node = NodeError \<longrightarrow> dget (tk_error_last tk') (fst node) = Some now)"
    if "a \<in> set new" for a
  proof -
    from new(3) [OF that] obtain node where n: "node \<in> set xs" "fair_action hc now (tk_panel tk1) (tk_error_last tk1) node a"
      "a = ScheduleConnect (fst node) True \<and> snd node = NodeError \<longrightarrow> dget (tk_error_last tk') (fst node) = Some now"
      by blast
    have "fst node \<noteq> fst x" using x n(1) by (metis image_eqI)
    then have "dget (tk_error_last tk) (fst node) = dget (tk_error_last tk1) (fst node)"
      using e by (simp add: node_effect_def)
    with n e show ?thesis
      by (intro bexI [of _ node]) (auto simp: node_effect_def same_frame_def intro: fair_frame)
  qed
  have targets: "target a \<noteq> fst x" if "a \<in> set new" for a
    using new(3) [OF that] x fair_target by (metis image_eqI)
  have frame: "same_frame tk tk'" "count_inv hc tk'"
    "\<And>m. m \<notin> fst ` set (x # xs) \<Longrightarrow> dget (tk_error_last tk') m = dget (tk_error_last tk) m"
    using e l same_frame_trans by (auto simp: node_effect_def loop_effect_def)
  show ?thesis
  proof (cases "tk_actions tk1 = tk_actions tk")
    case True
    with new traced frame show ?thesis
      unfolding loop_effect_def by (intro conjI exI [of _ new]) auto
  next
    case False
    with e obtain b where b: "tk_actions tk1 = tk_actions tk @ [b]"
      "fair_action hc now (tk_panel tk) (tk_error_last tk) x b"
      "b = ScheduleConnect (fst x) True \<and> snd x = NodeError \<longrightarrow> dget (tk_error_last tk1) (fst x) = Some now"
      unfolding node_effect_def by auto
    then have "target b = fst x" by (auto dest: fair_target)
    then have "target b \<notin> set (map target new)"
      using targets by (metis (no_types, lifting) image_iff set_map)
    with new b traced kept frame show ?thesis
      unfolding loop_effect_def by (intro conjI exI [of _ "b # new"]) auto
  qed
qed

lemma health_loop_effect:
  assumes "health_loop env stats_ok hc now xs tk = (r, tk')" and "count_inv hc tk" and "distinct (map fst xs)"
    and "\<forall>x \<in> set xs. snd x \<noteq> NodeDisabled"
  shows "loop_effect hc now xs tk tk'"
  using assms
proof (induction xs arbitrary: tk)
  case Nil
  then show ?case by (auto intro: loop_effect_refl)
next
  case (Cons x xs)
  obtain c tk1 where c: "check_node env stats_ok hc now x tk = (c, tk1)" by (metis surj_pair)
  have e: "node_effect hc now x tk tk1"
    using check_node_effect [OF c] Cons.prems by simp
  then have inv: "count_inv hc tk1" by (simp add: node_effect_def)
  have "loop_effect hc now xs tk1 tk'"
  proof (cases "c = Inr False")
    case True
    with Cons c inv show ?thesis by auto
  next
    case False
    with Cons.prems(1) c have "tk' = tk1"
      by (auto split: sum.splits bool.splits)
    with inv show ?thesis by (simp add: loop_effect_refl)
  qed
  with e Cons.prems(3) show ?case
    by (intro loop_effect_Cons) auto
qed


section \<open>Properties\<close>

lemma enabled_nodes_props:
  "distinct (map fst (p_db p)) \<Longrightarrow> distinct (map fst (enabled_nodes p)) \<and> (\<forall>x \<in> set (enabled_nodes p). snd x \<noteq> NodeDisabled)"
  unfolding enabled_nodes_def
  by (induction "p_db p" arbitrary: p) (force simp: distinct_map_filter case_prod_beta comp_def)+

text \<open>A tick of the health check schedules at most one action per node and at most
  max(1, XRAY_NODE_MAX_CONCURRENT_CONNECTS) connects. It never schedules a connect on top of a live
  one (only a hard connect over a slot that is stale), forces only nodes in error or stuck in
  connecting, a node in error only if the last forced attempt is at least the configured interval ago,
  and then it records this tick as the last attempt; restarts go only to connected nodes.\<close>

theorem health_check_is_fair:
  assumes "core_health_check env stats_ok hc error_last p = (r, tk)" and "distinct (map fst (p_db p))"
  shows "int (length (filter is_connect (tk_actions tk))) \<le> max 1 (hc_max_connects hc) \<and>
    distinct (map target (tk_actions tk)) \<and>
    (\<forall>a \<in> set (tk_actions tk). \<exists>node \<in> set (enabled_nodes p).
       fair_action hc (p_clock p) p error_last node a \<and>
       (a = ScheduleConnect (fst node) True \<and> snd node = NodeError \<longrightarrow> dget (tk_error_last tk) (fst node) = Some (p_clock p)))"
proof -
  define tk0 where "tk0 = \<lparr>tk_panel = p, tk_error_last = error_last, tk_actions = [], tk_count = 0\<rparr>"
  have "count_inv hc tk0" by (simp add: tk0_def count_inv_def max_reconnects_def)
  with assms enabled_nodes_props [OF assms(2)] have "loop_effect hc (p_clock p) (enabled_nodes p) tk0 tk"
    by (intro health_loop_effect) (simp_all add: core_health_check_def tk0_def)
  then show ?thesis
    by (auto simp: loop_effect_def tk0_def count_inv_def max_reconnects_def)
qed

definition sample_health :: health_settings where
  "sample_health = \<lparr>hc_stale_timeout = 120, hc_error_interval = 60, hc_max_connects = 1\<rparr>"

lemma sample_tick:
  "tk_actions (snd (core_health_check (\<lambda>_. flaky_remote) (\<lambda>_. True) sample_health [(5, 30)]
     (sample_panel\<lparr>p_db := [(5, sample_dbnode), (6, sample_dbnode)]\<rparr>))) = [ScheduleConnect 5 True]"
  by code_simp

theorem health_check_is_fair_witness:
  "let p = sample_panel\<lparr>p_db := [(5, sample_dbnode), (6, sample_dbnode)]\<rparr> in
   \<exists>node \<in> set (enabled_nodes p).
     fair_action sample_health (p_clock p) p [(5, 30)] node (ScheduleConnect 5 True)"
proof -
  let ?p = "sample_panel\<lparr>p_db := [(5, sample_dbnode), (6, sample_dbnode)]\<rparr>"
  let ?tk = "snd (core_health_check (\<lambda>_. flaky_remote) (\<lambda>_. True) sample_health [(5, 30)] ?p)"
  have "core_health_check (\<lambda>_. flaky_remote) (\<lambda>_. True) sample_health [(5, 30)] ?p =
      (fst (core_health_check (\<lambda>_. flaky_remote) (\<lambda>_. True) sample_health [(5, 30)] ?p), ?tk)"
    by simp
  from health_check_is_fair [OF this] have "\<forall>a \<in> set (tk_actions ?tk). \<exists>node \<in> set (enabled_nodes ?p).
       fair_action sample_health (p_clock ?p) ?p [(5, 30)] node a"
    by auto
  then show ?thesis
    by (simp add: sample_tick)
qed

end
