(* ===== verification/Devices.thy ===== *)
theory Devices
  imports Prelude "HOL-Library.Multiset"
begin

text \<open>
  The devices of a subscription: the rows and operations of app/db/crud.py, the match of user agents
  (app/subscription/device_ua.py) and what a request for a subscription gets
  (app/subscription/user_info.py). Times are integers. The two Cyrillic literals are transliterated;
  the code only compares them.
\<close>

section \<open>Rows\<close>

record device =
  dv_id :: int
  dv_user :: int
  dv_hwid :: string
  dv_os :: "string option"
  dv_ver :: "string option"
  dv_model :: "string option"
  dv_agent :: "string option"
  dv_ip :: "string option"
  dv_status :: string
  dv_first_seen :: int
  dv_last_seen :: int

record device_db =
  dd_rows :: "device list"
  dd_next :: int

record device_owner =
  ow_id :: int
  ow_limit :: "int option"

record device_info =
  di_os :: "string option"
  di_ver :: "string option"
  di_model :: "string option"
  di_agent :: "string option"

definition UNKNOWN_DEVICE_HWID :: string where
  "UNKNOWN_DEVICE_HWID = ''Neizvestnoe ustrojstvo''"

definition UNKNOWN_AGENT :: string where
  "UNKNOWN_AGENT = ''Neizvestno''"

section \<open>Queries (app/db/crud.py)\<close>

definition rows_of :: "device_db \<Rightarrow> int \<Rightarrow> device list" where
  "rows_of db uid = filter (\<lambda>d. dv_user d = uid) (dd_rows db)"

definition get_user_devices :: "device_db \<Rightarrow> int \<Rightarrow> device list" where
  "get_user_devices db uid = sort_key (\<lambda>d. - dv_last_seen d) (rows_of db uid)"

definition get_user_active_devices :: "device_db \<Rightarrow> int \<Rightarrow> device list" where
  "get_user_active_devices db uid =
     sort_key (\<lambda>d. - dv_last_seen d) (filter (\<lambda>d. dv_status d = ''active'') (rows_of db uid))"

definition get_user_active_devices_by_first_seen :: "device_db \<Rightarrow> int \<Rightarrow> device list" where
  "get_user_active_devices_by_first_seen db uid =
     sort_key dv_first_seen (sort_key dv_id (filter (\<lambda>d. dv_status d = ''active'') (rows_of db uid)))"

definition get_user_device :: "device_db \<Rightarrow> int \<Rightarrow> int \<Rightarrow> device option" where
  "get_user_device db uid did = find (\<lambda>d. dv_user d = uid \<and> dv_id d = did) (dd_rows db)"

definition get_user_device_by_hwid :: "device_db \<Rightarrow> int \<Rightarrow> string \<Rightarrow> device option" where
  "get_user_device_by_hwid db uid hwid = find (\<lambda>d. dv_user d = uid \<and> dv_hwid d = hwid) (dd_rows db)"

definition count_user_devices :: "device_db \<Rightarrow> int \<Rightarrow> int" where
  "count_user_devices db uid = int (length (filter (\<lambda>d. dv_status d \<noteq> ''revoked'') (rows_of db uid)))"

definition is_device_limit_reached :: "device_db \<Rightarrow> device_owner \<Rightarrow> bool" where
  "is_device_limit_reached db u \<longleftrightarrow> truthy_int (ow_limit u) \<and> count_user_devices db (ow_id u) \<ge> or0 (ow_limit u)"

definition is_device_limit_exceeded :: "device_db \<Rightarrow> device_owner \<Rightarrow> bool" where
  "is_device_limit_exceeded db u \<longleftrightarrow> truthy_int (ow_limit u) \<and> count_user_devices db (ow_id u) > or0 (ow_limit u)"

text \<open>The loop over the enumerated list: the position of the device decides.\<close>

fun within_first :: "device list \<Rightarrow> int \<Rightarrow> int \<Rightarrow> int \<Rightarrow> bool" where
  "within_first [] index did limit = False"
| "within_first (d # ds) index did limit =
     (if dv_id d = did then index < limit else within_first ds (index + 1) did limit)"

definition is_device_within_limit :: "device_db \<Rightarrow> device_owner \<Rightarrow> device option \<Rightarrow> bool" where
  "is_device_within_limit db u dbdevice \<longleftrightarrow>
     (if \<not> truthy_int (ow_limit u) then True
      else (case dbdevice of
              None \<Rightarrow> False
            | Some d \<Rightarrow> within_first (get_user_active_devices_by_first_seen db (ow_id u)) 0 (dv_id d) (or0 (ow_limit u))))"

definition hard_mode_blocks_new_device :: "device_db \<Rightarrow> device_owner \<Rightarrow> bool \<Rightarrow> bool" where
  "hard_mode_blocks_new_device db u hard_mode \<longleftrightarrow>
     hard_mode \<and> truthy_int (ow_limit u) \<and> count_user_devices db (ow_id u) \<ge> or0 (ow_limit u)"

section \<open>Changes (app/db/crud.py)\<close>

definition set_row :: "int \<Rightarrow> (device \<Rightarrow> device) \<Rightarrow> device_db \<Rightarrow> device_db" where
  "set_row did f db = db\<lparr>dd_rows := map (\<lambda>d. if dv_id d = did then f d else d) (dd_rows db)\<rparr>"

definition new_device :: "device_db \<Rightarrow> int \<Rightarrow> string \<Rightarrow> device_info \<Rightarrow> string option \<Rightarrow> int \<Rightarrow> device" where
  "new_device db uid hwid info ip now =
     \<lparr>dv_id = dd_next db, dv_user = uid, dv_hwid = hwid, dv_os = di_os info, dv_ver = di_ver info,
      dv_model = di_model info, dv_agent = di_agent info, dv_ip = ip, dv_status = ''active'',
      dv_first_seen = now, dv_last_seen = now\<rparr>"

text \<open>An insert fails on the unique pair of user and hwid.\<close>

definition insert_device :: "device \<Rightarrow> device_db \<Rightarrow> device_db option" where
  "insert_device d db =
     (if get_user_device_by_hwid db (dv_user d) (dv_hwid d) \<noteq> None then None
      else Some (db\<lparr>dd_rows := dd_rows db @ [d], dd_next := dd_next db + 1\<rparr>))"

definition create_user_device :: "device_db \<Rightarrow> int \<Rightarrow> string \<Rightarrow> device_info \<Rightarrow> int \<Rightarrow> device_db option" where
  "create_user_device db uid hwid info now = insert_device (new_device db uid hwid info None now) db"

definition over :: "string option \<Rightarrow> string option \<Rightarrow> string option" where
  "over new old = (case new of None \<Rightarrow> old | Some _ \<Rightarrow> new)"

text \<open>\<open>last_seen\<close> has \<open>onupdate\<close>: it moves when another column changes.\<close>

definition update_user_device :: "device_db \<Rightarrow> int \<Rightarrow> string option \<Rightarrow> device_info \<Rightarrow> int \<Rightarrow> device_db" where
  "update_user_device db did hwid info now =
     set_row did (\<lambda>d.
       let d' = d\<lparr>dv_hwid := (case hwid of None \<Rightarrow> dv_hwid d | Some h \<Rightarrow> h), dv_os := over (di_os info) (dv_os d),
                  dv_ver := over (di_ver info) (dv_ver d), dv_model := over (di_model info) (dv_model d),
                  dv_agent := over (di_agent info) (dv_agent d)\<rparr>
       in if d' = d then d else d'\<lparr>dv_last_seen := now\<rparr>) db"

definition delete_user_device :: "device_db \<Rightarrow> int \<Rightarrow> device_db" where
  "delete_user_device db did = db\<lparr>dd_rows := filter (\<lambda>d. dv_id d \<noteq> did) (dd_rows db)\<rparr>"

definition revoke_user_device :: "device_db \<Rightarrow> int \<Rightarrow> int \<Rightarrow> device_db" where
  "revoke_user_device db did now = set_row did (\<lambda>d. d\<lparr>dv_status := ''revoked'', dv_last_seen := now\<rparr>) db"

text \<open>\<open>x or y\<close> on optional strings.\<close>

definition or_str :: "string option \<Rightarrow> string option \<Rightarrow> string option" where
  "or_str x y = (if truthy_str x then x else y)"

definition update_device_metadata :: "device_info \<Rightarrow> string option \<Rightarrow> int \<Rightarrow> device \<Rightarrow> device" where
  "update_device_metadata info ip now d =
     d\<lparr>dv_os := or_str (di_os info) (dv_os d), dv_ver := or_str (di_ver info) (dv_ver d),
       dv_model := or_str (di_model info) (dv_model d), dv_agent := or_str (di_agent info) (dv_agent d),
       dv_ip := or_str ip (dv_ip d),
       dv_status := (if dv_status d = ''revoked'' then ''active'' else dv_status d), dv_last_seen := now\<rparr>"

section \<open>User agents (app/subscription/device_ua.py)\<close>

definition norm_agent :: "string option \<Rightarrow> string option" where
  "norm_agent v = (case v of None \<Rightarrow> None | Some s \<Rightarrow> if strip s \<noteq> [] then Some (strip s) else None)"

definition unknown_user_agents_match :: "string option \<Rightarrow> string option \<Rightarrow> bool" where
  "unknown_user_agents_match stored incoming \<longleftrightarrow>
     (if norm_agent stored \<in> {None, Some UNKNOWN_AGENT} then True
      else if norm_agent incoming = None then False
      else norm_agent stored = norm_agent incoming)"

section \<open>Registering\<close>

text \<open>The answer is whether the device is registered, and whether the client is unsupported.\<close>

definition register_new ::
    "device_db \<Rightarrow> device_owner \<Rightarrow> string \<Rightarrow> device_info \<Rightarrow> bool \<Rightarrow> string option \<Rightarrow> int \<Rightarrow> (bool \<times> bool) \<times> device_db" where
  "register_new db u hwid info hard_mode ip now =
     (if hard_mode_blocks_new_device db u hard_mode then ((False, False), db)
      else (case insert_device (new_device db (ow_id u) hwid info ip now) db of
              None \<Rightarrow> ((True, False), db)
            | Some db' \<Rightarrow> ((True, False), db')))"

definition register_user_device ::
    "device_db \<Rightarrow> device_owner \<Rightarrow> string option \<Rightarrow> device_info \<Rightarrow> bool \<Rightarrow> string option \<Rightarrow> int \<Rightarrow> (bool \<times> bool) \<times> device_db" where
  "register_user_device db u hwid info hard_mode ip now =
     (if \<not> truthy_str hwid then
        (case get_user_device_by_hwid db (ow_id u) UNKNOWN_DEVICE_HWID of
           Some d \<Rightarrow>
             if unknown_user_agents_match (dv_agent d) (di_agent info)
             then ((True, False), set_row (dv_id d) (update_device_metadata info ip now) db)
             else ((False, True), db)
         | None \<Rightarrow> register_new db u UNKNOWN_DEVICE_HWID info hard_mode ip now)
      else
        (case get_user_device_by_hwid db (ow_id u) (the hwid) of
           Some d \<Rightarrow> ((True, False), set_row (dv_id d) (update_device_metadata info ip now) db)
         | None \<Rightarrow> register_new db u (the hwid) info hard_mode ip now))"

definition key_of :: "string option \<Rightarrow> string" where
  "key_of hwid = (if truthy_str hwid then the hwid else UNKNOWN_DEVICE_HWID)"

section \<open>What the subscription request gets (app/subscription/user_info.py)\<close>

record sub_user =
  su_name :: string
  su_proxies :: "(string \<times> json) list"
  su_inbounds :: "(string \<times> string list) list"

definition get_empty_subscription_user :: "sub_user \<Rightarrow> sub_user" where
  "get_empty_subscription_user user = user\<lparr>su_proxies := [], su_inbounds := []\<rparr>"

text \<open>Result: the user rendered, device limited, limited hard, unsupported client; and the rows.\<close>

definition resolve_device_limit_subscription_state ::
    "sub_user \<Rightarrow> device_db \<Rightarrow> device_owner \<Rightarrow> bool \<Rightarrow> bool \<Rightarrow> bool \<Rightarrow> string option \<Rightarrow> device_info \<Rightarrow> string option \<Rightarrow> int \<Rightarrow>
     (sub_user \<times> bool \<times> bool \<times> bool) \<times> device_db" where
  "resolve_device_limit_subscription_state user db u is_revoked is_expired hard_mode hwid info ip now =
     (if \<not> is_revoked \<and> \<not> is_expired then
        (let ((registered, unsupported), db') = register_user_device db u hwid info hard_mode ip now;
             dbdevice = (if registered then get_user_device_by_hwid db' (ow_id u) (key_of hwid) else None);
             over_limit = (\<not> unsupported \<and> \<not> is_device_within_limit db' u dbdevice);
             limited_hard = (over_limit \<and> hard_mode)
         in ((if unsupported \<or> limited_hard then get_empty_subscription_user user else user,
              over_limit, limited_hard, unsupported), db'))
      else ((get_empty_subscription_user user, False, False, False), db))"

section \<open>Well-formed rows\<close>

definition devices_wf :: "device_db \<Rightarrow> bool" where
  "devices_wf db \<longleftrightarrow> distinct (map dv_id (dd_rows db)) \<and> (\<forall>d \<in> set (dd_rows db). dv_id d < dd_next db) \<and>
     distinct (map (\<lambda>d. (dv_user d, dv_hwid d)) (dd_rows db))"

lemma find_hwid_None:
  "get_user_device_by_hwid db uid h = None \<longleftrightarrow> (uid, h) \<notin> set (map (\<lambda>d. (dv_user d, dv_hwid d)) (dd_rows db))"
  by (auto simp: get_user_device_by_hwid_def find_None_iff)

lemma find_hwid_Some:
  "get_user_device_by_hwid db uid h = Some d \<Longrightarrow> d \<in> set (dd_rows db) \<and> dv_user d = uid \<and> dv_hwid d = h"
  by (auto simp: get_user_device_by_hwid_def find_Some_iff)

lemma wf_insert: "devices_wf db \<Longrightarrow> insert_device (new_device db uid h info ip now) db = Some db' \<Longrightarrow> devices_wf db'"
  by (fastforce simp: insert_device_def devices_wf_def new_device_def find_hwid_None split: if_splits)

lemma wf_set_row:
  assumes "devices_wf db" and "\<And>d. dv_id (f d) = dv_id d \<and> dv_user (f d) = dv_user d \<and> dv_hwid (f d) = dv_hwid d"
  shows "devices_wf (set_row did f db)"
proof -
  have "map dv_id (dd_rows (set_row did f db)) = map dv_id (dd_rows db)"
    "map (\<lambda>d. (dv_user d, dv_hwid d)) (dd_rows (set_row did f db)) = map (\<lambda>d. (dv_user d, dv_hwid d)) (dd_rows db)"
    using assms(2) by (auto simp: set_row_def)
  moreover have "\<forall>d \<in> set (dd_rows (set_row did f db)). dv_id d < dd_next (set_row did f db)"
    using assms by (auto simp: devices_wf_def set_row_def)
  ultimately show ?thesis
    using assms(1) by (simp only: devices_wf_def)
qed

lemma metadata_keeps [simp]:
  "dv_id (update_device_metadata info ip now d) = dv_id d"
  "dv_user (update_device_metadata info ip now d) = dv_user d"
  "dv_hwid (update_device_metadata info ip now d) = dv_hwid d"
  "dv_first_seen (update_device_metadata info ip now d) = dv_first_seen d"
  "dv_status (update_device_metadata info ip now d) = (if dv_status d = ''revoked'' then ''active'' else dv_status d)"
  by (simp_all add: update_device_metadata_def)

lemma wf_register: "devices_wf db \<Longrightarrow> devices_wf (snd (register_user_device db u hwid info hard_mode ip now))"
  by (auto simp: register_user_device_def register_new_def intro: wf_set_row wf_insert split: option.split)

lemma wf_revoke: "devices_wf db \<Longrightarrow> devices_wf (revoke_user_device db did now)"
  unfolding revoke_user_device_def by (rule wf_set_row) simp_all

lemma wf_delete: "devices_wf db \<Longrightarrow> devices_wf (delete_user_device db did)"
  by (auto simp: devices_wf_def delete_user_device_def distinct_map intro: inj_on_subset)

lemma wf_create: "devices_wf db \<Longrightarrow> create_user_device db uid h info now = Some db' \<Longrightarrow> devices_wf db'"
  unfolding create_user_device_def by (rule wf_insert)


section \<open>Positions within the limit\<close>

lemma within_first_take:
  "distinct (map dv_id ds) \<Longrightarrow> filter (\<lambda>d. within_first ds i (dv_id d) limit) ds = take (nat (limit - i)) ds"
proof (induction ds arbitrary: i)
  case (Cons d ds)
  have "filter (\<lambda>x. within_first (d # ds) i (dv_id x) limit) ds = filter (\<lambda>x. within_first ds (i + 1) (dv_id x) limit) ds"
    using Cons.prems by (intro filter_cong) auto
  also have "\<dots> = take (nat (limit - (i + 1))) ds"
    using Cons by simp
  finally have tail: "filter (\<lambda>x. within_first (d # ds) i (dv_id x) limit) ds = take (nat (limit - (i + 1))) ds" .
  show ?case
  proof (cases "i < limit")
    case True
    then have "nat (limit - i) = Suc (nat (limit - (i + 1)))" by simp
    with True tail show ?thesis by simp
  next
    case False
    with tail show ?thesis by simp
  qed
qed simp

lemma first_seen_mset:
  "mset (get_user_active_devices_by_first_seen db uid) = mset (filter (\<lambda>d. dv_status d = ''active'') (rows_of db uid))"
  by (simp add: get_user_active_devices_by_first_seen_def)

lemma distinct_first_seen: "devices_wf db \<Longrightarrow> distinct (map dv_id (get_user_active_devices_by_first_seen db uid))"
proof -
  assume "devices_wf db"
  then have "distinct (map dv_id (filter (\<lambda>d. dv_status d = ''active'') (rows_of db uid)))"
    by (auto simp: devices_wf_def rows_of_def distinct_map_filter)
  moreover have "mset (map dv_id (get_user_active_devices_by_first_seen db uid)) =
      mset (map dv_id (filter (\<lambda>d. dv_status d = ''active'') (rows_of db uid)))"
    by (simp only: mset_map first_seen_mset)
  ultimately show ?thesis
    by (metis mset_eq_imp_distinct_iff)
qed


definition sample_device :: "int \<Rightarrow> string \<Rightarrow> string \<Rightarrow> int \<Rightarrow> device" where
  "sample_device did hwid status seen = \<lparr>dv_id = did, dv_user = 7, dv_hwid = hwid, dv_os = None, dv_ver = None, dv_model = None,
     dv_agent = Some ''Happ/1'', dv_ip = None, dv_status = status, dv_first_seen = seen, dv_last_seen = seen\<rparr>"

definition sample_devices :: device_db where
  "sample_devices = \<lparr>dd_rows = [sample_device 1 ''a'' ''revoked'' 10, sample_device 2 ''b'' ''active'' 20, sample_device 3 ''c'' ''active'' 15],
     dd_next = 4\<rparr>"

definition sample_owner :: device_owner where
  "sample_owner = \<lparr>ow_id = 7, ow_limit = Some 1\<rparr>"

lemma sample_devices_wf: "devices_wf sample_devices"
  by (simp add: devices_wf_def sample_devices_def sample_device_def)


section \<open>Registering a device\<close>

lemma find_after_set_row:
  assumes "devices_wf db" and "get_user_device_by_hwid db uid h = Some d"
    and "\<And>x. dv_id (f x) = dv_id x \<and> dv_user (f x) = dv_user x \<and> dv_hwid (f x) = dv_hwid x"
  shows "get_user_device_by_hwid (set_row (dv_id d) f db) uid h = Some (f d)"
proof -
  have "find (\<lambda>d. dv_user d = uid \<and> dv_hwid d = h) (map (\<lambda>x. if dv_id x = dv_id d then f x else x) xs) =
      map_option (\<lambda>x. if dv_id x = dv_id d then f x else x) (find (\<lambda>d. dv_user d = uid \<and> dv_hwid d = h) xs)" for xs
    using assms(3) by (induction xs) auto
  with assms(2) show ?thesis
    by (simp add: get_user_device_by_hwid_def set_row_def)
qed

lemma find_after_insert:
  "insert_device d db = Some db' \<Longrightarrow> get_user_device_by_hwid db' (dv_user d) (dv_hwid d) = Some d"
  by (auto simp: insert_device_def get_user_device_by_hwid_def find_None_iff find_Some_iff nth_append
      intro!: exI [of _ "length (dd_rows db)"] split: if_splits)

lemma rows_of_other:
  "devices_wf db \<Longrightarrow> get_user_device_by_hwid db uid h = Some d \<Longrightarrow> v \<noteq> uid \<Longrightarrow>
   rows_of (set_row (dv_id d) (update_device_metadata info ip now) db) v = rows_of db v"
proof -
  assume wf: "devices_wf db" and d: "get_user_device_by_hwid db uid h = Some d" and v: "v \<noteq> uid"
  have id: "dv_id x \<noteq> dv_id d" if "x \<in> set (dd_rows db)" "dv_user x = v" for x
    using that wf find_hwid_Some [OF d] v by (auto simp: devices_wf_def distinct_map inj_on_def)
  have "filter (\<lambda>x. dv_user x = v) (map (\<lambda>x. if dv_id x = dv_id d then update_device_metadata info ip now x else x) xs) =
      filter (\<lambda>x. dv_user x = v) xs" if "set xs \<subseteq> set (dd_rows db)" for xs
    using that id by (induction xs) auto
  then show ?thesis
    by (simp add: rows_of_def set_row_def)
qed

lemma insert_new: "get_user_device_by_hwid db uid h = None \<Longrightarrow>
    insert_device (new_device db uid h info ip now) db =
      Some (db\<lparr>dd_rows := dd_rows db @ [new_device db uid h info ip now], dd_next := dd_next db + 1\<rparr>)"
  by (simp add: insert_device_def new_device_def)


text \<open>The three ways a registration ends.\<close>

lemma register_cases [consumes 1, case_names known unsupported blocked fresh]:
  assumes "devices_wf db"
  obtains (known) d where "get_user_device_by_hwid db (ow_id u) (key_of hwid) = Some d"
      and "truthy_str hwid \<or> unknown_user_agents_match (dv_agent d) (di_agent info)"
      and "register_user_device db u hwid info hard_mode ip now =
             ((True, False), set_row (dv_id d) (update_device_metadata info ip now) db)"
  | (unsupported) d where "get_user_device_by_hwid db (ow_id u) (key_of hwid) = Some d" and "\<not> truthy_str hwid"
      and "\<not> unknown_user_agents_match (dv_agent d) (di_agent info)"
      and "register_user_device db u hwid info hard_mode ip now = ((False, True), db)"
  | (blocked) "get_user_device_by_hwid db (ow_id u) (key_of hwid) = None"
      and "hard_mode_blocks_new_device db u hard_mode"
      and "register_user_device db u hwid info hard_mode ip now = ((False, False), db)"
  | (fresh) "get_user_device_by_hwid db (ow_id u) (key_of hwid) = None"
      and "\<not> hard_mode_blocks_new_device db u hard_mode"
      and "register_user_device db u hwid info hard_mode ip now = ((True, False),
             db\<lparr>dd_rows := dd_rows db @ [new_device db (ow_id u) (key_of hwid) info ip now], dd_next := dd_next db + 1\<rparr>)"
proof (cases "get_user_device_by_hwid db (ow_id u) (key_of hwid)")
  case None
  have "register_user_device db u hwid info hard_mode ip now = register_new db u (key_of hwid) info hard_mode ip now"
    using None by (simp add: register_user_device_def key_of_def split: if_splits)
  with None insert_new [OF None, of info ip now] that(3,4) show thesis
    by (cases "hard_mode_blocks_new_device db u hard_mode") (simp_all add: register_new_def)
next
  case (Some d)
  with that(1,2) show thesis
    by (auto simp: register_user_device_def key_of_def split: if_splits)
qed

text \<open>Registering a device never duplicates a hardware id of a user and touches no other user. A
  device answered as registered is stored under its id (the shared unknown id when the client sends
  none), is not revoked and was just seen; the client is unsupported exactly when it sends no id and
  another client took the unknown slot; otherwise the refusal is the hard device limit. In the two
  refusals nothing changes.\<close>

theorem register_user_device_exact:
  assumes "devices_wf db" and "register_user_device db u hwid info hard_mode ip now = ((registered, unsupported), db')"
  shows "devices_wf db' \<and> (\<forall>v. v \<noteq> ow_id u \<longrightarrow> rows_of db' v = rows_of db v) \<and>
    (registered \<longrightarrow> \<not> unsupported \<and> (\<exists>d. get_user_device_by_hwid db' (ow_id u) (key_of hwid) = Some d \<and>
       dv_status d \<noteq> ''revoked'' \<and> dv_last_seen d = now)) \<and>
    (unsupported \<longleftrightarrow> \<not> truthy_str hwid \<and> (\<exists>d. get_user_device_by_hwid db (ow_id u) UNKNOWN_DEVICE_HWID = Some d \<and>
       \<not> unknown_user_agents_match (dv_agent d) (di_agent info))) \<and>
    (\<not> registered \<longrightarrow> db' = db) \<and>
    (\<not> registered \<and> \<not> unsupported \<longrightarrow> hard_mode \<and> is_device_limit_reached db u \<and>
       get_user_device_by_hwid db (ow_id u) (key_of hwid) = None)"
proof -
  have wf: "devices_wf db'"
    using wf_register [OF assms(1), of u hwid info hard_mode ip now] assms(2) by simp
  from assms(1) show ?thesis
  proof (cases rule: register_cases [where u = u and hwid = hwid and info = info and hard_mode = hard_mode and ip = ip and now = now])
    case (known d)
    have "get_user_device_by_hwid db' (ow_id u) (key_of hwid) = Some (update_device_metadata info ip now d)"
      using find_after_set_row [OF assms(1) known(1), of "update_device_metadata info ip now"] known(3) assms(2) by simp
    moreover have "dv_last_seen (update_device_metadata info ip now d) = now"
      by (simp add: update_device_metadata_def)
    moreover have "rows_of db' v = rows_of db v" if "v \<noteq> ow_id u" for v
      using rows_of_other [OF assms(1) known(1) that] known(3) assms(2) by simp
    ultimately show ?thesis
      using wf known assms(2) by (auto simp: key_of_def)
  next
    case (unsupported d)
    with wf assms(2) show ?thesis by (auto simp: key_of_def)
  next
    case blocked
    with wf assms(2) show ?thesis
      by (auto simp: key_of_def hard_mode_blocks_new_device_def is_device_limit_reached_def split: if_splits)
  next
    case fresh
    have "insert_device (new_device db (ow_id u) (key_of hwid) info ip now) db = Some db'"
      using insert_new [OF fresh(1)] fresh(3) assms(2) by simp
    from find_after_insert [OF this]
    have "get_user_device_by_hwid db' (ow_id u) (key_of hwid) = Some (new_device db (ow_id u) (key_of hwid) info ip now)"
      by (simp add: new_device_def)
    with wf fresh assms(2) show ?thesis
      by (auto simp: key_of_def new_device_def rows_of_def split: if_splits)
  qed
qed

theorem register_user_device_exact_witness:
  "\<exists>d. get_user_device_by_hwid (snd (register_user_device sample_devices sample_owner (Some ''b'')
     \<lparr>di_os = None, di_ver = None, di_model = None, di_agent = None\<rparr> True None 50)) 7 ''b'' = Some d \<and> dv_last_seen d = 50"
proof -
  let ?i = "\<lparr>di_os = None, di_ver = None, di_model = None, di_agent = None\<rparr>"
  have "fst (register_user_device sample_devices sample_owner (Some ''b'') ?i True None 50) = (True, False)"
    by (simp add: register_user_device_def get_user_device_by_hwid_def sample_devices_def sample_device_def sample_owner_def)
  then have "register_user_device sample_devices sample_owner (Some ''b'') ?i True None 50 =
      ((True, False), snd (register_user_device sample_devices sample_owner (Some ''b'') ?i True None 50))"
    by (metis prod.collapse)
  from register_user_device_exact [OF sample_devices_wf this] show ?thesis
    by (auto simp: sample_owner_def key_of_def)
qed

section \<open>Earlier devices keep their place\<close>

lemma within_first_append: "within_first ds i did limit \<Longrightarrow> within_first (ds @ es) i did limit"
  by (induction ds arbitrary: i) (auto split: if_splits)

text \<open>A new device never takes the place of one that is already within the limit: when a device is
  registered for the first time, every device that was within the limit before still is.\<close>

theorem new_device_takes_no_place:
  assumes "devices_wf db" and "get_user_device_by_hwid db (ow_id u) (key_of hwid) = None"
    and "\<forall>d \<in> set (dd_rows db). dv_first_seen d \<le> now"
    and "is_device_within_limit db u (Some d)"
  shows "is_device_within_limit (snd (register_user_device db u hwid info hard_mode ip now)) u (Some d)"
  using assms(1)
proof (cases rule: register_cases [where u = u and hwid = hwid and info = info and hard_mode = hard_mode and ip = ip and now = now])
  case fresh
  define n where "n = new_device db (ow_id u) (key_of hwid) info ip now"
  define act where "act = filter (\<lambda>d. dv_status d = ''active'') (rows_of db (ow_id u))"
  define db' where "db' = snd (register_user_device db u hwid info hard_mode ip now)"
  have rows: "filter (\<lambda>d. dv_status d = ''active'') (rows_of db' (ow_id u)) = act @ [n]"
    by (simp add: db'_def fresh(3) rows_of_def act_def n_def new_device_def)
  have act: "set act \<subseteq> set (dd_rows db)" by (auto simp: act_def rows_of_def)
  then have "\<forall>a \<in> set act. dv_id a \<le> dv_id n"
    using assms(1) by (force simp: devices_wf_def n_def new_device_def)
  then have "sort_key dv_id (act @ [n]) = sort_key dv_id act @ [n]"
    by (rule sort_key_snoc)
  moreover have "\<forall>a \<in> set (sort_key dv_id act). dv_first_seen a \<le> dv_first_seen n"
    using assms(3) act by (auto simp: n_def new_device_def)
  ultimately have "get_user_active_devices_by_first_seen db' (ow_id u) = get_user_active_devices_by_first_seen db (ow_id u) @ [n]"
    unfolding get_user_active_devices_by_first_seen_def rows by (simp add: sort_key_snoc act_def)
  with assms(4) show ?thesis
    by (auto simp: is_device_within_limit_def db'_def intro: within_first_append split: if_splits)
qed (use assms(2,4) in simp_all)

theorem new_device_takes_no_place_witness:
  "is_device_within_limit (snd (register_user_device sample_devices sample_owner (Some ''z'')
     \<lparr>di_os = None, di_ver = None, di_model = None, di_agent = None\<rparr> False None 50)) sample_owner
     (Some (sample_device 3 ''c'' ''active'' 15))"
proof -
  have a: "get_user_device_by_hwid sample_devices (ow_id sample_owner) (key_of (Some ''z'')) = None"
    "\<forall>d \<in> set (dd_rows sample_devices). dv_first_seen d \<le> 50"
    "is_device_within_limit sample_devices sample_owner (Some (sample_device 3 ''c'' ''active'' 15))"
    by (simp_all add: get_user_device_by_hwid_def sample_devices_def sample_device_def sample_owner_def key_of_def
        is_device_within_limit_def get_user_active_devices_by_first_seen_def rows_of_def)
  show ?thesis
    by (rule new_device_takes_no_place [OF sample_devices_wf a])
qed

text \<open>
  Reactivating a revoked device does not ask for the hard limit: with a limit of one, a revoked first
  device comes back while the second is active, two devices count, and the second one loses its place.
\<close>

definition revoked_first :: device_db where
  "revoked_first = \<lparr>dd_rows = [sample_device 1 ''a'' ''revoked'' 10, sample_device 2 ''b'' ''active'' 20], dd_next = 3\<rparr>"

lemma reactivation_exceeds_hard_limit:
  "let r = register_user_device revoked_first sample_owner (Some ''a'')
             \<lparr>di_os = None, di_ver = None, di_model = None, di_agent = None\<rparr> True None 50
   in fst r = (True, False) \<and> is_device_limit_exceeded (snd r) sample_owner \<and>
      is_device_within_limit revoked_first sample_owner (Some (sample_device 2 ''b'' ''active'' 20)) \<and>
      \<not> is_device_within_limit (snd r) sample_owner (Some (sample_device 2 ''b'' ''active'' 20))"
  by code_simp

end
