(* ===== verification/Users.thy ===== *)
theory Users
  imports Effects BsAccounting Devices
begin

text \<open>
  Users of the panel: the rows of app/db/models.py and the operations of app/db/crud.py that create,
  change, reset, revoke and delete them. The database session has a working and a saved copy of the
  tables: \<open>commit\<close> saves the working copy, \<open>rollback\<close> forgets what was not saved, and operations
  commit where the code commits, so a rejected change keeps what an inner commit already saved. Usage
  percentages are exact rationals; the time zone of the server is UTC; times are seconds.
\<close>

section \<open>Rows\<close>

datatype proxy_type = VMess | VLESS | Trojan | Shadowsocks

datatype reset_strategy = NoReset | Daily | Weekly | Monthly | Yearly

datatype reminder_type = DataUsage | ExpirationDate

record proxy_row =
  px_type :: proxy_type
  px_settings :: obj
  px_excluded :: "string list"

record next_plan =
  np_limit :: int
  np_expire :: "int option"
  np_add_remaining :: bool
  np_fire_on_either :: bool

record reset_log =
  rl_used :: int
  rl_at :: int

text \<open>The traffic of the user over one node (\<open>None\<close> is the main core) in the hour beginning at \<open>nu_at\<close>.\<close>

record node_user_usage =
  nu_node :: "int option"
  nu_at :: int
  nu_used :: int
  nu_seen :: "int option"

record user_row =
  u_id :: int
  u_name :: string
  u_proxies :: "proxy_row list"
  u_status :: user_status
  u_used :: int
  u_limit :: "int option"
  u_strategy :: reset_strategy
  u_usage_logs :: "reset_log list"
  u_node_usages :: "node_user_usage list"
  u_expire :: "int option"
  u_admin :: "int option"
  u_sub_revoked_at :: "int option"
  u_sub_updated_at :: "int option"
  u_sub_agent :: "string option"
  u_token :: "string option"
  u_bot :: "int option"
  u_created_at :: int
  u_note :: "string option"
  u_online_at :: "int option"
  u_on_hold_duration :: "int option"
  u_on_hold_timeout :: "int option"
  u_device_limit :: "int option"
  u_bs_extra :: "int option"
  u_bs_period :: "string option"
  u_rotation_offset :: int
  u_rotation_at :: "int option"
  u_auto_delete :: "int option"
  u_edit_at :: "int option"
  u_last_status_change :: "int option"
  u_next_plan :: "next_plan option"

record reminder =
  rm_id :: int
  rm_user :: int
  rm_type :: reminder_type
  rm_threshold :: "int option"
  rm_expires :: "int option"

record user_db =
  ud_users :: "user_row list"
  ud_next_user :: int
  ud_reminders :: "reminder list"
  ud_next_reminder :: int
  ud_bots :: "(string \<times> int) list"
  ud_inbounds :: "string list"
  ud_bs_nodes :: "bs_node list"
  ud_bs_usage :: "bs_usage list"
  ud_bs_limit :: int
  ud_devices :: device_db

record session =
  se_db :: user_db
  se_saved :: user_db

type_synonym 'a db_op = "(session, py_error, 'a) eff"

definition commit :: "unit db_op" where
  "commit = modS (\<lambda>s. s\<lparr>se_saved := se_db s\<rparr>)"

definition rollback :: "unit db_op" where
  "rollback = modS (\<lambda>s. s\<lparr>se_db := se_saved s\<rparr>)"

definition get_db :: "(user_db \<Rightarrow> 'a) \<Rightarrow> 'a db_op" where
  "get_db f = bindS getS (\<lambda>s. ret (f (se_db s)))"

definition mod_db :: "(user_db \<Rightarrow> user_db) \<Rightarrow> unit db_op" where
  "mod_db f = modS (\<lambda>s. s\<lparr>se_db := f (se_db s)\<rparr>)"

definition find_user :: "user_db \<Rightarrow> int \<Rightarrow> user_row option" where
  "find_user db uid = find (\<lambda>u. u_id u = uid) (ud_users db)"

definition set_user :: "int \<Rightarrow> (user_row \<Rightarrow> user_row) \<Rightarrow> user_db \<Rightarrow> user_db" where
  "set_user uid f db = db\<lparr>ud_users := map (\<lambda>u. if u_id u = uid then f u else u) (ud_users db)\<rparr>"

text \<open>The operations below get the row of a user that was looked up before, so it exists.\<close>

definition the_user :: "int \<Rightarrow> user_row db_op" where
  "the_user uid = bindS (get_db (\<lambda>db. find_user db uid)) (\<lambda>u. case u of
     None \<Rightarrow> throw (AttributeError ''user'') | Some r \<Rightarrow> ret r)"

definition put_user :: "int \<Rightarrow> (user_row \<Rightarrow> user_row) \<Rightarrow> unit db_op" where
  "put_user uid f = mod_db (set_user uid f)"

section \<open>Reminders (app/db/crud.py)\<close>

definition reminder_match :: "int \<Rightarrow> reminder_type \<Rightarrow> int option \<Rightarrow> reminder \<Rightarrow> bool" where
  "reminder_match uid ty threshold r \<longleftrightarrow> rm_user r = uid \<and> rm_type r = ty \<and>
     (case threshold of None \<Rightarrow> True | Some t \<Rightarrow> rm_threshold r = Some t)"

definition create_notification_reminder :: "reminder_type \<Rightarrow> int option \<Rightarrow> int \<Rightarrow> int option \<Rightarrow> unit db_op" where
  "create_notification_reminder ty expires_at uid threshold =
     thenS (mod_db (\<lambda>db. db\<lparr>ud_reminders := ud_reminders db @
         [\<lparr>rm_id = ud_next_reminder db, rm_user = uid, rm_type = ty, rm_threshold = threshold, rm_expires = expires_at\<rparr>],
         ud_next_reminder := ud_next_reminder db + 1\<rparr>)) commit"

definition delete_notification_reminder :: "reminder \<Rightarrow> unit db_op" where
  "delete_notification_reminder r =
     thenS (mod_db (\<lambda>db. db\<lparr>ud_reminders := filter (\<lambda>x. rm_id x \<noteq> rm_id r) (ud_reminders db)\<rparr>)) commit"

definition get_notification_reminder :: "int \<Rightarrow> int \<Rightarrow> reminder_type \<Rightarrow> int option \<Rightarrow> reminder option db_op" where
  "get_notification_reminder now uid ty threshold =
     bindS (get_db (\<lambda>db. find (reminder_match uid ty threshold) (ud_reminders db))) (\<lambda>r. case r of
        None \<Rightarrow> ret None
      | Some m \<Rightarrow> (case rm_expires m of
            Some e \<Rightarrow> if e < now then thenS (delete_notification_reminder m) (ret None) else ret (Some m)
          | None \<Rightarrow> ret (Some m)))"

definition delete_notification_reminder_by_type :: "int \<Rightarrow> reminder_type \<Rightarrow> int option \<Rightarrow> unit db_op" where
  "delete_notification_reminder_by_type uid ty threshold =
     thenS (mod_db (\<lambda>db. db\<lparr>ud_reminders := filter (\<lambda>r. \<not> reminder_match uid ty threshold r) (ud_reminders db)\<rparr>)) commit"

definition delete_expired_reminders :: "int \<Rightarrow> unit db_op" where
  "delete_expired_reminders now =
     thenS (mod_db (\<lambda>db. db\<lparr>ud_reminders := filter (\<lambda>r. case rm_expires r of None \<Rightarrow> True | Some e \<Rightarrow> \<not> e < now) (ud_reminders db)\<rparr>))
       commit"

section \<open>Small arithmetic (app/utils/helpers.py)\<close>

definition calculate_usage_percent :: "int \<Rightarrow> int \<Rightarrow> rat" where
  "calculate_usage_percent used_traffic data_limit = of_int (used_traffic * 100) / of_int data_limit"

definition calculate_expiration_days :: "int \<Rightarrow> int \<Rightarrow> int" where
  "calculate_expiration_days now expire = (expire - now) div 86400"

section \<open>Changing a user: the request and its parts\<close>

record user_modify =
  um_proxies :: "(proxy_type \<times> obj) list"
  um_inbounds :: "(proxy_type \<times> string list) list"
  um_status :: "user_status option"
  um_limit :: "int option"
  um_device_limit :: "int option"
  um_expire :: "int option"
  um_note :: "string option"
  um_bot :: "string option"
  um_strategy :: "reset_strategy option"
  um_on_hold_timeout :: "int option"
  um_on_hold_duration :: "int option"
  um_next_plan :: "next_plan option option"
  um_bs_extra :: "int option"
  um_bs_limit_total :: "int option"

definition no_change :: user_modify where
  "no_change = \<lparr>um_proxies = [], um_inbounds = [], um_status = None, um_limit = None, um_device_limit = None,
     um_expire = None, um_note = None, um_bot = None, um_strategy = None, um_on_hold_timeout = None,
     um_on_hold_duration = None, um_next_plan = None, um_bs_extra = None, um_bs_limit_total = None\<rparr>"

text \<open>The panel's settings and what the Xray configuration offers per protocol.\<close>

record user_settings =
  us_usage_percents :: "int list"
  us_days_left :: "int list"
  us_autodelete_days :: int
  us_by_protocol :: "proxy_type \<Rightarrow> string list"

text \<open>\<open>UserModify.excluded_inbounds\<close> and \<open>User.inbounds\<close>: complements within the offered tags.\<close>

definition excluded_inbounds :: "user_settings \<Rightarrow> (proxy_type \<times> string list) list \<Rightarrow> (proxy_type \<times> string list) list" where
  "excluded_inbounds st inbounds =
     map (\<lambda>(t, tags). (t, filter (\<lambda>tag. tag \<notin> set tags) (us_by_protocol st t))) inbounds"

definition user_inbounds :: "user_settings \<Rightarrow> user_row \<Rightarrow> (proxy_type \<times> string list) list" where
  "user_inbounds st u =
     map (\<lambda>p. (px_type p, filter (\<lambda>tag. tag \<notin> set (px_excluded p)) (us_by_protocol st (px_type p)))) (u_proxies u)"

definition get_or_create_inbound :: "string \<Rightarrow> unit db_op" where
  "get_or_create_inbound tag =
     bindS (get_db (\<lambda>db. tag \<in> set (ud_inbounds db))) (\<lambda>known.
       if known then ret () else thenS (mod_db (\<lambda>db. db\<lparr>ud_inbounds := ud_inbounds db @ [tag]\<rparr>)) commit)"

fun seqS :: "('a \<Rightarrow> unit db_op) \<Rightarrow> 'a list \<Rightarrow> unit db_op" where
  "seqS f [] = ret ()"
| "seqS f (x # xs) = thenS (f x) (seqS f xs)"

text \<open>New settings for the listed protocols, new rows for the missing ones, the other rows deleted.\<close>

definition merge_proxies :: "(proxy_type \<times> obj) list \<Rightarrow> proxy_row list \<Rightarrow> proxy_row list" where
  "merge_proxies ps rows =
     map (\<lambda>r. r\<lparr>px_settings := the (dget ps (px_type r))\<rparr>) (filter (\<lambda>r. dget ps (px_type r) \<noteq> None) rows) @
     map (\<lambda>(t, s). \<lparr>px_type = t, px_settings = s, px_excluded = []\<rparr>) (filter (\<lambda>(t, s). t \<notin> set (map px_type rows)) ps)"

definition update_proxies :: "int \<Rightarrow> (proxy_type \<times> obj) list \<Rightarrow> unit db_op" where
  "update_proxies uid ps =
     (if ps = [] then ret () else put_user uid (\<lambda>u. u\<lparr>u_proxies := merge_proxies ps (u_proxies u)\<rparr>))"

text \<open>\<open>old\<close>: the protocols stored before; a row deleted just now is still found, without effect.\<close>

definition update_excluded :: "int \<Rightarrow> proxy_type list \<Rightarrow> proxy_type \<times> string list \<Rightarrow> unit db_op" where
  "update_excluded uid old tt = (case tt of (t, tags) \<Rightarrow>
     bindS (the_user uid) (\<lambda>u.
       if t \<in> set old \<or> t \<in> set (map px_type (u_proxies u))
       then thenS (seqS get_or_create_inbound tags)
              (put_user uid (\<lambda>u. u\<lparr>u_proxies :=
                 map (\<lambda>p. if px_type p = t then p\<lparr>px_excluded := tags\<rparr> else p) (u_proxies u)\<rparr>))
       else ret ()))"

definition drop_reminder_if :: "int \<Rightarrow> int \<Rightarrow> reminder_type \<Rightarrow> (int \<Rightarrow> bool) \<Rightarrow> int \<Rightarrow> unit db_op" where
  "drop_reminder_if now uid ty cond k =
     (if cond k
      then bindS (get_notification_reminder now uid ty (Some k)) (\<lambda>r. case r of
             None \<Rightarrow> ret () | Some m \<Rightarrow> delete_notification_reminder m)
      else ret ())"

definition update_data_limit :: "user_settings \<Rightarrow> int \<Rightarrow> int \<Rightarrow> int \<Rightarrow> unit db_op" where
  "update_data_limit st now uid limit =
     thenS (put_user uid (\<lambda>u. u\<lparr>u_limit := or_none (Some limit)\<rparr>))
     (bindS (the_user uid) (\<lambda>u.
        if u_status u \<in> {Expired, Disabled} then ret ()
        else if \<not> truthy_int (u_limit u) \<or> u_used u < or0 (u_limit u) then
          thenS (if u_status u \<noteq> OnHold then put_user uid (\<lambda>u. u\<lparr>u_status := Active\<rparr>) else ret ())
            (seqS (drop_reminder_if now uid DataUsage (\<lambda>percent. \<not> truthy_int (u_limit u) \<or>
                 calculate_usage_percent (u_used u) (or0 (u_limit u)) < of_int percent))
              (rev (sort (us_usage_percents st))))
        else put_user uid (\<lambda>u. u\<lparr>u_status := Limited\<rparr>)))"

definition update_expire :: "user_settings \<Rightarrow> int \<Rightarrow> int \<Rightarrow> int \<Rightarrow> unit db_op" where
  "update_expire st now uid expire =
     thenS (put_user uid (\<lambda>u. u\<lparr>u_expire := or_none (Some expire)\<rparr>))
     (bindS (the_user uid) (\<lambda>u.
        if u_status u \<notin> {Active, Expired} then ret ()
        else if \<not> truthy_int (u_expire u) \<or> or0 (u_expire u) > now then
          thenS (put_user uid (\<lambda>u. u\<lparr>u_status := Active\<rparr>))
            (seqS (drop_reminder_if now uid ExpirationDate (\<lambda>days. \<not> truthy_int (u_expire u) \<or>
                 calculate_expiration_days now (or0 (u_expire u)) > days))
              (sort (us_days_left st)))
        else put_user uid (\<lambda>u. u\<lparr>u_status := Expired\<rparr>)))"

text \<open>\<open>_normalize_bot_username\<close>: \<open>(value or "").strip().lstrip("@")\<close>.\<close>

definition normalize_bot_username :: "string \<Rightarrow> string" where
  "normalize_bot_username value = dropWhile (\<lambda>c. c = CHR ''@'') (strip value)"

definition get_bot :: "user_db \<Rightarrow> string \<Rightarrow> int option" where
  "get_bot db name = (if normalize_bot_username name = [] then None else dget (ud_bots db) (normalize_bot_username name))"

definition update_bot :: "int \<Rightarrow> string \<Rightarrow> unit db_op" where
  "update_bot uid name =
     (if normalize_bot_username name = [] then put_user uid (\<lambda>u. u\<lparr>u_bot := None\<rparr>)
      else bindS (get_db (\<lambda>db. get_bot db (normalize_bot_username name))) (\<lambda>b. case b of
             None \<Rightarrow> throw (ValueError ''Bot not found'')
           | Some i \<Rightarrow> put_user uid (\<lambda>u. u\<lparr>u_bot := Some i\<rparr>)))"

text \<open>The BS functions see the same tables; what they write is the pool of the user.\<close>

definition bs_view :: "user_db \<Rightarrow> bs_db" where
  "bs_view db = \<lparr>db_nodes = ud_bs_nodes db,
     db_users = map (\<lambda>u. \<lparr>bu_id = u_id u, bu_extra = u_bs_extra u, bu_extra_period = u_bs_period u, bu_bot = u_bot u,
                          bu_status = u_status u\<rparr>) (ud_users db),
     db_usage = ud_bs_usage db, db_daily = [], db_blocks = [], db_next_block = 0, db_limit = ud_bs_limit db\<rparr>"

definition write_pool :: "int \<Rightarrow> bs_db \<Rightarrow> user_db \<Rightarrow> user_db" where
  "write_pool uid bs db = (case get_user_by_id bs uid of
     None \<Rightarrow> db
   | Some b \<Rightarrow> set_user uid (\<lambda>u. u\<lparr>u_bs_extra := bu_extra b, u_bs_period := bu_extra_period b\<rparr>) db)"

definition update_bs :: "int \<Rightarrow> ym \<Rightarrow> user_modify \<Rightarrow> unit db_op" where
  "update_bs uid yq m =
     (case um_bs_extra m of
        Some x \<Rightarrow> bindS (get_db bs_view) (\<lambda>bs. case set_user_bs_extra_amount bs uid x yq of
            Inl e \<Rightarrow> throw e | Inr bs' \<Rightarrow> mod_db (write_pool uid bs'))
      | None \<Rightarrow> (case um_bs_limit_total m of
            Some x \<Rightarrow> bindS (get_db bs_view) (\<lambda>bs. case set_user_bs_limit_total bs uid x yq of
                Inl e \<Rightarrow> throw e | Inr bs' \<Rightarrow> mod_db (write_pool uid bs'))
          | None \<Rightarrow> ret ()))"

definition whenSome :: "'a option \<Rightarrow> ('a \<Rightarrow> unit db_op) \<Rightarrow> unit db_op" where
  "whenSome x f = (case x of None \<Rightarrow> ret () | Some v \<Rightarrow> f v)"

text \<open>The plain fields after the expiry and before the BS pool, and the note before the bot.\<close>

definition update_plan_fields :: "user_modify \<Rightarrow> user_row \<Rightarrow> user_row" where
  "update_plan_fields m u =
     u\<lparr>u_strategy := (case um_strategy m of None \<Rightarrow> u_strategy u | Some s \<Rightarrow> s),
       u_on_hold_timeout := (case um_on_hold_timeout m of None \<Rightarrow> u_on_hold_timeout u | Some t \<Rightarrow> Some t),
       u_on_hold_duration := (case um_on_hold_duration m of None \<Rightarrow> u_on_hold_duration u | Some d \<Rightarrow> Some d),
       u_next_plan := (case um_next_plan m of None \<Rightarrow> u_next_plan u | Some p \<Rightarrow> p)\<rparr>"

definition update_user :: "user_settings \<Rightarrow> int \<Rightarrow> ym \<Rightarrow> int \<Rightarrow> user_modify \<Rightarrow> unit db_op" where
  "update_user st now yq uid m =
     (if um_bs_extra m \<noteq> None \<and> um_bs_limit_total m \<noteq> None then throw (ValueError ''bs_extra and bs_limit_total'')
      else
        bindS (the_user uid) (\<lambda>u0.
        thenS (update_proxies uid (um_proxies m))
        (thenS (seqS (update_excluded uid (map px_type (u_proxies u0))) (excluded_inbounds st (um_inbounds m)))
        (thenS (whenSome (um_status m) (\<lambda>s. put_user uid (\<lambda>u. u\<lparr>u_status := s\<rparr>)))
        (thenS (whenSome (um_limit m) (update_data_limit st now uid))
        (thenS (whenSome (um_device_limit m) (\<lambda>d. put_user uid (\<lambda>u. u\<lparr>u_device_limit := or_none (Some d)\<rparr>)))
        (thenS (whenSome (um_expire m) (update_expire st now uid))
        (thenS (whenSome (um_note m) (\<lambda>n. put_user uid (\<lambda>u. u\<lparr>u_note := (if n = [] then None else Some n)\<rparr>)))
        (thenS (whenSome (um_bot m) (update_bot uid))
        (thenS (put_user uid (update_plan_fields m))
        (thenS (update_bs uid yq m)
        (thenS (put_user uid (\<lambda>u. u\<lparr>u_edit_at := Some now\<rparr>)) commit))))))))))))"

text \<open>The endpoint rolls back on a ValueError.\<close>

definition modify_user_endpoint :: "user_settings \<Rightarrow> int \<Rightarrow> ym \<Rightarrow> int \<Rightarrow> user_modify \<Rightarrow> unit db_op" where
  "modify_user_endpoint st now yq uid m =
     catchS (update_user st now yq uid m) (\<lambda>e. case e of ValueError _ \<Rightarrow> thenS rollback (throw e) | _ \<Rightarrow> throw e)"


section \<open>Creating and deleting\<close>

record user_create =
  uc_name :: string
  uc_proxies :: "(proxy_type \<times> obj) list"
  uc_inbounds :: "(proxy_type \<times> string list) list"
  uc_status :: user_status
  uc_limit :: "int option"
  uc_device_limit :: "int option"
  uc_expire :: "int option"
  uc_strategy :: reset_strategy
  uc_note :: "string option"
  uc_bot :: "string option"
  uc_on_hold_duration :: "int option"
  uc_on_hold_timeout :: "int option"
  uc_auto_delete :: "int option"
  uc_next_plan :: "next_plan option"

definition create_excluded :: "user_settings \<Rightarrow> user_create \<Rightarrow> proxy_type \<Rightarrow> string list" where
  "create_excluded st c t = filter (\<lambda>tag. tag \<notin> set (dget_or (uc_inbounds c) t [])) (us_by_protocol st t)"

definition new_user :: "user_settings \<Rightarrow> (string \<Rightarrow> string) \<Rightarrow> int \<Rightarrow> int option \<Rightarrow> int option \<Rightarrow> user_create \<Rightarrow> int \<Rightarrow> user_row" where
  "new_user st token now admin bt c uid =
     \<lparr>u_id = uid, u_name = uc_name c,
      u_proxies = map (\<lambda>(t, s). \<lparr>px_type = t, px_settings = s, px_excluded = create_excluded st c t\<rparr>) (uc_proxies c),
      u_status = uc_status c, u_used = 0, u_limit = or_none (uc_limit c), u_strategy = uc_strategy c, u_usage_logs = [],
      u_node_usages = [], u_expire = or_none (uc_expire c), u_admin = admin, u_sub_revoked_at = None,
      u_sub_updated_at = None, u_sub_agent = None, u_token = Some (token (uc_name c)), u_bot = bt, u_created_at = now,
      u_note = uc_note c, u_online_at = None, u_on_hold_duration = or_none (uc_on_hold_duration c),
      u_on_hold_timeout = uc_on_hold_timeout c, u_device_limit = or_none (uc_device_limit c), u_bs_extra = None,
      u_bs_period = None, u_rotation_offset = 0, u_rotation_at = None, u_auto_delete = uc_auto_delete c,
      u_edit_at = None, u_last_status_change = Some now, u_next_plan = uc_next_plan c\<rparr>"

text \<open>The user name is unique up to case; \<open>token\<close> is \<open>create_subscription_token\<close>.\<close>

definition create_user :: "user_settings \<Rightarrow> (string \<Rightarrow> string) \<Rightarrow> int \<Rightarrow> int option \<Rightarrow> user_create \<Rightarrow> int db_op" where
  "create_user st token now admin c =
     thenS (seqS (\<lambda>p. seqS get_or_create_inbound (create_excluded st c (fst p))) (uc_proxies c))
     (bindS (get_db (\<lambda>db. case uc_bot c of Some n \<Rightarrow> (if n = [] then None else get_bot db n) | None \<Rightarrow> None)) (\<lambda>bt.
      if truthy_str (uc_bot c) \<and> bt = None then throw (ValueError ''Bot not found'')
      else
        bindS (get_db (\<lambda>db. (ud_next_user db, map lower_char (uc_name c) \<in> set (map (\<lambda>u. map lower_char (u_name u)) (ud_users db))))) (\<lambda>(uid, dup).
        if dup then throw (RuntimeError ''IntegrityError'')
        else
          thenS (mod_db (\<lambda>db. db\<lparr>ud_users := ud_users db @ [new_user st token now admin bt c uid], ud_next_user := uid + 1\<rparr>))
          (thenS commit (ret uid)))))"

text \<open>Deleting a user cascades to counters, reminders and devices.\<close>

definition purge_user :: "int \<Rightarrow> user_db \<Rightarrow> user_db" where
  "purge_user uid db = db\<lparr>
     ud_users := filter (\<lambda>u. u_id u \<noteq> uid) (ud_users db),
     ud_reminders := filter (\<lambda>r. rm_user r \<noteq> uid) (ud_reminders db),
     ud_bs_usage := filter (\<lambda>r. us_user r \<noteq> uid) (ud_bs_usage db),
     ud_devices := (ud_devices db)\<lparr>dd_rows := filter (\<lambda>d. dv_user d \<noteq> uid) (dd_rows (ud_devices db))\<rparr>\<rparr>"

definition remove_user :: "int \<Rightarrow> unit db_op" where
  "remove_user uid = thenS (mod_db (purge_user uid)) commit"

definition remove_users :: "int list \<Rightarrow> unit db_op" where
  "remove_users uids = thenS (mod_db (fold purge_user uids)) commit"

section \<open>Resets\<close>

fun status_str :: "user_status \<Rightarrow> string" where
  "status_str Active = ''active''"
| "status_str Disabled = ''disabled''"
| "status_str Limited = ''limited''"
| "status_str Expired = ''expired''"
| "status_str OnHold = ''on_hold''"

text \<open>
  \<open>status not in (UserStatus.expired or UserStatus.disabled)\<close>: the parenthesis is the string
  \<open>"expired"\<close>, and \<open>in\<close> looks for a substring.
\<close>

definition reset_activates :: "user_status \<Rightarrow> bool" where
  "reset_activates s \<longleftrightarrow> \<not> contains (status_str s) ''expired''"

definition log_reset :: "int \<Rightarrow> user_row \<Rightarrow> user_row" where
  "log_reset now u = u\<lparr>u_usage_logs := u_usage_logs u @ [\<lparr>rl_used = u_used u, rl_at = now\<rparr>]\<rparr>"

definition reset_row :: "int \<Rightarrow> user_row \<Rightarrow> user_row" where
  "reset_row now u = (log_reset now u)\<lparr>u_used := 0, u_node_usages := [],
     u_status := (if reset_activates (u_status u) then Active else u_status u), u_next_plan := None\<rparr>"

definition drop_bs_usage :: "int list \<Rightarrow> user_db \<Rightarrow> user_db" where
  "drop_bs_usage uids db = db\<lparr>ud_bs_usage := filter (\<lambda>r. us_user r \<notin> set uids) (ud_bs_usage db)\<rparr>"

definition reset_user_data_usage :: "int \<Rightarrow> int \<Rightarrow> unit db_op" where
  "reset_user_data_usage now uid =
     thenS (put_user uid (reset_row now)) (thenS (mod_db (drop_bs_usage [uid])) commit)"

text \<open>\<open>data_limit - used_traffic\<close> raises TypeError for an unlimited user, after the row was touched.\<close>

definition next_plan_row :: "next_plan \<Rightarrow> int \<Rightarrow> user_row \<Rightarrow> user_row" where
  "next_plan_row p left u = u\<lparr>u_limit := Some (np_limit p + left), u_expire := np_expire p, u_used := 0, u_next_plan := None\<rparr>"

definition reset_user_by_next :: "int \<Rightarrow> bool \<Rightarrow> int \<Rightarrow> unit db_op" where
  "reset_user_by_next now do_commit uid =
     bindS (the_user uid) (\<lambda>u. case u_next_plan u of
        None \<Rightarrow> ret ()
      | Some p \<Rightarrow>
          thenS (put_user uid (\<lambda>u. (log_reset now u)\<lparr>u_node_usages := [], u_status := Active\<rparr>))
          (thenS (if np_add_remaining p then put_user uid (next_plan_row p 0)
                  else (case u_limit u of
                          None \<Rightarrow> throw (TypeError ''data_limit - used_traffic'')
                        | Some l \<Rightarrow> put_user uid (next_plan_row p (l - u_used u))))
            (if do_commit then commit else ret ())))"

definition reset_all_users_data_usage :: "int option \<Rightarrow> unit db_op" where
  "reset_all_users_data_usage admin =
     bindS (get_db (\<lambda>db. map u_id (filter (\<lambda>u. admin = None \<or> u_admin u = admin) (ud_users db)))) (\<lambda>uids.
     thenS (mod_db (\<lambda>db. db\<lparr>ud_users := map (\<lambda>u. if u_id u \<in> set uids then
         u\<lparr>u_used := 0, u_status := (if u_status u \<in> {OnHold, Expired, Disabled} then u_status u else Active),
           u_usage_logs := [], u_node_usages := [], u_next_plan := None\<rparr> else u) (ud_users db)\<rparr>))
     (thenS (mod_db (drop_bs_usage uids)) commit))"

section \<open>Subscription\<close>

definition revoke_settings :: "(proxy_type \<Rightarrow> string) \<Rightarrow> proxy_row \<Rightarrow> proxy_type \<times> obj" where
  "revoke_settings fresh p = (px_type p,
     dput (if px_type p \<in> {VMess, VLESS} then ''id'' else ''password'') (JStr (fresh (px_type p))) (px_settings p))"

definition revoke_devices :: "int \<Rightarrow> int \<Rightarrow> user_db \<Rightarrow> user_db" where
  "revoke_devices now uid db = db\<lparr>ud_devices := (ud_devices db)\<lparr>dd_rows :=
     map (\<lambda>d. if dv_user d = uid then d\<lparr>dv_status := ''revoked'', dv_last_seen := now\<rparr> else d) (dd_rows (ud_devices db))\<rparr>\<rparr>"

text \<open>\<open>fresh\<close> yields the new secret of each protocol (a random UUID or password).\<close>

definition revoke_user_sub :: "user_settings \<Rightarrow> (proxy_type \<Rightarrow> string) \<Rightarrow> int \<Rightarrow> ym \<Rightarrow> int \<Rightarrow> unit db_op" where
  "revoke_user_sub st fresh now yq uid =
     thenS (put_user uid (\<lambda>u. u\<lparr>u_sub_revoked_at := Some now, u_token := None\<rparr>))
     (thenS (mod_db (revoke_devices now uid))
     (bindS (the_user uid) (\<lambda>u.
        if u_proxies u = [] then throw (ValueError ''Each user needs at least one proxy'')
        else thenS (update_user st now yq uid (no_change\<lparr>um_proxies := map (revoke_settings fresh) (u_proxies u)\<rparr>)) commit)))"

definition update_user_sub :: "(string \<Rightarrow> string) \<Rightarrow> int \<Rightarrow> int \<Rightarrow> string \<Rightarrow> unit db_op" where
  "update_user_sub token now uid agent =
     thenS (put_user uid (\<lambda>u. u\<lparr>u_sub_updated_at := Some now, u_sub_agent := Some agent,
         u_token := (case u_token u of None \<Rightarrow> Some (token (u_name u)) | Some t \<Rightarrow> Some t)\<rparr>)) commit"

definition ensure_subscription_token :: "(string \<Rightarrow> string) \<Rightarrow> int \<Rightarrow> unit db_op" where
  "ensure_subscription_token token uid =
     bindS (the_user uid) (\<lambda>u. if u_token u = None
       then thenS (put_user uid (\<lambda>u. u\<lparr>u_token := Some (token (u_name u))\<rparr>)) commit else ret ())"

section \<open>Status\<close>

definition update_user_status :: "int \<Rightarrow> bool \<Rightarrow> int \<Rightarrow> user_status \<Rightarrow> unit db_op" where
  "update_user_status now do_commit uid s =
     thenS (put_user uid (\<lambda>u. u\<lparr>u_status := s, u_last_status_change := Some now\<rparr>)) (if do_commit then commit else ret ())"

definition set_owner :: "int \<Rightarrow> int option \<Rightarrow> unit db_op" where
  "set_owner uid admin = thenS (put_user uid (\<lambda>u. u\<lparr>u_admin := admin\<rparr>)) commit"

definition start_user_expire :: "int \<Rightarrow> bool \<Rightarrow> int \<Rightarrow> unit db_op" where
  "start_user_expire now do_commit uid =
     bindS (the_user uid) (\<lambda>u. case u_on_hold_duration u of
        None \<Rightarrow> throw (TypeError ''int + None'')
      | Some d \<Rightarrow> thenS (put_user uid (\<lambda>u. u\<lparr>u_expire := Some (now + d), u_on_hold_duration := None, u_on_hold_timeout := None\<rparr>))
          (if do_commit then commit else ret ()))"

definition rotate_user_addresses :: "int \<Rightarrow> int \<Rightarrow> unit db_op" where
  "rotate_user_addresses now uid =
     thenS (put_user uid (\<lambda>u. u\<lparr>u_rotation_offset := u_rotation_offset u + 1, u_rotation_at := Some now\<rparr>)) commit"

definition change_where :: "(user_row \<Rightarrow> bool) \<Rightarrow> int \<Rightarrow> user_status \<Rightarrow> user_db \<Rightarrow> user_db" where
  "change_where P now s db = db\<lparr>ud_users :=
     map (\<lambda>u. if P u then u\<lparr>u_status := s, u_last_status_change := Some now\<rparr> else u) (ud_users db)\<rparr>"

definition disable_all_active_users :: "int \<Rightarrow> int option \<Rightarrow> unit db_op" where
  "disable_all_active_users now admin =
     thenS (mod_db (change_where (\<lambda>u. u_status u \<in> {Active, OnHold} \<and> (admin = None \<or> u_admin u = admin)) now Disabled)) commit"

definition was_on_hold :: "user_row \<Rightarrow> bool" where
  "was_on_hold u \<longleftrightarrow> u_status u = Disabled \<and> u_expire u = None \<and> u_on_hold_duration u \<noteq> None \<and> u_online_at u = None"

definition activate_all_disabled_users :: "int \<Rightarrow> int option \<Rightarrow> unit db_op" where
  "activate_all_disabled_users now admin =
     thenS (mod_db (change_where (\<lambda>u. was_on_hold u \<and> (admin = None \<or> u_admin u = admin)) now OnHold))
     (thenS (mod_db (change_where (\<lambda>u. u_status u = Disabled \<and> (admin = None \<or> u_admin u = admin)) now Active)) commit)"

definition auto_delete_days :: "user_settings \<Rightarrow> user_row \<Rightarrow> int" where
  "auto_delete_days st u = (case u_auto_delete u of None \<Rightarrow> us_autodelete_days st | Some d \<Rightarrow> d)"

definition delete_due :: "user_settings \<Rightarrow> int \<Rightarrow> user_row \<Rightarrow> bool result" where
  "delete_due st now u = (case u_last_status_change u of
     None \<Rightarrow> Inl (TypeError ''None + timedelta'')
   | Some t \<Rightarrow> Inr (t + auto_delete_days st u * 86400 \<le> now))"

definition delete_candidates :: "user_settings \<Rightarrow> bool \<Rightarrow> user_db \<Rightarrow> user_row list" where
  "delete_candidates st include_limited db =
     filter (\<lambda>u. auto_delete_days st u \<ge> 0 \<and> u_status u \<in> (if include_limited then {Expired, Limited} else {Expired})) (ud_users db)"

definition autodelete_expired_users :: "user_settings \<Rightarrow> int \<Rightarrow> bool \<Rightarrow> user_row list db_op" where
  "autodelete_expired_users st now include_limited =
     bindS (get_db (\<lambda>db. (delete_candidates st include_limited db, mapE (delete_due st now) (delete_candidates st include_limited db)))) (\<lambda>(cs, r).
     case r of
       Inl e \<Rightarrow> throw e
     | Inr due \<Rightarrow>
         (let gone = map fst (filter snd (zip cs due)) in
          thenS (if gone = [] then ret () else remove_users (map u_id gone)) (ret gone)))"

definition lifetime_used_traffic :: "user_row \<Rightarrow> int" where
  "lifetime_used_traffic u = sum_list (map rl_used (u_usage_logs u)) + u_used u"

definition last_traffic_reset_time :: "user_row \<Rightarrow> int" where
  "last_traffic_reset_time u = (if u_usage_logs u = [] then u_created_at u else rl_at (last (u_usage_logs u)))"


section \<open>Rows after an operation\<close>

definition row :: "int \<Rightarrow> (user_row \<Rightarrow> bool) \<Rightarrow> session \<Rightarrow> bool" where
  "row uid P s \<longleftrightarrow> (\<exists>u. find_user (se_db s) uid = Some u \<and> P u)"

lemma find_set_user:
  "(\<And>u. u_id (f u) = u_id u) \<Longrightarrow>
   find_user (set_user uid f db) v = map_option (\<lambda>u. if u_id u = uid then f u else u) (find_user db v)"
proof -
  assume f: "\<And>u. u_id (f u) = u_id u"
  have "find (\<lambda>u. u_id u = v) (map (\<lambda>u. if u_id u = uid then f u else u) us) =
      map_option (\<lambda>u. if u_id u = uid then f u else u) (find (\<lambda>u. u_id u = v) us)" for us
    using f by (induction us) auto
  then show ?thesis by (simp add: find_user_def set_user_def)
qed

lemma find_user_id: "find_user db uid = Some u \<Longrightarrow> u_id u = uid"
  by (auto simp: find_user_def find_Some_iff)

lemma outcome_put_user:
  assumes "\<And>u. u_id (f u) = u_id u" and "\<And>u. P u \<Longrightarrow> Q (f u)"
  shows "outcome (row uid P) (put_user uid f) (\<lambda>_. row uid Q) E"
proof -
  have "find_user (set_user uid f db) uid = Some (f u)" if "find_user db uid = Some u" for db u
    using that find_user_id [OF that] by (simp add: find_set_user [OF assms(1)])
  with assms(2) show ?thesis
    by (fastforce simp: outcome_def put_user_def mod_db_def modS_def row_def)
qed

lemma outcome_the_user: "outcome (row uid P) (the_user uid) (\<lambda>u. row uid (\<lambda>v. v = u \<and> P v)) E"
  by (auto simp: outcome_def the_user_def get_db_def eff_defs row_def)

text \<open>Operations on the other tables leave the users alone.\<close>

definition same_users :: "session \<Rightarrow> session \<Rightarrow> bool" where
  "same_users s s' \<longleftrightarrow> ud_users (se_db s') = ud_users (se_db s)"

interpretation su: state_relation same_users
  by unfold_locales (simp_all add: same_users_def)

lemma su_mod: "(\<And>db. ud_users (f db) = ud_users db) \<Longrightarrow> follows same_users (mod_db f)"
  by (simp add: follows_def mod_db_def modS_def same_users_def)

lemma su_commit: "follows same_users commit"
  by (simp add: follows_def commit_def modS_def same_users_def)

lemma su_get: "follows same_users (get_db f)"
  by (simp add: follows_def get_db_def eff_defs same_users_def)

lemmas su_basic = su.f_intros su_mod su_commit su_get

lemma su_seqS: "(\<And>x. follows same_users (f x)) \<Longrightarrow> follows same_users (seqS f xs)"
  by (induction xs) (auto intro!: su_basic)

lemma su_delete_reminder: "follows same_users (delete_notification_reminder r)"
  unfolding delete_notification_reminder_def by (auto intro!: su_basic)

lemma su_get_reminder: "follows same_users (get_notification_reminder now uid ty k)"
  unfolding get_notification_reminder_def
  by (auto intro!: su_basic su_delete_reminder split: option.split)

lemma su_drop_reminder: "follows same_users (drop_reminder_if now uid ty c k)"
  unfolding drop_reminder_if_def by (auto intro!: su_basic su_get_reminder su_delete_reminder split: option.split)

lemma su_inbound: "follows same_users (get_or_create_inbound tag)"
  unfolding get_or_create_inbound_def by (auto intro!: su_basic)

lemma outcome_same_users: "follows same_users m \<Longrightarrow> outcome (row uid P) m (\<lambda>_. row uid P) (\<lambda>_. row uid P)"
  unfolding outcome_def follows_def same_users_def row_def find_user_def
  by (auto split: prod.split sum.split) (metis snd_conv)+

section \<open>Status after a change of limits\<close>

text \<open>The four columns that decide whether a user may connect.\<close>

definition core :: "user_row \<Rightarrow> user_status \<times> int \<times> int option \<times> int option" where
  "core u = (u_status u, u_used u, u_limit u, u_expire u)"

abbreviation core_is :: "int \<Rightarrow> user_status \<times> int \<times> int option \<times> int option \<Rightarrow> session \<Rightarrow> bool" where
  "core_is uid c \<equiv> row uid (\<lambda>u. core u = c)"

definition traffic_left :: "int \<Rightarrow> int option \<Rightarrow> bool" where
  "traffic_left used limit \<longleftrightarrow> \<not> truthy_int limit \<or> used < or0 limit"

definition time_left :: "int \<Rightarrow> int option \<Rightarrow> bool" where
  "time_left now expire \<longleftrightarrow> \<not> truthy_int expire \<or> now < or0 expire"

definition status_after_limit :: "user_status \<Rightarrow> bool \<Rightarrow> user_status" where
  "status_after_limit s left = (if s \<in> {Expired, Disabled} then s else if \<not> left then Limited else if s = OnHold then OnHold else Active)"

definition status_after_expire :: "user_status \<Rightarrow> bool \<Rightarrow> user_status" where
  "status_after_expire s left = (if s \<notin> {Active, Expired} then s else if left then Active else Expired)"

lemma outcome_put_core:
  "(\<And>u. u_id (f u) = u_id u) \<Longrightarrow> (\<And>u. core u = c \<Longrightarrow> core (f u) = d) \<Longrightarrow> outcome (core_is uid c) (put_user uid f) (\<lambda>_. core_is uid d) E"
  by (rule outcome_put_user)

lemma outcome_keep_core: "follows same_users m \<Longrightarrow> outcome (core_is uid c) m (\<lambda>_. core_is uid c) (\<lambda>_ _. True)"
  by (rule outcome_weaken [OF outcome_same_users]) auto

lemma outcome_with_user:
  assumes "\<And>u. core u = c \<Longrightarrow> outcome (core_is uid c) (f u) Q E"
  shows "outcome (core_is uid c) (bindS (the_user uid) f) Q E"
proof (rule outcome_bind [OF outcome_the_user])
  fix u
  show "outcome (row uid (\<lambda>v. v = u \<and> core v = c)) (f u) Q E"
  proof (cases "core u = c")
    case True
    then show ?thesis
      by (rule outcome_weaken [OF assms]) (auto simp: row_def)
  qed (auto simp: outcome_def row_def)
qed

lemma core_update_data_limit:
  "outcome (core_is uid (s, used, limit, expire)) (update_data_limit st now uid l)
     (\<lambda>_. core_is uid (status_after_limit s (traffic_left used (or_none (Some l))), used, or_none (Some l), expire)) (\<lambda>_ _. True)"
  unfolding update_data_limit_def
proof (rule outcome_bind [where Q' = "\<lambda>_. core_is uid (s, used, or_none (Some l), expire)"])
  show "outcome (core_is uid (s, used, limit, expire)) (put_user uid (\<lambda>u. u\<lparr>u_limit := or_none (Some l)\<rparr>))
     (\<lambda>_. core_is uid (s, used, or_none (Some l), expire)) (\<lambda>_ _. True)"
    by (rule outcome_put_core) (auto simp: core_def)
qed (rule outcome_with_user, intro outcome_if outcome_ret outcome_bind [OF _ outcome_keep_core] outcome_put_core su_seqS su_drop_reminder;
     auto simp: core_def status_after_limit_def traffic_left_def)

lemma core_update_expire:
  "outcome (core_is uid (s, used, limit, expire)) (update_expire st now uid e)
     (\<lambda>_. core_is uid (status_after_expire s (time_left now (or_none (Some e))), used, limit, or_none (Some e))) (\<lambda>_ _. True)"
  unfolding update_expire_def
proof (rule outcome_bind [where Q' = "\<lambda>_. core_is uid (s, used, limit, or_none (Some e))"])
  show "outcome (core_is uid (s, used, limit, expire)) (put_user uid (\<lambda>u. u\<lparr>u_expire := or_none (Some e)\<rparr>))
     (\<lambda>_. core_is uid (s, used, limit, or_none (Some e))) (\<lambda>_ _. True)"
    by (rule outcome_put_core) (auto simp: core_def)
qed (rule outcome_with_user, intro outcome_if outcome_ret outcome_bind [OF _ outcome_keep_core] outcome_put_core su_seqS su_drop_reminder;
     auto simp: core_def status_after_expire_def time_left_def)


text \<open>The other parts of an update keep the four columns.\<close>

definition keeps_core :: "int \<Rightarrow> 'a db_op \<Rightarrow> bool" where
  "keeps_core uid m \<longleftrightarrow> (\<forall>c. outcome (core_is uid c) m (\<lambda>_. core_is uid c) (\<lambda>_ _. True))"

lemma kcD: "keeps_core uid m \<Longrightarrow> outcome (core_is uid c) m (\<lambda>_. core_is uid c) (\<lambda>_ _. True)"
  by (simp only: keeps_core_def)

lemma kcI: "(\<And>c. outcome (core_is uid c) m (\<lambda>_. core_is uid c) (\<lambda>_ _. True)) \<Longrightarrow> keeps_core uid m"
  unfolding keeps_core_def by (rule allI)

lemma kc_put: "(\<And>u. u_id (f u) = u_id u \<and> core (f u) = core u) \<Longrightarrow> keeps_core uid (put_user uid f)"
  by (rule kcI, rule outcome_put_core) simp_all

lemma kc_ret: "keeps_core uid (ret x)"
  by (rule kcI, rule outcome_ret)

lemma kc_throw: "keeps_core uid (throw e)"
  by (rule kcI, rule outcome_throw) simp

lemma kc_bind: "keeps_core uid m \<Longrightarrow> (\<And>x. keeps_core uid (f x)) \<Longrightarrow> keeps_core uid (bindS m f)"
  by (rule kcI, rule outcome_bind, erule kcD) (rule kcD)

lemma kc_same: "follows same_users m \<Longrightarrow> keeps_core uid m"
  by (rule kcI, rule outcome_keep_core)

lemma kc_the_user: "keeps_core uid (the_user uid)"
  by (rule kcI, rule outcome_weaken [OF outcome_the_user]) (auto simp: row_def)

lemma kc_seqS: "(\<And>x. keeps_core uid (f x)) \<Longrightarrow> keeps_core uid (seqS f xs)"
  by (induction xs) (simp_all add: kc_ret kc_bind)

lemma kc_if: "keeps_core uid m \<Longrightarrow> keeps_core uid n \<Longrightarrow> keeps_core uid (if b then m else n)"
  by simp

lemma kc_whenSome: "(\<And>x. keeps_core uid (f x)) \<Longrightarrow> keeps_core uid (whenSome v f)"
  by (cases v) (simp_all add: whenSome_def kc_ret)

lemma kc_update_proxies: "keeps_core uid (update_proxies uid ps)"
  unfolding update_proxies_def by (rule kc_if [OF kc_ret], rule kc_put) (simp add: core_def)

lemma kc_update_excluded: "keeps_core uid (update_excluded uid old tt)"
proof -
  have "keeps_core uid (put_user uid (\<lambda>u. u\<lparr>u_proxies := map (\<lambda>p. if px_type p = t then p\<lparr>px_excluded := tags\<rparr> else p) (u_proxies u)\<rparr>))"
    for t tags
    by (rule kc_put) (simp add: core_def)
  then show ?thesis
    unfolding update_excluded_def
    by (cases tt) (simp only: prod.case, intro kc_bind kc_the_user kc_if kc_ret kc_same [OF su_seqS [OF su_inbound]])
qed

lemma kc_update_bot: "keeps_core uid (update_bot uid name)"
proof -
  have "keeps_core uid (put_user uid (\<lambda>u. u\<lparr>u_bot := b\<rparr>))" for b
    by (rule kc_put) (simp add: core_def)
  then show ?thesis
    unfolding update_bot_def
    by (intro kc_if kc_bind kc_same [OF su_get]) (auto split: option.split intro: kc_throw)
qed

lemma kc_update_bs: "keeps_core uid (update_bs uid yq m)"
proof -
  have w: "keeps_core uid (mod_db (write_pool uid bs))" for bs
  proof (cases "get_user_by_id bs uid")
    case None
    then have "write_pool uid bs = (\<lambda>db. db)" by (simp add: write_pool_def fun_eq_iff)
    then show ?thesis by (simp add: kc_same su_mod)
  next
    case (Some b)
    have "keeps_core uid (put_user uid (\<lambda>u. u\<lparr>u_bs_extra := bu_extra b, u_bs_period := bu_extra_period b\<rparr>))"
      by (rule kc_put) (simp add: core_def)
    moreover have "write_pool uid bs = set_user uid (\<lambda>u. u\<lparr>u_bs_extra := bu_extra b, u_bs_period := bu_extra_period b\<rparr>)"
      using Some by (simp add: write_pool_def fun_eq_iff)
    ultimately show ?thesis by (simp add: put_user_def)
  qed
  have "keeps_core uid (case r of Inl e \<Rightarrow> throw e | Inr bs' \<Rightarrow> mod_db (write_pool uid bs'))" for r
    using w by (cases r) (simp_all add: kc_throw)
  then show ?thesis
    unfolding update_bs_def
    by (cases "um_bs_extra m"; cases "um_bs_limit_total m") (simp_all add: kc_ret kc_bind kc_same su_get)
qed

text \<open>The whole update on the four columns.\<close>

definition status_of_update :: "user_modify \<Rightarrow> int \<Rightarrow> user_status \<Rightarrow> int \<Rightarrow> int option \<Rightarrow> int option \<Rightarrow> user_status \<times> int \<times> int option \<times> int option" where
  "status_of_update m now s used limit expire =
     (let s0 = (case um_status m of None \<Rightarrow> s | Some x \<Rightarrow> x);
          limit' = (case um_limit m of None \<Rightarrow> limit | Some l \<Rightarrow> or_none (Some l));
          s1 = (case um_limit m of None \<Rightarrow> s0 | Some _ \<Rightarrow> status_after_limit s0 (traffic_left used limit'));
          expire' = (case um_expire m of None \<Rightarrow> expire | Some e \<Rightarrow> or_none (Some e));
          s2 = (case um_expire m of None \<Rightarrow> s1 | Some _ \<Rightarrow> status_after_expire s1 (time_left now expire'))
      in (s2, used, limit', expire'))"

lemma kc_bind_step: "keeps_core uid m \<Longrightarrow> outcome (core_is uid c) n Q (\<lambda>_ _. True) \<Longrightarrow> outcome (core_is uid c) (thenS m n) Q (\<lambda>_ _. True)"
  by (rule outcome_bind, erule kcD)

lemma core_update_user:
  "outcome (core_is uid (s, used, limit, expire)) (update_user st now yq uid m)
     (\<lambda>_. core_is uid (status_of_update m now s used limit expire)) (\<lambda>_ _. True)"
  unfolding update_user_def
proof (rule outcome_if, simp add: outcome_throw, rule outcome_with_user)
  fix u0
  define s0 where "s0 = (case um_status m of None \<Rightarrow> s | Some x \<Rightarrow> x)"
  define limit' where "limit' = (case um_limit m of None \<Rightarrow> limit | Some l \<Rightarrow> or_none (Some l))"
  define s1 where "s1 = (case um_limit m of None \<Rightarrow> s0 | Some _ \<Rightarrow> status_after_limit s0 (traffic_left used limit'))"
  define expire' where "expire' = (case um_expire m of None \<Rightarrow> expire | Some e \<Rightarrow> or_none (Some e))"
  define s2 where "s2 = (case um_expire m of None \<Rightarrow> s1 | Some _ \<Rightarrow> status_after_expire s1 (time_left now expire'))"
  have goal: "status_of_update m now s used limit expire = (s2, used, limit', expire')"
    unfolding status_of_update_def Let_def s2_def expire'_def s1_def limit'_def s0_def by (rule refl)
  have a: "outcome (core_is uid (s, used, limit, expire)) (whenSome (um_status m) (\<lambda>x. put_user uid (\<lambda>u. u\<lparr>u_status := x\<rparr>)))
      (\<lambda>_. core_is uid (s0, used, limit, expire)) (\<lambda>_ _. True)"
  proof (cases "um_status m")
    case None
    then show ?thesis by (simp add: whenSome_def s0_def outcome_ret)
  next
    case (Some x)
    then show ?thesis
      unfolding whenSome_def s0_def Some option.case by (intro outcome_put_core) (auto simp: core_def)
  qed
  have b: "outcome (core_is uid (s0, used, limit, expire)) (whenSome (um_limit m) (update_data_limit st now uid))
      (\<lambda>_. core_is uid (s1, used, limit', expire)) (\<lambda>_ _. True)"
  proof (cases "um_limit m")
    case None
    then show ?thesis by (simp add: whenSome_def s1_def limit'_def outcome_ret)
  next
    case (Some l)
    then show ?thesis
      unfolding whenSome_def s1_def limit'_def Some option.case by (intro core_update_data_limit)
  qed
  have c: "outcome (core_is uid (s1, used, limit', expire)) (whenSome (um_expire m) (update_expire st now uid))
      (\<lambda>_. core_is uid (s2, used, limit', expire')) (\<lambda>_ _. True)"
  proof (cases "um_expire m")
    case None
    then show ?thesis by (simp add: whenSome_def s2_def expire'_def outcome_ret)
  next
    case (Some e)
    then show ?thesis
      unfolding whenSome_def s2_def expire'_def Some option.case by (intro core_update_expire)
  qed
  have dev: "keeps_core uid (whenSome (um_device_limit m) (\<lambda>d. put_user uid (\<lambda>u. u\<lparr>u_device_limit := or_none (Some d)\<rparr>)))"
    by (rule kc_whenSome, rule kc_put) (simp add: core_def)
  have nt: "keeps_core uid (whenSome (um_note m) (\<lambda>n. put_user uid (\<lambda>u. u\<lparr>u_note := (if n = [] then None else Some n)\<rparr>)))"
    by (rule kc_whenSome, rule kc_put) (simp add: core_def)
  have bot: "keeps_core uid (whenSome (um_bot m) (update_bot uid))"
    by (rule kc_whenSome, rule kc_update_bot)
  have plan: "keeps_core uid (put_user uid (update_plan_fields m))"
    by (rule kc_put) (simp add: update_plan_fields_def core_def)
  have edit: "keeps_core uid (put_user uid (\<lambda>u. u\<lparr>u_edit_at := Some now\<rparr>))"
    by (rule kc_put) (simp add: core_def)
  show "outcome (core_is uid (s, used, limit, expire))
        (thenS (update_proxies uid (um_proxies m))
        (thenS (seqS (update_excluded uid (map px_type (u_proxies u0))) (excluded_inbounds st (um_inbounds m)))
        (thenS (whenSome (um_status m) (\<lambda>s. put_user uid (\<lambda>u. u\<lparr>u_status := s\<rparr>)))
        (thenS (whenSome (um_limit m) (update_data_limit st now uid))
        (thenS (whenSome (um_device_limit m) (\<lambda>d. put_user uid (\<lambda>u. u\<lparr>u_device_limit := or_none (Some d)\<rparr>)))
        (thenS (whenSome (um_expire m) (update_expire st now uid))
        (thenS (whenSome (um_note m) (\<lambda>n. put_user uid (\<lambda>u. u\<lparr>u_note := (if n = [] then None else Some n)\<rparr>)))
        (thenS (whenSome (um_bot m) (update_bot uid))
        (thenS (put_user uid (update_plan_fields m))
        (thenS (update_bs uid yq m)
        (thenS (put_user uid (\<lambda>u. u\<lparr>u_edit_at := Some now\<rparr>)) commit)))))))))))
     (\<lambda>_. core_is uid (status_of_update m now s used limit expire)) (\<lambda>_ _. True)"
    unfolding goal
    by (rule kc_bind_step [OF kc_update_proxies], rule kc_bind_step [OF kc_seqS [OF kc_update_excluded]],
        rule outcome_bind [OF a], rule outcome_bind [OF b], rule kc_bind_step [OF dev], rule outcome_bind [OF c],
        rule kc_bind_step [OF nt], rule kc_bind_step [OF bot], rule kc_bind_step [OF plan],
        rule kc_bind_step [OF kc_update_bs], rule kc_bind_step [OF edit], rule outcome_keep_core [OF su_commit])
qed


text \<open>After an accepted change of a user that sets a traffic limit and an expiry date, the traffic
  used is untouched and the status fits the two: an active user has time left, and traffic left unless
  the user was expired before; a user with traffic and time left is active, unless disabled or on hold;
  a disabled user stays disabled; a user is on hold afterwards exactly when put or left on hold with
  traffic left.\<close>

theorem update_user_status_fits:
  assumes "update_user st now yq uid m s = (Inr (), s')"
    and "find_user (se_db s) uid = Some u" and "find_user (se_db s') uid = Some u'"
    and "um_limit m = Some l" and "um_expire m = Some e"
    and "s0 = (case um_status m of None \<Rightarrow> u_status u | Some x \<Rightarrow> x)"
  shows "u_used u' = u_used u \<and> u_limit u' = or_none (Some l) \<and> u_expire u' = or_none (Some e) \<and>
    (u_status u' = Active \<longrightarrow> time_left now (u_expire u') \<and> (s0 \<noteq> Expired \<longrightarrow> traffic_left (u_used u') (u_limit u'))) \<and>
    (traffic_left (u_used u') (u_limit u') \<and> time_left now (u_expire u') \<and> s0 \<notin> {Disabled, OnHold} \<longrightarrow> u_status u' = Active) \<and>
    (s0 = Disabled \<longrightarrow> u_status u' = Disabled) \<and>
    (u_status u' = OnHold \<longleftrightarrow> s0 = OnHold \<and> traffic_left (u_used u') (u_limit u'))"
proof -
  have "row uid (\<lambda>v. core v = (u_status u, u_used u, u_limit u, u_expire u)) s"
    using assms(2) by (simp add: row_def core_def)
  from outcome_result [OF core_update_user this assms(1)] assms(3)
  have c: "core u' = status_of_update m now (u_status u) (u_used u) (u_limit u) (u_expire u)"
    by (auto simp: row_def)
  show ?thesis
    using c assms(4-6)
    by (cases s0) (auto simp: core_def status_of_update_def Let_def status_after_limit_def status_after_expire_def split: if_splits)
qed

definition sample_user :: user_row where
  "sample_user = \<lparr>u_id = 7, u_name = ''alice'', u_proxies = [\<lparr>px_type = VLESS, px_settings = [(''id'', JStr ''u1'')], px_excluded = []\<rparr>],
     u_status = Limited, u_used = 100, u_limit = Some 80, u_strategy = NoReset, u_usage_logs = [\<lparr>rl_used = 5, rl_at = 1\<rparr>],
     u_node_usages = [\<lparr>nu_node = None, nu_at = 0, nu_used = 10, nu_seen = Some 3\<rparr>], u_expire = Some 5000, u_admin = Some 1, u_sub_revoked_at = None, u_sub_updated_at = None,
     u_sub_agent = None, u_token = Some ''tok'', u_bot = None, u_created_at = 0, u_note = None, u_online_at = None,
     u_on_hold_duration = None, u_on_hold_timeout = None, u_device_limit = Some 1, u_bs_extra = None, u_bs_period = None,
     u_rotation_offset = 0, u_rotation_at = None, u_auto_delete = None, u_edit_at = None, u_last_status_change = Some 50,
     u_next_plan = None\<rparr>"

definition sample_users :: user_db where
  "sample_users = \<lparr>ud_users = [sample_user], ud_next_user = 8,
     ud_reminders = [\<lparr>rm_id = 1, rm_user = 7, rm_type = DataUsage, rm_threshold = Some 80, rm_expires = None\<rparr>],
     ud_next_reminder = 2, ud_bots = [(''shop'', 3)], ud_inbounds = [''VLESS TCP''],
     ud_bs_nodes = [], ud_bs_usage = [\<lparr>us_node = 1, us_user = 7, us_used = 4, us_period = Some ''2026-01''\<rparr>], ud_bs_limit = 0,
     ud_devices = sample_devices\<rparr>"

definition sample_session :: session where
  "sample_session = \<lparr>se_db = sample_users, se_saved = sample_users\<rparr>"

definition sample_user_settings :: user_settings where
  "sample_user_settings = \<lparr>us_usage_percents = [80], us_days_left = [3], us_autodelete_days = 10, us_by_protocol = (\<lambda>_. [''VLESS TCP''])\<rparr>"

definition sample_month :: ym where
  "sample_month = \<lparr>year = 2026, month = 1\<rparr>"

lemma sample_update_runs:
  "fst (update_user sample_user_settings 1000 sample_month 7 (no_change\<lparr>um_limit := Some 500, um_expire := Some 9000\<rparr>) sample_session) = Inr ()"
  by code_simp

theorem update_user_status_fits_witness:
  "\<exists>u'. find_user (se_db (snd (update_user sample_user_settings 1000 sample_month 7
       (no_change\<lparr>um_limit := Some 500, um_expire := Some 9000\<rparr>) sample_session))) 7 = Some u' \<and> u_status u' = Active \<and> u_used u' = 100"
proof -
  let ?m = "no_change\<lparr>um_limit := Some 500, um_expire := Some 9000\<rparr>"
  let ?r = "update_user sample_user_settings 1000 sample_month 7 ?m sample_session"
  have run: "?r = (Inr (), snd ?r)"
    using sample_update_runs by (metis prod.collapse)
  have u: "find_user (se_db sample_session) 7 = Some sample_user"
    by (simp add: find_user_def sample_session_def sample_users_def sample_user_def)
  have core: "row 7 (\<lambda>v. core v = core sample_user) sample_session"
    using u by (simp add: row_def)
  from outcome_result [OF core_update_user [of 7 "u_status sample_user" "u_used sample_user" "u_limit sample_user" "u_expire sample_user"] _ run]
    core obtain u' where u': "find_user (se_db (snd ?r)) 7 = Some u'"
    by (auto simp: row_def core_def)
  have m: "um_limit ?m = Some 500" "um_expire ?m = Some 9000" by (simp_all add: no_change_def)
  from update_user_status_fits [OF run u u' m refl]
  have "u_used u' = 100" "u_limit u' = Some 500" "u_expire u' = Some 9000"
    "traffic_left (u_used u') (u_limit u') \<and> time_left 1000 (u_expire u') \<longrightarrow> u_status u' = Active"
    by (simp_all add: sample_user_def no_change_def)
  with u' show ?thesis by (simp add: traffic_left_def time_left_def)
qed

section \<open>Resetting the usage\<close>

definition reset_usage_db :: "int \<Rightarrow> int \<Rightarrow> user_db \<Rightarrow> user_db" where
  "reset_usage_db now uid db = drop_bs_usage [uid] (set_user uid (reset_row now) db)"

lemma reset_user_data_usage_run:
  "reset_user_data_usage now uid s =
     (Inr (), \<lparr>se_db = reset_usage_db now uid (se_db s), se_saved = reset_usage_db now uid (se_db s)\<rparr>)"
  by (simp add: reset_user_data_usage_def put_user_def mod_db_def commit_def eff_defs reset_usage_db_def)

lemma reset_activates_iff: "reset_activates s \<longleftrightarrow> s \<noteq> Expired"
  by (cases s) (simp_all add: reset_activates_def starts_with_def)

lemma reset_row_status: "u_status (reset_row now u) = (if u_status u = Expired then Expired else Active)"
  by (simp add: reset_row_def log_reset_def reset_activates_iff)

lemma reset_row_id [simp]: "u_id (reset_row now u) = u_id u"
  by (simp add: reset_row_def log_reset_def)

lemma find_reset_usage:
  "find_user (reset_usage_db now uid db) v = map_option (\<lambda>u. if u_id u = uid then reset_row now u else u) (find_user db v)"
  by (simp add: reset_usage_db_def drop_bs_usage_def find_set_user [symmetric]) (simp add: find_user_def)

text \<open>Resetting the usage of a user zeroes the traffic used and clears its per-node counters, its scheduled
  plan and its monthly BS counters, but loses no traffic from the lifetime total; every other user, every
  other counter and the pools stay. The user is active afterwards unless it was expired: this includes a
  user whom an administrator had disabled.\<close>

theorem reset_user_data_usage_exact:
  assumes "reset_user_data_usage now uid s = (Inr (), s')" and "find_user (se_db s) uid = Some u"
  shows "\<exists>u'. find_user (se_db s') uid = Some u' \<and> u_used u' = 0 \<and> u_node_usages u' = [] \<and> u_next_plan u' = None \<and>
    u_status u' = (if u_status u = Expired then Expired else Active) \<and> u_limit u' = u_limit u \<and> u_expire u' = u_expire u \<and>
    lifetime_used_traffic u' = lifetime_used_traffic u \<and> last_traffic_reset_time u' = now \<and>
    (\<forall>v. v \<noteq> uid \<longrightarrow> find_user (se_db s') v = find_user (se_db s) v) \<and>
    ud_bs_usage (se_db s') = filter (\<lambda>r. us_user r \<noteq> uid) (ud_bs_usage (se_db s)) \<and> se_saved s' = se_db s'"
proof -
  from assms(1) have s': "s' = \<lparr>se_db = reset_usage_db now uid (se_db s), se_saved = reset_usage_db now uid (se_db s)\<rparr>"
    by (simp add: reset_user_data_usage_run)
  have row: "find_user (se_db s') uid = Some (reset_row now u)"
    using assms(2) find_user_id [OF assms(2)] by (simp add: s' find_reset_usage)
  have others: "find_user (se_db s') v = find_user (se_db s) v" if "v \<noteq> uid" for v
    using that by (cases "find_user (se_db s) v") (auto simp: s' find_reset_usage dest: find_user_id)
  have bs: "ud_bs_usage (se_db s') = filter (\<lambda>r. us_user r \<noteq> uid) (ud_bs_usage (se_db s))"
    by (simp add: s' reset_usage_db_def drop_bs_usage_def set_user_def)
  show ?thesis
    using row others bs reset_row_status [of now u]
    by (auto simp: s' reset_row_def log_reset_def lifetime_used_traffic_def last_traffic_reset_time_def)
qed

theorem reset_user_data_usage_exact_witness:
  "\<exists>u'. find_user (se_db (snd (reset_user_data_usage 1000 7 sample_session))) 7 = Some u' \<and> u_used u' = 0 \<and>
     u_status u' = Active \<and> lifetime_used_traffic u' = 105"
proof -
  have u: "find_user (se_db sample_session) 7 = Some sample_user"
    by (simp add: find_user_def sample_session_def sample_users_def sample_user_def)
  have "reset_user_data_usage 1000 7 sample_session = (Inr (), snd (reset_user_data_usage 1000 7 sample_session))"
    by (simp add: reset_user_data_usage_run)
  from reset_user_data_usage_exact [OF this u] show ?thesis
    by (auto simp: sample_user_def lifetime_used_traffic_def)
qed

section \<open>Disabling and activating in bulk\<close>

definition owned_by :: "int option \<Rightarrow> user_row \<Rightarrow> bool" where
  "owned_by admin u \<longleftrightarrow> admin = None \<or> u_admin u = admin"

definition set_status :: "user_status \<Rightarrow> int \<Rightarrow> user_row \<Rightarrow> user_row" where
  "set_status s now u = u\<lparr>u_status := s, u_last_status_change := Some now\<rparr>"

lemma set_status_simps [simp]:
  "u_status (set_status s t u) = s" "owned_by admin (set_status s t u) = owned_by admin u"
  "u_expire (set_status s t u) = u_expire u" "u_online_at (set_status s t u) = u_online_at u"
  "u_on_hold_duration (set_status s t u) = u_on_hold_duration u" "set_status s t (set_status s' t' u) = set_status s t u"
  by (simp_all add: set_status_def owned_by_def)

lemma bulk_runs:
  "disable_all_active_users now admin s = (let db = (se_db s)\<lparr>ud_users :=
       map (\<lambda>u. if u_status u \<in> {Active, OnHold} \<and> owned_by admin u then set_status Disabled now u else u) (ud_users (se_db s))\<rparr>
     in (Inr (), \<lparr>se_db = db, se_saved = db\<rparr>))"
  "activate_all_disabled_users now admin s = (let db = (se_db s)\<lparr>ud_users :=
       map (\<lambda>u. if u_status u = Disabled \<and> owned_by admin u then set_status Active now u else u)
         (map (\<lambda>u. if was_on_hold u \<and> owned_by admin u then set_status OnHold now u else u) (ud_users (se_db s)))\<rparr>
     in (Inr (), \<lparr>se_db = db, se_saved = db\<rparr>))"
  by (simp_all only: disable_all_active_users_def activate_all_disabled_users_def mod_db_def commit_def eff_defs Let_def
      change_where_def owned_by_def set_status_def split: prod.split sum.split) simp_all

text \<open>A user on hold that never connected: what the code takes a disabled user to have been.\<close>

definition untouched_hold :: "user_row \<Rightarrow> bool" where
  "untouched_hold u \<longleftrightarrow> u_expire u = None \<and> u_on_hold_duration u \<noteq> None \<and> u_online_at u = None"

text \<open>Activating all disabled users of an administrator undoes disabling all the active ones, but for the time
  of the last change of status: whoever was active is active again and whoever waited on hold without
  ever connecting waits again, provided the administrator had no disabled users before and no active
  user looks like one on hold. Users of other administrators, and limited or expired ones, never change.\<close>

theorem activate_undoes_disable:
  assumes "disable_all_active_users t1 admin s = (Inr (), s1)" and "activate_all_disabled_users t2 admin s1 = (Inr (), s2)"
    and "\<forall>u \<in> set (ud_users (se_db s)). owned_by admin u \<longrightarrow> u_status u \<noteq> Disabled \<and>
      (u_status u = Active \<longrightarrow> \<not> untouched_hold u) \<and> (u_status u = OnHold \<longrightarrow> untouched_hold u)"
  shows "ud_users (se_db s2) = map (\<lambda>u. if owned_by admin u \<and> u_status u \<in> {Active, OnHold}
      then set_status (u_status u) t2 u else u) (ud_users (se_db s)) \<and> se_saved s2 = se_db s2"
proof -
  let ?dis = "\<lambda>u. if u_status u \<in> {Active, OnHold} \<and> owned_by admin u then set_status Disabled t1 u else u"
  let ?hold = "\<lambda>u. if was_on_hold u \<and> owned_by admin u then set_status OnHold t2 u else u"
  let ?act = "\<lambda>u. if u_status u = Disabled \<and> owned_by admin u then set_status Active t2 u else u"
  have s1: "ud_users (se_db s1) = map ?dis (ud_users (se_db s))"
    using assms(1) by (auto simp: bulk_runs(1) Let_def)
  have s2: "ud_users (se_db s2) = map ?act (map ?hold (ud_users (se_db s1)))" "se_saved s2 = se_db s2"
    using assms(2) by (auto simp: bulk_runs(2) Let_def)
  have "?act (?hold (?dis u)) = (if owned_by admin u \<and> u_status u \<in> {Active, OnHold} then set_status (u_status u) t2 u else u)"
    if "u \<in> set (ud_users (se_db s))" for u
    using assms(3) that
    by (cases "owned_by admin u"; cases "u_status u") (auto simp: was_on_hold_def untouched_hold_def)
  then have "map (\<lambda>u. ?act (?hold (?dis u))) (ud_users (se_db s)) = map (\<lambda>u. if owned_by admin u \<and> u_status u \<in> {Active, OnHold}
      then set_status (u_status u) t2 u else u) (ud_users (se_db s))"
    by (rule map_cong [OF refl])
  with s2(2) show ?thesis
    by (simp only: s1 s2(1) map_map comp_def)
qed

theorem activate_undoes_disable_witness:
  "\<exists>s1 s2. disable_all_active_users 10 (Some 1) (sample_session\<lparr>se_db := sample_users\<lparr>ud_users := [sample_user\<lparr>u_status := Active\<rparr>]\<rparr>\<rparr>) = (Inr (), s1) \<and>
     activate_all_disabled_users 20 (Some 1) s1 = (Inr (), s2) \<and> map u_status (ud_users (se_db s2)) = [Active]"
proof -
  let ?s = "sample_session\<lparr>se_db := sample_users\<lparr>ud_users := [sample_user\<lparr>u_status := Active\<rparr>]\<rparr>\<rparr>"
  obtain s1 where d: "disable_all_active_users 10 (Some 1) ?s = (Inr (), s1)" by (simp add: bulk_runs Let_def)
  obtain s2 where a: "activate_all_disabled_users 20 (Some 1) s1 = (Inr (), s2)" by (simp add: bulk_runs Let_def)
  have ok: "\<forall>u \<in> set (ud_users (se_db ?s)). owned_by (Some 1) u \<longrightarrow> u_status u \<noteq> Disabled \<and>
      (u_status u = Active \<longrightarrow> \<not> untouched_hold u) \<and> (u_status u = OnHold \<longrightarrow> untouched_hold u)"
    by (simp add: sample_user_def untouched_hold_def)
  from activate_undoes_disable [OF d a ok] have "map u_status (ud_users (se_db s2)) = [Active]"
    by (simp add: sample_user_def owned_by_def)
  with d a show ?thesis by (intro exI conjI)
qed

section \<open>What a rejected change leaves behind\<close>

text \<open>
  The endpoint rolls back when a change is rejected, but deleting a reminder commits: with a raised
  traffic limit in the same request, the limit and the status it gives stay although the request failed.
\<close>

theorem rejected_update_persists:
  "fst (modify_user_endpoint sample_user_settings 1000 sample_month 7 (no_change\<lparr>um_limit := Some 500, um_bot := Some ''nobody''\<rparr>) sample_session)
     = Inl (ValueError ''Bot not found'')"
  "map (\<lambda>u. (u_limit u, u_status u)) (ud_users (se_saved (snd (modify_user_endpoint sample_user_settings 1000 sample_month 7
     (no_change\<lparr>um_limit := Some 500, um_bot := Some ''nobody''\<rparr>) sample_session)))) = [(Some 500, Active)]"
  "map (\<lambda>u. (u_limit u, u_status u)) (ud_users (se_saved sample_session)) = [(Some 80, Limited)]"
  by code_simp+

end
