(* ===== verification/UserOps.thy ===== *)
theory UserOps
  imports Users NodeConfig ConnectNode
begin

text \<open>
  Users on the Xray cores (app/xray/operations.py): which calls of the core APIs the operations
  \<open>add_user\<close>, \<open>update_user\<close>, \<open>remove_user\<close> and their per-node variants submit to the thread pool, and
  what a submitted task does. The cores are not part of the program: what a call does to the users of
  a core is a parameter with the documented behaviour of Xray's handler service as a hypothesis, and
  the tasks of the pool run in any order. The ids of the accounts were validated when they were stored.
\<close>

section \<open>Accounts (xray_api/types/account.py)\<close>

datatype flow = NoFlow | Vision

datatype account =
    VMessAccount string string
  | VLESSAccount string string flow
  | TrojanAccount string string flow
  | ShadowsocksAccount string string string

fun account_email :: "account \<Rightarrow> string" where
  "account_email (VMessAccount e i) = e"
| "account_email (VLESSAccount e i f) = e"
| "account_email (TrojanAccount e p f) = e"
| "account_email (ShadowsocksAccount e p m) = e"

definition field_str :: "obj \<Rightarrow> string \<Rightarrow> string result" where
  "field_str d k = (case dget d k of Some (JStr s) \<Rightarrow> Inr s | _ \<Rightarrow> Inl (ValueError k))"

definition field_or :: "obj \<Rightarrow> string \<Rightarrow> string \<Rightarrow> string result" where
  "field_or d k x = (if dget d k = None then Inr x else field_str d k)"

definition flow_of :: "obj \<Rightarrow> flow result" where
  "flow_of d = bindE (field_or d ''flow'' '''') (\<lambda>f.
     if f = '''' then Inr NoFlow else if f = ''xtls-rprx-vision'' then Inr Vision else Inl (ValueError ''flow''))"

definition method_of :: "obj \<Rightarrow> string result" where
  "method_of d = bindE (field_or d ''method'' ''chacha20-ietf-poly1305'') (\<lambda>m.
     if m \<in> {''aes-128-gcm'', ''aes-256-gcm'', ''chacha20-ietf-poly1305''} then Inr m else Inl (ValueError ''method''))"

text \<open>\<open>proxy_type.account_model(email=email, **proxy_settings)\<close>.\<close>

fun account_model :: "proxy_type \<Rightarrow> string \<Rightarrow> obj \<Rightarrow> account result" where
  "account_model VMess email d = bindE (field_str d ''id'') (\<lambda>i. Inr (VMessAccount email i))"
| "account_model VLESS email d = bindE (field_str d ''id'') (\<lambda>i. bindE (flow_of d) (\<lambda>f. Inr (VLESSAccount email i f)))"
| "account_model Trojan email d = bindE (field_str d ''password'') (\<lambda>p. bindE (flow_of d) (\<lambda>f. Inr (TrojanAccount email p f)))"
| "account_model Shadowsocks email d =
     bindE (field_str d ''password'') (\<lambda>p. bindE (method_of d) (\<lambda>m. Inr (ShadowsocksAccount email p m)))"

text \<open>XTLS needs TCP or mKCP, TLS or REALITY, and no HTTP header.\<close>

definition flow_unsupported :: "obj \<Rightarrow> bool" where
  "flow_unsupported inbound \<longleftrightarrow>
     (let network = dget_or inbound ''network'' (JStr ''tcp'') in
      network \<notin> {JStr ''tcp'', JStr ''kcp''} \<or>
      (network \<in> {JStr ''tcp'', JStr ''kcp''} \<and> jget inbound ''tls'' \<notin> {JStr ''tls'', JStr ''reality''}) \<or>
      jget inbound ''header_type'' = JStr ''http'')"

fun drop_flow :: "account \<Rightarrow> account" where
  "drop_flow (VLESSAccount e i f) = VLESSAccount e i NoFlow"
| "drop_flow (TrojanAccount e p f) = TrojanAccount e p NoFlow"
| "drop_flow a = a"

definition fit_flow :: "obj \<Rightarrow> account \<Rightarrow> account" where
  "fit_flow inbound a = (if flow_unsupported inbound then drop_flow a else a)"

lemma email_drop_flow [simp]: "account_email (drop_flow a) = account_email a"
  by (cases a) auto

lemma email_fit_flow [simp]: "account_email (fit_flow i a) = account_email a"
  by (simp add: fit_flow_def)

lemma account_model_email: "account_model ty email d = Inr a \<Longrightarrow> account_email a = email"
  by (cases ty) (auto simp: bindE_Inr_iff)

section \<open>The panel's view and the tasks it submits\<close>

datatype api_ref = MainCore | NodeApi int

datatype task =
    AddTask api_ref string account
  | RemoveTask api_ref string string
  | AlterTask api_ref string account

fun task_target :: "task \<Rightarrow> api_ref \<times> string" where
  "task_target (AddTask a t acc) = (a, t)"
| "task_target (RemoveTask a t e) = (a, t)"
| "task_target (AlterTask a t acc) = (a, t)"

record xray_mem =
  xm_by_tag :: "(string \<times> obj) list"
  xm_nodes :: "(int \<times> rnode) list"
  xm_tasks :: "task list"

type_synonym 'a xray_op = "(xray_mem, py_error, 'a) eff"

definition submit :: "task \<Rightarrow> unit xray_op" where
  "submit t = modS (\<lambda>s. s\<lparr>xm_tasks := xm_tasks s @ [t]\<rparr>)"

text \<open>\<open>_get_ready_nodes\<close>: cached flags only.\<close>

definition get_ready_nodes :: "xray_mem \<Rightarrow> (int \<times> rnode) list" where
  "get_ready_nodes s = filter (\<lambda>(n, nd). truthy (rn_started nd) \<and> truthy (rn_session nd)) (xm_nodes s)"

text \<open>The property \<open>node.api\<close> raises unless the node has a session and a channel, or can open one.\<close>

definition api_available :: "rnode \<Rightarrow> bool" where
  "api_available nd \<longleftrightarrow> truthy (rn_session nd) \<and>
     (rn_api nd \<noteq> None \<or> (rn_started nd = JBool True \<and> rn_cert nd \<noteq> None))"

definition open_api :: "rnode \<Rightarrow> rnode" where
  "open_api nd = (if rn_api nd = None then nd\<lparr>rn_api := rn_cert nd\<rparr> else nd)"

text \<open>One call for one node; what \<open>node.api\<close> raises is logged and ignored.\<close>

definition on_node :: "(api_ref \<Rightarrow> task) \<Rightarrow> int \<Rightarrow> unit xray_op" where
  "on_node mk n = bindS getS (\<lambda>s. case dget (xm_nodes s) n of
     None \<Rightarrow> ret ()
   | Some nd \<Rightarrow> if api_available nd
       then thenS (modS (\<lambda>s. s\<lparr>xm_nodes := dput n (open_api nd) (xm_nodes s)\<rparr>)) (submit (mk (NodeApi n)))
       else ret ())"

fun seq_ops :: "('a \<Rightarrow> unit xray_op) \<Rightarrow> 'a list \<Rightarrow> unit xray_op" where
  "seq_ops f [] = ret ()"
| "seq_ops f (x # xs) = thenS (f x) (seq_ops f xs)"

text \<open>The main core first, then every ready node that raised the inbound.\<close>

definition on_cores :: "(int \<times> rnode) list \<Rightarrow> string \<Rightarrow> (api_ref \<Rightarrow> task) \<Rightarrow> unit xray_op" where
  "on_cores ready tag mk =
     thenS (submit (mk MainCore))
       (seq_ops (\<lambda>(n, nd). if node_has_inbound (rn_tags nd) tag then on_node mk n else ret ()) ready)"

section \<open>Users\<close>

definition email_of :: "user_row \<Rightarrow> string" where
  "email_of u = int_str (u_id u) @ ''.'' @ u_name u"

definition user_proxies :: "user_row \<Rightarrow> (proxy_type \<times> obj) list" where
  "user_proxies u = fold (\<lambda>p. dput (px_type p) (px_settings p)) (u_proxies u) []"

text \<open>A protocol and one of its inbound tags, in the order of the nested loops.\<close>

definition user_slots :: "user_settings \<Rightarrow> user_row \<Rightarrow> (proxy_type \<times> string) list" where
  "user_slots st u = concat (map (\<lambda>(ty, tags). map (\<lambda>t. (ty, t)) tags) (user_inbounds st u))"

definition user_inbound_tags :: "user_settings \<Rightarrow> user_row \<Rightarrow> string list" where
  "user_inbound_tags st u = concat (map snd (user_inbounds st u))"

text \<open>
  \<open>except KeyError: pass\<close> keeps the settings of the protocol before; the first protocol without
  settings raises \<open>UnboundLocalError\<close>.
\<close>

definition settings_or :: "(proxy_type \<times> obj) list \<Rightarrow> proxy_type \<Rightarrow> obj option \<Rightarrow> obj option" where
  "settings_or proxies ty prev = (case dget proxies ty of Some s \<Rightarrow> Some s | None \<Rightarrow> prev)"

definition account_for :: "(string \<times> obj) list \<Rightarrow> string \<Rightarrow> proxy_type \<Rightarrow> string \<Rightarrow> obj option \<Rightarrow> account result" where
  "account_for by_tag email ty tag settings =
     (case settings of
        None \<Rightarrow> Inl (RuntimeError ''UnboundLocalError'')
      | Some d \<Rightarrow> bindE (account_model ty email d) (\<lambda>a. Inr (fit_flow (dget_or by_tag tag []) a)))"

fun submit_slots ::
    "(string \<Rightarrow> account \<Rightarrow> unit xray_op) \<Rightarrow> (string \<times> obj) list \<Rightarrow> (proxy_type \<times> obj) list \<Rightarrow> string \<Rightarrow>
     obj option \<Rightarrow> (proxy_type \<times> string) list \<Rightarrow> unit xray_op" where
  "submit_slots f by_tag proxies email prev [] = ret ()"
| "submit_slots f by_tag proxies email prev ((ty, tag) # slots) =
     (let settings = settings_or proxies ty prev in
      case account_for by_tag email ty tag settings of
        Inl e \<Rightarrow> throw e
      | Inr a \<Rightarrow> thenS (f tag a) (submit_slots f by_tag proxies email settings slots))"

definition add_user :: "user_settings \<Rightarrow> user_row option \<Rightarrow> unit xray_op" where
  "add_user st dbuser = (case dbuser of
     None \<Rightarrow> ret ()
   | Some u \<Rightarrow> bindS getS (\<lambda>s.
       submit_slots (\<lambda>tag a. on_cores (get_ready_nodes s) tag (\<lambda>api. AddTask api tag a))
         (xm_by_tag s) (user_proxies u) (email_of u) None (user_slots st u)))"

definition remove_targets :: "user_settings \<Rightarrow> user_row \<Rightarrow> (string \<times> obj) list \<Rightarrow> string list" where
  "remove_targets st u by_tag =
     (let target = remdups (user_inbound_tags st u) in if target = [] then map fst by_tag else target)"

definition remove_user_op :: "user_settings \<Rightarrow> user_row option \<Rightarrow> unit xray_op" where
  "remove_user_op st dbuser = (case dbuser of
     None \<Rightarrow> ret ()
   | Some u \<Rightarrow> bindS getS (\<lambda>s.
       seq_ops (\<lambda>tag. on_cores (get_ready_nodes s) tag (\<lambda>api. RemoveTask api tag (email_of u)))
         (remove_targets st u (xm_by_tag s))))"

definition update_user_op :: "user_settings \<Rightarrow> user_row option \<Rightarrow> unit xray_op" where
  "update_user_op st dbuser = (case dbuser of
     None \<Rightarrow> ret ()
   | Some u \<Rightarrow> bindS getS (\<lambda>s.
       thenS (submit_slots (\<lambda>tag a. on_cores (get_ready_nodes s) tag (\<lambda>api. AlterTask api tag a))
                (xm_by_tag s) (user_proxies u) (email_of u) None (user_slots st u))
         (seq_ops (\<lambda>tag. if tag \<in> set (user_inbound_tags st u) then ret ()
                         else on_cores (get_ready_nodes s) tag (\<lambda>api. RemoveTask api tag (email_of u)))
            (map fst (xm_by_tag s)))))"

definition update_user_by_id :: "user_settings \<Rightarrow> user_db \<Rightarrow> int \<Rightarrow> unit xray_op" where
  "update_user_by_id st db uid = (case find_user db uid of None \<Rightarrow> ret () | Some u \<Rightarrow> update_user_op st (Some u))"

definition remove_user_from_node :: "user_settings \<Rightarrow> user_row option \<Rightarrow> int \<Rightarrow> unit xray_op" where
  "remove_user_from_node st dbuser n = (case dbuser of
     None \<Rightarrow> ret ()
   | Some u \<Rightarrow> bindS getS (\<lambda>s. case dget (xm_nodes s) n of
         None \<Rightarrow> ret ()
       | Some nd \<Rightarrow> seq_ops (\<lambda>tag. if node_has_inbound (rn_tags nd) tag
             then on_node (\<lambda>api. RemoveTask api tag (email_of u)) n else ret ()) (user_inbound_tags st u)))"

text \<open>Here a protocol without settings gets the empty ones.\<close>

fun add_slots_to_node ::
    "(string \<times> obj) list \<Rightarrow> (proxy_type \<times> obj) list \<Rightarrow> string \<Rightarrow> rnode \<Rightarrow> int \<Rightarrow> (proxy_type \<times> string) list \<Rightarrow> unit xray_op" where
  "add_slots_to_node by_tag proxies email nd n [] = ret ()"
| "add_slots_to_node by_tag proxies email nd n ((ty, tag) # slots) =
     (if \<not> node_has_inbound (rn_tags nd) tag then add_slots_to_node by_tag proxies email nd n slots
      else (case account_for by_tag email ty tag (Some (dget_or proxies ty [])) of
              Inl e \<Rightarrow> throw e
            | Inr a \<Rightarrow> thenS (on_node (\<lambda>api. AddTask api tag a) n) (add_slots_to_node by_tag proxies email nd n slots)))"

definition add_user_to_node :: "user_settings \<Rightarrow> user_row option \<Rightarrow> int \<Rightarrow> unit xray_op" where
  "add_user_to_node st dbuser n = (case dbuser of
     None \<Rightarrow> ret ()
   | Some u \<Rightarrow> bindS getS (\<lambda>s. case dget (xm_nodes s) n of
         None \<Rightarrow> ret ()
       | Some nd \<Rightarrow> add_slots_to_node (xm_by_tag s) (user_proxies u) (email_of u) nd n (user_slots st u)))"

section \<open>What a task does\<close>

datatype api_call = AddUser api_ref string account | RemoveUser api_ref string string

text \<open>The users of each core by inbound and email; \<open>srv\<close> is the effect of one call on them.\<close>

type_synonym core_users = "api_ref \<Rightarrow> string \<Rightarrow> string \<Rightarrow> account option"

type_synonym core_server = "api_call \<Rightarrow> core_users \<Rightarrow> core_users"

text \<open>Every exception of a call is caught and logged, so the second call of an alteration follows in any case.\<close>

fun task_calls :: "task \<Rightarrow> api_call list" where
  "task_calls (AddTask ap tag a) = [AddUser ap tag a]"
| "task_calls (RemoveTask ap tag e) = [RemoveUser ap tag e]"
| "task_calls (AlterTask ap tag a) = [RemoveUser ap tag (account_email a), AddUser ap tag a]"

definition run_task :: "core_server \<Rightarrow> task \<Rightarrow> core_users \<Rightarrow> core_users" where
  "run_task srv t = fold srv (task_calls t)"

text \<open>
  Xray's handler service: adding a user to an inbound it serves fails if the email is taken there, else
  stores the account; removing one makes the email unknown; an unreachable core or unknown inbound
  changes nothing.
\<close>

definition set_core :: "core_users \<Rightarrow> api_ref \<Rightarrow> string \<Rightarrow> string \<Rightarrow> account option \<Rightarrow> core_users" where
  "set_core us ap tag e x = us(ap := (us ap)(tag := (us ap tag)(e := x)))"

definition handler_service :: "(api_ref \<Rightarrow> string \<Rightarrow> bool) \<Rightarrow> core_server \<Rightarrow> bool" where
  "handler_service up srv \<longleftrightarrow>
     (\<forall>ap tag a us. srv (AddUser ap tag a) us =
        (if up ap tag \<and> us ap tag (account_email a) = None then set_core us ap tag (account_email a) (Some a) else us)) \<and>
     (\<forall>ap tag e us. srv (RemoveUser ap tag e) us = (if up ap tag then set_core us ap tag e None else us))"

section \<open>Tasks of an operation\<close>

definition avail :: "xray_mem \<Rightarrow> int \<Rightarrow> bool" where
  "avail s n \<longleftrightarrow> (case dget (xm_nodes s) n of None \<Rightarrow> False | Some nd \<Rightarrow> api_available nd)"

text \<open>\<open>m\<close> returns after submitting \<open>ts\<close>; nodes stay as available as they were.\<close>

definition emits :: "(int \<Rightarrow> bool) \<Rightarrow> unit xray_op \<Rightarrow> task list \<Rightarrow> bool" where
  "emits av m ts \<longleftrightarrow> (\<forall>s. avail s = av \<longrightarrow>
     (\<exists>s'. m s = (Inr (), s') \<and> xm_tasks s' = xm_tasks s @ ts \<and> avail s' = av))"

lemma emits_run: "emits av m ts \<Longrightarrow> avail s = av \<Longrightarrow> \<exists>s'. m s = (Inr (), s') \<and> xm_tasks s' = xm_tasks s @ ts"
  unfolding emits_def by blast

lemma emits_ret: "emits av (ret ()) []"
  by (simp add: emits_def ret_def)

lemma emits_submit: "emits av (submit t) [t]"
proof -
  have "avail (s\<lparr>xm_tasks := ts\<rparr>) = avail s" for s ts by (rule ext) (simp add: avail_def)
  then show ?thesis by (simp add: emits_def submit_def modS_def)
qed

lemma emits_then: "emits av m ts \<Longrightarrow> emits av n us \<Longrightarrow> emits av (thenS m n) (ts @ us)"
  unfolding emits_def bindS_def by (fastforce split: prod.splits sum.splits)

lemma emits_seq: "(\<And>x. x \<in> set xs \<Longrightarrow> emits av (f x) (g x)) \<Longrightarrow> emits av (seq_ops f xs) (concat (map g xs))"
  by (induction xs) (auto intro: emits_ret emits_then)

lemma emits_if: "(b \<Longrightarrow> emits av m ts) \<Longrightarrow> (\<not> b \<Longrightarrow> emits av n us) \<Longrightarrow> emits av (if b then m else n) (if b then ts else us)"
  by simp

lemma available_open_api: "api_available nd \<Longrightarrow> api_available (open_api nd)"
  by (auto simp: api_available_def open_api_def)

lemma emits_on_node: "emits av (on_node mk n) (if av n then [mk (NodeApi n)] else [])"
  unfolding emits_def
proof (intro allI impI)
  fix s assume av: "avail s = av"
  show "\<exists>s'. on_node mk n s = (Inr (), s') \<and>
      xm_tasks s' = xm_tasks s @ (if av n then [mk (NodeApi n)] else []) \<and> avail s' = av"
  proof (cases "\<exists>nd. dget (xm_nodes s) n = Some nd \<and> api_available nd")
    case True
    then obtain nd where nd: "dget (xm_nodes s) n = Some nd" "api_available nd" by blast
    have "avail (s\<lparr>xm_nodes := dput n (open_api nd) (xm_nodes s), xm_tasks := ts\<rparr>) = avail s" for ts
      using nd available_open_api by (intro ext) (auto simp: avail_def)
    then show ?thesis
      using nd av by (auto simp: on_node_def submit_def eff_defs avail_def)
  next
    case False
    then show ?thesis
      using av by (auto simp: on_node_def eff_defs avail_def split: option.splits)
  qed
qed

text \<open>The cores an operation reaches for an inbound.\<close>

definition cores :: "xray_mem \<Rightarrow> string \<Rightarrow> api_ref list" where
  "cores s tag = MainCore # map (\<lambda>p. NodeApi (fst p))
     (filter (\<lambda>p. node_has_inbound (rn_tags (snd p)) tag \<and> avail s (fst p)) (get_ready_nodes s))"

lemma emits_on_cores: "emits (avail s) (on_cores (get_ready_nodes s) tag mk) (map mk (cores s tag))"
proof -
  let ?reach = "\<lambda>p. node_has_inbound (rn_tags (snd p)) tag \<and> avail s (fst p)"
  let ?f = "\<lambda>(n, nd). if node_has_inbound (rn_tags nd) tag then on_node mk n else ret ()"
  let ?g = "\<lambda>p. if ?reach p then [mk (NodeApi (fst p))] else []"
  have step: "emits (avail s) (?f p) (?g p)" for p
    using emits_on_node [of "avail s" mk "fst p"] emits_ret [of "avail s"] by (auto simp: case_prod_beta)
  have eq: "concat (map ?g ps) = map (\<lambda>p. mk (NodeApi (fst p))) (filter ?reach ps)" for ps
    by (induction ps) auto
  have "emits (avail s) (seq_ops ?f (get_ready_nodes s)) (concat (map ?g (get_ready_nodes s)))"
    by (rule emits_seq) (rule step)
  then have "emits (avail s) (seq_ops ?f (get_ready_nodes s)) (map (\<lambda>p. mk (NodeApi (fst p))) (filter ?reach (get_ready_nodes s)))"
    by (simp only: eq)
  from emits_then [OF emits_submit this] show ?thesis
    by (simp add: on_cores_def cores_def comp_def)
qed

lemma user_proxies_keys: "set (map fst (user_proxies u)) = px_type ` set (u_proxies u)"
proof -
  have "set (map fst (fold (\<lambda>p. dput (px_type p) (px_settings p)) ps d)) = set (map fst d) \<union> px_type ` set ps" for ps d
    by (induction ps arbitrary: d) (auto simp: dkeys_dput simp del: set_map)
  from this [of "u_proxies u" "[]"] show ?thesis by (simp add: user_proxies_def)
qed

lemma slot_has_settings: "(ty, tag) \<in> set (user_slots st u) \<Longrightarrow> \<exists>d. dget (user_proxies u) ty = Some d"
proof -
  assume "(ty, tag) \<in> set (user_slots st u)"
  then have "ty \<in> px_type ` set (u_proxies u)"
    by (auto simp: user_slots_def user_inbounds_def)
  with user_proxies_keys [of u] show ?thesis
    by (metis dget_None_iff option.exhaust)
qed

lemma user_inbound_tags_slots: "user_inbound_tags st u = map snd (user_slots st u)"
proof -
  have "concat (map snd xs) = map snd (concat (map (\<lambda>(ty, tags). map (\<lambda>t. (ty, t)) tags) xs))"
    for xs :: "(proxy_type \<times> string list) list"
    by (induction xs) (auto simp: comp_def)
  then show ?thesis by (simp add: user_inbound_tags_def user_slots_def)
qed

text \<open>The account of a slot; the settings of the protocol are always there.\<close>

definition slot_account :: "user_row \<Rightarrow> (string \<times> obj) list \<Rightarrow> proxy_type \<times> string \<Rightarrow> account result" where
  "slot_account u by_tag p = account_for by_tag (email_of u) (fst p) (snd p) (dget (user_proxies u) (fst p))"

lemma slot_account_email: "slot_account u by_tag p = Inr a \<Longrightarrow> account_email a = email_of u"
  by (auto simp: slot_account_def account_for_def bindE_Inr_iff account_model_email split: option.splits)

lemma emits_slots:
  assumes "\<forall>p \<in> set slots. dget proxies (fst p) \<noteq> None"
    and "\<forall>p \<in> set slots. account_for by_tag email (fst p) (snd p) (dget proxies (fst p)) = Inr (acc p)"
    and "\<And>tag a. emits av (f tag a) (g tag a)"
  shows "emits av (submit_slots f by_tag proxies email prev slots) (concat (map (\<lambda>p. g (snd p) (acc p)) slots))"
  using assms(1,2)
proof (induction slots arbitrary: prev)
  case (Cons p slots)
  obtain ty tag where p: "p = (ty, tag)" by force
  have s: "settings_or proxies ty prev = dget proxies ty"
    using Cons.prems(1) by (auto simp: settings_or_def p split: option.splits)
  have a: "account_for by_tag email ty tag (dget proxies ty) = Inr (acc p)"
    using Cons.prems(2) by (simp add: p)
  have "emits av (submit_slots f by_tag proxies email (dget proxies ty) slots) (concat (map (\<lambda>p. g (snd p) (acc p)) slots))"
    using Cons by simp
  with emits_then [OF assms(3) this] show ?case
    by (simp add: p s a [unfolded p])
qed (simp add: emits_ret)


definition update_tasks :: "user_settings \<Rightarrow> user_row \<Rightarrow> (proxy_type \<times> string \<Rightarrow> account) \<Rightarrow> xray_mem \<Rightarrow> task list" where
  "update_tasks st u acc s =
     concat (map (\<lambda>p. map (\<lambda>ap. AlterTask ap (snd p) (acc p)) (cores s (snd p))) (user_slots st u)) @
     concat (map (\<lambda>tag. map (\<lambda>ap. RemoveTask ap tag (email_of u)) (cores s tag))
       (filter (\<lambda>tag. tag \<notin> set (user_inbound_tags st u)) (map fst (xm_by_tag s))))"

lemma emits_slots_of_user:
  assumes "\<forall>p \<in> set (user_slots st u). slot_account u by_tag p = Inr (acc p)"
    and "\<And>tag a. emits av (f tag a) (g tag a)"
  shows "emits av (submit_slots f by_tag (user_proxies u) (email_of u) None (user_slots st u))
    (concat (map (\<lambda>p. g (snd p) (acc p)) (user_slots st u)))"
  using assms slot_has_settings by (intro emits_slots) (force simp: slot_account_def)+

lemma update_user_op_tasks:
  assumes "\<forall>p \<in> set (user_slots st u). slot_account u (xm_by_tag s) p = Inr (acc p)"
  shows "\<exists>s'. update_user_op st (Some u) s = (Inr (), s') \<and> xm_tasks s' = xm_tasks s @ update_tasks st u acc s"
proof -
  let ?rm = "\<lambda>tag. map (\<lambda>ap. RemoveTask ap tag (email_of u)) (cores s tag)"
  have rest: "emits (avail s) (seq_ops (\<lambda>tag. if tag \<in> set (user_inbound_tags st u) then ret ()
        else on_cores (get_ready_nodes s) tag (\<lambda>ap. RemoveTask ap tag (email_of u))) tags)
      (concat (map ?rm (filter (\<lambda>tag. tag \<notin> set (user_inbound_tags st u)) tags)))" for tags
  proof -
    have "emits (avail s) (if tag \<in> set (user_inbound_tags st u) then ret ()
        else on_cores (get_ready_nodes s) tag (\<lambda>ap. RemoveTask ap tag (email_of u)))
        (if tag \<in> set (user_inbound_tags st u) then [] else ?rm tag)" for tag
      by (simp add: emits_ret emits_on_cores)
    from emits_seq [OF this] show ?thesis
      by (rule back_subst) (induction tags; simp)
  qed
  show ?thesis
    using emits_then [OF emits_slots_of_user [OF assms emits_on_cores] rest]
    unfolding emits_def update_user_op_def update_tasks_def by (fastforce simp: bindS_def getS_def)
qed

definition remove_tasks :: "user_settings \<Rightarrow> user_row \<Rightarrow> xray_mem \<Rightarrow> task list" where
  "remove_tasks st u s = concat (map (\<lambda>tag. map (\<lambda>ap. RemoveTask ap tag (email_of u)) (cores s tag))
     (remove_targets st u (xm_by_tag s)))"

lemma remove_user_op_tasks:
  "\<exists>s'. remove_user_op st (Some u) s = (Inr (), s') \<and> xm_tasks s' = xm_tasks s @ remove_tasks st u s"
proof -
  have "emits (avail s) (seq_ops (\<lambda>tag. on_cores (get_ready_nodes s) tag (\<lambda>ap. RemoveTask ap tag (email_of u)))
      (remove_targets st u (xm_by_tag s))) (remove_tasks st u s)"
    unfolding remove_tasks_def by (rule emits_seq) (rule emits_on_cores)
  from emits_run [OF this refl] show ?thesis
    by (simp add: remove_user_op_def bindS_def getS_def)
qed

section \<open>Running tasks in any order\<close>

fun call_target :: "api_call \<Rightarrow> api_ref \<times> string" where
  "call_target (AddUser ap tag a) = (ap, tag)"
| "call_target (RemoveUser ap tag e) = (ap, tag)"

text \<open>
  The pool runs the tasks in parallel: the calls of all tasks interleave, each task keeping the order
  of its own calls. Tasks with different targets touch different inbounds.
\<close>

definition interleaves :: "task list \<Rightarrow> api_call list \<Rightarrow> bool" where
  "interleaves ts cs \<longleftrightarrow> (\<forall>g. filter (\<lambda>c. call_target c = g) cs =
     concat (map task_calls (filter (\<lambda>t. task_target t = g) ts)))"

lemma filter_task_calls:
  "filter (\<lambda>c. call_target c = g) (task_calls t) = (if task_target t = g then task_calls t else [])"
  by (cases t) auto

lemma sequential_interleaves: "interleaves ts (concat (map task_calls ts))"
proof -
  have "filter (\<lambda>c. call_target c = g) (concat (map task_calls ts)) =
      concat (map task_calls (filter (\<lambda>t. task_target t = g) ts))" for g
    by (induction ts) (auto simp: filter_task_calls)
  then show ?thesis by (simp add: interleaves_def)
qed

lemma handler_service_local:
  assumes "handler_service up srv"
  shows "call_target c \<noteq> (ap, tag) \<Longrightarrow> srv c us ap tag = us ap tag"
    and "us ap tag = vs ap tag \<Longrightarrow> srv c us ap tag = srv c vs ap tag"
  using assms by (cases c; auto simp: handler_service_def set_core_def)+

lemma fold_calls_local:
  assumes "handler_service up srv" and "us ap tag = vs ap tag"
  shows "fold srv cs us ap tag = fold srv (filter (\<lambda>c. call_target c = (ap, tag)) cs) vs ap tag"
  using assms(2)
proof (induction cs arbitrary: us vs)
  case (Cons c cs)
  show ?case
  proof (cases "call_target c = (ap, tag)")
    case True
    have "srv c us ap tag = srv c vs ap tag"
      using assms(1) Cons.prems by (rule handler_service_local(2))
    then have "fold srv cs (srv c us) ap tag = fold srv (filter (\<lambda>c. call_target c = (ap, tag)) cs) (srv c vs) ap tag"
      by (rule Cons.IH)
    with True show ?thesis by simp
  next
    case False
    have "srv c us ap tag = vs ap tag"
      using handler_service_local(1) [OF assms(1) False] Cons.prems by simp
    then have "fold srv cs (srv c us) ap tag = fold srv (filter (\<lambda>c. call_target c = (ap, tag)) cs) vs ap tag"
      by (rule Cons.IH)
    with False show ?thesis by simp
  qed
qed simp

lemma filter_one: "distinct (map f xs) \<Longrightarrow> x \<in> set xs \<Longrightarrow> filter (\<lambda>y. f y = f x) xs = [x]"
  by (induction xs) (auto simp: filter_empty_conv rev_image_eqI)

lemma run_interleaved:
  assumes "handler_service up srv" and "interleaves ts cs" and "distinct (map task_target ts)"
    and "t \<in> set ts" and "task_target t = (ap, tag)"
  shows "fold srv cs us ap tag = run_task srv t us ap tag"
proof -
  have "filter (\<lambda>c. call_target c = (ap, tag)) cs = task_calls t"
    using assms(2-5) filter_one [of task_target ts t] by (simp add: interleaves_def)
  with fold_calls_local [where ap = ap and tag = tag and us = us and vs = us and cs = cs, OF assms(1) refl] show ?thesis
    by (simp add: run_task_def)
qed

lemma run_alter:
  assumes "handler_service up srv" and "up ap tag"
  shows "run_task srv (AlterTask ap tag a) us ap tag = (us ap tag)(account_email a := Some a)"
  using assms by (simp add: run_task_def handler_service_def set_core_def)

lemma run_remove:
  assumes "handler_service up srv" and "up ap tag"
  shows "run_task srv (RemoveTask ap tag e) us ap tag = (us ap tag)(e := None)"
  using assms by (simp add: run_task_def handler_service_def set_core_def)

lemma distinct_concat_tagged:
  assumes "distinct tags" and "\<And>t. distinct (f t)"
  shows "distinct (concat (map (\<lambda>t. map (\<lambda>ap. (ap, t)) (f t)) tags))"
  using assms by (induction tags) (auto simp: distinct_map inj_on_def)

lemma distinct_cores: "distinct (map fst (xm_nodes s)) \<Longrightarrow> distinct (cores s tag)"
proof -
  assume d: "distinct (map fst (xm_nodes s))"
  have "distinct (map NodeApi (map fst (filter P (filter Q (xm_nodes s)))))" for P Q
    using d by (subst distinct_map) (simp add: distinct_map_filter inj_on_def del: filter_filter)
  from this [of _ "\<lambda>(n, nd). truthy (rn_started nd) \<and> truthy (rn_session nd)"] show ?thesis
    by (auto simp: cores_def get_ready_nodes_def comp_def)
qed


lemma update_tasks_distinct:
  assumes "distinct (map fst (xm_nodes s))" and "distinct (map fst (xm_by_tag s))" and "distinct (user_inbound_tags st u)"
  shows "distinct (map task_target (update_tasks st u acc s))"
proof -
  let ?pairs = "\<lambda>tags. concat (map (\<lambda>t. map (\<lambda>ap. (ap, t)) (cores s t)) tags)"
  have eq: "map task_target (update_tasks st u acc s) =
      ?pairs (user_inbound_tags st u @ filter (\<lambda>tag. tag \<notin> set (user_inbound_tags st u)) (map fst (xm_by_tag s)))"
    by (simp add: update_tasks_def user_inbound_tags_slots map_concat comp_def)
  have "distinct (user_inbound_tags st u @ filter (\<lambda>tag. tag \<notin> set (user_inbound_tags st u)) (map fst (xm_by_tag s)))"
    using assms by auto
  then show ?thesis
    unfolding eq by (rule distinct_concat_tagged) (rule distinct_cores [OF assms(1)])
qed

definition new_tasks :: "xray_mem \<Rightarrow> xray_mem \<Rightarrow> task list" where
  "new_tasks s s' = drop (length (xm_tasks s)) (xm_tasks s')"

text \<open>C19: Updating a user on the cores makes every core agree with the panel, in whatever order the pool runs
  the calls: on the main core and on each ready node, an inbound of the user holds exactly the account
  the panel built for it (without an XTLS flow its transport cannot carry), an inbound of the catalogue the user
  lost no longer knows the user, and no call touches another user.\<close>

theorem update_user_op_syncs_cores:
  assumes "handler_service up srv" and "update_user_op st (Some u) s = (Inr (), s')"
    and "interleaves (new_tasks s s') cs"
    and "\<forall>p \<in> set (user_slots st u). slot_account u (xm_by_tag s) p = Inr (acc p)"
    and "distinct (map fst (xm_nodes s))" and "distinct (map fst (xm_by_tag s))" and "distinct (user_inbound_tags st u)"
    and "ap \<in> set (cores s tag)" and "up ap tag"
  shows "((ty, tag) \<in> set (user_slots st u) \<longrightarrow> fold srv cs us ap tag (email_of u) = Some (acc (ty, tag))) \<and>
    (tag \<in> set (map fst (xm_by_tag s)) - set (user_inbound_tags st u) \<longrightarrow> fold srv cs us ap tag (email_of u) = None) \<and>
    (e \<noteq> email_of u \<longrightarrow> fold srv cs us ap tag e = us ap tag e)"
proof -
  obtain s'' where "update_user_op st (Some u) s = (Inr (), s'')" "xm_tasks s'' = xm_tasks s @ update_tasks st u acc s"
    using update_user_op_tasks [OF assms(4)] by blast
  with assms(2) have new: "new_tasks s s' = update_tasks st u acc s" by (simp add: new_tasks_def)
  note run = run_interleaved [OF assms(1) assms(3) [unfolded new] update_tasks_distinct [OF assms(5-7)]]
  have alter: "fold srv cs us ap tag = (us ap tag)(email_of u := Some (acc (ty, tag)))" if "(ty, tag) \<in> set (user_slots st u)" for ty
  proof -
    have "AlterTask ap tag (acc (ty, tag)) \<in> set (update_tasks st u acc s)"
      using that assms(8) by (force simp: update_tasks_def)
    from run [OF this] show ?thesis
      using run_alter [OF assms(1,9)] slot_account_email [OF bspec [OF assms(4) that]] by simp
  qed
  have rm: "fold srv cs us ap tag = (us ap tag)(email_of u := None)"
    if "tag \<in> set (map fst (xm_by_tag s)) - set (user_inbound_tags st u)"
  proof -
    have "RemoveTask ap tag (email_of u) \<in> set (update_tasks st u acc s)"
      using that assms(8) by (force simp: update_tasks_def)
    from run [OF this] show ?thesis
      using run_remove [OF assms(1,9)] by simp
  qed
  have other: "fold srv cs us ap tag = us ap tag"
    if "tag \<notin> set (map fst (xm_by_tag s))" and "tag \<notin> set (user_inbound_tags st u)"
  proof -
    have "\<forall>t \<in> set (update_tasks st u acc s). task_target t \<noteq> (ap, tag)"
      using that by (auto simp: update_tasks_def user_inbound_tags_slots rev_image_eqI)
    then have "filter (\<lambda>c. call_target c = (ap, tag)) cs = []"
      using assms(3) by (auto simp: new interleaves_def filter_empty_conv)
    then show ?thesis
      using fold_calls_local [where ap = ap and tag = tag and us = us and vs = us and cs = cs, OF assms(1) refl] by simp
  qed
  have slot: "tag \<in> set (user_inbound_tags st u) \<longleftrightarrow> (\<exists>ty. (ty, tag) \<in> set (user_slots st u))"
    by (auto simp: user_inbound_tags_slots rev_image_eqI)
  from alter rm other slot show ?thesis
    by (cases "tag \<in> set (user_inbound_tags st u)"; cases "tag \<in> set (map fst (xm_by_tag s))") auto
qed

definition sample_server :: "core_server" where
  "sample_server c us = (case c of
     AddUser ap tag a \<Rightarrow> if us ap tag (account_email a) = None then set_core us ap tag (account_email a) (Some a) else us
   | RemoveUser ap tag e \<Rightarrow> set_core us ap tag e None)"

definition sample_ready_node :: rnode where
  "sample_ready_node = (new_rnode [])\<lparr>rn_session := JStr ''sid'', rn_started := JBool True, rn_cert := Some ''cert'',
     rn_tags := Some [''VLESS TCP'']\<rparr>"

definition sample_mem :: xray_mem where
  "sample_mem = \<lparr>xm_by_tag = [(''VLESS TCP'', [(''network'', JStr ''tcp''), (''tls'', JStr ''none'')]), (''OLD'', [])],
     xm_nodes = [(4, sample_ready_node), (5, new_rnode [])], xm_tasks = []\<rparr>"

definition sample_vision_user :: user_row where
  "sample_vision_user = sample_user\<lparr>u_proxies := [\<lparr>px_type = VLESS,
     px_settings = [(''id'', JStr ''u1''), (''flow'', JStr ''xtls-rprx-vision'')], px_excluded = []\<rparr>]\<rparr>"

lemma sample_server_handler: "handler_service (\<lambda>_ _. True) sample_server"
  by (simp add: handler_service_def sample_server_def)

lemma sample_update_op:
  "fst (update_user_op sample_user_settings (Some sample_vision_user) sample_mem) = Inr ()"
  "user_slots sample_user_settings sample_vision_user = [(VLESS, ''VLESS TCP'')]"
  "slot_account sample_vision_user (xm_by_tag sample_mem) (VLESS, ''VLESS TCP'') = Inr (VLESSAccount ''7.alice'' ''u1'' NoFlow)"
  "email_of sample_vision_user = ''7.alice''"
  "distinct (map fst (xm_nodes sample_mem))" "distinct (map fst (xm_by_tag sample_mem))"
  "distinct (user_inbound_tags sample_user_settings sample_vision_user)"
  "NodeApi 4 \<in> set (cores sample_mem ''VLESS TCP'')"
  by code_simp+

theorem update_user_op_syncs_cores_witness:
  "fold sample_server (concat (map task_calls (new_tasks sample_mem
       (snd (update_user_op sample_user_settings (Some sample_vision_user) sample_mem)))))
     (\<lambda>_ _ _. Some (VMessAccount ''stale'' ''k'')) (NodeApi 4) ''VLESS TCP'' ''7.alice'' = Some (VLESSAccount ''7.alice'' ''u1'' NoFlow)"
proof -
  let ?r = "update_user_op sample_user_settings (Some sample_vision_user) sample_mem"
  have run: "?r = (Inr (), snd ?r)"
    using sample_update_op(1) by (metis prod.collapse)
  have acc: "\<forall>p \<in> set (user_slots sample_user_settings sample_vision_user).
      slot_account sample_vision_user (xm_by_tag sample_mem) p = Inr ((\<lambda>_. VLESSAccount ''7.alice'' ''u1'' NoFlow) p)"
    using sample_update_op(2,3) by simp
  from update_user_op_syncs_cores [OF sample_server_handler run sequential_interleaves acc sample_update_op(5-8) TrueI]
  show ?thesis
    using sample_update_op(2,4) by (metis list.set_intros(1))
qed

end
