(* ===== verification/Notifications.thy ===== *)
theory Notifications
  imports Users
begin

text \<open>
  Webhook notifications (app/utils/notification.py, app/jobs/send_notifications.py) and the reports
  that enqueue them (app/utils/report.py). The queue is the double-ended queue of the module; the
  chat reports to Telegram and Discord are logged as attempts, since whatever they raise is ignored.
  The sending loop reads the clock once per pass, so the clock is a function of the number of
  readings; a loop that never ends is the value None.
\<close>

section \<open>Notifications and their queue\<close>

datatype action =
    UserCreated | UserUpdated | UserDeleted | UserLimited | UserExpired | UserEnabled | UserDisabled
  | DataUsageReset | DataResetByNext | SubscriptionRevoked | ReachedUsagePercent | ReachedDaysLeft

record notification =
  nt_action :: action
  nt_username :: string
  nt_user :: "user_row option"
  nt_by :: "string option"
  nt_percent :: "rat option"
  nt_days :: "int option"
  nt_send_at :: int
  nt_tries :: int

datatype channel = Telegram | Discord

datatype chat_report =
    StatusReport user_status
  | CreationReport | ModificationReport | DeletionReport | UsageResetReport | NextPlanReport | RevocationReport
  | LoginReport string bool

record notify_state =
  nq_queue :: "notification list"
  nq_chat :: "(channel \<times> string \<times> chat_report) list"
  nq_posts :: "(string \<times> notification list) list"

text \<open>\<open>send_at\<close> and \<open>tries\<close> have defaults evaluated when the module was loaded: \<open>loaded\<close>.\<close>

record notify_settings =
  ns_webhooks :: "string list"
  ns_loaded :: int
  ns_recurrent :: int
  ns_timeout :: int
  ns_percent_reached :: bool
  ns_days_left :: bool
  ns_login :: bool
  ns_status_change :: bool
  ns_created :: bool
  ns_updated :: bool
  ns_deleted :: bool
  ns_usage_reset :: bool
  ns_sub_revoked :: bool

definition new_notification :: "notify_settings \<Rightarrow> action \<Rightarrow> string \<Rightarrow> user_row option \<Rightarrow> string option \<Rightarrow> notification" where
  "new_notification ns act username user by' = \<lparr>nt_action = act, nt_username = username, nt_user = user, nt_by = by',
     nt_percent = None, nt_days = None, nt_send_at = ns_loaded ns, nt_tries = 0\<rparr>"

definition notify :: "notify_settings \<Rightarrow> notification \<Rightarrow> notify_state \<Rightarrow> notify_state" where
  "notify ns message q = (if ns_webhooks ns \<noteq> [] then q\<lparr>nq_queue := nq_queue q @ [message]\<rparr> else q)"

definition chat :: "channel \<Rightarrow> string \<Rightarrow> chat_report \<Rightarrow> notify_state \<Rightarrow> notify_state" where
  "chat c username r q = q\<lparr>nq_chat := nq_chat q @ [(c, username, r)]\<rparr>"

section \<open>Reports (app/utils/report.py)\<close>

text \<open>Telegram, then the webhook queue, then Discord.\<close>

definition report :: "bool \<Rightarrow> notify_settings \<Rightarrow> string \<Rightarrow> chat_report \<Rightarrow> notification option \<Rightarrow> notify_state \<Rightarrow> notify_state" where
  "report enabled ns username r message q =
     (if \<not> enabled then q
      else chat Discord username r ((case message of None \<Rightarrow> id | Some m \<Rightarrow> notify ns m) (chat Telegram username r q)))"

text \<open>\<open>UserDisabled\<close> needs its \<open>by\<close>: without one the model rejects it, after the Telegram report.\<close>

definition status_change ::
    "notify_settings \<Rightarrow> string \<Rightarrow> user_status \<Rightarrow> user_row \<Rightarrow> string option \<Rightarrow> (notify_state, py_error, unit) eff" where
  "status_change ns username status user by' =
     (if ns_status_change ns \<and> status = Disabled \<and> by' = None
      then thenS (modS (chat Telegram username (StatusReport status))) (throw (ValueError ''UserDisabled''))
      else modS (report (ns_status_change ns) ns username (StatusReport status)
        (case status of
           Limited \<Rightarrow> Some (new_notification ns UserLimited username (Some user) None)
         | Expired \<Rightarrow> Some (new_notification ns UserExpired username (Some user) None)
         | Disabled \<Rightarrow> Some (new_notification ns UserDisabled username (Some user) by')
         | Active \<Rightarrow> Some (new_notification ns UserEnabled username (Some user) by')
         | OnHold \<Rightarrow> None)))"

definition user_created :: "notify_settings \<Rightarrow> user_row \<Rightarrow> string \<Rightarrow> notify_state \<Rightarrow> notify_state" where
  "user_created ns user by' =
     report (ns_created ns) ns (u_name user) CreationReport (Some (new_notification ns UserCreated (u_name user) (Some user) (Some by')))"

definition user_updated :: "notify_settings \<Rightarrow> user_row \<Rightarrow> string \<Rightarrow> notify_state \<Rightarrow> notify_state" where
  "user_updated ns user by' =
     report (ns_updated ns) ns (u_name user) ModificationReport (Some (new_notification ns UserUpdated (u_name user) (Some user) (Some by')))"

definition user_deleted :: "notify_settings \<Rightarrow> string \<Rightarrow> string \<Rightarrow> notify_state \<Rightarrow> notify_state" where
  "user_deleted ns username by' =
     report (ns_deleted ns) ns username DeletionReport (Some (new_notification ns UserDeleted username None (Some by')))"

definition user_data_usage_reset :: "notify_settings \<Rightarrow> user_row \<Rightarrow> string \<Rightarrow> notify_state \<Rightarrow> notify_state" where
  "user_data_usage_reset ns user by' =
     report (ns_usage_reset ns) ns (u_name user) UsageResetReport (Some (new_notification ns DataUsageReset (u_name user) (Some user) (Some by')))"

definition user_data_reset_by_next :: "notify_settings \<Rightarrow> user_row \<Rightarrow> notify_state \<Rightarrow> notify_state" where
  "user_data_reset_by_next ns user =
     report (ns_usage_reset ns) ns (u_name user) NextPlanReport (Some (new_notification ns DataResetByNext (u_name user) (Some user) None))"

definition user_subscription_revoked :: "notify_settings \<Rightarrow> user_row \<Rightarrow> string \<Rightarrow> notify_state \<Rightarrow> notify_state" where
  "user_subscription_revoked ns user by' =
     report (ns_sub_revoked ns) ns (u_name user) RevocationReport (Some (new_notification ns SubscriptionRevoked (u_name user) (Some user) (Some by')))"

definition login_report :: "notify_settings \<Rightarrow> string \<Rightarrow> string \<Rightarrow> bool \<Rightarrow> notify_state \<Rightarrow> notify_state" where
  "login_report ns username client_ip success =
     report (ns_login ns) ns username (LoginReport client_ip success) None"

text \<open>A report that also leaves a reminder in the database, so that it is not repeated.\<close>

type_synonym 'a notify_op = "(session \<times> notify_state, py_error, 'a) eff"

definition on_db :: "'a db_op \<Rightarrow> 'a notify_op" where
  "on_db m = (\<lambda>(s, q). case m s of (r, s') \<Rightarrow> (r, s', q))"

definition on_queue :: "(notify_state \<Rightarrow> notify_state) \<Rightarrow> unit notify_op" where
  "on_queue f = modS (\<lambda>(s, q). (s, f q))"

definition data_usage_percent_reached ::
    "notify_settings \<Rightarrow> rat \<Rightarrow> user_row \<Rightarrow> int \<Rightarrow> unit notify_op" where
  "data_usage_percent_reached ns percent user threshold =
     (if ns_percent_reached ns then
        thenS (on_queue (notify ns ((new_notification ns ReachedUsagePercent (u_name user) (Some user) None)\<lparr>nt_percent := Some percent\<rparr>)))
          (on_db (create_notification_reminder DataUsage (or_none (u_expire user)) (u_id user) (Some threshold)))
      else ret ())"

text \<open>Here the notification is sent in any case, but remembered only when enabled.\<close>

definition expire_days_reached :: "notify_settings \<Rightarrow> int \<Rightarrow> user_row \<Rightarrow> int \<Rightarrow> int \<Rightarrow> unit notify_op" where
  "expire_days_reached ns days user expire threshold =
     thenS (on_queue (notify ns ((new_notification ns ReachedDaysLeft (u_name user) (Some user) None)\<lparr>nt_days := Some days\<rparr>)))
       (if ns_days_left ns
        then on_db (create_notification_reminder ExpirationDate (Some expire) (u_id user) (Some threshold))
        else ret ())"

section \<open>The sending job\<close>

text \<open>
  \<open>while notification := queue.popleft()\<close>: a notification that is not due goes back to the end of
  the queue that the loop is still popping. \<open>clock i\<close> is the \<open>i\<close>-th reading of the clock.
\<close>

partial_function (option) drain ::
    "int \<Rightarrow> (nat \<Rightarrow> int) \<Rightarrow> nat \<Rightarrow> notification list \<Rightarrow> notification list \<Rightarrow> (notification list \<times> nat) option" where
  "drain recurrent clock i queue to_send = (case queue of
     [] \<Rightarrow> Some (to_send, i)
   | n # q \<Rightarrow>
       if nt_tries n > recurrent then drain recurrent clock i q to_send
       else if nt_send_at n > clock i then drain recurrent clock (Suc i) (q @ [n]) to_send
       else drain recurrent clock (Suc i) q (to_send @ [n]))"

text \<open>\<open>post w batch\<close>: Some True for an OK answer, Some False for another one, None for an exception.\<close>

type_synonym webhook = "string \<Rightarrow> notification list \<Rightarrow> bool option"

definition send_req :: "webhook \<Rightarrow> notification list \<Rightarrow> string \<Rightarrow> bool" where
  "send_req post data w = (post w data = Some True)"

definition send :: "notify_settings \<Rightarrow> webhook \<Rightarrow> notification list \<Rightarrow> notify_state \<Rightarrow> bool \<times> notify_state" where
  "send ns post data q =
     (True \<in> set (map (send_req post data) (ns_webhooks ns)),
      q\<lparr>nq_posts := nq_posts q @ map (\<lambda>w. (w, data)) (ns_webhooks ns)\<rparr>)"

text \<open>Each notification that may be tried again reads the clock once more.\<close>

fun requeue :: "notify_settings \<Rightarrow> (nat \<Rightarrow> int) \<Rightarrow> nat \<Rightarrow> notification list \<Rightarrow> notification list" where
  "requeue ns clock i [] = []"
| "requeue ns clock i (n # ns') =
     (if nt_tries n + 1 > ns_recurrent ns then requeue ns clock i ns'
      else n\<lparr>nt_tries := nt_tries n + 1, nt_send_at := clock i + ns_timeout ns\<rparr> # requeue ns clock (Suc i) ns')"

definition send_notifications :: "notify_settings \<Rightarrow> webhook \<Rightarrow> (nat \<Rightarrow> int) \<Rightarrow> notify_state \<Rightarrow> notify_state option" where
  "send_notifications ns post clock q =
     (if nq_queue q = [] then Some q
      else (case drain (ns_recurrent ns) clock 0 (nq_queue q) [] of
              None \<Rightarrow> None
            | Some (to_send, i) \<Rightarrow>
                (let q0 = q\<lparr>nq_queue := []\<rparr> in
                 if to_send = [] then Some q0
                 else (let (ok, q1) = send ns post to_send q0 in
                       if ok then Some q1 else Some (q1\<lparr>nq_queue := requeue ns clock i to_send\<rparr>)))))"

section \<open>When the loop ends\<close>

definition live :: "int \<Rightarrow> notification list \<Rightarrow> notification list" where
  "live recurrent = filter (\<lambda>n. \<not> nt_tries n > recurrent)"

lemma live_simps [simp]:
  "live r [] = []"
  "live r (n # q) = (if nt_tries n > r then live r q else n # live r q)"
  "live r (p @ q) = live r p @ live r q"
  "set (live r q) = {n \<in> set q. nt_tries n \<le> r}"
  by (auto simp: live_def)

definition drained :: "int \<Rightarrow> (nat \<Rightarrow> int) \<Rightarrow> nat \<Rightarrow> notification list \<Rightarrow> notification list \<Rightarrow> notification list \<times> nat \<Rightarrow> bool" where
  "drained recurrent clock i queue to_send r \<longleftrightarrow>
     i \<le> snd r \<and> mset (fst r) = mset to_send + mset (live recurrent queue) \<and>
     (\<forall>n \<in> set (live recurrent queue). \<exists>k \<ge> i. nt_send_at n \<le> clock k)"

lemmas drain_induct = drain.raw_induct [rotated, consumes 1, case_names step]

lemma drain_result:
  "drain recurrent clock i queue to_send = Some r \<Longrightarrow> drained recurrent clock i queue to_send r"
proof (induction rule: drain_induct)
  case (step drain' recurrent clock i queue to_send r)
  show ?case
  proof (cases queue)
    case Nil
    with step(2) show ?thesis by (auto simp: drained_def)
  next
    case (Cons n q)
    consider (old) "nt_tries n > recurrent" | (later) "\<not> nt_tries n > recurrent" "nt_send_at n > clock i"
      | (due) "\<not> nt_tries n > recurrent" "\<not> nt_send_at n > clock i" by blast
    then show ?thesis
    proof cases
      case old
      with step(2) Cons have "drain' recurrent clock i q to_send = Some r" by simp
      from step(1) [OF this] old Cons show ?thesis by (simp add: drained_def)
    next
      case later
      with step(2) Cons have "drain' recurrent clock (Suc i) (q @ [n]) to_send = Some r" by simp
      from step(1) [OF this] later Cons show ?thesis by (auto simp: drained_def dest: Suc_leD)
    next
      case due
      with step(2) Cons have "drain' recurrent clock (Suc i) q (to_send @ [n]) = Some r" by simp
      from step(1) [OF this] due Cons show ?thesis by (auto simp: drained_def dest: Suc_leD)
    qed
  qed
qed

lemma drain_ends:
  assumes "\<forall>j \<ge> T. \<forall>n \<in> set (live recurrent queue). nt_send_at n \<le> clock j"
  shows "\<exists>r. drain recurrent clock i queue to_send = Some r"
  using assms
proof (induction "T - i + length queue" arbitrary: i queue to_send rule: less_induct)
  case less
  show ?case
  proof (cases queue)
    case Nil
    then show ?thesis by (simp add: drain.simps)
  next
    case (Cons n q)
    have sub: "\<forall>j \<ge> T. \<forall>m \<in> set (live recurrent q). nt_send_at m \<le> clock j"
      using less.prems Cons by auto
    consider (old) "nt_tries n > recurrent" | (later) "\<not> nt_tries n > recurrent" "nt_send_at n > clock i"
      | (due) "\<not> nt_tries n > recurrent" "\<not> nt_send_at n > clock i" by blast
    then show ?thesis
    proof cases
      case old
      have "\<exists>r. drain recurrent clock i q to_send = Some r"
        by (rule less.hyps) (use Cons sub in simp_all)
      then show ?thesis using old Cons by (auto simp: drain.simps [of _ _ _ "n # q"])
    next
      case later
      then have i: "i < T" using less.prems Cons by (auto simp: not_le [symmetric])
      have "\<exists>r. drain recurrent clock (Suc i) (q @ [n]) to_send = Some r"
        by (rule less.hyps) (use Cons i less.prems in auto)
      then show ?thesis using later Cons by (auto simp: drain.simps [of _ _ _ "n # q"])
    next
      case due
      have "\<exists>r. drain recurrent clock (Suc i) q (to_send @ [n]) = Some r"
        by (rule less.hyps) (use Cons sub in simp_all)
      then show ?thesis using due Cons by (auto simp: drain.simps [of _ _ _ "n # q"])
    qed
  qed
qed

lemma drain_ends_iff:
  assumes "mono clock"
  shows "(\<exists>r. drain recurrent clock 0 queue [] = Some r) \<longleftrightarrow> (\<forall>n \<in> set (live recurrent queue). \<exists>k. nt_send_at n \<le> clock k)"
proof
  assume "\<forall>n \<in> set (live recurrent queue). \<exists>k. nt_send_at n \<le> clock k"
  then obtain f where f: "\<forall>n \<in> set (live recurrent queue). nt_send_at n \<le> clock (f n)" by metis
  obtain T where T: "\<forall>n \<in> set (live recurrent queue). f n \<le> T"
    using finite_nat_set_iff_bounded_le [of "f ` set (live recurrent queue)"] by auto
  have "nt_send_at n \<le> clock j" if "T \<le> j" and "n \<in> set (live recurrent queue)" for j n
    using f T that monoD [OF assms, of "f n" j] by force
  then show "\<exists>r. drain recurrent clock 0 queue [] = Some r"
    by (intro drain_ends [of T]) blast
qed (auto dest!: drain_result simp: drained_def)

lemma send_notifications_ends:
  "(\<exists>q'. send_notifications ns post clock q = Some q') \<longleftrightarrow>
   nq_queue q = [] \<or> (\<exists>r. drain (ns_recurrent ns) clock 0 (nq_queue q) [] = Some r)"
  by (auto simp: send_notifications_def Let_def split: option.splits prod.splits)

text \<open>C20: The sending job returns exactly when the clock reaches the due time of every queued notification that
  may still be tried: a postponed notification is not kept for the next run of the job, as the code's
  comment says, the running job spins until it is due.\<close>

theorem send_notifications_waits_for_due:
  assumes "mono clock"
  shows "(\<exists>q'. send_notifications ns post clock q = Some q') \<longleftrightarrow>
    (\<forall>n \<in> set (nq_queue q). nt_tries n \<le> ns_recurrent ns \<longrightarrow> (\<exists>k. nt_send_at n \<le> clock k))"
  unfolding send_notifications_ends drain_ends_iff [OF assms] by auto

definition sample_notify :: notify_settings where
  "sample_notify = \<lparr>ns_webhooks = [''https://hook''], ns_loaded = 0, ns_recurrent = 3, ns_timeout = 180,
     ns_percent_reached = True, ns_days_left = True, ns_login = True, ns_status_change = True, ns_created = True,
     ns_updated = True, ns_deleted = True, ns_usage_reset = True, ns_sub_revoked = True\<rparr>"

definition postponed :: notification where
  "postponed = (new_notification sample_notify UserUpdated ''alice'' None None)\<lparr>nt_tries := 1, nt_send_at := 180\<rparr>"

theorem send_notifications_waits_for_due_witness:
  "(\<exists>q'. send_notifications sample_notify (\<lambda>_ _. None) (\<lambda>i. int i) \<lparr>nq_queue = [postponed], nq_chat = [], nq_posts = []\<rparr> = Some q') \<and>
   \<not> (\<exists>q'. send_notifications sample_notify (\<lambda>_ _. None) (\<lambda>_. 100) \<lparr>nq_queue = [postponed], nq_chat = [], nq_posts = []\<rparr> = Some q')"
proof -
  have "mono (\<lambda>i. int i)" "mono (\<lambda>_::nat. 100::int)" by (simp_all add: mono_def)
  from this [THEN send_notifications_waits_for_due] show ?thesis
    by (auto simp: postponed_def new_notification_def sample_notify_def intro: exI [of _ 180])
qed

section \<open>What a run delivers\<close>

lemma requeue_exact:
  "map (\<lambda>n. n\<lparr>nt_send_at := t\<rparr>) (requeue ns clock i batch) =
     map (\<lambda>n. n\<lparr>nt_tries := nt_tries n + 1, nt_send_at := t\<rparr>) (filter (\<lambda>n. nt_tries n < ns_recurrent ns) batch)"
  by (induction batch arbitrary: i) auto

lemma requeue_send_at: "n \<in> set (requeue ns clock i batch) \<Longrightarrow> \<exists>k \<ge> i. nt_send_at n = clock k + ns_timeout ns"
  by (induction batch arbitrary: i) (auto split: if_splits dest: Suc_leD)

lemma filter_mset_live: "mset sent = mset (live r q) \<Longrightarrow> set sent \<subseteq> {n. nt_tries n \<le> r}"
  by (metis (no_types, lifting) CollectD live_simps(4) mem_Collect_eq set_mset_mset subsetI)

text \<open>A run of the sending job loses no notification: one batch with every queued notification that may still
  be tried goes to every webhook; if one accepts it the queue is empty afterwards, else it holds exactly
  those of the batch with tries left, each with one more try counted and due after the timeout.\<close>

theorem send_notifications_delivers:
  assumes "send_notifications ns post clock q = Some q'" and "live (ns_recurrent ns) (nq_queue q) \<noteq> []"
  shows "\<exists>batch. mset batch = mset (live (ns_recurrent ns) (nq_queue q)) \<and>
    nq_posts q' = nq_posts q @ map (\<lambda>w. (w, batch)) (ns_webhooks ns) \<and> nq_chat q' = nq_chat q \<and>
    (if \<exists>w \<in> set (ns_webhooks ns). post w batch = Some True then nq_queue q' = []
     else map (\<lambda>n. n\<lparr>nt_send_at := 0\<rparr>) (nq_queue q') =
            map (\<lambda>n. n\<lparr>nt_tries := nt_tries n + 1, nt_send_at := 0\<rparr>) (filter (\<lambda>n. nt_tries n < ns_recurrent ns) batch) \<and>
          (\<forall>n \<in> set (nq_queue q'). \<exists>k. nt_send_at n = clock k + ns_timeout ns))"
proof -
  have ne: "nq_queue q \<noteq> []" using assms(2) by auto
  with assms(1) obtain batch i where d: "drain (ns_recurrent ns) clock 0 (nq_queue q) [] = Some (batch, i)"
    by (auto simp: send_notifications_def split: option.splits)
  have m: "mset batch = mset (live (ns_recurrent ns) (nq_queue q))"
    using drain_result [OF d] by (simp add: drained_def)
  then have b: "batch \<noteq> []" using assms(2) by auto
  have ok: "True \<in> set (map (send_req post batch) ws) \<longleftrightarrow> (\<exists>w \<in> set ws. post w batch = Some True)" for ws
    by (auto simp: send_req_def)
  have q': "q' = q\<lparr>nq_posts := nq_posts q @ map (\<lambda>w. (w, batch)) (ns_webhooks ns),
      nq_queue := (if \<exists>w \<in> set (ns_webhooks ns). post w batch = Some True then [] else requeue ns clock i batch)\<rparr>"
    using assms(1) ne b d ok [of "ns_webhooks ns"] by (auto simp: send_notifications_def send_def Let_def split: if_splits)
  show ?thesis
    using m requeue_exact [of 0 ns clock i batch] requeue_send_at [of _ ns clock i batch]
    by (intro exI [of _ batch]) (auto simp: q')
qed

lemma sample_drain:
  "drain 3 int 0 [postponed\<lparr>nt_send_at := 0\<rparr>] [] = Some ([postponed\<lparr>nt_send_at := 0\<rparr>], 1)"
  by (simp add: drain.simps postponed_def new_notification_def sample_notify_def)

theorem send_notifications_delivers_witness:
  "\<exists>q'. send_notifications sample_notify (\<lambda>_ _. None) int \<lparr>nq_queue = [postponed\<lparr>nt_send_at := 0\<rparr>], nq_chat = [], nq_posts = []\<rparr> = Some q' \<and>
     map nt_tries (nq_queue q') = [2]"
proof -
  let ?q = "\<lparr>nq_queue = [postponed\<lparr>nt_send_at := 0\<rparr>], nq_chat = [], nq_posts = []\<rparr>"
  obtain q' where run: "send_notifications sample_notify (\<lambda>_ _. None) int ?q = Some q'"
    using sample_drain by (cases "send_req (\<lambda>_ _. None) [postponed\<lparr>nt_send_at := 0\<rparr>] ''https://hook''")
      (auto simp: send_notifications_def sample_notify_def Let_def send_def)
  have live: "live (ns_recurrent sample_notify) (nq_queue ?q) = [postponed\<lparr>nt_send_at := 0\<rparr>]"
    by (simp add: live_def postponed_def new_notification_def sample_notify_def)
  from send_notifications_delivers [OF run] live obtain batch where
    b: "mset batch = {#postponed\<lparr>nt_send_at := 0\<rparr>#}" and
    q': "map (\<lambda>n. n\<lparr>nt_send_at := 0\<rparr>) (nq_queue q') =
      map (\<lambda>n. n\<lparr>nt_tries := nt_tries n + 1, nt_send_at := 0\<rparr>) (filter (\<lambda>n. nt_tries n < ns_recurrent sample_notify) batch)"
    by auto
  from b have "batch = [postponed\<lparr>nt_send_at := 0\<rparr>]" by simp
  with q' have "map nt_tries (map (\<lambda>n. n\<lparr>nt_send_at := 0\<rparr>) (nq_queue q')) = [2]"
    by (simp add: postponed_def new_notification_def sample_notify_def)
  with run show ?thesis by (auto simp: comp_def)
qed

end
