(* ===== verification/ReviewUsers.thy ===== *)
theory ReviewUsers
  imports UserOps Notifications
begin

text \<open>
  The jobs that enforce the limits of users: app/jobs/review_users.py, app/jobs/reset_user_data_usage.py
  and app/jobs/remove_expired_users.py, over the database session, the notifications and the Xray
  cores together. One run reads the clock once (\<open>now\<close>). The removals from the cores run in the
  thread pool after the statuses are committed; their order does not matter for what is shown here.
\<close>

section \<open>The state of a job\<close>

record world =
  wd_session :: session
  wd_notify :: notify_state
  wd_xray :: xray_mem

type_synonym 'a world_op = "(world, py_error, 'a) eff"

definition on_session :: "'a db_op \<Rightarrow> 'a world_op" where
  "on_session m = (\<lambda>w. case m (wd_session w) of (r, s) \<Rightarrow> (r, w\<lparr>wd_session := s\<rparr>))"

definition on_notify :: "'a notify_op \<Rightarrow> 'a world_op" where
  "on_notify m = (\<lambda>w. case m (wd_session w, wd_notify w) of (r, s, q) \<Rightarrow> (r, w\<lparr>wd_session := s, wd_notify := q\<rparr>))"

definition on_report :: "(notify_state, py_error, 'a) eff \<Rightarrow> 'a world_op" where
  "on_report m = (\<lambda>w. case m (wd_notify w) of (r, q) \<Rightarrow> (r, w\<lparr>wd_notify := q\<rparr>))"

definition on_xray :: "'a xray_op \<Rightarrow> 'a world_op" where
  "on_xray m = (\<lambda>w. case m (wd_xray w) of (r, x) \<Rightarrow> (r, w\<lparr>wd_xray := x\<rparr>))"

fun seqW :: "('a \<Rightarrow> unit world_op) \<Rightarrow> 'a list \<Rightarrow> unit world_op" where
  "seqW f [] = ret ()"
| "seqW f (x # xs) = thenS (f x) (seqW f xs)"

section \<open>Reminders\<close>

text \<open>The first threshold that is reached decides; \<open>break\<close> leaves the loop after it.\<close>

definition remind_usage :: "user_settings \<Rightarrow> notify_settings \<Rightarrow> int \<Rightarrow> int \<Rightarrow> unit world_op" where
  "remind_usage st ns now uid = bindS (on_session (the_user uid)) (\<lambda>u.
     if \<not> truthy_int (u_limit u) then ret ()
     else (let percent = calculate_usage_percent (u_used u) (or0 (u_limit u)) in
       case find (\<lambda>p. percent \<ge> of_int p) (rev (sort (us_usage_percents st))) of
         None \<Rightarrow> ret ()
       | Some p \<Rightarrow> bindS (on_session (get_notification_reminder now uid DataUsage (Some p))) (\<lambda>r.
           if r = None then on_notify (data_usage_percent_reached ns percent u p) else ret ())))"

definition remind_expiry :: "user_settings \<Rightarrow> notify_settings \<Rightarrow> int \<Rightarrow> int \<Rightarrow> unit world_op" where
  "remind_expiry st ns now uid = bindS (on_session (the_user uid)) (\<lambda>u.
     if \<not> truthy_int (u_expire u) then ret ()
     else (let days = calculate_expiration_days now (or0 (u_expire u)) in
       case find (\<lambda>d. days \<le> d) (sort (us_days_left st)) of
         None \<Rightarrow> ret ()
       | Some d \<Rightarrow> bindS (on_session (get_notification_reminder now uid ExpirationDate (Some d))) (\<lambda>r.
           if r = None then on_notify (expire_days_reached ns days u (or0 (u_expire u)) d) else ret ())))"

definition add_notification_reminders :: "user_settings \<Rightarrow> notify_settings \<Rightarrow> int \<Rightarrow> int \<Rightarrow> unit world_op" where
  "add_notification_reminders st ns now uid = thenS (remind_usage st ns now uid) (remind_expiry st ns now uid)"

section \<open>Review\<close>

definition over_limit_user :: "user_row \<Rightarrow> bool" where
  "over_limit_user u \<longleftrightarrow> truthy_int (u_limit u) \<and> u_used u \<ge> or0 (u_limit u)"

definition past_expiry :: "int \<Rightarrow> user_row \<Rightarrow> bool" where
  "past_expiry now u \<longleftrightarrow> truthy_int (u_expire u) \<and> or0 (u_expire u) \<le> now"

definition plan_fires :: "int \<Rightarrow> user_row \<Rightarrow> bool" where
  "plan_fires now u \<longleftrightarrow> (over_limit_user u \<or> past_expiry now u) \<and>
     (case u_next_plan u of
        None \<Rightarrow> False
      | Some p \<Rightarrow> np_fire_on_either p \<or> (over_limit_user u \<and> past_expiry now u))"

text \<open>What the cores raise is logged and ignored.\<close>

definition reset_user_by_next_report :: "user_settings \<Rightarrow> notify_settings \<Rightarrow> int \<Rightarrow> int \<Rightarrow> unit world_op" where
  "reset_user_by_next_report st ns now uid =
     thenS (on_session (reset_user_by_next now False uid))
     (bindS (on_session (the_user uid)) (\<lambda>u.
        thenS (catchS (on_xray (update_user_op st (Some u))) (\<lambda>_. ret ()))
          (on_report (modS (user_data_reset_by_next ns u)))))"

text \<open>One active user: the new status, if the user is to be taken off the cores.\<close>

definition review_active :: "user_settings \<Rightarrow> notify_settings \<Rightarrow> int \<Rightarrow> int \<Rightarrow> bool world_op" where
  "review_active st ns now uid = bindS (on_session (the_user uid)) (\<lambda>u.
     if plan_fires now u then thenS (reset_user_by_next_report st ns now uid) (ret False)
     else if over_limit_user u \<or> past_expiry now u then
       (let status = (if over_limit_user u then Limited else Expired) in
        thenS (on_session (update_user_status now False uid status))
        (bindS (on_session (the_user uid)) (\<lambda>u'.
          thenS (on_report (status_change ns (u_name u') status u' None)) (ret True))))
     else thenS (if ns_webhooks ns \<noteq> [] then add_notification_reminders st ns now uid else ret ()) (ret False))"

definition BATCH_SIZE :: nat where
  "BATCH_SIZE = 500"

text \<open>
  A loop over the users that commits after every \<open>BATCH_SIZE\<close> changes and collects the changed users;
  \<open>tail\<close> is what follows the commit.
\<close>

fun review_loop :: "(int \<Rightarrow> bool world_op) \<Rightarrow> (int \<Rightarrow> unit world_op) \<Rightarrow> nat \<Rightarrow> int list \<Rightarrow> int list \<Rightarrow> int list world_op" where
  "review_loop one tail changed gone [] = ret gone"
| "review_loop one tail changed gone (uid # uids) = bindS (one uid) (\<lambda>change.
     if \<not> change then review_loop one tail changed gone uids
     else thenS (if changed + 1 \<ge> BATCH_SIZE then on_session commit else ret ())
       (thenS (tail uid)
         (review_loop one tail (if changed + 1 \<ge> BATCH_SIZE then 0 else changed + 1) (gone @ [uid]) uids)))"

definition starts_now :: "int \<Rightarrow> user_row \<Rightarrow> bool" where
  "starts_now now u \<longleftrightarrow>
     (let base_time = (case u_edit_at u of Some t \<Rightarrow> t | None \<Rightarrow> u_created_at u) in
      (case u_online_at u of Some t \<Rightarrow> base_time \<le> t | None \<Rightarrow> False) \<or>
      (case u_on_hold_timeout u of Some t \<Rightarrow> t \<le> now | None \<Rightarrow> False))"

definition review_on_hold :: "int \<Rightarrow> int \<Rightarrow> bool world_op" where
  "review_on_hold now uid = bindS (on_session (the_user uid)) (\<lambda>u.
     if \<not> starts_now now u then ret False
     else thenS (on_session (update_user_status now False uid Active))
       (thenS (on_session (start_user_expire now False uid)) (ret True)))"

definition report_started :: "notify_settings \<Rightarrow> int \<Rightarrow> unit world_op" where
  "report_started ns uid = bindS (on_session (the_user uid)) (\<lambda>u.
     on_report (status_change ns (u_name u) Active u None))"

definition ids_with_status :: "user_status \<Rightarrow> user_db \<Rightarrow> int list" where
  "ids_with_status s db = sort (map u_id (filter (\<lambda>u. u_status u = s) (ud_users db)))"

definition take_off_cores :: "user_settings \<Rightarrow> int list \<Rightarrow> unit world_op" where
  "take_off_cores st uids = seqW (\<lambda>uid. bindS (on_session (the_user uid)) (\<lambda>u.
     catchS (on_xray (remove_user_op st (Some u))) (\<lambda>_. ret ()))) uids"

definition review :: "user_settings \<Rightarrow> notify_settings \<Rightarrow> int \<Rightarrow> unit world_op" where
  "review st ns now =
     bindS (on_session (get_db (ids_with_status Active))) (\<lambda>active.
     bindS (review_loop (review_active st ns now) (\<lambda>_. ret ()) 0 [] active) (\<lambda>gone.
     thenS (on_session commit)
     (thenS (take_off_cores st gone)
     (bindS (on_session (get_db (ids_with_status OnHold))) (\<lambda>held.
     bindS (review_loop (review_on_hold now) (report_started ns) 0 [] held) (\<lambda>_. on_session commit))))))"

section \<open>Periodic reset and automatic deletion\<close>

fun reset_days :: "reset_strategy \<Rightarrow> int option" where
  "reset_days NoReset = None"
| "reset_days Daily = Some 1"
| "reset_days Weekly = Some 7"
| "reset_days Monthly = Some 30"
| "reset_days Yearly = Some 365"

definition periodic_candidates :: "user_db \<Rightarrow> int list" where
  "periodic_candidates db =
     map u_id (filter (\<lambda>u. u_status u \<in> {Active, Limited} \<and> u_strategy u \<noteq> NoReset) (ud_users db))"

definition reset_due :: "int \<Rightarrow> user_row \<Rightarrow> bool" where
  "reset_due now u \<longleftrightarrow> (case reset_days (u_strategy u) of
     None \<Rightarrow> False | Some d \<Rightarrow> (now - last_traffic_reset_time u) div 86400 \<ge> d)"

definition periodic_reset_one :: "user_settings \<Rightarrow> int \<Rightarrow> int \<Rightarrow> unit world_op" where
  "periodic_reset_one st now uid = bindS (on_session (the_user uid)) (\<lambda>u.
     if \<not> reset_due now u then ret ()
     else thenS (on_session (reset_user_data_usage now uid))
       (bindS (on_session (the_user uid)) (\<lambda>u'.
          if u_status u' = Limited then on_xray (add_user st (Some u')) else ret ())))"

definition periodic_reset :: "user_settings \<Rightarrow> int \<Rightarrow> unit world_op" where
  "periodic_reset st now = bindS (on_session (get_db periodic_candidates)) (seqW (periodic_reset_one st now))"

definition remove_expired_users :: "user_settings \<Rightarrow> notify_settings \<Rightarrow> int \<Rightarrow> bool \<Rightarrow> unit world_op" where
  "remove_expired_users st ns now include_limited =
     bindS (on_session (autodelete_expired_users st now include_limited)) (\<lambda>deleted.
       seqW (\<lambda>u. on_report (modS (user_deleted ns (u_name u) ''system''))) deleted)"

section \<open>One user at a time\<close>

definition replace_row :: "int \<Rightarrow> user_row \<Rightarrow> user_row list \<Rightarrow> user_row list" where
  "replace_row uid v = map (\<lambda>x. if u_id x = uid then v else x)"

abbreviation users_of :: "world \<Rightarrow> user_row list" where
  "users_of w \<equiv> ud_users (se_db (wd_session w))"

definition row_is :: "int \<Rightarrow> user_row \<Rightarrow> world \<Rightarrow> bool" where
  "row_is uid u w \<longleftrightarrow> find_user (se_db (wd_session w)) uid = Some u \<and> distinct (map u_id (users_of w))"

text \<open>\<open>m\<close>, started where the row of \<open>uid\<close> is \<open>u\<close>, leaves \<open>v\<close> there and every other row as it was.\<close>

definition becomes :: "int \<Rightarrow> user_row \<Rightarrow> user_row \<Rightarrow> 'a world_op \<Rightarrow> ('a \<Rightarrow> bool) \<Rightarrow> bool" where
  "becomes uid u v m Q \<longleftrightarrow> (\<forall>w x w'. row_is uid u w \<longrightarrow> m w = (Inr x, w') \<longrightarrow>
     users_of w' = replace_row uid v (users_of w) \<and> row_is uid v w' \<and> Q x)"

lemma unique_row:
  assumes "row_is uid u w" and "x \<in> set (users_of w)" and "u_id x = uid"
  shows "x = u"
proof -
  from assms(1) have "u \<in> set (users_of w)" "u_id u = uid" "inj_on u_id (set (users_of w))"
    by (auto simp: row_is_def find_user_def find_Some_iff distinct_map)
  with assms(2,3) show ?thesis by (auto dest: inj_onD)
qed

lemma replace_row_same: "row_is uid u w \<Longrightarrow> replace_row uid u (users_of w) = users_of w"
  unfolding replace_row_def by (rule map_idI) (auto dest: unique_row)

lemma becomes_same:
  assumes "\<And>w r w'. m w = (r, w') \<Longrightarrow> users_of w' = users_of w"
  shows "becomes uid u u m (\<lambda>_. True)"
  unfolding becomes_def
proof (intro allI impI)
  fix w x w' assume "row_is uid u w" "m w = (Inr x, w')"
  moreover from assms [OF this(2)] this(1) have "row_is uid u w'" by (simp add: row_is_def find_user_def)
  ultimately show "users_of w' = replace_row uid u (users_of w) \<and> row_is uid u w' \<and> True"
    using assms replace_row_same by simp
qed

lemma becomes_ret: "Q x \<Longrightarrow> becomes uid u u (ret x) Q"
  by (auto simp: becomes_def ret_def replace_row_same)

lemma becomes_bind:
  assumes "becomes uid u v m Q'" and "\<And>x. Q' x \<Longrightarrow> becomes uid v z (f x) Q"
  shows "becomes uid u z (bindS m f) Q"
  unfolding becomes_def
proof (intro allI impI)
  fix w y w'' assume u: "row_is uid u w" and run: "bindS m f w = (Inr y, w'')"
  then obtain x w' where m: "m w = (Inr x, w')" and f: "f x w' = (Inr y, w'')"
    by (auto simp: bindS_def split: prod.splits sum.splits)
  from assms(1) u m have v: "users_of w' = replace_row uid v (users_of w)" "row_is uid v w'" "Q' x"
    by (auto simp: becomes_def)
  from assms(2) [OF v(3)] v(2) f have "users_of w'' = replace_row uid z (users_of w') \<and> row_is uid z w'' \<and> Q y"
    by (auto simp: becomes_def)
  moreover from v(2) have "u_id v = uid" by (auto simp: row_is_def dest: find_user_id)
  ultimately show "users_of w'' = replace_row uid z (users_of w) \<and> row_is uid z w'' \<and> Q y"
    using v(1) by (auto simp: replace_row_def)
qed

lemma becomes_raise: "(\<And>w. \<exists>e w'. m w = (Inl e, w')) \<Longrightarrow> becomes uid u v m Q"
  unfolding becomes_def by (metis old.sum.distinct(2) prod.inject)

lemma becomes_weaken: "becomes uid u v m Q' \<Longrightarrow> (\<And>x. Q' x \<Longrightarrow> Q x) \<Longrightarrow> becomes uid u v m Q"
  unfolding becomes_def by blast

lemma becomes_put:
  assumes "\<And>x. u_id (f x) = u_id x"
  shows "becomes uid u (f u) (on_session (put_user uid f)) (\<lambda>_. True)"
  unfolding becomes_def
proof (intro allI impI)
  fix w x w' assume u: "row_is uid u w" and "on_session (put_user uid f) w = (Inr x, w')"
  then have w': "users_of w' = map (\<lambda>x. if u_id x = uid then f x else x) (users_of w)"
    by (auto simp: on_session_def put_user_def mod_db_def modS_def set_user_def)
  have "users_of w' = replace_row uid (f u) (users_of w)"
    using unique_row [OF u] by (auto simp: w' replace_row_def)
  moreover have "row_is uid (f u) w'"
  proof -
    have "map u_id (users_of w') = map u_id (users_of w)"
      using assms by (simp add: w')
    moreover have "find_user (se_db (wd_session w')) uid = find_user (set_user uid f (se_db (wd_session w))) uid"
      by (simp add: find_user_def set_user_def w')
    then have "find_user (se_db (wd_session w')) uid = Some (f u)"
      using u by (auto simp: row_is_def find_set_user [OF assms] dest: find_user_id)
    ultimately show ?thesis
      using u by (simp add: row_is_def)
  qed
  ultimately show "users_of w' = replace_row uid (f u) (users_of w) \<and> row_is uid (f u) w' \<and> True" by simp
qed

lemma becomes_the_user:
  assumes "becomes uid u v (f u) Q"
  shows "becomes uid u v (bindS (on_session (the_user uid)) f) Q"
proof -
  have "bindS (on_session (the_user uid)) f w = f u w" if "row_is uid u w" for w
    using that by (simp add: row_is_def on_session_def the_user_def get_db_def eff_defs)
  with assms show ?thesis by (auto simp: becomes_def)
qed

section \<open>What a review makes of a user\<close>

definition by_next_plan :: "int \<Rightarrow> next_plan \<Rightarrow> user_row \<Rightarrow> user_row" where
  "by_next_plan now p u = next_plan_row p (if np_add_remaining p then 0 else or0 (u_limit u) - u_used u)
     ((log_reset now u)\<lparr>u_node_usages := [], u_status := Active\<rparr>)"

definition with_status :: "int \<Rightarrow> user_status \<Rightarrow> user_row \<Rightarrow> user_row" where
  "with_status now s u = u\<lparr>u_status := s, u_last_status_change := Some now\<rparr>"

definition reviewed_active :: "int \<Rightarrow> user_row \<Rightarrow> user_row" where
  "reviewed_active now u =
     (if plan_fires now u then by_next_plan now (the (u_next_plan u)) u
      else if over_limit_user u then with_status now Limited u
      else if past_expiry now u then with_status now Expired u
      else u)"

definition started :: "int \<Rightarrow> user_row \<Rightarrow> user_row" where
  "started now u = (if starts_now now u
     then (with_status now Active u)\<lparr>u_expire := Some (now + or0 (u_on_hold_duration u)), u_on_hold_duration := None, u_on_hold_timeout := None\<rparr>
     else u)"

lemma keeps_on_session: "follows same_users m \<Longrightarrow> on_session m w = (r, w') \<Longrightarrow> users_of w' = users_of w"
  by (auto simp: on_session_def follows_def same_users_def split: prod.splits) (metis snd_conv)

lemma becomes_same_users: "follows same_users m \<Longrightarrow> becomes uid u u (on_session m) (\<lambda>_. True)"
  by (rule becomes_same) (rule keeps_on_session)

lemma on_session_bind: "on_session (bindS m f) = bindS (on_session m) (\<lambda>x. on_session (f x))"
  by (rule ext) (simp add: on_session_def bindS_def split: prod.split sum.split)

lemma on_session_ret: "on_session (ret x) = ret x"
  by (rule ext) (simp add: on_session_def ret_def)

lemma on_session_if: "on_session (if b then m else n) = (if b then on_session m else on_session n)"
  by simp

lemma on_session_throw: "on_session (throw e) = throw e"
  by (rule ext) (simp add: on_session_def throw_def)

lemmas on_session_simps = on_session_bind on_session_ret on_session_throw

lemma users_on_xray: "on_xray m w = (r, w') \<Longrightarrow> users_of w' = users_of w"
  by (auto simp: on_xray_def split: prod.splits)

lemma users_on_report: "on_report m w = (r, w') \<Longrightarrow> users_of w' = users_of w"
  by (auto simp: on_report_def split: prod.splits)

lemma becomes_xray: "becomes uid u u (catchS (on_xray m) (\<lambda>_. ret ())) (\<lambda>_. True)"
  by (rule becomes_same) (auto simp: catchS_def ret_def split: prod.splits sum.splits dest: users_on_xray)

lemma becomes_report: "becomes uid u u (on_report m) (\<lambda>_. True)"
  by (rule becomes_same) (rule users_on_report)

lemma becomes_then: "becomes uid u v m (\<lambda>_. True) \<Longrightarrow> becomes uid v z n Q \<Longrightarrow> becomes uid u z (thenS m n) Q"
  by (rule becomes_bind) auto

lemma becomes_throw: "becomes uid u v (throw e) Q"
  by (rule becomes_raise) (simp add: throw_def)

lemma becomes_reset_by_next:
  assumes "u_next_plan u = Some p"
  shows "becomes uid u (by_next_plan now p u) (on_session (reset_user_by_next now False uid)) (\<lambda>_. True)"
proof -
  let ?u1 = "(log_reset now u)\<lparr>u_node_usages := [], u_status := Active\<rparr>"
  have put1: "becomes uid u ?u1 (on_session (put_user uid (\<lambda>u. (log_reset now u)\<lparr>u_node_usages := [], u_status := Active\<rparr>))) (\<lambda>_. True)"
    by (rule becomes_put) (simp add: log_reset_def)
  have put2: "becomes uid ?u1 (next_plan_row p left ?u1) (on_session (put_user uid (next_plan_row p left))) (\<lambda>_. True)" for left
    by (rule becomes_put) (simp add: next_plan_row_def)
  show ?thesis
  proof (cases "np_add_remaining p")
    case True
    with becomes_then [OF put1 put2] assms show ?thesis
      unfolding reset_user_by_next_def on_session_bind
      by (intro becomes_the_user) (simp add: on_session_simps by_next_plan_def)
  next
    case False
    show ?thesis
    proof (cases "u_limit u")
      case None
      with False assms show ?thesis
        unfolding reset_user_by_next_def on_session_bind
        by (intro becomes_the_user) (auto simp: on_session_simps intro!: becomes_then [OF put1] becomes_throw)
    next
      case (Some l)
      with False becomes_then [OF put1 put2] assms show ?thesis
        unfolding reset_user_by_next_def on_session_bind
        by (intro becomes_the_user) (simp add: on_session_simps by_next_plan_def)
    qed
  qed
qed

lemma becomes_update_status:
  "becomes uid u (with_status now s u) (on_session (update_user_status now False uid s)) (\<lambda>_. True)"
  unfolding update_user_status_def on_session_bind with_status_def
  by (simp add: on_session_ret) (rule becomes_put; simp)

lemma su_create_reminder: "follows same_users (create_notification_reminder ty e uid k)"
  unfolding create_notification_reminder_def by (auto intro!: su_basic)

lemma becomes_notify:
  assumes "\<And>s q r s' q'. m (s, q) = (r, s', q') \<Longrightarrow> same_users s s'"
  shows "becomes uid u u (on_notify m) (\<lambda>_. True)"
  by (rule becomes_same) (auto simp: on_notify_def same_users_def dest: assms split: prod.splits)

lemma same_users_reports:
  "data_usage_percent_reached ns p v k (s, q) = (r, s', q') \<Longrightarrow> same_users s s'"
  "expire_days_reached ns d v e k (s, q) = (r, s', q') \<Longrightarrow> same_users s s'"
  by (auto simp: data_usage_percent_reached_def expire_days_reached_def on_queue_def on_db_def eff_defs su.refl_R
      dest: followsD [OF su_create_reminder] split: prod.splits sum.splits if_splits)

lemma becomes_remind:
  assumes "\<And>s q r s' q'. m (s, q) = (r, s', q') \<Longrightarrow> same_users s s'"
  shows "becomes uid u u (bindS (on_session (get_notification_reminder now uid ty k))
    (\<lambda>r. if r = None then on_notify m else ret ())) (\<lambda>_. True)"
  by (rule becomes_bind [OF becomes_same_users [OF su_get_reminder]])
    (auto intro!: becomes_ret becomes_notify dest: assms)

lemma becomes_reminders: "becomes uid u u (add_notification_reminders st ns now uid) (\<lambda>_. True)"
proof -
  have a: "becomes uid u u (remind_usage st ns now uid) (\<lambda>_. True)"
    unfolding remind_usage_def Let_def
    by (rule becomes_the_user)
      (auto split: option.split intro!: becomes_ret becomes_remind dest: same_users_reports)
  have b: "becomes uid u u (remind_expiry st ns now uid) (\<lambda>_. True)"
    unfolding remind_expiry_def Let_def
    by (rule becomes_the_user)
      (auto split: option.split intro!: becomes_ret becomes_remind dest: same_users_reports)
  show ?thesis
    unfolding add_notification_reminders_def by (rule becomes_then [OF a b])
qed

lemma becomes_next_report:
  assumes "u_next_plan u = Some p"
  shows "becomes uid u (by_next_plan now p u) (reset_user_by_next_report st ns now uid) (\<lambda>_. True)"
  unfolding reset_user_by_next_report_def
  by (rule becomes_then [OF becomes_reset_by_next [OF assms]], rule becomes_the_user)
    (rule becomes_then [OF becomes_xray becomes_report])

definition taken_off :: "int \<Rightarrow> user_row \<Rightarrow> bool" where
  "taken_off now u \<longleftrightarrow> \<not> plan_fires now u \<and> (over_limit_user u \<or> past_expiry now u)"

lemma becomes_review_active:
  "becomes uid u (reviewed_active now u) (review_active st ns now uid) (\<lambda>change. change = taken_off now u)"
  unfolding review_active_def
proof (rule becomes_the_user)
  let ?status = "if over_limit_user u then Limited else Expired"
  have off: "becomes uid u (with_status now ?status u)
      (thenS (on_session (update_user_status now False uid ?status))
        (bindS (on_session (the_user uid)) (\<lambda>u'. thenS (on_report (status_change ns (u_name u') ?status u' None)) (ret True))))
      (\<lambda>c. c)"
    by (rule becomes_then [OF becomes_update_status becomes_the_user]) (rule becomes_then [OF becomes_report becomes_ret], rule TrueI)
  have keep: "becomes uid u u (thenS (if ns_webhooks ns \<noteq> [] then add_notification_reminders st ns now uid else ret ()) (ret False)) (\<lambda>c. \<not> c)"
    by (rule becomes_then) (auto intro: becomes_reminders becomes_ret)
  show "becomes uid u (reviewed_active now u)
      (if plan_fires now u then thenS (reset_user_by_next_report st ns now uid) (ret False)
       else if over_limit_user u \<or> past_expiry now u then
         (let status = ?status in thenS (on_session (update_user_status now False uid status))
          (bindS (on_session (the_user uid)) (\<lambda>u'. thenS (on_report (status_change ns (u_name u') status u' None)) (ret True))))
       else thenS (if ns_webhooks ns \<noteq> [] then add_notification_reminders st ns now uid else ret ()) (ret False))
      (\<lambda>change. change = taken_off now u)"
  proof (cases "plan_fires now u")
    case True
    then obtain p where p: "u_next_plan u = Some p" by (auto simp: plan_fires_def split: option.splits)
    from True p show ?thesis
      by (auto simp: reviewed_active_def taken_off_def intro!: becomes_then [OF becomes_next_report] becomes_ret)
  next
    case False
    with off keep show ?thesis
      by (auto simp: reviewed_active_def taken_off_def Let_def elim: becomes_weaken)
  qed
qed

lemma becomes_start_expire:
  assumes "u_on_hold_duration u = Some d"
  shows "becomes uid u (u\<lparr>u_expire := Some (now + d), u_on_hold_duration := None, u_on_hold_timeout := None\<rparr>)
    (on_session (start_user_expire now False uid)) (\<lambda>_. True)"
  unfolding start_user_expire_def on_session_bind
  by (rule becomes_the_user) (simp add: assms on_session_simps, rule becomes_put, simp)

lemma becomes_review_on_hold:
  "becomes uid u (started now u) (review_on_hold now uid) (\<lambda>change. change = starts_now now u)"
  unfolding review_on_hold_def
proof (rule becomes_the_user)
  show "becomes uid u (started now u)
      (if \<not> starts_now now u then ret False
       else thenS (on_session (update_user_status now False uid Active))
         (thenS (on_session (start_user_expire now False uid)) (ret True))) (\<lambda>change. change = starts_now now u)"
  proof (cases "u_on_hold_duration u")
    case None
    have "becomes uid (with_status now Active u) v (on_session (start_user_expire now False uid)) Q" for v Q
      unfolding start_user_expire_def on_session_bind
      by (rule becomes_the_user) (simp add: None with_status_def on_session_simps becomes_throw)
    then show ?thesis
      by (auto simp: started_def intro!: becomes_ret becomes_then [OF becomes_update_status] becomes_then)
  next
    case (Some d)
    then have "u_on_hold_duration (with_status now Active u) = Some d" by (simp add: with_status_def)
    note later = becomes_then [OF becomes_update_status becomes_then [OF becomes_start_expire [OF this] becomes_ret]]
    from Some show ?thesis
      by (auto simp: started_def intro!: becomes_ret later)
  qed
qed

section \<open>The loops\<close>

definition updated_ids :: "(user_row \<Rightarrow> user_row) \<Rightarrow> int list \<Rightarrow> user_row list \<Rightarrow> user_row list" where
  "updated_ids g ids = map (\<lambda>u. if u_id u \<in> set ids then g u else u)"

definition wf_users :: "world \<Rightarrow> bool" where
  "wf_users w \<longleftrightarrow> distinct (map u_id (users_of w))"

lemma row_of_id: "wf_users w \<Longrightarrow> uid \<in> set (map u_id (users_of w)) \<Longrightarrow> \<exists>u. row_is uid u w"
proof -
  assume w: "wf_users w" and "uid \<in> set (map u_id (users_of w))"
  then have "find (\<lambda>u. u_id u = uid) (users_of w) \<noteq> None" by (auto simp: find_None_iff)
  with w show ?thesis by (auto simp: row_is_def wf_users_def find_user_def)
qed

lemma review_loop_updates:
  assumes one: "\<And>uid u. becomes uid u (g u) (one uid) (\<lambda>c. c = ch u)"
    and tail: "\<And>uid r w w'. tail uid w = (r, w') \<Longrightarrow> users_of w' = users_of w"
    and id: "\<And>u. u_id (g u) = u_id u"
  shows "review_loop one tail k gone ids w = (Inr gone', w') \<Longrightarrow> distinct ids \<Longrightarrow> wf_users w \<Longrightarrow>
    set ids \<subseteq> set (map u_id (users_of w)) \<Longrightarrow>
    users_of w' = updated_ids g ids (users_of w) \<and>
    gone' = gone @ filter (\<lambda>uid. \<exists>u \<in> set (users_of w). u_id u = uid \<and> ch u) ids"
proof (induction ids arbitrary: k gone w)
  case Nil
  then show ?case by (simp add: ret_def updated_ids_def)
next
  case (Cons uid uids)
  then obtain u where u: "row_is uid u w" using row_of_id [of w uid] by auto
  obtain c w1 where c: "one uid w = (Inr c, w1)"
    using Cons.prems(1) by (auto simp: bindS_def split: prod.splits sum.splits)
  have w1: "users_of w1 = replace_row uid (g u) (users_of w)" "c = ch u"
    using one [of uid u] u c by (auto simp: becomes_def)
  have uid: "u_id u = uid" "u \<in> set (users_of w)"
    using u by (auto simp: row_is_def find_user_def find_Some_iff)
  have only: "x = u" if "x \<in> set (users_of w)" "u_id x = uid" for x
    using unique_row [OF u that] .
  have ids1: "map u_id (users_of w1) = map u_id (users_of w)"
    using uid id by (auto simp: w1 replace_row_def)
  obtain k2 gone2 w2 where rest: "review_loop one tail k2 gone2 uids w2 = (Inr gone', w')"
    and w2: "users_of w2 = users_of w1" and g2: "gone2 = gone @ (if c then [uid] else [])"
  proof (cases c)
    case False
    with Cons.prems(1) c have "review_loop one tail k gone uids w1 = (Inr gone', w')" by (simp add: bindS_def)
    with that False show thesis by auto
  next
    case True
    let ?commit = "if k + 1 \<ge> BATCH_SIZE then on_session commit else ret ()"
    let ?k = "if k + 1 \<ge> BATCH_SIZE then 0 else k + 1"
    from Cons.prems(1) c True obtain wa wb where a: "?commit w1 = (Inr (), wa)" and b: "tail uid wa = (Inr (), wb)"
      and l: "review_loop one tail ?k (gone @ [uid]) uids wb = (Inr gone', w')"
      by (auto simp: bindS_def split: prod.splits sum.splits)
    from a have "users_of wa = users_of w1"
      using keeps_on_session [OF su_commit] by (auto simp: ret_def split: if_splits)
    with tail [OF b] that [OF l] True show thesis by simp
  qed
  have wf2: "wf_users w2" "set uids \<subseteq> set (map u_id (users_of w2))"
    using Cons.prems(3,4) ids1 by (simp_all add: wf_users_def w2 del: set_map)
  from Cons.IH [OF rest] Cons.prems(2) wf2 have ih:
    "users_of w' = updated_ids g uids (users_of w2)"
    "gone' = gone2 @ filter (\<lambda>uid. \<exists>u \<in> set (users_of w2). u_id u = uid \<and> ch u) uids"
    by auto
  have "users_of w' = updated_ids g (uid # uids) (users_of w)"
    unfolding ih(1) w2 w1(1) updated_ids_def replace_row_def map_map comp_def
  proof (rule map_cong [OF refl])
    fix x assume x: "x \<in> set (users_of w)"
    show "(if u_id (if u_id x = uid then g u else x) \<in> set uids then g (if u_id x = uid then g u else x)
        else if u_id x = uid then g u else x) = (if u_id x \<in> set (uid # uids) then g x else x)"
    proof (cases "u_id x = uid")
      case True
      with only [OF x] Cons.prems(2) uid(1) id show ?thesis by simp
    qed simp
  qed
  moreover have "filter (\<lambda>v. \<exists>u \<in> set (users_of w2). u_id u = v \<and> ch u) uids =
      filter (\<lambda>v. \<exists>u \<in> set (users_of w). u_id u = v \<and> ch u) uids"
    using Cons.prems(2) uid id by (intro filter_cong) (auto simp: w2 w1 replace_row_def)
  moreover have "(\<exists>x \<in> set (users_of w). u_id x = uid \<and> ch x) \<longleftrightarrow> ch u" using only uid by blast
  ultimately show ?case by (simp add: ih(2) g2 w1(2))
qed

lemma row_of_member: "wf_users w \<Longrightarrow> u \<in> set (users_of w) \<Longrightarrow> row_is (u_id u) u w"
proof -
  assume w: "wf_users w" "u \<in> set (users_of w)"
  then obtain v where v: "row_is (u_id u) v w" using row_of_id [of w "u_id u"] by auto
  with unique_row [OF v w(2)] show ?thesis by simp
qed

lemma ids_with_status: "set (ids_with_status s db) = u_id ` {u \<in> set (ud_users db). u_status u = s}"
  "distinct (map u_id (ud_users db)) \<Longrightarrow> distinct (ids_with_status s db)"
  by (auto simp: ids_with_status_def distinct_map_filter)

definition reviewed :: "int \<Rightarrow> user_row \<Rightarrow> user_row" where
  "reviewed now u = (case u_status u of Active \<Rightarrow> reviewed_active now u | OnHold \<Rightarrow> started now u | _ \<Rightarrow> u)"

lemma reviewed_active_keeps:
  "u_id (reviewed_active now u) = u_id u"
  "u_status u = Active \<Longrightarrow> u_status (reviewed_active now u) \<in> {Active, Limited, Expired}"
  by (auto simp: reviewed_active_def by_next_plan_def next_plan_row_def log_reset_def with_status_def)

lemma active_not_held: "u_status u = Active \<Longrightarrow> u_status (reviewed_active now u) \<noteq> OnHold"
  using reviewed_active_keeps(2) [of u now] by auto

lemma started_id: "u_id (started now u) = u_id u"
  by (simp add: started_def with_status_def)

lemma bind_run: "bindS m f w = (Inr y, w') \<Longrightarrow> \<exists>x w1. m w = (Inr x, w1) \<and> f x w1 = (Inr y, w')"
  by (auto simp: bindS_def split: prod.splits sum.splits)

lemma get_run: "on_session (get_db f) w = (Inr x, w1) \<Longrightarrow> x = f (se_db (wd_session w)) \<and> w1 = w"
  by (auto simp: on_session_def get_db_def eff_defs)

lemma commit_run: "on_session commit w = (Inr x, w1) \<Longrightarrow>
    se_db (wd_session w1) = se_db (wd_session w) \<and> se_saved (wd_session w1) = se_db (wd_session w) \<and>
    wd_xray w1 = wd_xray w \<and> wd_notify w1 = wd_notify w"
  by (auto simp: on_session_def commit_def modS_def)

text \<open>Taking users off the cores: nothing else changes, and each gets its removal tasks.\<close>

definition offers_removal :: "user_settings \<Rightarrow> user_row \<Rightarrow> world \<Rightarrow> bool" where
  "offers_removal st u w \<longleftrightarrow>
     (\<forall>tag \<in> set (user_inbound_tags st u). RemoveTask MainCore tag (email_of u) \<in> set (xm_tasks (wd_xray w)))"

lemma removal_tasks: "tag \<in> set (user_inbound_tags st u) \<Longrightarrow> RemoveTask MainCore tag (email_of u) \<in> set (remove_tasks st u s)"
  by (auto simp: remove_tasks_def remove_targets_def Let_def cores_def image_iff)

lemma take_off_run:
  "take_off_cores st uids w = (Inr (), w') \<Longrightarrow>
   wd_session w' = wd_session w \<and> wd_notify w' = wd_notify w \<and> set (xm_tasks (wd_xray w)) \<subseteq> set (xm_tasks (wd_xray w')) \<and>
   (\<forall>uid \<in> set uids. \<forall>u. find_user (se_db (wd_session w)) uid = Some u \<longrightarrow> offers_removal st u w')"
proof (induction uids arbitrary: w)
  case Nil
  then show ?case by (simp add: take_off_cores_def ret_def)
next
  case (Cons uid uids)
  let ?one = "bindS (on_session (the_user uid)) (\<lambda>u. catchS (on_xray (remove_user_op st (Some u))) (\<lambda>_. ret ()))"
  from Cons.prems have "thenS ?one (take_off_cores st uids) w = (Inr (), w')" by (simp add: take_off_cores_def)
  from bind_run [OF this] obtain w1 where one: "?one w = (Inr (), w1)" and rest: "take_off_cores st uids w1 = (Inr (), w')"
    by auto
  from one obtain u where u: "find_user (se_db (wd_session w)) uid = Some u"
    by (auto simp: on_session_def the_user_def get_db_def eff_defs split: option.splits)
  obtain s' where s': "remove_user_op st (Some u) (wd_xray w) = (Inr (), s')"
      "xm_tasks s' = xm_tasks (wd_xray w) @ remove_tasks st u (wd_xray w)"
    using remove_user_op_tasks [of st u "wd_xray w"] by blast
  have w1: "w1 = w\<lparr>wd_xray := s'\<rparr>"
    using one u s' by (simp add: on_session_def the_user_def get_db_def on_xray_def eff_defs)
  have "offers_removal st u w1"
    using removal_tasks by (auto simp: offers_removal_def w1 s'(2))
  with Cons.IH [OF rest] u show ?case
    by (auto simp: w1 s'(2) offers_removal_def subset_iff)
qed

abbreviation loop_keeps_xray :: "'a world_op \<Rightarrow> bool" where
  "loop_keeps_xray \<equiv> follows (\<lambda>w w'. wd_xray w' = wd_xray w)"

interpretation sx: state_relation "\<lambda>w w'. wd_xray w' = wd_xray w"
  by unfold_locales simp_all

lemma sx_session: "loop_keeps_xray (on_session m)"
  by (simp add: follows_def on_session_def split: prod.split)

lemma sx_report: "loop_keeps_xray (on_report m)"
  by (simp add: follows_def on_report_def split: prod.split)

lemma sx_on_hold_loop: "loop_keeps_xray (review_loop (review_on_hold now) (report_started ns) k gone ids)"
proof (induction ids arbitrary: k gone)
  case (Cons uid uids)
  have one: "loop_keeps_xray (review_on_hold now uid)" "loop_keeps_xray (report_started ns uid)"
    unfolding review_on_hold_def report_started_def by (auto intro!: sx.f_intros sx_session sx_report)
  show ?case
    unfolding review_loop.simps by (intro sx.f_intros one sx_session Cons)
qed (simp add: sx.f_ret)

lemma users_report_started: "report_started ns uid w = (r, w') \<Longrightarrow> users_of w' = users_of w"
  unfolding report_started_def bindS_def
  by (auto split: prod.splits sum.splits dest: users_on_report simp: on_session_def the_user_def get_db_def eff_defs
      split: option.splits)

lemma review_run:
  assumes "review st ns now w = (Inr (), w')" and "wf_users w"
  shows "users_of w' = map (reviewed now) (users_of w) \<and> se_saved (wd_session w') = se_db (wd_session w') \<and>
    (\<forall>u \<in> set (users_of w). u_status u = Active \<and> taken_off now u \<longrightarrow> offers_removal st u w')"
proof -
  let ?db = "se_db (wd_session w)"
  let ?active = "ids_with_status Active ?db"
  from assms(1) obtain gone w1 w2 w3 held started' w4 where
    l1: "review_loop (review_active st ns now) (\<lambda>_. ret ()) 0 [] ?active w = (Inr gone, w1)" and
    c1: "on_session commit w1 = (Inr (), w2)" and off: "take_off_cores st gone w2 = (Inr (), w3)" and
    held: "held = ids_with_status OnHold (se_db (wd_session w3))" and
    l2: "review_loop (review_on_hold now) (report_started ns) 0 [] held w3 = (Inr started', w4)" and
    c2: "on_session commit w4 = (Inr (), w')"
    unfolding review_def by (auto dest!: bind_run get_run)
  have d: "distinct (map u_id (ud_users ?db))" using assms(2) by (simp add: wf_users_def)
  have u1: "users_of w1 = updated_ids (reviewed_active now) ?active (users_of w)"
    and gone: "gone = filter (\<lambda>uid. \<exists>u \<in> set (users_of w). u_id u = uid \<and> taken_off now u) ?active"
    using review_loop_updates [OF becomes_review_active _ reviewed_active_keeps(1) l1] ids_with_status d assms(2)
    by (auto simp: ret_def)
  note same = commit_run [OF c1] take_off_run [OF off]
  have active: "u_id u \<in> set ?active \<longleftrightarrow> u_status u = Active" if "u \<in> set (users_of w)" for u
    using that d by (auto simp: ids_with_status(1) distinct_map dest: inj_onD)
  have u3: "users_of w3 = map (\<lambda>u. if u_status u = Active then reviewed_active now u else u) (users_of w)"
    using same active by (auto simp: u1 updated_ids_def)
  have wf3: "wf_users w3"
    using d reviewed_active_keeps(1) by (simp add: wf_users_def u3 comp_def if_distrib cong: if_cong)
  have u4: "users_of w4 = updated_ids (started now) held (users_of w3)"
    by (rule review_loop_updates [OF becomes_review_on_hold _ started_id l2, THEN conjunct1])
      (use wf3 in \<open>simp_all add: held ids_with_status users_report_started wf_users_def image_mono\<close>)
  have on_hold: "u_id u \<in> set held \<longleftrightarrow> u_status u = OnHold" if "u \<in> set (users_of w3)" for u
    using that wf3 by (auto simp: held ids_with_status(1) wf_users_def distinct_map dest: inj_onD)
  have "users_of w' = map (\<lambda>u. if u_status u = OnHold then started now u else u) (users_of w3)"
    using commit_run [OF c2] on_hold by (auto simp: u4 updated_ids_def)
  also have "\<dots> = map (reviewed now) (users_of w)"
    using active_not_held by (auto simp: u3 reviewed_def split: user_status.split)
  finally have users: "users_of w' = map (reviewed now) (users_of w)" .
  moreover have "offers_removal st u w'" if u: "u \<in> set (users_of w)" "u_status u = Active" "taken_off now u" for u
  proof -
    have x: "wd_xray w' = wd_xray w3"
      using commit_run [OF c2] followsD [OF sx_on_hold_loop l2] by simp
    have v: "reviewed_active now u = with_status now (if over_limit_user u then Limited else Expired) u"
      using u(3) by (auto simp: reviewed_active_def taken_off_def)
    have "reviewed_active now u \<in> set (users_of w3)" using u by (auto simp: u3)
    from row_of_member [OF wf3 this] have "find_user (se_db (wd_session w3)) (u_id u) = Some (reviewed_active now u)"
      by (simp add: row_is_def reviewed_active_keeps)
    moreover have "u_id u \<in> set gone" using u active by (auto simp: gone)
    ultimately have "offers_removal st (reviewed_active now u) w3" using same by auto
    then show ?thesis
      by (simp add: offers_removal_def x v with_status_def email_of_def user_inbound_tags_def user_inbounds_def)
  qed
  ultimately show ?thesis
    using commit_run [OF c2] by simp
qed


section \<open>Where the jobs go wrong\<close>

text \<open>
  A user without a traffic limit whose plan expired and whose next plan does not carry the traffic
  over makes \<open>data_limit - used_traffic\<close> raise: the review stops there, for this user and all after it.
\<close>

definition steps :: "(user_row \<Rightarrow> user_row) \<Rightarrow> (user_row \<Rightarrow> bool) \<Rightarrow> (int \<Rightarrow> bool world_op) \<Rightarrow> (int \<Rightarrow> unit world_op) \<Rightarrow> bool" where
  "steps g ch one tail \<longleftrightarrow> (\<forall>uid u. becomes uid u (g u) (one uid) (\<lambda>c. c = ch u)) \<and>
     (\<forall>uid w. users_of (snd (tail uid w)) = users_of w)"

lemma review_loop_step:
  assumes s: "steps g ch one tail"
    and run: "review_loop one tail k gone (uid # uids) w = (Inr gone', w')" and u: "row_is uid u w"
  shows "\<exists>c w1 k2 gone2 w2. one uid w = (Inr c, w1) \<and> users_of w2 = replace_row uid (g u) (users_of w) \<and>
    row_is uid (g u) w2 \<and> review_loop one tail k2 gone2 uids w2 = (Inr gone', w')"
proof -
  obtain c w1 where c: "one uid w = (Inr c, w1)"
    using run by (auto simp: bindS_def split: prod.splits sum.splits)
  have w1: "users_of w1 = replace_row uid (g u) (users_of w)" "row_is uid (g u) w1"
    using s u c by (auto simp: becomes_def steps_def)
  show ?thesis
  proof (cases c)
    case False
    with run have "review_loop one tail k gone uids w1 = (Inr gone', w')" by (simp add: bindS_def c)
    with c w1 show ?thesis by blast
  next
    case True
    let ?commit = "if k + 1 \<ge> BATCH_SIZE then on_session commit else ret ()"
    let ?k = "if k + 1 \<ge> BATCH_SIZE then 0 else k + 1"
    from run c True obtain wa wb where a: "?commit w1 = (Inr (), wa)" and b: "tail uid wa = (Inr (), wb)"
      and l: "review_loop one tail ?k (gone @ [uid]) uids wb = (Inr gone', w')"
      by (auto simp: bindS_def split: prod.splits sum.splits)
    from a have "users_of wa = users_of w1"
      using keeps_on_session [OF su_commit] by (auto simp: ret_def split: if_splits)
    moreover from s b have "users_of wb = users_of wa" by (auto simp: steps_def) (metis snd_conv)
    ultimately have wb: "users_of wb = users_of w1" by simp
    with w1(2) have "row_is uid (g u) wb" by (simp add: row_is_def find_user_def)
    with c l wb w1(1) show ?thesis by fastforce
  qed
qed

lemma review_loop_reaches:
  assumes s: "steps g ch one tail"
  shows "review_loop one tail k gone ids w = (Inr gone', w') \<Longrightarrow> distinct ids \<Longrightarrow> wf_users w \<Longrightarrow>
    set ids \<subseteq> set (map u_id (users_of w)) \<Longrightarrow> uid \<in> set ids \<Longrightarrow> row_is uid u w \<Longrightarrow>
    \<exists>w1 c w2. row_is uid u w1 \<and> one uid w1 = (Inr c, w2)"
proof (induction ids arbitrary: k gone w)
  case (Cons v ids)
  then obtain x where x: "row_is v x w" using row_of_id [of w v] by auto
  from review_loop_step [OF s Cons.prems(1) x] obtain c w1 k2 gone2 w2 where
    c: "one v w = (Inr c, w1)" and w2: "users_of w2 = replace_row v (g x) (users_of w)" "row_is v (g x) w2" and
    rest: "review_loop one tail k2 gone2 ids w2 = (Inr gone', w')" by blast
  show ?case
  proof (cases "v = uid")
    case True
    with c Cons.prems(6) show ?thesis by blast
  next
    case False
    have gid: "u_id (g x) = v" using w2(2) by (auto simp: row_is_def dest: find_user_id)
    have ids: "map u_id (users_of w2) = map u_id (users_of w)" using gid by (auto simp: w2(1) replace_row_def)
    have u: "u \<in> set (users_of w)" "u_id u = uid"
      using Cons.prems(6) by (auto simp: row_is_def find_user_def find_Some_iff)
    then have "u \<in> set (users_of w2)"
      using False by (force simp: w2(1) replace_row_def)
    then have "row_is uid u w2"
      using row_of_member [of w2 u] Cons.prems(3) ids u(2) by (simp add: wf_users_def)
    with Cons.IH [OF rest] Cons.prems False ids show ?thesis
      by (simp add: wf_users_def del: set_map)
  qed
qed simp

lemma steps_active: "steps (reviewed_active now) (taken_off now) (review_active st ns now) (\<lambda>_. ret ())"
  by (simp add: steps_def becomes_review_active ret_def)

lemma unlimited_next_plan_raises:
  assumes "row_is uid u w" and "plan_fires now u" and "u_next_plan u = Some p" and "\<not> np_add_remaining p" and "u_limit u = None"
  shows "\<exists>w'. review_active st ns now uid w = (Inl (TypeError ''data_limit - used_traffic''), w')"
  using assms
  by (auto simp: row_is_def review_active_def reset_user_by_next_report_def reset_user_by_next_def on_session_def
      the_user_def get_db_def put_user_def mod_db_def eff_defs log_reset_def)

theorem unlimited_next_plan_stops_review:
  assumes "wf_users w" and "u \<in> set (users_of w)" and "u_status u = Active" and "plan_fires now u"
    and "u_next_plan u = Some p" and "\<not> np_add_remaining p" and "u_limit u = None"
  shows "review st ns now w \<noteq> (Inr (), w')"
proof
  assume "review st ns now w = (Inr (), w')"
  then obtain gone w1 where l1: "review_loop (review_active st ns now) (\<lambda>_. ret ()) 0 []
      (ids_with_status Active (se_db (wd_session w))) w = (Inr gone, w1)"
    unfolding review_def by (auto dest!: bind_run get_run)
  have row: "row_is (u_id u) u w" using row_of_member assms(1,2) by blast
  obtain w2 c w3 where w2: "row_is (u_id u) u w2" and c: "review_active st ns now (u_id u) w2 = (Inr c, w3)"
    using review_loop_reaches [OF steps_active l1 _ assms(1) _ _ row] ids_with_status assms(1-3)
    by (auto simp: wf_users_def)
  from unlimited_next_plan_raises [OF w2 assms(4-7)] obtain w4 where
    "review_active st ns now (u_id u) w2 = (Inl (TypeError ''data_limit - used_traffic''), w4)" by blast
  with c show False by simp
qed

text \<open>
  The periodic reset means to bring limited users back to the cores, but it looks at the status after the
  reset, which is never \<open>Limited\<close>: no run of the job touches the cores.
\<close>

lemma sx_periodic_one: "loop_keeps_xray (periodic_reset_one st now uid)"
  unfolding follows_def
proof
  fix w :: world
  let ?w1 = "w\<lparr>wd_session := (let db = reset_usage_db now uid (se_db (wd_session w)) in \<lparr>se_db = db, se_saved = db\<rparr>)\<rparr>"
  have run: "on_session (reset_user_data_usage now uid) w = (Inr (), ?w1)"
    by (simp add: on_session_def reset_user_data_usage_run Let_def)
  have the: "on_session (the_user uid) v =
      (case find_user (se_db (wd_session v)) uid of None \<Rightarrow> (Inl (AttributeError ''user''), v) | Some u \<Rightarrow> (Inr u, v))" for v
    by (simp add: on_session_def the_user_def get_db_def eff_defs split: option.split)
  have "u_status u' \<noteq> Limited" if "find_user (se_db (wd_session ?w1)) uid = Some u'" for u'
  proof -
    from that obtain u where "u' = reset_row now u"
      by (auto simp: Let_def find_reset_usage dest: find_user_id)
    then show ?thesis by (simp add: reset_row_status)
  qed
  then show "wd_xray (snd (periodic_reset_one st now uid w)) = wd_xray w"
    by (auto simp: periodic_reset_one_def bindS_def the run ret_def split: option.split)
qed

lemma sx_seqW: "(\<And>x. loop_keeps_xray (f x)) \<Longrightarrow> loop_keeps_xray (seqW f xs)"
  by (induction xs) (auto intro: sx.f_intros)

theorem periodic_reset_never_readds: "wd_xray (snd (periodic_reset st now w)) = wd_xray w"
proof -
  have "loop_keeps_xray (periodic_reset st now)"
    unfolding periodic_reset_def by (rule sx.f_bind [OF sx_session]) (rule sx_seqW [OF sx_periodic_one])
  then show ?thesis by (simp add: follows_def)
qed

definition sample_world :: world where
  "sample_world = \<lparr>wd_session = (let db = sample_users\<lparr>ud_users := [sample_user\<lparr>u_status := Active\<rparr>,
        sample_user\<lparr>u_id := 8, u_name := ''bob'', u_status := OnHold, u_on_hold_duration := Some 500, u_on_hold_timeout := Some 900\<rparr>]\<rparr>
      in \<lparr>se_db = db, se_saved = db\<rparr>),
     wd_notify = \<lparr>nq_queue = [], nq_chat = [], nq_posts = []\<rparr>, wd_xray = sample_mem\<rparr>"

lemma sample_review_runs: "fst (review sample_user_settings sample_notify 1000 sample_world) = Inr ()"
  by code_simp


end
