(* ===== verification/UserApi.thy ===== *)
theory UserApi
  imports ReviewUsers
begin

text \<open>
  The user endpoints of the panel (app/routers/user.py) with their access checks (app/dependencies.py):
  what a request by an administrator does to the database, the devices, the cores and the
  notifications. An endpoint ends with a response and the background tasks that follow it, or raises;
  the session is closed at the end, which forgets what was not committed. The catalogue of listing,
  pins and address history are in other theories; restarting the cores is left out.
\<close>

section \<open>Requests, responses and what surrounds them\<close>

record admin_user =
  am_name :: string
  am_sudo :: bool

text \<open>
  What the endpoints read besides the state: the configured settings, the administrators of the
  database by name, the clock, the generators of tokens and secrets, the pattern matching and the
  ordering of the database, and the parser of ISO dates. \<open>ae_hard_mode\<close> and
  \<open>ae_reset_on_prolong\<close> are settings of the user's bot.
\<close>

record api_env =
  ae_settings :: user_settings
  ae_notify :: notify_settings
  ae_admins :: "(string \<times> int) list"
  ae_now :: int
  ae_month :: ym
  ae_token :: "string \<Rightarrow> string"
  ae_fresh :: "proxy_type \<Rightarrow> string"
  ae_hard_mode :: "user_row \<Rightarrow> bool"
  ae_reset_on_prolong :: "user_row \<Rightarrow> bool"
  ae_like :: "string \<Rightarrow> string \<Rightarrow> bool"
  ae_order :: "string list \<Rightarrow> user_row list \<Rightarrow> user_row list"
  ae_isoparse :: "string \<Rightarrow> int option"

datatype api_error =
    HTTPException int string
  | Unhandled py_error

datatype response =
    RUser user_row
  | RUsers "string list"
  | RDevices "device list"
  | RDetail string
  | RTraffic "int \<times> int \<times> int \<times> int"
  | RPage "string list" int
  | RDigest "(string \<times> user_status \<times> int option) list" int

type_synonym 'a api_op = "(world, api_error, 'a) eff"

type_synonym endpoint = "(response \<times> unit world_op list) api_op"

definition lift_api :: "'a world_op \<Rightarrow> 'a api_op" where
  "lift_api m = (\<lambda>w. case m w of (Inl e, w') \<Rightarrow> (Inl (Unhandled e), w') | (Inr x, w') \<Rightarrow> (Inr x, w'))"

definition in_db :: "'a db_op \<Rightarrow> 'a api_op" where
  "in_db m = lift_api (on_session m)"

definition abort :: "int \<Rightarrow> string \<Rightarrow> 'a api_op" where
  "abort code detail = throw (HTTPException code detail)"

text \<open>Starlette runs the background tasks one after another; one that raises stops the rest.\<close>

fun run_tasks :: "unit world_op list \<Rightarrow> world \<Rightarrow> world" where
  "run_tasks [] w = w"
| "run_tasks (t # ts) w = (case t w of (Inl e, w') \<Rightarrow> w' | (Inr _, w') \<Rightarrow> run_tasks ts w')"

definition close_session :: "world \<Rightarrow> world" where
  "close_session w = w\<lparr>wd_session := (wd_session w)\<lparr>se_db := se_saved (wd_session w)\<rparr>\<rparr>"

definition respond :: "endpoint \<Rightarrow> world \<Rightarrow> (api_error + response) \<times> world" where
  "respond ep w = (case ep w of
     (Inl e, w') \<Rightarrow> (Inl e, close_session w')
   | (Inr (r, tasks), w') \<Rightarrow> (Inr r, close_session (run_tasks tasks w')))"

section \<open>Access\<close>

definition get_admin :: "api_env \<Rightarrow> string \<Rightarrow> int option" where
  "get_admin env name = dget (ae_admins env) name"

definition admin_name :: "api_env \<Rightarrow> int option \<Rightarrow> string option" where
  "admin_name env a = (case a of None \<Rightarrow> None | Some i \<Rightarrow> map_option fst (find (\<lambda>p. snd p = i) (ae_admins env)))"

text \<open>The name column ignores case.\<close>

definition get_user :: "user_db \<Rightarrow> string \<Rightarrow> user_row option" where
  "get_user db username = find (\<lambda>u. map lower_char (u_name u) = map lower_char username) (ud_users db)"

definition get_validated_user :: "api_env \<Rightarrow> admin_user \<Rightarrow> string \<Rightarrow> user_row api_op" where
  "get_validated_user env am username = bindS (in_db (get_db (\<lambda>db. get_user db username))) (\<lambda>r. case r of
     None \<Rightarrow> abort 404 ''User not found''
   | Some u \<Rightarrow> if am_sudo am \<or> admin_name env (u_admin u) = Some (am_name am) then ret u
       else abort 403 ''not allowed'')"

definition check_sudo_admin :: "admin_user \<Rightarrow> unit api_op" where
  "check_sudo_admin am = (if am_sudo am then ret () else abort 403 ''not allowed'')"

section \<open>Background tasks\<close>

definition xray_task :: "(user_row option \<Rightarrow> unit xray_op) \<Rightarrow> int \<Rightarrow> unit world_op" where
  "xray_task f uid = bindS (on_session (the_user uid)) (\<lambda>u. on_xray (f (Some u)))"

definition notify_task :: "(notify_state \<Rightarrow> notify_state) \<Rightarrow> unit world_op" where
  "notify_task f = on_report (modS f)"

section \<open>Endpoints\<close>

definition protocol_disabled :: "api_env \<Rightarrow> (proxy_type \<times> obj) list \<Rightarrow> bool" where
  "protocol_disabled env proxies \<longleftrightarrow> list_ex (\<lambda>(t, _). us_by_protocol (ae_settings env) t = []) proxies"

definition add_user_api :: "api_env \<Rightarrow> admin_user \<Rightarrow> user_create \<Rightarrow> endpoint" where
  "add_user_api env am c =
     (if protocol_disabled env (uc_proxies c) then abort 400 ''Protocol is disabled''
      else bindS (catchS (in_db (create_user (ae_settings env) (ae_token env) (ae_now env) (get_admin env (am_name am)) c))
        (\<lambda>e. case e of
           Unhandled (RuntimeError _) \<Rightarrow> thenS (in_db rollback) (abort 409 ''User already exists'')
         | Unhandled (ValueError m) \<Rightarrow> thenS (in_db rollback) (abort 400 m)
         | _ \<Rightarrow> throw e)) (\<lambda>uid.
      bindS (in_db (the_user uid)) (\<lambda>u.
      thenS (lift_api (notify_task (user_created (ae_notify env) u (am_name am))))
        (ret (RUser u, [xray_task (add_user (ae_settings env)) uid])))))"

definition get_user_api :: "api_env \<Rightarrow> admin_user \<Rightarrow> string \<Rightarrow> endpoint" where
  "get_user_api env am username = bindS (get_validated_user env am username) (\<lambda>u.
     thenS (in_db (ensure_subscription_token (ae_token env) (u_id u)))
       (bindS (in_db (the_user (u_id u))) (\<lambda>u'. ret (RUser u', []))))"

definition devices_of :: "(device_db \<Rightarrow> 'a) \<Rightarrow> 'a api_op" where
  "devices_of f = in_db (get_db (\<lambda>db. f (ud_devices db)))"

definition put_devices :: "(device_db \<Rightarrow> device_db) \<Rightarrow> unit api_op" where
  "put_devices f = in_db (thenS (mod_db (\<lambda>db. db\<lparr>ud_devices := f (ud_devices db)\<rparr>)) commit)"

definition list_devices_api :: "api_env \<Rightarrow> admin_user \<Rightarrow> string \<Rightarrow> endpoint" where
  "list_devices_api env am username = bindS (get_validated_user env am username) (\<lambda>u.
     bindS (devices_of (\<lambda>d. get_user_devices d (u_id u))) (\<lambda>ds. ret (RDevices ds, [])))"

definition add_device_api :: "api_env \<Rightarrow> admin_user \<Rightarrow> string \<Rightarrow> string \<Rightarrow> device_info \<Rightarrow> endpoint" where
  "add_device_api env am username hwid info = bindS (get_validated_user env am username) (\<lambda>u.
     bindS (devices_of (\<lambda>d. (count_user_devices d (u_id u), create_user_device d (u_id u) hwid info (ae_now env)))) (\<lambda>(n, created).
     if ae_hard_mode env u \<and> truthy_int (u_device_limit u) \<and> n \<ge> or0 (u_device_limit u) then abort 403 ''Device limit reached''
     else (case created of
         None \<Rightarrow> thenS (in_db rollback) (abort 409 ''Device already exists'')
       | Some d \<Rightarrow> thenS (put_devices (\<lambda>_. d)) (ret (RDetail ''device added'', [])))))"

definition update_device_api :: "api_env \<Rightarrow> admin_user \<Rightarrow> string \<Rightarrow> int \<Rightarrow> string option \<Rightarrow> device_info \<Rightarrow> endpoint" where
  "update_device_api env am username did hwid info = bindS (get_validated_user env am username) (\<lambda>u.
     bindS (devices_of (\<lambda>d. (get_user_device d (u_id u) did,
         if truthy_str hwid then get_user_device_by_hwid d (u_id u) (the hwid) else None))) (\<lambda>(dbdevice, existing).
     case dbdevice of
       None \<Rightarrow> abort 404 ''Device not found''
     | Some dv \<Rightarrow> if existing \<noteq> None \<and> dv_id (the existing) \<noteq> dv_id dv then abort 409 ''Device already exists''
         else thenS (put_devices (\<lambda>d. update_user_device d did hwid info (ae_now env))) (ret (RDetail ''device updated'', []))))"

definition delete_device_api :: "api_env \<Rightarrow> admin_user \<Rightarrow> string \<Rightarrow> int \<Rightarrow> endpoint" where
  "delete_device_api env am username did = bindS (get_validated_user env am username) (\<lambda>u.
     bindS (devices_of (\<lambda>d. get_user_device d (u_id u) did)) (\<lambda>dbdevice. case dbdevice of
       None \<Rightarrow> abort 404 ''Device not found''
     | Some dv \<Rightarrow> thenS (put_devices (\<lambda>d. delete_user_device d did)) (ret (RDetail ''Device successfully deleted'', []))))"

definition modify_user_api :: "api_env \<Rightarrow> admin_user \<Rightarrow> string \<Rightarrow> user_modify \<Rightarrow> endpoint" where
  "modify_user_api env am username m = bindS (get_validated_user env am username) (\<lambda>u.
     if protocol_disabled env (um_proxies m) then abort 400 ''Protocol is disabled''
     else bindS (catchS (in_db (modify_user_endpoint (ae_settings env) (ae_now env) (ae_month env) (u_id u) m))
        (\<lambda>e. case e of Unhandled (ValueError d) \<Rightarrow> abort 400 d | _ \<Rightarrow> throw e)) (\<lambda>_.
     bindS (in_db (the_user (u_id u))) (\<lambda>u'.
       ret (RUser u',
         [xray_task (if u_status u' \<in> {Active, OnHold} then update_user_op (ae_settings env) else remove_user_op (ae_settings env)) (u_id u),
          notify_task (user_updated (ae_notify env) u' (am_name am))] @
         (if u_status u' \<noteq> u_status u
          then [on_report (status_change (ae_notify env) (u_name u') (u_status u') u' (Some (am_name am)))] else [])))))"

text \<open>
  The deleted object keeps the row it was loaded with; \<open>Admin.model_validate(dbuser.admin)\<close> raises
  when the user has no administrator, after the deletion was committed.
\<close>

definition remove_user_api :: "api_env \<Rightarrow> admin_user \<Rightarrow> string \<Rightarrow> endpoint" where
  "remove_user_api env am username = bindS (get_validated_user env am username) (\<lambda>u.
     thenS (in_db (remove_user (u_id u)))
       (if admin_name env (u_admin u) = None then throw (Unhandled (ValueError ''Admin''))
        else ret (RDetail ''User successfully deleted'',
          [on_xray (remove_user_op (ae_settings env) (Some u)),
           notify_task (user_deleted (ae_notify env) (u_name u) (am_name am))])))"

definition reset_usage_api :: "api_env \<Rightarrow> admin_user \<Rightarrow> string \<Rightarrow> endpoint" where
  "reset_usage_api env am username = bindS (get_validated_user env am username) (\<lambda>u.
     thenS (in_db (reset_user_data_usage (ae_now env) (u_id u)))
     (bindS (in_db (the_user (u_id u))) (\<lambda>u'.
       ret (RUser u', (if u_status u' \<in> {Active, OnHold} then [xray_task (add_user (ae_settings env)) (u_id u)] else []) @
         [notify_task (user_data_usage_reset (ae_notify env) u' (am_name am))]))))"

definition revoke_sub_api :: "api_env \<Rightarrow> admin_user \<Rightarrow> string \<Rightarrow> endpoint" where
  "revoke_sub_api env am username = bindS (get_validated_user env am username) (\<lambda>u.
     thenS (in_db (revoke_user_sub (ae_settings env) (ae_fresh env) (ae_now env) (ae_month env) (u_id u)))
     (bindS (in_db (the_user (u_id u))) (\<lambda>u'.
       ret (RUser u', (if u_status u' \<in> {Active, OnHold} then [xray_task (update_user_op (ae_settings env)) (u_id u)] else []) @
         [notify_task (user_subscription_revoked (ae_notify env) u' (am_name am))]))))"

definition rotate_api :: "api_env \<Rightarrow> admin_user \<Rightarrow> string \<Rightarrow> endpoint" where
  "rotate_api env am username = bindS (get_validated_user env am username) (\<lambda>u.
     thenS (in_db (rotate_user_addresses (ae_now env) (u_id u)))
     (bindS (in_db (the_user (u_id u))) (\<lambda>u'. ret (RUser u', []))))"

text \<open>The code tests for the next plan after it was applied, when it is always gone.\<close>

definition active_next_api :: "api_env \<Rightarrow> admin_user \<Rightarrow> string \<Rightarrow> endpoint" where
  "active_next_api env am username = bindS (get_validated_user env am username) (\<lambda>u.
     thenS (in_db (reset_user_by_next (ae_now env) True (u_id u)))
     (bindS (in_db (the_user (u_id u))) (\<lambda>u'.
       if u_next_plan u' = None then abort 404 ''User doesn't have next plan''
       else ret (RUser u', (if u_status u' \<in> {Active, OnHold} then [xray_task (add_user (ae_settings env)) (u_id u)] else []) @
         [notify_task (user_data_reset_by_next (ae_notify env) u')]))))"

definition bs_extra_api :: "api_env \<Rightarrow> admin_user \<Rightarrow> string \<Rightarrow> int option \<Rightarrow> bool \<Rightarrow> endpoint" where
  "bs_extra_api env am username delta_bytes reset = bindS (get_validated_user env am username) (\<lambda>u.
     if \<not> reset \<and> delta_bytes = None then abort 400 ''delta_bytes or reset''
     else if reset \<and> delta_bytes \<noteq> None then abort 400 ''delta_bytes with reset''
     else bindS (in_db (get_db bs_view)) (\<lambda>bs.
       case modify_user_bs_extra (ae_reset_on_prolong env u) bs (u_id u) delta_bytes reset (ae_month env) of
         Inl (ValueError d) \<Rightarrow> abort 400 d
       | Inl e \<Rightarrow> throw (Unhandled e)
       | Inr bs' \<Rightarrow> thenS (in_db (thenS (mod_db (write_pool (u_id u) bs')) commit))
           (bindS (in_db (the_user (u_id u))) (\<lambda>u'. ret (RUser u', [])))))"

definition bs_traffic_api :: "api_env \<Rightarrow> admin_user \<Rightarrow> string \<Rightarrow> endpoint" where
  "bs_traffic_api env am username = bindS (get_validated_user env am username) (\<lambda>u.
     bindS (in_db (get_db bs_view)) (\<lambda>bs.
       let s = get_bs_state bs (u_id u) (ae_month env) in
       ret (RTraffic (st_monthly_used s, st_monthly_limit s, st_limit_total s, st_pool s), [])))"

definition set_owner_api :: "api_env \<Rightarrow> admin_user \<Rightarrow> string \<Rightarrow> string \<Rightarrow> endpoint" where
  "set_owner_api env am username new_admin = bindS (get_validated_user env am username) (\<lambda>u.
     thenS (check_sudo_admin am)
     (case get_admin env new_admin of
        None \<Rightarrow> abort 404 ''Admin not found''
      | Some a \<Rightarrow> thenS (in_db (set_owner (u_id u) (Some a)))
          (bindS (in_db (the_user (u_id u))) (\<lambda>u'. ret (RUser u', [])))))"

section \<open>Listing\<close>

record user_query =
  uq_offset :: "int option"
  uq_limit :: "int option"
  uq_names :: "string list"
  uq_search :: "string option"
  uq_bot :: "string option"
  uq_status :: "user_status option"
  uq_sort :: "string list"
  uq_admins :: "string list"

text \<open>The characters of \<open>normalize_users_search\<close> below code point 256: the no-break space is a space.\<close>

definition normalize_users_search :: "string option \<Rightarrow> string option" where
  "normalize_users_search search = (case search of None \<Rightarrow> None | Some s \<Rightarrow>
     (let s' = strip (map (\<lambda>c. if c = char_of (160 :: nat) then CHR '' '' else c) s) in if s' = [] then None else Some s'))"

definition bot_filter :: "user_db \<Rightarrow> string option \<Rightarrow> user_row \<Rightarrow> bool" where
  "bot_filter db bot_username u = (case bot_username of None \<Rightarrow> True | Some b \<Rightarrow>
     normalize_bot_username b = [] \<or> (u_bot u \<noteq> None \<and> u_bot u = dget (ud_bots db) (normalize_bot_username b)))"

definition admin_in :: "api_env \<Rightarrow> string list \<Rightarrow> user_row \<Rightarrow> bool" where
  "admin_in env names u \<longleftrightarrow> (case admin_name env (u_admin u) of None \<Rightarrow> False | Some n \<Rightarrow> n \<in> set names)"

definition page :: "int \<Rightarrow> int \<Rightarrow> 'a list \<Rightarrow> 'a list" where
  "page offset limit xs = (let ys = drop (nat offset) xs in if limit = 0 then ys else take (nat limit) ys)"

definition get_users :: "api_env \<Rightarrow> user_query \<Rightarrow> user_db \<Rightarrow> user_row list \<times> int" where
  "get_users env q db =
     (let matches = (\<lambda>u.
            (case normalize_users_search (uq_search q) of None \<Rightarrow> True
             | Some s \<Rightarrow> ae_like env (''%'' @ s @ ''%'') (u_name u) \<or>
                 (case u_note u of None \<Rightarrow> False | Some n \<Rightarrow> ae_like env (''%'' @ s @ ''%'') n)) \<and>
            (uq_names q = [] \<or> map lower_char (u_name u) \<in> set (map (map lower_char) (uq_names q))) \<and>
            bot_filter db (uq_bot q) u \<and>
            (case uq_status q of None \<Rightarrow> True | Some s \<Rightarrow> u_status u = s) \<and>
            (uq_admins q = [] \<or> admin_in env (uq_admins q) u));
          found = filter matches (ud_users db);
          ordered = (if uq_sort q = [] then found else ae_order env (uq_sort q) found)
      in (page (or0 (uq_offset q)) (or0 (uq_limit q)) ordered, int (length found)))"

definition sort_options :: "string list" where
  "sort_options = [''username'', ''used_traffic'', ''data_limit'', ''expire'', ''created_at'',
     ''-username'', ''-used_traffic'', ''-data_limit'', ''-expire'', ''-created_at'']"

text \<open>\<open>sort.strip(",").split(",")\<close>.\<close>

definition strip_commas :: "string \<Rightarrow> string" where
  "strip_commas s = rev (dropWhile (\<lambda>c. c = CHR '','') (rev (dropWhile (\<lambda>c. c = CHR '','') s)))"

fun seq_api :: "('a \<Rightarrow> unit api_op) \<Rightarrow> 'a list \<Rightarrow> unit api_op" where
  "seq_api f [] = ret ()"
| "seq_api f (x # xs) = thenS (f x) (seq_api f xs)"

definition get_users_api :: "api_env \<Rightarrow> admin_user \<Rightarrow> user_query \<Rightarrow> string option \<Rightarrow> string list \<Rightarrow> endpoint" where
  "get_users_api env am q sorting owner =
     (let opts = (case sorting of None \<Rightarrow> [] | Some s \<Rightarrow> split_on (CHR '','') (strip_commas s)) in
      if \<not> set opts \<subseteq> set sort_options then abort 400 ''not a valid sort option''
      else bindS (in_db (get_db (get_users env (q\<lparr>uq_sort := opts, uq_admins := (if am_sudo am then owner else [am_name am])\<rparr>)))) (\<lambda>(users, total).
        thenS (seq_api (\<lambda>u. in_db (ensure_subscription_token (ae_token env) (u_id u))) users)
          (ret (RPage (map u_name users) total, []))))"

text \<open>\<open>get_users_digest\<close>: here a limit of zero returns no user.\<close>

definition digest :: "api_env \<Rightarrow> string list \<Rightarrow> string option \<Rightarrow> int option \<Rightarrow> int option \<Rightarrow> user_db \<Rightarrow>
    (string \<times> user_status \<times> int option) list \<times> int" where
  "digest env admins bt offset limit db =
     (let found = sort_key u_id (filter (\<lambda>u. bot_filter db bt u \<and> (admins = [] \<or> admin_in env admins u)) (ud_users db));
          skipped = drop (nat (or0 offset)) found;
          shown = (case limit of None \<Rightarrow> skipped | Some n \<Rightarrow> take (nat n) skipped)
      in (map (\<lambda>u. (u_name u, u_status u, u_expire u)) shown, int (length found)))"

definition digest_api :: "api_env \<Rightarrow> admin_user \<Rightarrow> string option \<Rightarrow> int option \<Rightarrow> int option \<Rightarrow> endpoint" where
  "digest_api env am bt offset limit =
     bindS (in_db (get_db (digest env (if am_sudo am then [] else [am_name am]) bt offset limit)))
       (\<lambda>(users, total). ret (RDigest users total, []))"

section \<open>Expired users\<close>

datatype date_arg =
    NoDate
  | DateText string
  | NaiveDate int
  | AwareDate int

text \<open>\<open>datetime.fromisoformat(text).astimezone(UTC)\<close>; comparing a naive with an aware date raises.\<close>

definition parse_date :: "api_env \<Rightarrow> date_arg \<Rightarrow> (date_arg option) result" where
  "parse_date env d = (case d of
     NoDate \<Rightarrow> Inr None
   | DateText s \<Rightarrow> if s = [] then Inr None else (case ae_isoparse env s of None \<Rightarrow> Inl (ValueError s) | Some t \<Rightarrow> Inr (Some (AwareDate t)))
   | _ \<Rightarrow> Inr (Some d))"

fun date_ts :: "date_arg \<Rightarrow> int" where
  "date_ts (NaiveDate t) = t"
| "date_ts (AwareDate t) = t"
| "date_ts _ = 0"

fun date_less :: "date_arg \<Rightarrow> date_arg \<Rightarrow> bool result" where
  "date_less (NaiveDate a) (NaiveDate b) = Inr (a < b)"
| "date_less (AwareDate a) (AwareDate b) = Inr (a < b)"
| "date_less _ _ = Inl (TypeError ''offset-naive and offset-aware'')"

definition validate_dates :: "api_env \<Rightarrow> date_arg \<Rightarrow> date_arg \<Rightarrow> (date_arg \<times> date_arg) api_op" where
  "validate_dates env start' end' =
     (case parse_date env start' of
        Inl _ \<Rightarrow> abort 400 ''Invalid date range or format''
      | Inr s \<Rightarrow>
          (let start_date = (case s of None \<Rightarrow> AwareDate (ae_now env - 30 * 86400) | Some d \<Rightarrow> d) in
           case parse_date env end' of
             Inl _ \<Rightarrow> abort 400 ''Invalid date range or format''
           | Inr None \<Rightarrow> ret (start_date, AwareDate (ae_now env))
           | Inr (Some end_date) \<Rightarrow>
               (case date_less end_date start_date of
                  Inl e \<Rightarrow> throw (Unhandled e)
                | Inr True \<Rightarrow> abort 400 ''Start date must be before end date''
                | Inr False \<Rightarrow> ret (start_date, end_date))))"

definition expired_users_list :: "api_env \<Rightarrow> admin_user \<Rightarrow> date_arg \<Rightarrow> date_arg \<Rightarrow> user_db \<Rightarrow> user_row list" where
  "expired_users_list env am after before db =
     (let dbadmin = (if am_sudo am then None else get_admin env (am_name am)) in
      filter (\<lambda>u. u_status u \<in> {Expired, Limited} \<and> (dbadmin = None \<or> u_admin u = dbadmin) \<and>
          truthy_int (u_expire u) \<and> date_ts after \<le> or0 (u_expire u) \<and> or0 (u_expire u) \<le> date_ts before) (ud_users db))"

definition get_expired_api :: "api_env \<Rightarrow> admin_user \<Rightarrow> date_arg \<Rightarrow> date_arg \<Rightarrow> endpoint" where
  "get_expired_api env am after before = bindS (validate_dates env after before) (\<lambda>(a, b).
     bindS (in_db (get_db (expired_users_list env am a b))) (\<lambda>us. ret (RUsers (map u_name us), [])))"

definition delete_expired_api :: "api_env \<Rightarrow> admin_user \<Rightarrow> date_arg \<Rightarrow> date_arg \<Rightarrow> endpoint" where
  "delete_expired_api env am after before = bindS (validate_dates env after before) (\<lambda>(a, b).
     bindS (in_db (get_db (expired_users_list env am a b))) (\<lambda>us.
       if us = [] then abort 404 ''No expired users found''
       else thenS (in_db (remove_users (map u_id us)))
         (ret (RUsers (map u_name us),
           map (\<lambda>u. notify_task (user_deleted (ae_notify env) (u_name u) (am_name am))) us))))"

section \<open>All endpoints together\<close>

datatype request =
    AddUserReq user_create
  | GetUserReq string
  | ListDevicesReq string
  | AddDeviceReq string string device_info
  | UpdateDeviceReq string int "string option" device_info
  | DeleteDeviceReq string int
  | ModifyUserReq string user_modify
  | RemoveUserReq string
  | ResetUsageReq string
  | RevokeSubReq string
  | RotateReq string
  | ActiveNextReq string
  | BsExtraReq string "int option" bool
  | BsTrafficReq string
  | SetOwnerReq string string
  | GetUsersReq user_query "string option" "string list"
  | DigestReq "string option" "int option" "int option"
  | GetExpiredReq date_arg date_arg
  | DeleteExpiredReq date_arg date_arg

fun endpoint_of :: "api_env \<Rightarrow> admin_user \<Rightarrow> request \<Rightarrow> endpoint" where
  "endpoint_of env am (AddUserReq c) = add_user_api env am c"
| "endpoint_of env am (GetUserReq n) = get_user_api env am n"
| "endpoint_of env am (ListDevicesReq n) = list_devices_api env am n"
| "endpoint_of env am (AddDeviceReq n hwid info) = add_device_api env am n hwid info"
| "endpoint_of env am (UpdateDeviceReq n did hwid info) = update_device_api env am n did hwid info"
| "endpoint_of env am (DeleteDeviceReq n did) = delete_device_api env am n did"
| "endpoint_of env am (ModifyUserReq n m) = modify_user_api env am n m"
| "endpoint_of env am (RemoveUserReq n) = remove_user_api env am n"
| "endpoint_of env am (ResetUsageReq n) = reset_usage_api env am n"
| "endpoint_of env am (RevokeSubReq n) = revoke_sub_api env am n"
| "endpoint_of env am (RotateReq n) = rotate_api env am n"
| "endpoint_of env am (ActiveNextReq n) = active_next_api env am n"
| "endpoint_of env am (BsExtraReq n d r) = bs_extra_api env am n d r"
| "endpoint_of env am (BsTrafficReq n) = bs_traffic_api env am n"
| "endpoint_of env am (SetOwnerReq n a) = set_owner_api env am n a"
| "endpoint_of env am (GetUsersReq q s owner) = get_users_api env am q s owner"
| "endpoint_of env am (DigestReq b skip top_n) = digest_api env am b skip top_n"
| "endpoint_of env am (GetExpiredReq a b) = get_expired_api env am a b"
| "endpoint_of env am (DeleteExpiredReq a b) = delete_expired_api env am a b"

definition handle_request :: "api_env \<Rightarrow> admin_user \<Rightarrow> request \<Rightarrow> world \<Rightarrow> (api_error + response) \<times> world" where
  "handle_request env am req w = respond (endpoint_of env am req) w"

end
