(* ===== verification/UserFrame.thy ===== *)
theory UserFrame
  imports Users
begin

text \<open>
  What a change of a user leaves alone, whatever the relation is that says so: the locale asks for the
  steps a change is made of, and gives the change as a whole. It is instantiated by the identity of a
  user here, and by the users of others in theory UserIsolation.
\<close>

text \<open>An update of tables other than users and devices.\<close>

definition other_tables :: "(user_db \<Rightarrow> user_db) \<Rightarrow> bool" where
  "other_tables f \<longleftrightarrow> (\<forall>db. ud_users (f db) = ud_users db \<and> ud_devices (f db) = ud_devices db)"

definition ident :: "user_row \<Rightarrow> int \<times> string \<times> int \<times> int option \<times> string option" where
  "ident u = (u_id u, u_name u, u_created_at u, u_sub_revoked_at u, u_token u)"

locale user_frame = state_relation R for R :: "session \<Rightarrow> session \<Rightarrow> bool" +
  fixes uid :: int
  assumes R_commit: "follows R commit"
    and R_other: "other_tables f \<Longrightarrow> follows R (mod_db f)"
    and R_put: "(\<And>u. ident (g u) = ident u) \<Longrightarrow> follows R (put_user uid g)"
begin

lemma fr_get: "follows R (get_db f)"
  by (simp add: follows_def get_db_def eff_defs refl_R)

lemma fr_the: "follows R (the_user v)"
  unfolding the_user_def by (auto intro!: f_intros fr_get split: option.split)

lemmas fr_basic = f_intros R_commit fr_get fr_the

lemma fr_seqS: "(\<And>x. x \<in> set xs \<Longrightarrow> follows R (f x)) \<Longrightarrow> follows R (seqS f xs)"
  by (induction xs) (auto intro!: fr_basic)

lemma fr_whenSome: "(\<And>v. follows R (f v)) \<Longrightarrow> follows R (whenSome x f)"
  unfolding whenSome_def by (auto intro!: fr_basic split: option.split)

lemma fr_inbound: "follows R (get_or_create_inbound tag)"
  unfolding get_or_create_inbound_def by (auto intro!: fr_basic R_other simp: other_tables_def)

lemma fr_drop_reminder: "follows R (drop_reminder_if now v ty c k)"
proof -
  have del: "follows R (delete_notification_reminder r)" for r
    unfolding delete_notification_reminder_def by (intro fr_basic R_other) (simp add: other_tables_def)
  have "follows R (get_notification_reminder now v ty k)" for k
    unfolding get_notification_reminder_def by (auto intro!: fr_basic del split: option.split)
  with del show ?thesis unfolding drop_reminder_if_def by (auto intro!: fr_basic split: option.split)
qed

lemma fr_pool: "follows R (mod_db (write_pool uid bs))"
proof (cases "get_user_by_id bs uid")
  case None
  then have "other_tables (write_pool uid bs)" by (simp add: other_tables_def write_pool_def)
  then show ?thesis by (rule R_other)
next
  case (Some b)
  then have "mod_db (write_pool uid bs) = put_user uid (\<lambda>u. u\<lparr>u_bs_extra := bu_extra b, u_bs_period := bu_extra_period b\<rparr>)"
    by (simp add: put_user_def write_pool_def fun_eq_iff mod_db_def)
  then show ?thesis by (simp add: R_put ident_def)
qed

lemma fr_put: "(\<And>u. ident (f u) = ident u) \<Longrightarrow> follows R (put_user uid f)"
  by (rule R_put)

lemmas fr_parts = fr_basic fr_put fr_seqS fr_whenSome fr_inbound fr_drop_reminder fr_pool

lemma fr_update_user: "follows R (update_user st now yq uid m)"
proof -
  have "follows R (update_excluded uid old tt)" for old tt
    unfolding update_excluded_def by (auto intro!: fr_parts simp: ident_def split: prod.split)
  moreover have "follows R (update_proxies uid ps)" for ps
    unfolding update_proxies_def by (auto intro!: fr_parts simp: ident_def)
  moreover have "follows R (update_data_limit st now uid l)" for l
    unfolding update_data_limit_def by (auto intro!: fr_parts simp: ident_def)
  moreover have "follows R (update_expire st now uid e)" for e
    unfolding update_expire_def by (auto intro!: fr_parts simp: ident_def)
  moreover have "follows R (update_bot uid b)" for b
    unfolding update_bot_def by (auto intro!: fr_parts simp: ident_def split: option.split)
  moreover have "follows R (update_bs uid yq m)"
    unfolding update_bs_def by (auto intro!: fr_parts split: option.split sum.split)
  ultimately show ?thesis
    unfolding update_user_def by (auto intro!: fr_parts simp: ident_def update_plan_fields_def)
qed

end

section \<open>The identity of the users\<close>

definition same_ident :: "session \<Rightarrow> session \<Rightarrow> bool" where
  "same_ident s s' \<longleftrightarrow> map ident (ud_users (se_db s')) = map ident (ud_users (se_db s))"

interpretation si: user_frame same_ident uid for uid
proof unfold_locales
  show "follows same_ident commit" by (simp add: follows_def commit_def modS_def same_ident_def)
  show "other_tables f \<Longrightarrow> follows same_ident (mod_db f)" for f
    by (simp add: follows_def mod_db_def modS_def same_ident_def other_tables_def)
  show "(\<And>u. ident (f u) = ident u) \<Longrightarrow> follows same_ident (put_user uid f)" for f
    by (auto simp: follows_def put_user_def mod_db_def modS_def same_ident_def set_user_def)
qed (auto simp: same_ident_def)

text \<open>A change of a user never touches names, creation, revocation or tokens.\<close>

lemma update_user_keeps_ident:
  "update_user st now yq uid m s = (r, s') \<Longrightarrow> map ident (ud_users (se_db s')) = map ident (ud_users (se_db s))"
  using followsD [OF si.fr_update_user] by (simp add: same_ident_def)

end
