(* ===== verification/UserIsolation.thy ===== *)
theory UserIsolation
  imports UserApi UserFrame
begin

text \<open>
  What holds of every user endpoint: an administrator who is not sudo leaves the users of others, and
  their devices, alone. The frame is proved operation by operation with the relation calculus of
  theory Effects, for an arbitrary set of user ids that may be touched.
\<close>

section \<open>The frame\<close>

definition keeps_others :: "int set \<Rightarrow> user_db \<Rightarrow> user_db \<Rightarrow> bool" where
  "keeps_others own db db' \<longleftrightarrow>
     (\<forall>u \<in> set (ud_users db). u_id u \<notin> own \<longrightarrow> u \<in> set (ud_users db')) \<and>
     (\<forall>d \<in> set (dd_rows (ud_devices db)). dv_user d \<notin> own \<longrightarrow> d \<in> set (dd_rows (ud_devices db')))"

text \<open>Both copies of the session keep what was there in the beginning.\<close>

definition shields :: "int set \<Rightarrow> session \<Rightarrow> session \<Rightarrow> bool" where
  "shields own s s' \<longleftrightarrow> (\<forall>db. keeps_others own db (se_db s) \<and> keeps_others own db (se_saved s) \<longrightarrow>
     keeps_others own db (se_db s') \<and> keeps_others own db (se_saved s'))"

lemma keeps_others_refl: "keeps_others own db db"
  by (simp add: keeps_others_def)

lemma keeps_others_trans: "keeps_others own a b \<Longrightarrow> keeps_others own b c \<Longrightarrow> keeps_others own a c"
  by (auto simp: keeps_others_def)

interpretation sh: state_relation "shields own" for own
  by unfold_locales (auto simp: shields_def)

lemma sh_commit: "follows (shields own) commit"
  by (simp add: follows_def commit_def modS_def shields_def)

lemma sh_rollback: "follows (shields own) rollback"
  by (simp add: follows_def rollback_def modS_def shields_def)

lemma sh_get: "follows (shields own) (get_db f)"
  by (simp add: follows_def get_db_def eff_defs shields_def)

lemma sh_mod: "(\<And>db. keeps_others own db (f db)) \<Longrightarrow> follows (shields own) (mod_db f)"
  unfolding follows_def mod_db_def modS_def shields_def using keeps_others_trans by fastforce

lemma sh_the: "follows (shields own) (the_user uid)"
  unfolding the_user_def by (auto intro!: sh.f_intros sh_get split: option.split)

lemma sh_put: "uid \<in> own \<Longrightarrow> follows (shields own) (put_user uid f)"
  unfolding put_user_def by (rule sh_mod) (force simp: keeps_others_def set_user_def image_iff)

lemma sh_other: "other_tables f \<Longrightarrow> follows (shields own) (mod_db f)"
  by (rule sh_mod) (simp add: other_tables_def keeps_others_def)

lemmas sh_basic = sh.f_intros sh_commit sh_rollback sh_get sh_the

lemma sh_seqS: "(\<And>x. x \<in> set xs \<Longrightarrow> follows (shields own) (f x)) \<Longrightarrow> follows (shields own) (seqS f xs)"
  by (induction xs) (auto intro!: sh_basic)

lemma sh_inbound: "follows (shields own) (get_or_create_inbound tag)"
  unfolding get_or_create_inbound_def by (auto intro!: sh_basic sh_other simp: other_tables_def)

section \<open>Operations on one user\<close>

lemma frame_of: "uid \<in> own \<Longrightarrow> user_frame (shields own) uid"
  by (unfold_locales) (simp_all add: sh_commit sh_other sh_put)

lemma sh_update_user: "uid \<in> own \<Longrightarrow> follows (shields own) (update_user st now yq uid m)"
  by (rule user_frame.fr_update_user [OF frame_of])

lemma sh_modify_endpoint:
  "uid \<in> own \<Longrightarrow> follows (shields own) (modify_user_endpoint st now yq uid m)"
  unfolding modify_user_endpoint_def by (auto intro!: sh_basic sh_update_user split: py_error.split)

lemma sh_single_row:
  assumes "uid \<in> own"
  shows "follows (shields own) (ensure_subscription_token token uid)"
    and "follows (shields own) (rotate_user_addresses now uid)"
    and "follows (shields own) (set_owner uid a)"
    and "follows (shields own) (reset_user_by_next now c uid)"
    and "follows (shields own) (reset_user_data_usage now uid)"
  unfolding ensure_subscription_token_def rotate_user_addresses_def set_owner_def reset_user_by_next_def
    reset_user_data_usage_def
  by (auto intro!: sh_basic sh_put [OF assms] sh_other simp: other_tables_def drop_bs_usage_def split: option.split)

lemma sh_remove_users:
  assumes "set uids \<subseteq> own"
  shows "follows (shields own) (remove_users uids)"
proof -
  have "keeps_others own db (fold purge_user us db)" if "set us \<subseteq> own" for us db
    using that
  proof (induction us arbitrary: db)
    case (Cons v us)
    have "keeps_others own db (purge_user v db)"
      using Cons.prems by (auto simp: keeps_others_def purge_user_def)
    with Cons show ?case by (auto intro: keeps_others_trans)
  qed (simp add: keeps_others_refl)
  with assms show ?thesis
    unfolding remove_users_def by (intro sh_basic sh_mod) auto
qed

lemma sh_remove_user: "uid \<in> own \<Longrightarrow> follows (shields own) (remove_user uid)"
  unfolding remove_user_def by (intro sh_basic sh_mod) (auto simp: keeps_others_def purge_user_def)

lemma sh_revoke:
  assumes "uid \<in> own"
  shows "follows (shields own) (revoke_user_sub st fresh now yq uid)"
proof -
  have "follows (shields own) (mod_db (revoke_devices now uid))"
    using assms by (intro sh_mod) (force simp: keeps_others_def revoke_devices_def image_iff)
  with assms show ?thesis
    unfolding revoke_user_sub_def by (auto intro!: sh_basic sh_put sh_update_user)
qed

lemma sh_create_user: "follows (shields own) (create_user st token now a c)"
  unfolding create_user_def
  by (auto intro!: sh_basic sh_seqS sh_inbound sh_mod simp: keeps_others_def split: prod.split)

section \<open>Endpoints\<close>

definition shieldsW :: "int set \<Rightarrow> world \<Rightarrow> world \<Rightarrow> bool" where
  "shieldsW own w w' \<longleftrightarrow> shields own (wd_session w) (wd_session w')"

interpretation shw: state_relation "shieldsW own" for own
  by unfold_locales (auto simp: shieldsW_def shields_def)

lemma shw_session: "follows (shields own) m \<Longrightarrow> follows (shieldsW own) (on_session m)"
  by (auto simp: follows_def on_session_def shieldsW_def split: prod.split) (metis snd_conv)

lemma shw_report: "follows (shieldsW own) (on_report m)"
  by (simp add: follows_def on_report_def shieldsW_def sh.refl_R split: prod.split)

lemma shw_xray: "follows (shieldsW own) (on_xray m)"
  by (simp add: follows_def on_xray_def shieldsW_def sh.refl_R split: prod.split)

lemma shw_lift: "follows (shieldsW own) m \<Longrightarrow> follows (shieldsW own) (lift_api m)"
  by (auto simp: follows_def lift_api_def split: prod.split sum.split) (metis snd_conv)+

lemma shw_db: "follows (shields own) m \<Longrightarrow> follows (shieldsW own) (in_db m)"
  unfolding in_db_def by (intro shw_lift shw_session)

lemma shw_tasks: "follows (shieldsW own) (xray_task f uid)" "follows (shieldsW own) (notify_task g)"
  unfolding xray_task_def notify_task_def by (intro shw.f_intros shw_session sh_the shw_xray shw_report)+

lemma shw_abort: "follows (shieldsW own) (abort c d)"
  unfolding abort_def by (rule shw.f_throw)

lemma shw_run_tasks: "\<forall>t \<in> set ts. follows (shieldsW own) t \<Longrightarrow> shieldsW own w (run_tasks ts w)"
proof (induction ts arbitrary: w)
  case (Cons t ts)
  obtain r w1 where r: "t w = (r, w1)" by (cases "t w")
  then have "shieldsW own w w1" using Cons.prems followsD [of "shieldsW own" t] by auto
  with Cons r show ?case by (auto split: sum.split intro: shw.trans_R)
qed (simp add: shw.refl_R)

lemma shw_close: "shieldsW own w (close_session w)"
  by (simp add: shieldsW_def close_session_def shields_def)

text \<open>An endpoint that shields the others, and so do its background tasks.\<close>

definition guarded_at :: "int set \<Rightarrow> world \<Rightarrow> endpoint \<Rightarrow> bool" where
  "guarded_at own w ep \<longleftrightarrow> (case ep w of
     (Inl _, w') \<Rightarrow> shieldsW own w w'
   | (Inr (_, ts), w') \<Rightarrow> shieldsW own w w' \<and> (\<forall>t \<in> set ts. follows (shieldsW own) t))"

definition guarded :: "int set \<Rightarrow> endpoint \<Rightarrow> bool" where
  "guarded own ep \<longleftrightarrow> (\<forall>w. guarded_at own w ep)"

lemma guarded_ret: "\<forall>t \<in> set ts. follows (shieldsW own) t \<Longrightarrow> guarded own (ret (r, ts))"
  by (simp add: guarded_def guarded_at_def ret_def shw.refl_R)

lemma guarded_throw: "guarded own (throw e)"
  by (simp add: guarded_def guarded_at_def throw_def shw.refl_R)

lemma guarded_abort: "guarded own (abort c d)"
  unfolding abort_def by (rule guarded_throw)

lemma guarded_at_bind:
  assumes "m w = (r, w1)" and "shieldsW own w w1" and "\<And>x. r = Inr x \<Longrightarrow> guarded own (f x)"
  shows "guarded_at own w (bindS m f)"
  using assms by (fastforce simp: guarded_def guarded_at_def bindS_def intro: shw.trans_R split: sum.splits prod.splits)

lemma guarded_bind: "follows (shieldsW own) m \<Longrightarrow> (\<And>x. guarded own (f x)) \<Longrightarrow> guarded own (bindS m f)"
  using guarded_at_bind unfolding guarded_def by (metis followsD surj_pair)

lemma guarded_if: "(b \<Longrightarrow> guarded own m) \<Longrightarrow> (\<not> b \<Longrightarrow> guarded own n) \<Longrightarrow> guarded own (if b then m else n)"
  by simp

lemma shw_validated: "follows (shieldsW own) (get_validated_user env am n)"
  unfolding get_validated_user_def by (auto intro!: shw.f_intros shw_db sh_get shw_abort split: option.split)

lemmas guard_intros = guarded_ret guarded_throw guarded_abort guarded_bind guarded_if
  shw_db shw_lift shw_tasks shw_validated shw_report shw_xray shw_abort shw.f_intros sh_basic

definition owned_users :: "api_env \<Rightarrow> admin_user \<Rightarrow> world \<Rightarrow> int set" where
  "owned_users env am w = u_id ` {u \<in> set (users_of w). admin_name env (u_admin u) = Some (am_name am)}"

lemma in_db_get: "in_db (get_db f) w = (Inr (f (se_db (wd_session w))), w)"
  by (simp add: in_db_def lift_api_def on_session_def get_db_def eff_defs)

lemma guarded_at_get:
  "(\<And>x. x = f (se_db (wd_session w)) \<Longrightarrow> guarded own (g x)) \<Longrightarrow> guarded_at own w (bindS (in_db (get_db f)) g)"
  by (rule guarded_at_bind [OF in_db_get]) (auto simp: shw.refl_R)

lemma validated_user:
  assumes "get_validated_user env am n w = (Inr u, w1)" and "\<not> am_sudo am"
  shows "u_id u \<in> owned_users env am w"
  using assms
  by (auto simp: get_validated_user_def bindS_def in_db_get abort_def throw_def ret_def get_user_def owned_users_def find_Some_iff
      split: option.splits if_splits)

lemma guarded_at_validated:
  assumes "\<not> am_sudo am" and "\<And>u. u_id u \<in> own \<Longrightarrow> guarded own (f u)" and "own = owned_users env am w"
  shows "guarded_at own w (bindS (get_validated_user env am n) f)"
proof -
  obtain r w1 where r: "get_validated_user env am n w = (r, w1)" by force
  have "shieldsW own w w1" by (rule followsD [OF shw_validated r])
  moreover have "guarded own (f u)" if "r = Inr u" for u
    using validated_user r assms that by auto
  ultimately show ?thesis using r by (intro guarded_at_bind [where m = "get_validated_user env am n" and f = f])
qed

definition env_wf :: "api_env \<Rightarrow> bool" where
  "env_wf env \<longleftrightarrow> distinct (map snd (ae_admins env)) \<and> (\<forall>s us. set (ae_order env s us) \<subseteq> set us)"

lemma admin_name_of: "distinct (map snd (ae_admins env)) \<Longrightarrow> get_admin env n = Some a \<Longrightarrow> admin_name env (Some a) = Some n"
proof -
  assume d: "distinct (map snd (ae_admins env))" and "get_admin env n = Some a"
  then have m: "(n, a) \<in> set (ae_admins env)" by (auto simp: get_admin_def dest: map_of_SomeD)
  obtain p where p: "find (\<lambda>p. snd p = a) (ae_admins env) = Some p"
    using m by (cases "find (\<lambda>p. snd p = a) (ae_admins env)") (auto simp: find_None_iff)
  then have "p \<in> set (ae_admins env)" "snd p = a" by (auto simp: find_Some_iff)
  with d m have "p = (n, a)" using inj_onD [of snd "set (ae_admins env)" p "(n, a)"] by (simp add: distinct_map)
  with p show ?thesis by (simp add: admin_name_def)
qed

lemma page_subset: "set (page offset limit xs) \<subseteq> set xs"
  by (auto simp: page_def Let_def dest: in_set_takeD in_set_dropD)

lemma listed_users_owned:
  assumes "env_wf env" and "(us, n) = get_users env (q\<lparr>uq_sort := s, uq_admins := [am_name am]\<rparr>) (se_db (wd_session w))"
  shows "u_id ` set us \<subseteq> owned_users env am w"
proof -
  define found where "found = filter (\<lambda>u. admin_in env [am_name am] u) (users_of w)"
  have "set us \<subseteq> set found"
    using assms page_subset [of "or0 (uq_offset q)" "or0 (uq_limit q)"]
    by (fastforce simp: get_users_def Let_def env_wf_def found_def split: if_splits)
  then show ?thesis
    by (auto simp: found_def owned_users_def admin_in_def split: option.splits)
qed

lemma expired_users_owned:
  assumes "env_wf env" and "\<not> am_sudo am" and "get_admin env (am_name am) \<noteq> None"
  shows "set (map u_id (expired_users_list env am a b (se_db (wd_session w)))) \<subseteq> owned_users env am w"
  using assms admin_name_of by (auto simp: expired_users_list_def Let_def owned_users_def env_wf_def)

lemma guarded_seq_api:
  "(\<And>x. x \<in> set xs \<Longrightarrow> follows (shieldsW own) (f x)) \<Longrightarrow> follows (shieldsW own) (seq_api f xs)"
  by (induction xs) (auto intro!: shw.f_intros)

lemma shw_dates: "follows (shieldsW own) (validate_dates env a b)"
  unfolding validate_dates_def Let_def by (auto intro!: shw.f_intros shw_abort split: sum.split option.split bool.split)

lemma dates_state: "validate_dates env a b w = (r, w1) \<Longrightarrow> w1 = w"
  by (auto simp: validate_dates_def Let_def abort_def throw_def ret_def split: sum.splits option.splits bool.splits)

lemma shw_put_devices:
  "(\<And>ds. \<forall>d \<in> set (dd_rows ds). dv_user d \<notin> own \<longrightarrow> d \<in> set (dd_rows (f ds))) \<Longrightarrow>
   follows (shieldsW own) (put_devices f)"
  unfolding put_devices_def by (intro shw_db sh_basic sh_mod) (simp add: keeps_others_def)

section \<open>Each endpoint\<close>

text \<open>Reading leaves the state alone, so what an endpoint checked still holds when it writes.\<close>

lemma guarded_at_same:
  assumes "m w = (r, w)" and "\<And>x. r = Inr x \<Longrightarrow> guarded_at own w (f x)"
  shows "guarded_at own w (bindS m f)"
  using assms by (cases r) (auto simp: guarded_at_def bindS_def shw.refl_R)

lemma validated_same: "get_validated_user env am n w = (r, w1) \<Longrightarrow> w1 = w"
  by (auto simp: get_validated_user_def bindS_def in_db_get abort_def throw_def ret_def split: option.splits if_splits)

lemma guarded_at_checked:
  assumes "\<not> am_sudo am" and "\<And>u. u_id u \<in> own \<Longrightarrow> guarded_at own w (f u)" and "own = owned_users env am w"
  shows "guarded_at own w (bindS (get_validated_user env am n) f)"
proof -
  obtain r where r: "get_validated_user env am n w = (r, w)" using validated_same by (metis surj_pair)
  show ?thesis
  proof (rule guarded_at_same [where m = "get_validated_user env am n" and f = f])
    show "get_validated_user env am n w = (r, w)" by (rule r)
    show "guarded_at own w (f u)" if "r = Inr u" for u using validated_user r assms that by auto
  qed
qed

lemma guarded_at_read:
  "(\<And>x. x = f (ud_devices (se_db (wd_session w))) \<Longrightarrow> guarded_at own w (g x)) \<Longrightarrow> guarded_at own w (bindS (devices_of f) g)"
  unfolding devices_of_def by (rule guarded_at_same [where m = "in_db (get_db (\<lambda>db. f (ud_devices db)))"], rule in_db_get) simp

lemma guarded_at_write:
  assumes "\<forall>d \<in> set (dd_rows (ud_devices (se_db (wd_session w)))). dv_user d \<notin> own \<longrightarrow>
      d \<in> set (dd_rows (f (ud_devices (se_db (wd_session w)))))"
  shows "guarded_at own w (thenS (put_devices f) (ret (r, [])))"
  using assms
  by (auto simp: guarded_at_def put_devices_def in_db_def lift_api_def on_session_def mod_db_def commit_def eff_defs
      shieldsW_def shields_def keeps_others_def)

lemma guarded_atI: "guarded own ep \<Longrightarrow> guarded_at own w ep"
  by (simp add: guarded_def)

lemma guarded_add_device:
  assumes "\<not> am_sudo am"
  shows "guarded_at (owned_users env am w) w (add_device_api env am n hwid info)"
  unfolding add_device_api_def
proof (rule guarded_at_checked [OF assms _ refl], rule guarded_at_read, split prod.split, intro allI impI)
  fix u :: user_row and p and k :: int and created
  let ?ds = "ud_devices (se_db (wd_session w))"
  assume "p = (count_user_devices ?ds (u_id u), create_user_device ?ds (u_id u) hwid info (ae_now env))" and "p = (k, created)"
  then have rows: "created = Some d \<Longrightarrow> set (dd_rows ?ds) \<subseteq> set (dd_rows d)" for d
    by (auto simp: create_user_device_def insert_device_def split: if_splits)
  show "guarded_at (owned_users env am w) w
     (if ae_hard_mode env u \<and> truthy_int (u_device_limit u) \<and> or0 (u_device_limit u) \<le> k then abort 403 ''Device limit reached''
      else case created of
         None \<Rightarrow> thenS (in_db rollback) (abort 409 ''Device already exists'')
       | Some d \<Rightarrow> thenS (put_devices (\<lambda>_. d)) (ret (RDetail ''device added'', [])))"
    using rows by (auto intro!: guarded_atI [OF guarded_abort] guarded_atI [OF guarded_bind] guarded_abort shw_db sh_rollback guarded_at_write split: option.split)
qed

lemma guarded_change_device:
  assumes "\<not> am_sudo am" and "devices_wf (ud_devices (se_db (wd_session w)))"
  shows "guarded_at (owned_users env am w) w (update_device_api env am n did hw info)"
    and "guarded_at (owned_users env am w) w (delete_device_api env am n did)"
proof -
  let ?ds = "ud_devices (se_db (wd_session w))"
  have one: "dv_user d = u_id u"
    if "get_user_device ?ds (u_id u) did = Some e" "d \<in> set (dd_rows ?ds)" "dv_id d = did" for u :: user_row and d e
  proof -
    have "e \<in> set (dd_rows ?ds)" "dv_user e = u_id u" "dv_id e = did"
      using that(1) by (auto simp: get_user_device_def find_Some_iff)
    with that(2,3) assms(2) show ?thesis
      using inj_onD [of dv_id "set (dd_rows ?ds)" d e] by (simp add: devices_wf_def distinct_map)
  qed
  show "guarded_at (owned_users env am w) w (update_device_api env am n did hw info)"
    unfolding update_device_api_def
    by (rule guarded_at_checked [OF assms(1) _ refl], rule guarded_at_read)
      (auto intro!: guarded_atI [OF guarded_abort] guarded_at_write dest: one
        simp: update_user_device_def set_row_def image_iff split: option.split)
  show "guarded_at (owned_users env am w) w (delete_device_api env am n did)"
    unfolding delete_device_api_def
    by (rule guarded_at_checked [OF assms(1) _ refl], rule guarded_at_read)
      (auto intro!: guarded_atI [OF guarded_abort] guarded_at_write dest: one
        simp: delete_user_device_def split: option.split)
qed

lemma guarded_single:
  assumes "\<not> am_sudo am"
  shows "guarded_at (owned_users env am w) w (get_user_api env am n)"
    and "guarded_at (owned_users env am w) w (list_devices_api env am n)"
    and "guarded_at (owned_users env am w) w (remove_user_api env am n)"
    and "guarded_at (owned_users env am w) w (reset_usage_api env am n)"
    and "guarded_at (owned_users env am w) w (revoke_sub_api env am n)"
    and "guarded_at (owned_users env am w) w (rotate_api env am n)"
    and "guarded_at (owned_users env am w) w (active_next_api env am n)"
    and "guarded_at (owned_users env am w) w (bs_traffic_api env am n)"
    and "guarded_at (owned_users env am w) w (set_owner_api env am n a)"
  unfolding get_user_api_def list_devices_api_def devices_of_def remove_user_api_def reset_usage_api_def
    revoke_sub_api_def rotate_api_def active_next_api_def bs_traffic_api_def set_owner_api_def check_sudo_admin_def Let_def
  by (rule guarded_at_validated [OF assms _ refl],
      auto intro!: guard_intros sh_single_row sh_remove_user sh_revoke shw_session sh_the simp: assms split: option.split)+

lemma guarded_modify:
  assumes "\<not> am_sudo am"
  shows "guarded_at (owned_users env am w) w (modify_user_api env am n m)"
  unfolding modify_user_api_def
  by (rule guarded_at_validated [OF assms _ refl])
    (auto intro!: guard_intros sh_modify_endpoint split: api_error.split py_error.split)

lemma guarded_bs_extra:
  assumes "\<not> am_sudo am"
  shows "guarded_at (owned_users env am w) w (bs_extra_api env am n d r)"
proof -
  have "follows (shields own) (mod_db (write_pool uid bs))" if "uid \<in> own" for own uid bs
    using that by (intro sh_mod) (force simp: keeps_others_def write_pool_def set_user_def image_iff split: option.split)
  then show ?thesis
    unfolding bs_extra_api_def
    by (intro guarded_at_validated [OF assms _ refl])
      (auto intro!: guard_intros split: sum.split py_error.split)
qed

lemma guarded_add_user: "guarded own (add_user_api env am c)"
  unfolding add_user_api_def
  by (auto intro!: guard_intros sh_create_user sh_rollback split: api_error.split py_error.split)

lemma guarded_get_users:
  assumes "\<not> am_sudo am" and "env_wf env"
  shows "guarded_at (owned_users env am w) w (get_users_api env am q s owner)"
proof -
  have "guarded_at own w (bindS (in_db (get_db (get_users env (q\<lparr>uq_sort := t, uq_admins := [am_name am]\<rparr>)))) (\<lambda>(users, total).
        thenS (seq_api (\<lambda>u. in_db (ensure_subscription_token (ae_token env) (u_id u))) users)
          (ret (RPage (map u_name users) total, []))))" if own: "own = owned_users env am w" for own t
  proof (rule guarded_at_get, clarify)
    fix us n assume "(us, n) = get_users env (q\<lparr>uq_sort := t, uq_admins := [am_name am]\<rparr>) (se_db (wd_session w))"
    then have "u_id ` set us \<subseteq> own" using listed_users_owned assms(2) own by blast
    then show "guarded own (thenS (seq_api (\<lambda>u. in_db (ensure_subscription_token (ae_token env) (u_id u))) us)
          (ret (RPage (map u_name us) n, [])))"
      by (auto intro!: guard_intros guarded_seq_api sh_single_row)
  qed
  with assms(1) show ?thesis
    by (auto simp: get_users_api_def Let_def intro!: guarded_atI [OF guarded_abort])
qed

lemma guarded_expired:
  assumes "\<not> am_sudo am" and "env_wf env" and "get_admin env (am_name am) \<noteq> None"
  shows "guarded_at (owned_users env am w) w (get_expired_api env am x y)"
    and "guarded_at (owned_users env am w) w (delete_expired_api env am x y)"
proof -
  obtain r where r: "validate_dates env x y w = (r, w)" using dates_state by (metis surj_pair)
  show "guarded_at (owned_users env am w) w (get_expired_api env am x y)"
    unfolding get_expired_api_def
    by (rule guarded_at_same [where m = "validate_dates env x y"], rule r) (auto intro!: guarded_atI guard_intros)
  have "guarded_at own w (bindS (in_db (get_db (expired_users_list env am a b))) (\<lambda>us.
       if us = [] then abort 404 ''No expired users found''
       else thenS (in_db (remove_users (map u_id us)))
         (ret (RUsers (map u_name us),
           map (\<lambda>u. notify_task (user_deleted (ae_notify env) (u_name u) (am_name am))) us))))"
    if own: "own = owned_users env am w" for own a b
    using expired_users_owned [OF assms(2) assms(1) assms(3), of a b w] own
    by (intro guarded_at_get) (auto intro!: guard_intros sh_remove_users)
  then show "guarded_at (owned_users env am w) w (delete_expired_api env am x y)"
    unfolding delete_expired_api_def by - (rule guarded_at_same [where m = "validate_dates env x y"], rule r, auto)
qed

lemma guarded_endpoint:
  assumes "\<not> am_sudo am" and "env_wf env" and "get_admin env (am_name am) \<noteq> None"
    and "devices_wf (ud_devices (se_db (wd_session w)))"
  shows "guarded_at (owned_users env am w) w (endpoint_of env am req)"
proof (cases req)
  case (DigestReq b s t)
  then show ?thesis
    by (auto simp: digest_api_def intro!: guarded_atI guard_intros)
qed (simp_all add: assms guarded_add_device guarded_change_device guarded_single guarded_modify guarded_bs_extra
    guarded_atI [OF guarded_add_user] guarded_get_users guarded_expired)

lemma guarded_respond:
  assumes "guarded_at own w ep"
  shows "shieldsW own w (snd (respond ep w))"
proof -
  obtain r w1 where r: "ep w = (r, w1)" by force
  show ?thesis
  proof (cases r)
    case (Inl e)
    with r assms have "shieldsW own w w1" by (simp add: guarded_at_def)
    with r Inl show ?thesis by (simp add: respond_def shw.trans_R [OF _ shw_close])
  next
    case (Inr rt)
    obtain x ts where rt: "rt = (x, ts)" by force
    with r Inr assms have "shieldsW own w w1" and "\<forall>t \<in> set ts. follows (shieldsW own) t"
      by (simp_all add: guarded_at_def)
    then have "shieldsW own w (close_session (run_tasks ts w1))"
      using shw_run_tasks shw_close shw.trans_R by metis
    with r Inr rt show ?thesis by (simp add: respond_def)
  qed
qed


section \<open>Applying the next plan\<close>

lemma reset_by_next_run:
  assumes "find_user (se_db s) uid = Some u" and "u_next_plan u = Some p" and "np_add_remaining p \<or> u_limit u \<noteq> None"
  shows "\<exists>db. reset_user_by_next now True uid s = (Inr (), \<lparr>se_db = db, se_saved = db\<rparr>) \<and>
    find_user db uid = Some (by_next_plan now p u)"
proof -
  define g where "g = (\<lambda>u :: user_row. (log_reset now u)\<lparr>u_node_usages := [], u_status := Active\<rparr>)"
  define h where "h = next_plan_row p (if np_add_remaining p then 0 else or0 (u_limit u) - u_used u)"
  define db where "db = set_user uid h (set_user uid g (se_db s))"
  have id: "u_id (g v) = u_id v" "u_id (h v) = u_id v" for v
    by (simp_all add: g_def h_def log_reset_def next_plan_row_def)
  have "reset_user_by_next now True uid s = (Inr (), s\<lparr>se_db := db, se_saved := db\<rparr>)"
    using assms by (auto simp: reset_user_by_next_def the_user_def get_db_def put_user_def mod_db_def commit_def eff_defs
        db_def g_def h_def split: option.splits)
  moreover have "find_user db uid = Some (by_next_plan now p u)"
    using assms(1) find_user_id [OF assms(1)] id by (simp add: db_def find_set_user by_next_plan_def g_def h_def)
  ultimately show ?thesis by (intro exI [of _ db]) simp
qed

text \<open>Activating the next plan of a user always answers 404, user has no next plan, although the plan
  was applied and committed: the user has the traffic and the expiry date of the plan, is active, and
  the plan is gone. The cores hear nothing of it and no report is sent.\<close>
theorem active_next_always_404:
  assumes "get_user (se_db (wd_session w)) name = Some u" and "find_user (se_db (wd_session w)) (u_id u) = Some u"
    and "am_sudo am \<or> admin_name env (u_admin u) = Some (am_name am)"
    and "u_next_plan u = Some p" and "np_add_remaining p \<or> u_limit u \<noteq> None"
    and "handle_request env am (ActiveNextReq name) w = (r, w')"
  shows "r = Inl (HTTPException 404 ''User doesn't have next plan'') \<and>
    find_user (se_db (wd_session w')) (u_id u) = Some (by_next_plan (ae_now env) p u) \<and>
    wd_xray w' = wd_xray w \<and> wd_notify w' = wd_notify w"
proof -
  obtain db where run: "reset_user_by_next (ae_now env) True (u_id u) (wd_session w) = (Inr (), \<lparr>se_db = db, se_saved = db\<rparr>)"
    and db: "find_user db (u_id u) = Some (by_next_plan (ae_now env) p u)"
    using reset_by_next_run assms(2,4,5) by blast
  have "u_next_plan (by_next_plan (ae_now env) p u) = None" by (simp add: by_next_plan_def next_plan_row_def)
  with assms(1,3) run db
  have "active_next_api env am name w = (Inl (HTTPException 404 ''User doesn't have next plan''), w\<lparr>wd_session := \<lparr>se_db = db, se_saved = db\<rparr>\<rparr>)"
    by (simp add: active_next_api_def get_validated_user_def bindS_def [of "in_db m" for m] bindS_def [of "bindS m f" for m f]
        in_db_def lift_api_def on_session_def get_db_def getS_def ret_def the_user_def throw_def abort_def bindS_def)
  with assms(6) db show ?thesis by (auto simp: handle_request_def respond_def close_session_def)
qed

section \<open>Witnesses\<close>

definition sample_env :: api_env where
  "sample_env = \<lparr>ae_settings = sample_user_settings, ae_notify = sample_notify, ae_admins = [(''root'', 1), (''ann'', 2)],
     ae_now = 1000, ae_month = sample_month, ae_token = (\<lambda>n. ''t-'' @ n), ae_fresh = (\<lambda>_. ''new''),
     ae_hard_mode = (\<lambda>_. True), ae_reset_on_prolong = (\<lambda>_. False), ae_like = (\<lambda>_ _. True), ae_order = (\<lambda>_ us. us),
     ae_isoparse = (\<lambda>_. None)\<rparr>"

definition ann :: admin_user where
  "ann = \<lparr>am_name = ''ann'', am_sudo = False\<rparr>"


definition planned_world :: world where
  "planned_world = (let db = sample_users\<lparr>ud_users := [sample_user\<lparr>u_next_plan := Some \<lparr>np_limit = 900, np_expire = None,
       np_add_remaining = True, np_fire_on_either = False\<rparr>\<rparr>]\<rparr> in sample_world\<lparr>wd_session := \<lparr>se_db = db, se_saved = db\<rparr>\<rparr>)"

theorem active_next_always_404_witness:
  "fst (handle_request sample_env \<lparr>am_name = ''root'', am_sudo = True\<rparr> (ActiveNextReq ''Alice'') planned_world) =
     Inl (HTTPException 404 ''User doesn't have next plan'') \<and>
   (\<exists>u. find_user (se_db (wd_session (snd (handle_request sample_env \<lparr>am_name = ''root'', am_sudo = True\<rparr> (ActiveNextReq ''Alice'') planned_world)))) 7 =
     Some u \<and> u_limit u = Some 900 \<and> u_status u = Active)"
proof -
  let ?am = "\<lparr>am_name = ''root'', am_sudo = True\<rparr>" and ?u = "hd (users_of planned_world)"
  obtain r w' where run: "handle_request sample_env ?am (ActiveNextReq ''Alice'') planned_world = (r, w')" by force
  have a: "get_user (se_db (wd_session planned_world)) ''Alice'' = Some ?u" by code_simp
  have b: "find_user (se_db (wd_session planned_world)) (u_id ?u) = Some ?u" by code_simp
  have c: "u_next_plan ?u = Some (the (u_next_plan ?u))" by code_simp
  have d: "np_add_remaining (the (u_next_plan ?u)) \<or> u_limit ?u \<noteq> None" by code_simp
  have e: "u_id ?u = 7" "u_limit (by_next_plan 1000 (the (u_next_plan ?u)) ?u) = Some 900"
    "u_status (by_next_plan 1000 (the (u_next_plan ?u)) ?u) = Active" by code_simp+
  have "ae_now sample_env = 1000" by (simp add: sample_env_def)
  with active_next_always_404 [OF a b _ c d run] e show ?thesis by (simp add: run)
qed

end
