(* ===== verification/RecordUsages.thy ===== *)
theory RecordUsages
  imports Users
begin

text \<open>
  Traffic accounting (app/jobs/record_usages.py): the statistics the cores report and reset
  (xray_api/stats.py), their way into the users, the administrators, the hourly tables and the BS
  counters, and the clean-up of old rows. What a core answers is an argument; a database statement may
  fail as the script in the state says. Rows of users that no longer exist, which SQLite would keep
  and nothing reads, are left out. Times are seconds.
\<close>

section \<open>What the cores report (xray_api/stats.py)\<close>

text \<open>The statistics by full name, \<open>user>>>7.alice>>>traffic>>>uplink\<close>, or an error of the call.\<close>

datatype core_reply =
    Reply "(string \<times> int) list"
  | RpcError

record stat_response =
  sr_name :: string
  sr_type :: string
  sr_link :: string
  sr_value :: int

definition parse_stat :: "string \<times> int \<Rightarrow> stat_response result" where
  "parse_stat nv = (case split_str ''>>>'' 0 [] (fst nv) of
     [ty, name, _, link] \<Rightarrow> Inr \<lparr>sr_name = name, sr_type = ty, sr_link = link, sr_value = snd nv\<rparr>
   | _ \<Rightarrow> Inl (ValueError ''unpack''))"

definition query_stats :: "(string \<times> int) list \<Rightarrow> stat_response list result" where
  "query_stats stats = mapE parse_stat stats"

text \<open>\<open>get_users_stats\<close> and \<open>get_outbounds_stats\<close> of the job: an \<open>XrayError\<close> gives no statistics.\<close>

definition before_dot :: "string \<Rightarrow> string" where
  "before_dot s = takeWhile (\<lambda>c. c \<noteq> CHR ''.'') s"

definition get_users_stats :: "core_reply \<Rightarrow> (string \<times> int) list result" where
  "get_users_stats r = (case r of
     RpcError \<Rightarrow> Inr []
   | Reply stats \<Rightarrow> bindE (query_stats stats) (\<lambda>ss.
       Inr (dsum [] (map (\<lambda>s. (before_dot (sr_name s), sr_value s)) (filter (\<lambda>s. sr_value s \<noteq> 0) ss)))))"

definition get_outbounds_stats :: "core_reply \<Rightarrow> (int \<times> int) list result" where
  "get_outbounds_stats r = (case r of
     RpcError \<Rightarrow> Inr []
   | Reply stats \<Rightarrow> bindE (query_stats stats) (\<lambda>ss.
       Inr (map (\<lambda>s. if sr_link s = ''uplink'' then (sr_value s, 0) else (0, sr_value s)) (filter (\<lambda>s. sr_value s \<noteq> 0) ss))))"

section \<open>Statements that are tried again\<close>

record usage_db =
  ub_users :: user_db
  ub_admins :: "(int \<times> int) list"
  ub_daily :: "((int \<times> int \<times> int) \<times> int \<times> bool) list"
  ub_node_usage :: "((int option \<times> int) \<times> int \<times> int) list"
  ub_system :: "int \<times> int"

datatype exec_outcome = Executed | OpFails int | Fails string

record usage_state =
  uw_db :: usage_db
  uw_script :: "exec_outcome list"

datatype usage_error = OperationalError int | OtherError string | PyError py_error

type_synonym 'a usage_op = "(usage_state, usage_error, 'a) eff"

text \<open>\<open>re_round\<close>: what a column of integers keeps of a number with a fraction.\<close>

record record_env =
  re_mysql :: bool
  re_disable_node_user :: bool
  re_disable_node :: bool
  re_round :: "rat \<Rightarrow> int"
  re_now :: int
  re_month :: ym
  re_today :: int
  re_retention :: int
  re_batch :: int

fun next_outcome :: "exec_outcome list \<Rightarrow> exec_outcome \<times> exec_outcome list" where
  "next_outcome [] = (Executed, [])"
| "next_outcome (x # xs) = (x, xs)"

text \<open>Deadlock (1213) and lock wait timeout (1205) on MySQL are tried again, three times.\<close>

function mysql_loop :: "(usage_db \<Rightarrow> usage_db) \<Rightarrow> nat \<Rightarrow> unit usage_op" where
  "mysql_loop stmt tries w =
     (let (o', rest) = next_outcome (uw_script w); w' = w\<lparr>uw_script := rest\<rparr> in
      case o' of
        Executed \<Rightarrow> (Inr (), w'\<lparr>uw_db := stmt (uw_db w')\<rparr>)
      | OpFails code \<Rightarrow> if (code = 1213 \<or> code = 1205) \<and> tries < 3 then mysql_loop stmt (tries + 1) w'
          else (Inl (OperationalError code), w')
      | Fails m \<Rightarrow> (Inl (OtherError m), w'))"
  by pat_completeness auto
termination by (relation "measure (\<lambda>(_, tries, _). 3 - tries)") auto

declare mysql_loop.simps [simp del]

definition execute_once :: "(usage_db \<Rightarrow> usage_db) \<Rightarrow> unit usage_op" where
  "execute_once stmt w =
     (let (o', rest) = next_outcome (uw_script w); w' = w\<lparr>uw_script := rest\<rparr> in
      case o' of
        Executed \<Rightarrow> (Inr (), w'\<lparr>uw_db := stmt (uw_db w')\<rparr>)
      | OpFails code \<Rightarrow> (Inl (OperationalError code), w')
      | Fails m \<Rightarrow> (Inl (OtherError m), w'))"

definition safe_execute :: "record_env \<Rightarrow> (usage_db \<Rightarrow> usage_db) \<Rightarrow> unit usage_op" where
  "safe_execute env stmt = (if re_mysql env then mysql_loop stmt 0 else execute_once stmt)"

definition read_db :: "(usage_db \<Rightarrow> 'a) \<Rightarrow> 'a usage_op" where
  "read_db f = bindS getS (\<lambda>w. ret (f (uw_db w)))"

definition lift_py :: "'a result \<Rightarrow> 'a usage_op" where
  "lift_py r = (case r of Inl e \<Rightarrow> throw (PyError e) | Inr x \<Rightarrow> ret x)"

definition swallow :: "unit usage_op \<Rightarrow> unit usage_op" where
  "swallow m = catchS m (\<lambda>_. ret ())"

definition to_int :: "string \<Rightarrow> int result" where
  "to_int s = (case parse_int s of None \<Rightarrow> Inl (ValueError s) | Some n \<Rightarrow> Inr n)"

section \<open>Statements\<close>

definition hour_of :: "int \<Rightarrow> int" where
  "hour_of t = t - t mod 3600"

definition map_users :: "(user_row \<Rightarrow> user_row) \<Rightarrow> usage_db \<Rightarrow> usage_db" where
  "map_users f d = d\<lparr>ub_users := (ub_users d)\<lparr>ud_users := map f (ud_users (ub_users d))\<rparr>\<rparr>"

definition add_usage_rows :: "record_env \<Rightarrow> int option \<Rightarrow> int list \<Rightarrow> usage_db \<Rightarrow> usage_db" where
  "add_usage_rows env node uids = map_users (\<lambda>u. if u_id u \<in> set uids then u\<lparr>u_node_usages := u_node_usages u @
     [\<lparr>nu_node = node, nu_at = hour_of (re_now env), nu_used = 0, nu_seen = Some (re_now env)\<rparr>]\<rparr> else u)"

definition add_usage :: "record_env \<Rightarrow> int option \<Rightarrow> rat \<Rightarrow> string \<times> int \<Rightarrow> usage_db \<Rightarrow> usage_db" where
  "add_usage env node factor p = map_users (\<lambda>u. if parse_int (fst p) = Some (u_id u)
     then u\<lparr>u_node_usages := map (\<lambda>r. if nu_node r = node \<and> nu_at r = hour_of (re_now env)
        then r\<lparr>nu_used := re_round env (of_int (nu_used r) + of_int (snd p) * factor), nu_seen := Some (re_now env)\<rparr> else r) (u_node_usages u)\<rparr>
     else u)"

definition add_used :: "record_env \<Rightarrow> string \<times> int \<Rightarrow> usage_db \<Rightarrow> usage_db" where
  "add_used env p = map_users (\<lambda>u. if parse_int (fst p) = Some (u_id u)
     then u\<lparr>u_used := u_used u + snd p, u_online_at := Some (re_now env)\<rparr> else u)"

definition add_admin_usage :: "int \<times> int \<Rightarrow> usage_db \<Rightarrow> usage_db" where
  "add_admin_usage p d = d\<lparr>ub_admins := map (\<lambda>(a, used). if a = fst p then (a, used + snd p) else (a, used)) (ub_admins d)\<rparr>"

section \<open>Recording\<close>

definition record_user_stats :: "record_env \<Rightarrow> (string \<times> int) list \<Rightarrow> int option \<Rightarrow> rat \<Rightarrow> unit usage_op" where
  "record_user_stats env params node factor =
     (if params = [] then ret ()
      else bindS (read_db (\<lambda>d. map u_id (filter (\<lambda>u. \<exists>r \<in> set (u_node_usages u).
               nu_node r = node \<and> nu_at r = hour_of (re_now env)) (ud_users (ub_users d))))) (\<lambda>existings.
           bindS (lift_py (mapE (\<lambda>p. to_int (fst p)) params)) (\<lambda>uids.
           let uids_to_insert = filter (\<lambda>i. i \<notin> set existings) uids in
           thenS (if uids_to_insert = [] then ret () else safe_execute env (add_usage_rows env node uids_to_insert))
             (safe_execute env (fold (add_usage env node factor) params)))))"

text \<open>The tables of the BS accounting; the owners of the nodes are in the rows of the nodes.\<close>

definition bs_tables :: "usage_db \<Rightarrow> bs_db" where
  "bs_tables d = (bs_view (ub_users d))\<lparr>db_daily := ub_daily d\<rparr>"

definition store_bs :: "bs_db \<Rightarrow> usage_db \<Rightarrow> usage_db" where
  "store_bs bs d = d\<lparr>ub_users := (fold (\<lambda>uid. write_pool uid bs) (map u_id (ud_users (ub_users d))) (ub_users d))\<lparr>ud_bs_usage := db_usage bs\<rparr>,
     ub_daily := db_daily bs\<rparr>"

definition record_bs_stats :: "record_env \<Rightarrow> (string \<times> int) list \<Rightarrow> int \<Rightarrow> rat \<Rightarrow> bool \<Rightarrow> unit usage_op" where
  "record_bs_stats env params node factor billable =
     bindS (lift_py (mapE (\<lambda>p. bindE (to_int (fst p)) (\<lambda>i. Inr \<lparr>stat_uid = i, stat_value = snd p\<rparr>)) params)) (\<lambda>stats.
       if stats = [] then ret ()
       else execute_once (\<lambda>d. store_bs (record_bs_user_stats stats node factor billable (re_month env) (re_today env) (bs_tables d)) d))"

definition bs_owners :: "usage_db \<Rightarrow> (int \<times> int option) list" where
  "bs_owners d = map (\<lambda>n. (nd_id n, nd_owner n)) (filter nd_is_bs (ud_bs_nodes (ub_users d)))"

record tick_node =
  tn_id :: int
  tn_connected :: bool
  tn_started :: bool
  tn_coefficient :: rat
  tn_reply :: core_reply

type_synonym tick_params = "(int option \<times> rat \<times> (string \<times> int) list) list"

definition api_instances :: "core_reply \<Rightarrow> tick_node list \<Rightarrow> (int option \<times> rat \<times> core_reply) list" where
  "api_instances main nodes = (None, 1, main) #
     map (\<lambda>n. (Some (tn_id n), tn_coefficient n, tn_reply n)) (filter (\<lambda>n. tn_connected n \<and> tn_started n) nodes)"

definition collect_stats :: "core_reply \<Rightarrow> tick_node list \<Rightarrow> tick_params" where
  "collect_stats main nodes = map (\<lambda>(i, c, r). (i, c, case get_users_stats r of Inl _ \<Rightarrow> [] | Inr ps \<Rightarrow> ps)) (api_instances main nodes)"

definition scaled :: "tick_params \<Rightarrow> (string \<times> int) list" where
  "scaled params = concat (map (\<lambda>(i, c, ps). map (\<lambda>p. (fst p, py_int (of_int (snd p) * c))) ps) params)"

definition sum_users :: "tick_params \<Rightarrow> (string \<times> int) list" where
  "sum_users params = dsum [] (scaled params)"

definition sum_admins :: "user_db \<Rightarrow> (string \<times> int) list \<Rightarrow> (int \<times> int) list result" where
  "sum_admins db usage = bindE (mapE (\<lambda>p. to_int (fst p)) usage) (\<lambda>uids.
     Inr (dsum [] (concat (map (\<lambda>(i, p). case Option.bind (find_user db i) u_admin of
         Some a \<Rightarrow> if a \<noteq> 0 then [(a, snd p)] else [] | None \<Rightarrow> []) (zip uids usage)))))"

definition write_usage :: "record_env \<Rightarrow> (string \<times> int) list \<Rightarrow> (int \<times> int) list \<Rightarrow> unit usage_op" where
  "write_usage env users_usage admin_usage =
     thenS (safe_execute env (fold (add_used env) users_usage))
       (if admin_usage = [] then ret () else safe_execute env (fold add_admin_usage admin_usage))"

fun record_nodes :: "record_env \<Rightarrow> (int \<times> int option) list \<Rightarrow> tick_params \<Rightarrow> unit usage_op" where
  "record_nodes env owners [] = ret ()"
| "record_nodes env owners ((node, factor, params) # rest) =
     thenS (swallow (record_user_stats env params node factor))
     (thenS (case node of
         None \<Rightarrow> ret ()
       | Some n \<Rightarrow> (case dget owners n of
           None \<Rightarrow> ret ()
         | Some owner \<Rightarrow> swallow (record_bs_stats env params n factor (owner = None))))
       (record_nodes env owners rest))"

definition record_user_usages :: "record_env \<Rightarrow> core_reply \<Rightarrow> tick_node list \<Rightarrow> unit usage_op" where
  "record_user_usages env main nodes =
     (let api_params = collect_stats main nodes; users_usage = sum_users api_params in
      if users_usage = [] then ret ()
      else bindS (read_db (\<lambda>d. case sum_admins (ub_users d) users_usage of Inl _ \<Rightarrow> [] | Inr a \<Rightarrow> a)) (\<lambda>admin_usage.
        thenS (swallow (write_usage env users_usage admin_usage))
          (if re_disable_node_user env then ret ()
           else bindS (read_db bs_owners) (\<lambda>owners. record_nodes env owners api_params))))"

section \<open>Traffic of the nodes\<close>

definition add_node_usage :: "int option \<Rightarrow> int \<Rightarrow> int \<times> int \<Rightarrow> usage_db \<Rightarrow> usage_db" where
  "add_node_usage node hr p d = d\<lparr>ub_node_usage := map (\<lambda>(k, up, down). if k = (node, hr) then (k, up + fst p, down + snd p)
     else (k, up, down)) (ub_node_usage d)\<rparr>"

definition record_node_stats :: "record_env \<Rightarrow> (int \<times> int) list \<Rightarrow> int option \<Rightarrow> unit usage_op" where
  "record_node_stats env params node =
     (if params = [] then ret ()
      else let hr = hour_of (re_now env) in
        bindS (read_db (\<lambda>d. dget (ub_node_usage d) (node, hr) = None)) (\<lambda>notfound.
        thenS (if notfound then safe_execute env (\<lambda>d. d\<lparr>ub_node_usage := ub_node_usage d @ [((node, hr), 0, 0)]\<rparr>) else ret ())
          (safe_execute env (fold (add_node_usage node hr) params))))"

fun seq_usage :: "('a \<Rightarrow> unit usage_op) \<Rightarrow> 'a list \<Rightarrow> unit usage_op" where
  "seq_usage f [] = ret ()"
| "seq_usage f (x # xs) = thenS (f x) (seq_usage f xs)"

text \<open>Here a statistic that does not parse ends the job.\<close>

definition record_node_usages :: "record_env \<Rightarrow> core_reply \<Rightarrow> tick_node list \<Rightarrow> unit usage_op" where
  "record_node_usages env main nodes =
     bindS (lift_py (mapE (\<lambda>(i, c, r). bindE (get_outbounds_stats r) (\<lambda>ps. Inr (i, ps))) (api_instances main nodes))) (\<lambda>api_params.
       let ups = sum_list (concat (map (\<lambda>(i, ps). map fst ps) api_params));
           downs = sum_list (concat (map (\<lambda>(i, ps). map snd ps) api_params)) in
       if ups = 0 \<and> downs = 0 then ret ()
       else thenS (safe_execute env (\<lambda>d. d\<lparr>ub_system := (fst (ub_system d) + ups, snd (ub_system d) + downs)\<rparr>))
         (if re_disable_node env then ret ()
          else seq_usage (\<lambda>(i, ps). record_node_stats env ps i) api_params))"

section \<open>Clean-up\<close>

text \<open>The rows before the cutoff in the order of a scan, at most one batch of them.\<close>

fun drop_old :: "int \<Rightarrow> nat \<Rightarrow> node_user_usage list \<Rightarrow> nat \<times> node_user_usage list" where
  "drop_old cutoff k [] = (k, [])"
| "drop_old cutoff k (r # rs) =
     (if nu_at r < cutoff \<and> k \<noteq> 0 then drop_old cutoff (k - 1) rs
      else (let (k', rs') = drop_old cutoff k rs in (k', r # rs')))"

fun drop_old_users :: "int \<Rightarrow> nat \<Rightarrow> user_row list \<Rightarrow> user_row list" where
  "drop_old_users cutoff k [] = []"
| "drop_old_users cutoff k (u # us) =
     (let (k', rs) = drop_old cutoff k (u_node_usages u) in u\<lparr>u_node_usages := rs\<rparr> # drop_old_users cutoff k' us)"

definition cleanup_node_user_usages :: "record_env \<Rightarrow> unit usage_op" where
  "cleanup_node_user_usages env =
     (if re_retention env \<le> 0 then ret ()
      else execute_once (\<lambda>d. d\<lparr>ub_users := (ub_users d)\<lparr>ud_users :=
        drop_old_users (re_now env - re_retention env * 86400) (nat (re_batch env)) (ud_users (ub_users d))\<rparr>\<rparr>))"

section \<open>A statement takes effect once or not at all\<close>

definition transient :: "exec_outcome \<Rightarrow> bool" where
  "transient x \<longleftrightarrow> x \<in> {OpFails 1213, OpFails 1205}"

definition outcome_at :: "exec_outcome list \<Rightarrow> nat \<Rightarrow> exec_outcome" where
  "outcome_at xs k = (if k < length xs then xs ! k else Executed)"

lemma next_outcome_at: "next_outcome xs = (outcome_at xs 0, drop 1 xs)"
  by (cases xs) (simp_all add: outcome_at_def)

lemma outcome_at_Suc: "outcome_at xs (Suc k) = outcome_at (drop 1 xs) k"
  by (cases xs) (simp_all add: outcome_at_def)

definition runs_after :: "nat \<Rightarrow> exec_outcome list \<Rightarrow> bool" where
  "runs_after n xs \<longleftrightarrow> (\<exists>k \<le> n. (\<forall>j < k. transient (outcome_at xs j)) \<and> outcome_at xs k = Executed)"

lemma all_less_Suc_split: "(\<forall>j < Suc k. P j) \<longleftrightarrow> P 0 \<and> (\<forall>j < k. P (Suc j))"
  by (auto simp: less_Suc_eq_0_disj)

lemma runs_after_step:
  "runs_after n xs \<longleftrightarrow> outcome_at xs 0 = Executed \<or> (n \<noteq> 0 \<and> transient (outcome_at xs 0) \<and> runs_after (n - 1) (drop 1 xs))"
proof -
  have "runs_after n xs \<longleftrightarrow> outcome_at xs 0 = Executed \<or>
      (\<exists>k. Suc k \<le> n \<and> (\<forall>j < Suc k. transient (outcome_at xs j)) \<and> outcome_at xs (Suc k) = Executed)"
    unfolding runs_after_def by (metis le0 not0_implies_Suc not_less_zero)
  also have "\<dots> \<longleftrightarrow> outcome_at xs 0 = Executed \<or>
      (\<exists>k. Suc k \<le> n \<and> transient (outcome_at xs 0) \<and> (\<forall>j < k. transient (outcome_at (drop 1 xs) j)) \<and> outcome_at (drop 1 xs) k = Executed)"
    by (simp only: all_less_Suc_split outcome_at_Suc) simp
  also have "\<dots> \<longleftrightarrow> outcome_at xs 0 = Executed \<or> (n \<noteq> 0 \<and> transient (outcome_at xs 0) \<and> runs_after (n - 1) (drop 1 xs))"
    by (cases n) (auto simp: runs_after_def)
  finally show ?thesis .
qed

definition ran_once :: "(usage_db \<Rightarrow> usage_db) \<Rightarrow> nat \<Rightarrow> usage_state \<Rightarrow> (usage_error + unit) \<times> usage_state \<Rightarrow> bool" where
  "ran_once stmt n w res \<longleftrightarrow>
     (fst res = Inr () \<longleftrightarrow> runs_after n (uw_script w)) \<and>
     uw_db (snd res) = (if runs_after n (uw_script w) then stmt (uw_db w) else uw_db w) \<and>
     (\<exists>k \<le> n + 1. uw_script (snd res) = drop k (uw_script w))"

lemma execute_once_ran: "ran_once stmt 0 w (execute_once stmt w)"
  unfolding ran_once_def runs_after_step [of 0]
  by (auto simp: execute_once_def next_outcome_at Let_def split: exec_outcome.split)

lemma mysql_loop_ran: "tries \<le> 3 \<Longrightarrow> ran_once stmt (3 - tries) w (mysql_loop stmt tries w)"
proof (induction stmt tries w rule: mysql_loop.induct)
  case (1 stmt tries w)
  let ?xs = "uw_script w" and ?w = "w\<lparr>uw_script := drop 1 (uw_script w)\<rparr>"
  show ?case
  proof (cases "transient (outcome_at ?xs 0) \<and> tries < 3")
    case True
    then obtain code where code: "outcome_at ?xs 0 = OpFails code" "code = 1213 \<or> code = 1205" by (auto simp: transient_def)
    with True have run: "mysql_loop stmt tries w = mysql_loop stmt (tries + 1) ?w"
      by (subst mysql_loop.simps) (simp add: next_outcome_at)
    have "ran_once stmt (3 - (tries + 1)) ?w (mysql_loop stmt (tries + 1) ?w)"
      using 1(1) [OF next_outcome_at [of ?xs, symmetric] refl] code True by simp
    then have ih: "ran_once stmt (3 - tries - 1) ?w (mysql_loop stmt (tries + 1) ?w)" by simp
    have after: "runs_after (3 - tries) ?xs = runs_after (3 - tries - 1) (drop 1 ?xs)"
      using True code by (subst runs_after_step) auto
    obtain k where "k \<le> 3 - tries - 1 + 1" "uw_script (snd (mysql_loop stmt (tries + 1) ?w)) = drop k (drop 1 ?xs)"
      using ih by (auto simp: ran_once_def)
    then have "\<exists>k \<le> 3 - tries + 1. uw_script (snd (mysql_loop stmt (tries + 1) ?w)) = drop k ?xs"
      using True by (intro exI [of _ "k + 1"]) auto
    with ih run after show ?thesis by (simp add: ran_once_def)
  next
    case False
    have "runs_after (3 - tries) ?xs \<longleftrightarrow> outcome_at ?xs 0 = Executed"
      using False by (subst runs_after_step) auto
    then show ?thesis
      using False unfolding ran_once_def
      by (subst (1 2 3) mysql_loop.simps) (auto simp: next_outcome_at Let_def transient_def split: exec_outcome.split)
  qed
qed

lemma safe_execute_ran: "ran_once stmt (if re_mysql env then 3 else 0) w (safe_execute env stmt w)"
  using mysql_loop_ran [of 0 stmt w] execute_once_ran by (simp add: safe_execute_def)


section \<open>What users and administrators are charged\<close>

definition charge :: "user_row \<Rightarrow> int \<times> int \<times> int option \<times> int option" where
  "charge u = (u_id u, u_used u, u_online_at u, u_admin u)"

definition charges :: "usage_db \<Rightarrow> (int \<times> int \<times> int option \<times> int option) list \<times> (int \<times> int) list" where
  "charges d = (map charge (ud_users (ub_users d)), ub_admins d)"

definition same_charges :: "usage_state \<Rightarrow> usage_state \<Rightarrow> bool" where
  "same_charges w w' \<longleftrightarrow> charges (uw_db w') = charges (uw_db w)"

interpretation sc: state_relation same_charges
  by unfold_locales (simp_all add: same_charges_def)

lemma ran_cases: "ran_once stmt n w res \<Longrightarrow> uw_db (snd res) = stmt (uw_db w) \<or> uw_db (snd res) = uw_db w"
  by (auto simp: ran_once_def)

lemma sc_execute:
  assumes "\<And>d. charges (stmt d) = charges d"
  shows "follows same_charges (safe_execute env stmt)" and "follows same_charges (execute_once stmt)"
  using assms ran_cases [OF safe_execute_ran] ran_cases [OF execute_once_ran]
  unfolding follows_def same_charges_def by metis+

lemma sc_swallow: "follows same_charges m \<Longrightarrow> follows same_charges (swallow m)"
  unfolding swallow_def by (intro sc.f_intros)

lemma sc_read: "follows same_charges (read_db f)"
  unfolding read_db_def by (intro sc.f_intros)

lemma sc_lift: "follows same_charges (lift_py r)"
  unfolding lift_py_def by (auto intro!: sc.f_intros split: sum.split)

lemma charges_map_users: "(\<And>u. charge (f u) = charge u) \<Longrightarrow> charges (map_users f d) = charges d"
  by (simp add: charges_def map_users_def comp_def)

lemma charges_fold: "(\<And>p d. charges (f p d) = charges d) \<Longrightarrow> charges (fold f ps d) = charges d"
  by (induction ps arbitrary: d) auto

lemma charges_store_bs: "charges (store_bs bs d) = charges d"
proof -
  have pool: "map charge (ud_users (write_pool uid bs db)) = map charge (ud_users db)" for uid db
    by (auto simp: write_pool_def set_user_def charge_def split: option.split)
  have "map charge (ud_users (fold (\<lambda>uid. write_pool uid bs) uids db)) = map charge (ud_users db)" for uids db
    by (induction uids arbitrary: db) (simp_all add: pool)
  then show ?thesis by (simp add: charges_def store_bs_def)
qed

lemma sc_record_user_stats: "follows same_charges (record_user_stats env params node factor)"
proof -
  have "charges (add_usage_rows env node uids d) = charges d" for uids d
    unfolding add_usage_rows_def by (rule charges_map_users) (simp add: charge_def)
  moreover have "charges (fold (add_usage env node factor) ps d) = charges d" for ps d
    by (rule charges_fold) (auto simp: add_usage_def charge_def intro!: charges_map_users)
  ultimately show ?thesis
    unfolding record_user_stats_def Let_def by (intro sc.f_intros sc_read sc_lift sc_execute) auto
qed

lemma sc_record_bs: "follows same_charges (record_bs_stats env params node factor billable)"
  unfolding record_bs_stats_def by (intro sc.f_intros sc_lift sc_execute charges_store_bs)

lemma sc_record_nodes: "follows same_charges (record_nodes env owners params)"
  by (induction env owners params rule: record_nodes.induct)
    (auto intro!: sc.f_intros sc_swallow sc_record_user_stats sc_record_bs split: option.split)

text \<open>The traffic of one user in a tick: every statistic times the coefficient of its node, without the fraction.\<close>

definition gained :: "tick_params \<Rightarrow> int \<Rightarrow> int" where
  "gained params uid = sum_list (map snd (filter (\<lambda>p. parse_int (fst p) = Some uid) (scaled params)))"

definition seen :: "tick_params \<Rightarrow> int \<Rightarrow> bool" where
  "seen params uid \<longleftrightarrow> (\<exists>p \<in> set (scaled params). parse_int (fst p) = Some uid)"

lemma sum_list_dsum_keys:
  "sum_list (map snd (filter (\<lambda>p. P (fst p)) (dsum d xs))) =
     sum_list (map snd (filter (\<lambda>p. P (fst p)) d)) + sum_list (map snd (filter (\<lambda>p. P (fst p)) xs))"
proof (induction d xs rule: dsum.induct)
  case (2 d k n xs)
  have put: "sum_list (map snd (filter (\<lambda>p. P (fst p)) (dput k (dget_or d k 0 + n) d))) =
      sum_list (map snd (filter (\<lambda>p. P (fst p)) d)) + (if P k then n else 0)"
    by (induction d) (auto simp: dget_or_def split: option.splits)
  with 2 show ?case by (simp add: dadd_def)
qed simp

definition charged :: "record_env \<Rightarrow> (string \<times> int) list \<Rightarrow> user_row \<Rightarrow> user_row" where
  "charged env ps u = (let mine = filter (\<lambda>p. parse_int (fst p) = Some (u_id u)) ps in
     if mine = [] then u else u\<lparr>u_used := u_used u + sum_list (map snd mine), u_online_at := Some (re_now env)\<rparr>)"

lemma map_users_map_users: "map_users f (map_users g d) = map_users (f \<circ> g) d"
  by (simp add: map_users_def)

lemma fold_add_used: "fold (add_used env) ps d = map_users (charged env ps) d"
proof (induction ps arbitrary: d)
  case Nil
  have "charged env [] = id" by (simp add: charged_def fun_eq_iff)
  then show ?case by (simp add: map_users_def)
next
  case (Cons p ps)
  have "charged env ps (if parse_int (fst p) = Some (u_id u) then u\<lparr>u_used := u_used u + snd p, u_online_at := Some (re_now env)\<rparr> else u)
      = charged env (p # ps) u" for u
    by (simp add: charged_def Let_def algebra_simps)
  with Cons show ?case by (simp add: add_used_def map_users_map_users comp_def)
qed

lemma fold_add_admin:
  "ub_admins (fold add_admin_usage ps d) =
     map (\<lambda>(a, used). (a, used + sum_list (map snd (filter (\<lambda>p. fst p = a) ps)))) (ub_admins d) \<and>
   ub_users (fold add_admin_usage ps d) = ub_users d"
proof (induction ps arbitrary: d)
  case Nil then show ?case by (induction "ub_admins d") auto
next
  case (Cons p ps)
  then show ?case by (auto simp: add_admin_usage_def split_beta)
qed

lemma sum_list_all_0: "(\<And>x. x \<in> set xs \<Longrightarrow> f x = (0 :: int)) \<Longrightarrow> sum_list (map f xs) = 0"
  by (induction xs) auto

lemma find_one:
  assumes "distinct (map u_id us)"
  shows "sum_list (map (\<lambda>u. if i = u_id u then v else 0) (filter (\<lambda>u. u_admin u = Some a) us)) =
    (if Option.bind (find (\<lambda>u. u_id u = i) us) u_admin = Some a then v else (0 :: int))"
  using assms
proof (induction us)
  case (Cons u us)
  have "sum_list (map (\<lambda>w. if u_id u = u_id w then v else 0) (filter (\<lambda>u. u_admin u = Some a) us)) = 0"
    using Cons.prems by (intro sum_list_all_0) auto
  with Cons show ?case by (cases "u_id u = i") auto
qed simp

lemma admin_gain:
  fixes ps :: "(string \<times> int) list"
  assumes "distinct (map u_id (ud_users db))"
  shows "sum_list (map (\<lambda>u. sum_list (map snd (filter (\<lambda>p. parse_int (fst p) = Some (u_id u)) ps))) (filter (\<lambda>u. u_admin u = Some a) (ud_users db))) =
    sum_list (map snd (filter (\<lambda>p. Option.bind (parse_int (fst p)) (\<lambda>i. Option.bind (find_user db i) u_admin) = Some a) ps))"
proof (induction ps)
  case (Cons p ps)
  have "sum_list (map (\<lambda>u. sum_list (map snd (filter (\<lambda>p. parse_int (fst p) = Some (u_id u)) (p # ps)))) us) =
     sum_list (map (\<lambda>u. if parse_int (fst p) = Some (u_id u) then snd p else 0) us) +
     sum_list (map (\<lambda>u. sum_list (map snd (filter (\<lambda>p. parse_int (fst p) = Some (u_id u)) ps))) us)" for us :: "user_row list"
    by (induction us) (auto simp: algebra_simps)
  moreover have "sum_list (map (\<lambda>u. if parse_int (fst p) = Some (u_id u) then snd p else 0) (filter (\<lambda>u. u_admin u = Some a) (ud_users db))) =
     (if Option.bind (parse_int (fst p)) (\<lambda>i. Option.bind (find_user db i) u_admin) = Some a then snd p else 0)"
  proof (cases "parse_int (fst p)")
    case (Some i)
    with find_one [OF assms, of i "snd p" a] show ?thesis by (simp add: find_user_def)
  qed (simp add: sum_list_0)
  ultimately show ?case using Cons by simp
qed (simp add: sum_list_0)

lemma sum_admins_gain:
  fixes usage :: "(string \<times> int) list"
  assumes "\<forall>p \<in> set usage. parse_int (fst p) \<noteq> None"
  obtains xs where "sum_admins db usage = Inr xs"
    and "\<And>a. sum_list (map snd (filter (\<lambda>p. fst p = a) xs)) = (if a = 0 then 0 else
      sum_list (map snd (filter (\<lambda>p. Option.bind (parse_int (fst p)) (\<lambda>i. Option.bind (find_user db i) u_admin) = Some a) usage)))"
proof -
  define uids where "uids = map (\<lambda>p. the (parse_int (fst p))) usage"
  define ys where "ys = concat (map (\<lambda>(i, p). case Option.bind (find_user db i) u_admin of
         Some a \<Rightarrow> if a \<noteq> 0 then [(a, snd p)] else [] | None \<Rightarrow> []) (zip uids usage))"
  have uids: "mapE (\<lambda>p. to_int (fst p)) usage = Inr uids"
    unfolding uids_def by (rule mapE_total) (use assms in \<open>auto simp: to_int_def\<close>)
  have "sum_list (map snd (filter (\<lambda>p. fst p = a) ys)) = (if a = 0 then 0 else
      sum_list (map snd (filter (\<lambda>p. Option.bind (parse_int (fst p)) (\<lambda>i. Option.bind (find_user db i) u_admin) = Some a) usage)))" for a
    using assms unfolding ys_def uids_def
  proof (induction usage)
    case (Cons p ps)
    then show ?case by (auto split: option.splits)
  qed simp
  then have "sum_list (map snd (filter (\<lambda>p. fst p = a) (dsum [] ys))) = (if a = 0 then 0 else
      sum_list (map snd (filter (\<lambda>p. Option.bind (parse_int (fst p)) (\<lambda>i. Option.bind (find_user db i) u_admin) = Some a) usage)))" for a
    using sum_list_dsum_keys [of "\<lambda>k. k = a" "[]" ys] by simp
  with that [of "dsum [] ys"] uids show thesis by (simp add: sum_admins_def ys_def)
qed

lemma runs_after_empty [simp]: "runs_after n []"
  by (auto simp: runs_after_def outcome_at_def intro: exI [of _ 0])

lemma safe_execute_cases:
  obtains (ran) w' where "safe_execute env stmt w = (Inr (), w')" "uw_db w' = stmt (uw_db w)" "uw_script w = [] \<Longrightarrow> uw_script w' = []"
  | (failed) e w' where "safe_execute env stmt w = (Inl e, w')" "uw_db w' = uw_db w" "uw_script w \<noteq> []"
proof -
  obtain r w' where r: "safe_execute env stmt w = (r, w')" by force
  have once: "ran_once stmt (if re_mysql env then 3 else 0) w (r, w')"
    using safe_execute_ran [of stmt env w] r by simp
  show thesis
  proof (cases r)
    case (Inl e)
    with once r show thesis by (intro failed [of e w']) (auto simp: ran_once_def split: if_splits)
  next
    case (Inr x)
    with once r show thesis by (intro ran [of w']) (auto simp: ran_once_def split: if_splits)
  qed
qed

lemma write_usage_cases:
  obtains paid paid_admins where "uw_script w = [] \<Longrightarrow> paid \<and> paid_admins" and "paid_admins \<Longrightarrow> paid"
    and "uw_db (snd (write_usage env us as w)) =
      (if paid_admins then fold add_admin_usage as else id) ((if paid then fold (add_used env) us else id) (uw_db w))"
proof (cases rule: safe_execute_cases [of env "fold (add_used env) us" w])
  case (ran w1)
  show thesis
  proof (cases "as = []")
    case True
    with ran that [of True True] show thesis by (simp add: write_usage_def bindS_def ret_def)
  next
    case False
    then have run: "write_usage env us as w = safe_execute env (fold add_admin_usage as) w1"
      using ran by (simp add: write_usage_def bindS_def)
    show thesis
    proof (cases rule: safe_execute_cases [of env "fold add_admin_usage as" w1])
      case (ran w2)
      with run \<open>uw_db w1 = _\<close> that [of True True] show thesis by simp
    next
      case (failed e w2)
      with run ran that [of True False] show thesis by auto
    qed
  qed
next
  case (failed e w1)
  with that [of False False] show thesis by (simp add: write_usage_def bindS_def)
qed

definition admin_gained :: "tick_params \<Rightarrow> usage_db \<Rightarrow> int \<Rightarrow> int" where
  "admin_gained params d a = (if a = 0 then 0 else
     sum_list (map (\<lambda>u. gained params (u_id u)) (filter (\<lambda>u. u_admin u = Some a) (ud_users (ub_users d)))))"

definition after_tick :: "record_env \<Rightarrow> tick_params \<Rightarrow> user_row \<Rightarrow> int \<times> int \<times> int option \<times> int option" where
  "after_tick env params u = (u_id u, u_used u + gained params (u_id u),
     if seen params (u_id u) then Some (re_now env) else u_online_at u, u_admin u)"

lemma gained_sum_users: "gained params uid = sum_list (map snd (filter (\<lambda>p. parse_int (fst p) = Some uid) (sum_users params)))"
  using sum_list_dsum_keys [of "\<lambda>k. parse_int k = Some uid" "[]" "scaled params"]
  by (simp add: gained_def sum_users_def)

lemma keys_sum_users: "fst ` set (sum_users params) = fst ` set (scaled params)"
  using dkeys_dsum [of "[]" "scaled params"] by (simp add: sum_users_def)

lemma charge_charged: "charge (charged env (sum_users params) u) = after_tick env params u"
proof -
  have "seen params (u_id u) \<longleftrightarrow> filter (\<lambda>p. parse_int (fst p) = Some (u_id u)) (sum_users params) \<noteq> []"
  proof -
    have "seen params (u_id u) \<longleftrightarrow> (\<exists>k \<in> fst ` set (scaled params). parse_int k = Some (u_id u))"
      by (auto simp: seen_def)
    also have "\<dots> \<longleftrightarrow> (\<exists>p \<in> set (sum_users params). parse_int (fst p) = Some (u_id u))"
      unfolding keys_sum_users [symmetric] by auto
    finally show ?thesis by (auto simp: filter_empty_conv)
  qed
  then show ?thesis by (auto simp: after_tick_def charge_def charged_def Let_def gained_sum_users)
qed

lemma sum_admins_users:
  assumes "distinct (map u_id (ud_users (ub_users d)))" and "\<forall>p \<in> set (scaled params). parse_int (fst p) \<noteq> None"
  obtains xs where "sum_admins (ub_users d) (sum_users params) = Inr xs"
    and "\<And>a. sum_list (map snd (filter (\<lambda>p. fst p = a) xs)) = admin_gained params d a"
proof -
  have "\<forall>k \<in> fst ` set (sum_users params). parse_int k \<noteq> None" using assms(2) unfolding keys_sum_users by auto
  then have "\<forall>p \<in> set (sum_users params). parse_int (fst p) \<noteq> None" by auto
  then obtain xs where "sum_admins (ub_users d) (sum_users params) = Inr xs"
    and "\<And>a. sum_list (map snd (filter (\<lambda>p. fst p = a) xs)) = (if a = 0 then 0 else
      sum_list (map snd (filter (\<lambda>p. Option.bind (parse_int (fst p)) (\<lambda>i. Option.bind (find_user (ub_users d) i) u_admin) = Some a) (sum_users params))))"
    by (rule sum_admins_gain) blast
  with that show thesis
    by (simp add: admin_gained_def gained_sum_users admin_gain [OF assms(1)])
qed

lemma map_charge_users: "map charge (ud_users (ub_users (map_users f d))) = map (\<lambda>u. charge (f u)) (ud_users (ub_users d))"
  by (simp add: map_users_def)

lemma swallow_run: "swallow m w = (Inr (), snd (m w))"
  by (simp add: swallow_def catchS_def ret_def split: prod.split sum.split)

lemma then_swallow: "bindS (swallow m) (\<lambda>_. n) w = n (snd (m w))"
  by (simp add: bindS_def swallow_run)

definition never_raises :: "unit usage_op \<Rightarrow> bool" where
  "never_raises m \<longleftrightarrow> (\<forall>w. fst (m w) = Inr ())"

lemma never_raises_intros:
  "never_raises (ret ())" "never_raises (swallow m)"
  "never_raises m \<Longrightarrow> never_raises n \<Longrightarrow> never_raises (bindS m (\<lambda>_. n))"
  by (auto simp: never_raises_def ret_def swallow_run bindS_def split: prod.split sum.split)
    (metis Inr_not_Inl fst_conv)+

lemma record_nodes_ok: "never_raises (record_nodes env owners params)"
  by (induction env owners params rule: record_nodes.induct)
    (auto intro!: never_raises_intros split: option.split)

lemma read_db_bind: "bindS (read_db f) g w = g (f (uw_db w)) w"
  by (simp add: read_db_def eff_defs)


section \<open>The totals of the nodes\<close>

definition node_totals :: "usage_db \<Rightarrow> int \<times> int" where
  "node_totals d = (sum_list (map (\<lambda>r. fst (snd r)) (ub_node_usage d)), sum_list (map (\<lambda>r. snd (snd r)) (ub_node_usage d)))"

lemma add_node_usage_sum:
  fixes f :: "int \<times> int \<Rightarrow> int"
  assumes "distinct (map fst rows)"
  shows "sum_list (map (\<lambda>r. f (snd r)) (map (\<lambda>(k, up, down). if k = key then (k, up + a, down + b) else (k, up, down)) rows)) =
     sum_list (map (\<lambda>r. f (snd r)) rows) + (case dget rows key of None \<Rightarrow> 0 | Some v \<Rightarrow> f (fst v + a, snd v + b) - f v)"
  using assms
proof (induction rows)
  case (Cons r rows)
  obtain k up down where r: "r = (k, up, down)" by (cases r)
  show ?case
  proof (cases "k = key")
    case True
    with Cons.prems r have "dget rows key = None" by (auto simp: map_of_eq_None_iff)
    with Cons r True show ?thesis by simp
  next
    case False
    with Cons r show ?thesis by simp
  qed
qed simp

definition node_rows_wf :: "usage_db \<Rightarrow> bool" where
  "node_rows_wf d \<longleftrightarrow> distinct (map fst (ub_node_usage d))"

lemma node_keys_add: "map fst (ub_node_usage (add_node_usage node hr p d)) = map fst (ub_node_usage d)"
  by (auto simp: add_node_usage_def split_beta)

lemma node_totals_add:
  assumes "node_rows_wf d" and "(node, hr) \<in> fst ` set (ub_node_usage d)"
  shows "node_totals (add_node_usage node hr p d) = (fst (node_totals d) + fst p, snd (node_totals d) + snd p)"
proof -
  obtain v where "dget (ub_node_usage d) (node, hr) = Some v"
    using assms(2) by (metis map_of_eq_None_iff not_None_eq)
  then show ?thesis
    using assms(1) add_node_usage_sum [of "ub_node_usage d" fst "(node, hr)" "fst p" "snd p"]
      add_node_usage_sum [of "ub_node_usage d" snd "(node, hr)" "fst p" "snd p"]
    by (simp add: node_totals_def add_node_usage_def node_rows_wf_def)
qed

lemma node_totals_adds:
  assumes "node_rows_wf d" and "(node, hr) \<in> fst ` set (ub_node_usage d)"
  shows "node_totals (fold (add_node_usage node hr) ps d) =
      (fst (node_totals d) + sum_list (map fst ps), snd (node_totals d) + sum_list (map snd ps)) \<and>
    map fst (ub_node_usage (fold (add_node_usage node hr) ps d)) = map fst (ub_node_usage d) \<and>
    ub_system (fold (add_node_usage node hr) ps d) = ub_system d"
  using assms
proof (induction ps arbitrary: d)
  case (Cons p ps)
  let ?d = "add_node_usage node hr p d"
  have keys: "map fst (ub_node_usage ?d) = map fst (ub_node_usage d)" by (rule node_keys_add)
  then have "node_rows_wf ?d" "(node, hr) \<in> fst ` set (ub_node_usage ?d)"
    using Cons.prems by (metis node_rows_wf_def, metis list.set_map)
  with Cons.IH [of ?d] node_totals_add [OF Cons.prems] keys show ?case
    by (simp add: add_node_usage_def)
qed simp

lemma record_node_stats_totals:
  assumes "uw_script w = []" and "node_rows_wf (uw_db w)"
  obtains w' where "record_node_stats env ps node w = (Inr (), w')" "uw_script w' = []" "node_rows_wf (uw_db w')"
    "ub_system (uw_db w') = ub_system (uw_db w)"
    "node_totals (uw_db w') = (fst (node_totals (uw_db w)) + sum_list (map fst ps), snd (node_totals (uw_db w)) + sum_list (map snd ps))"
proof (cases "ps = []")
  case True
  with assms that [of w] show thesis by (simp add: record_node_stats_def ret_def)
next
  case False
  define hr where "hr = hour_of (re_now env)"
  define d1 where "d1 = (if dget (ub_node_usage (uw_db w)) (node, hr) = None
    then (uw_db w)\<lparr>ub_node_usage := ub_node_usage (uw_db w) @ [((node, hr), 0, 0)]\<rparr> else uw_db w)"
  have d1: "node_rows_wf d1" "(node, hr) \<in> fst ` set (ub_node_usage d1)" "node_totals d1 = node_totals (uw_db w)"
    "ub_system d1 = ub_system (uw_db w)"
    using assms(2) by (auto simp: d1_def node_rows_wf_def node_totals_def map_of_eq_None_iff)
  have exec: "\<exists>v. safe_execute env stmt u = (Inr (), v) \<and> uw_script v = [] \<and> uw_db v = stmt (uw_db u)" if "uw_script u = []" for u stmt
    by (cases rule: safe_execute_cases [of env stmt u]) (use that in auto)
  obtain u where u: "(if dget (ub_node_usage (uw_db w)) (node, hr) = None
      then safe_execute env (\<lambda>d. d\<lparr>ub_node_usage := ub_node_usage d @ [((node, hr), 0, 0)]\<rparr>) else ret ()) w = (Inr (), u)"
    "uw_script u = []" "uw_db u = d1"
    using exec [OF assms(1)] assms(1) by (cases "dget (ub_node_usage (uw_db w)) (node, hr) = None") (force simp: d1_def ret_def)+
  obtain v where v: "safe_execute env (fold (add_node_usage node hr) ps) u = (Inr (), v)" "uw_script v = []"
    "uw_db v = fold (add_node_usage node hr) ps d1"
    using exec [OF u(2)] u(3) by metis
  have "record_node_stats env ps node w = (Inr (), v)"
    using False u v by (simp add: record_node_stats_def Let_def read_db_def eff_defs hr_def [symmetric])
  with that [of v] v node_totals_adds [OF d1(1,2), of ps] d1 show thesis by (simp add: node_rows_wf_def)
qed

lemma seq_node_stats_totals:
  "uw_script w = [] \<Longrightarrow> node_rows_wf (uw_db w) \<Longrightarrow>
   \<exists>w'. seq_usage (\<lambda>(i, ps). record_node_stats env ps i) params w = (Inr (), w') \<and>
     ub_system (uw_db w') = ub_system (uw_db w) \<and>
     node_totals (uw_db w') = (fst (node_totals (uw_db w)) + sum_list (concat (map (\<lambda>(i, ps). map fst ps) params)),
       snd (node_totals (uw_db w)) + sum_list (concat (map (\<lambda>(i, ps). map snd ps) params)))"
proof (induction params arbitrary: w)
  case Nil then show ?case by (simp add: ret_def)
next
  case (Cons ip params)
  obtain i ps where ip: "ip = (i, ps)" by force
  obtain u where u: "record_node_stats env ps i w = (Inr (), u)" "uw_script u = []" "node_rows_wf (uw_db u)"
    "ub_system (uw_db u) = ub_system (uw_db w)"
    "node_totals (uw_db u) = (fst (node_totals (uw_db w)) + sum_list (map fst ps), snd (node_totals (uw_db w)) + sum_list (map snd ps))"
    by (rule record_node_stats_totals [OF Cons.prems])
  show ?case using Cons.IH [OF u(2,3)] u ip by (auto simp: bindS_def)
qed

lemma safe_execute_runs: "uw_script w = [] \<Longrightarrow> \<exists>w'. safe_execute env stmt w = (Inr (), w') \<and> uw_script w' = [] \<and> uw_db w' = stmt (uw_db w)"
  by (cases rule: safe_execute_cases [of env stmt w]) auto

text \<open>C40: A tick of the node statistics adds the same traffic to the totals of the system and to the hourly
  rows of the nodes, so the two accounts never drift apart. This holds whatever the cores report,
  with rows for hours and nodes that are new, and also when nothing is recorded.\<close>
theorem node_traffic_adds_up:
  assumes "uw_script w = []" and "node_rows_wf (uw_db w)" and "\<not> re_disable_node env"
    and "record_node_usages env main nodes w = (Inr (), w')"
  shows "fst (ub_system (uw_db w')) - fst (ub_system (uw_db w)) = fst (node_totals (uw_db w')) - fst (node_totals (uw_db w)) \<and>
    snd (ub_system (uw_db w')) - snd (ub_system (uw_db w)) = snd (node_totals (uw_db w')) - snd (node_totals (uw_db w))"
proof -
  obtain params where params: "mapE (\<lambda>(i, c, r). bindE (get_outbounds_stats r) (\<lambda>ps. Inr (i, ps))) (api_instances main nodes) = Inr params"
    using assms(4) by (auto simp: record_node_usages_def lift_py_def throw_def bindS_def split: sum.splits)
  define ups where "ups = sum_list (concat (map (\<lambda>(i, ps). map fst ps) params))"
  define downs where "downs = sum_list (concat (map (\<lambda>(i, ps). map snd ps) params))"
  define step where "step = (\<lambda>d :: usage_db. d\<lparr>ub_system := (fst (ub_system d) + ups, snd (ub_system d) + downs)\<rparr>)"
  obtain u where u: "safe_execute env step w = (Inr (), u)" "uw_script u = []" "uw_db u = step (uw_db w)"
    using safe_execute_runs [OF assms(1)] by blast
  have wf: "node_rows_wf (uw_db u)" "node_totals (uw_db u) = node_totals (uw_db w)"
    using assms(2) u by (simp_all add: step_def node_rows_wf_def node_totals_def)
  have run: "record_node_usages env main nodes w = (if ups = 0 \<and> downs = 0 then (Inr (), w)
      else seq_usage (\<lambda>(i, ps). record_node_stats env ps i) params u)"
    using assms(3) u by (simp add: record_node_usages_def params lift_py_def bindS_def ret_def Let_def ups_def [symmetric]
        downs_def [symmetric] step_def [symmetric])
  show ?thesis
  proof (cases "ups = 0 \<and> downs = 0")
    case True
    with run assms(4) show ?thesis by simp
  next
    case False
    then have "seq_usage (\<lambda>(i, ps). record_node_stats env ps i) params u = (Inr (), w')"
      using run assms(4) by auto
    with seq_node_stats_totals [OF u(2) wf(1), of env params] u(3) wf(2) show ?thesis
      by (simp add: step_def ups_def downs_def split_beta)
  qed
qed

section \<open>Clean-up\<close>

lemma drop_old_exact:
  "drop_old cutoff k rs = (k', rs') \<Longrightarrow>
     k' = k - length (filter (\<lambda>r. nu_at r < cutoff) rs) \<and>
     filter (\<lambda>r. \<not> nu_at r < cutoff) rs' = filter (\<lambda>r. \<not> nu_at r < cutoff) rs \<and>
     filter (\<lambda>r. nu_at r < cutoff) rs' = drop k (filter (\<lambda>r. nu_at r < cutoff) rs)"
proof (induction cutoff k rs arbitrary: k' rs' rule: drop_old.induct)
  case (2 cutoff k r rs)
  show ?case
  proof (cases "nu_at r < cutoff \<and> k \<noteq> 0")
    case True
    with 2 show ?thesis by (cases k) auto
  next
    case False
    with 2 show ?thesis by (cases "nu_at r < cutoff") (auto split: prod.splits)
  qed
qed simp

definition old_rows :: "int \<Rightarrow> user_row list \<Rightarrow> node_user_usage list" where
  "old_rows cutoff us = concat (map (\<lambda>u. filter (\<lambda>r. nu_at r < cutoff) (u_node_usages u)) us)"

lemma drop_old_users_exact:
  "old_rows cutoff (drop_old_users cutoff k us) = drop k (old_rows cutoff us) \<and>
   map (\<lambda>u. u\<lparr>u_node_usages := filter (\<lambda>r. \<not> nu_at r < cutoff) (u_node_usages u)\<rparr>) (drop_old_users cutoff k us) =
     map (\<lambda>u. u\<lparr>u_node_usages := filter (\<lambda>r. \<not> nu_at r < cutoff) (u_node_usages u)\<rparr>) us"
proof (induction cutoff k us rule: drop_old_users.induct)
  case (2 cutoff k u us)
  obtain k' rs where r: "drop_old cutoff k (u_node_usages u) = (k', rs)" by force
  from drop_old_exact [OF r] 2 [OF r [symmetric] refl] r show ?case
    by (simp add: old_rows_def)
qed (simp add: old_rows_def)

text \<open>One run of the clean-up removes the first batch of rows that are older than the retention, as many
  as there are up to the size of a batch, and nothing else: rows young enough, the users and their
  traffic are as before. With a retention of zero it removes nothing.\<close>
theorem cleanup_removes_one_batch:
  assumes "uw_script w = []" and "cleanup_node_user_usages env w = (r, w')" and "0 < re_retention env"
    and "cutoff = re_now env - re_retention env * 86400"
  shows "r = Inr () \<and>
    old_rows cutoff (ud_users (ub_users (uw_db w'))) = drop (nat (re_batch env)) (old_rows cutoff (ud_users (ub_users (uw_db w)))) \<and>
    map (\<lambda>u. u\<lparr>u_node_usages := filter (\<lambda>r. \<not> nu_at r < cutoff) (u_node_usages u)\<rparr>) (ud_users (ub_users (uw_db w'))) =
      map (\<lambda>u. u\<lparr>u_node_usages := filter (\<lambda>r. \<not> nu_at r < cutoff) (u_node_usages u)\<rparr>) (ud_users (ub_users (uw_db w)))"
  using assms drop_old_users_exact [of cutoff "nat (re_batch env)" "ud_users (ub_users (uw_db w))"]
  by (auto simp: cleanup_node_user_usages_def execute_once_def)

section \<open>Witnesses\<close>

definition sample_usage_state :: usage_state where
  "sample_usage_state = \<lparr>uw_db = \<lparr>ub_users = sample_users, ub_admins = [(1, 50)], ub_daily = [], ub_node_usage = [], ub_system = (0, 0)\<rparr>,
     uw_script = []\<rparr>"

definition sample_record_env :: record_env where
  "sample_record_env = \<lparr>re_mysql = True, re_disable_node_user = True, re_disable_node = False, re_round = py_int, re_now = 864000,
     re_month = sample_month, re_today = 10, re_retention = 5, re_batch = 100\<rparr>"

definition sample_reply :: core_reply where
  "sample_reply = Reply [(''user>>>7.alice>>>traffic>>>uplink'', 3), (''user>>>7.alice>>>traffic>>>downlink'', 4)]"

definition sample_tick_node :: tick_node where
  "sample_tick_node = \<lparr>tn_id = 3, tn_connected = True, tn_started = True, tn_coefficient = 1 / 2, tn_reply = sample_reply\<rparr>"

lemma sample_collect: "collect_stats sample_reply [sample_tick_node] = [(None, 1, [(''7'', 7)]), (Some 3, 1 / 2, [(''7'', 7)])]"
  by code_simp


theorem cleanup_removes_one_batch_witness:
  "old_rows 432000 (ud_users (ub_users (uw_db (snd (cleanup_node_user_usages sample_record_env sample_usage_state))))) = []"
proof -
  obtain r w' where run: "cleanup_node_user_usages sample_record_env sample_usage_state = (r, w')" by force
  have "(432000 :: int) = re_now sample_record_env - re_retention sample_record_env * 86400"
    by (simp add: sample_record_env_def)
  moreover have "drop (nat (re_batch sample_record_env)) (old_rows 432000 (ud_users (ub_users (uw_db sample_usage_state)))) = []"
    by code_simp
  moreover have "uw_script sample_usage_state = []" "0 < re_retention sample_record_env"
    by (simp_all add: sample_usage_state_def sample_record_env_def)
  ultimately show ?thesis using cleanup_removes_one_batch [OF _ run] run by simp
qed

definition sample_outbounds :: core_reply where
  "sample_outbounds = Reply [(''outbound>>>DIRECT>>>traffic>>>uplink'', 5), (''outbound>>>DIRECT>>>traffic>>>downlink'', 9)]"

theorem node_traffic_adds_up_witness:
  "fst (node_totals (uw_db (snd (record_node_usages sample_record_env sample_outbounds [] sample_usage_state)))) = 5"
proof -
  obtain r w' where run: "record_node_usages sample_record_env sample_outbounds [] sample_usage_state = (r, w')" by force
  have ok: "fst (record_node_usages sample_record_env sample_outbounds [] sample_usage_state) = Inr ()" by code_simp
  have sys: "ub_system (uw_db (snd (record_node_usages sample_record_env sample_outbounds [] sample_usage_state))) = (5, 9)" by code_simp
  have "node_rows_wf (uw_db sample_usage_state)" "uw_script sample_usage_state = []" "\<not> re_disable_node sample_record_env"
    "node_totals (uw_db sample_usage_state) = (0, 0)" "ub_system (uw_db sample_usage_state) = (0, 0)"
    by (simp_all add: sample_usage_state_def sample_record_env_def node_rows_wf_def node_totals_def)
  then show ?thesis using node_traffic_adds_up [of sample_usage_state sample_record_env sample_outbounds "[]" w'] run ok sys by simp
qed

end
