(* ===== verification/Tokens.thy ===== *)
theory Tokens
  imports UserFrame
begin

text \<open>
  Tokens (app/utils/jwt.py): the signed tokens of subscriptions, with the Base64 they are written in,
  the older form of them as JSON web tokens, and who is behind a token (app/dependencies.py,
  app/routers/subscription.py). The digest, the JWT library and the clock are arguments. A byte is a
  character; a text that is not made of code points below 256 names no user and decodes to nothing.
  Times are whole seconds.
\<close>

section \<open>Base64 with the alphabet of URLs\<close>

definition b64_char :: "nat \<Rightarrow> char" where
  "b64_char n = (if n < 26 then char_of (65 + n) else if n < 52 then char_of (71 + n)
     else if n < 62 then char_of (n - 4) else if n = 62 then CHR ''-'' else CHR ''_'')"

text \<open>Decoding translates \<open>-\<close> and \<open>_\<close> to \<open>+\<close> and \<open>/\<close>, so all four are read.\<close>

definition b64_val :: "char \<Rightarrow> nat option" where
  "b64_val c = (let n = (of_char c :: nat) in
     if 65 \<le> n \<and> n \<le> 90 then Some (n - 65) else if 97 \<le> n \<and> n \<le> 122 then Some (n - 71)
     else if 48 \<le> n \<and> n \<le> 57 then Some (n + 4)
     else if c = CHR ''-'' \<or> c = CHR ''+'' then Some 62 else if c = CHR ''_'' \<or> c = CHR ''/'' then Some 63 else None)"

fun b64_sextets :: "nat list \<Rightarrow> nat list" where
  "b64_sextets [] = []"
| "b64_sextets [a] = [a div 4, (a mod 4) * 16]"
| "b64_sextets [a, b] = [a div 4, (a mod 4) * 16 + b div 16, (b mod 16) * 4]"
| "b64_sextets (a # b # c # r) =
     (a div 4) # ((a mod 4) * 16 + b div 16) # ((b mod 16) * 4 + c div 64) # (c mod 64) # b64_sextets r"

fun b64_octets :: "nat list \<Rightarrow> nat list option" where
  "b64_octets [] = Some []"
| "b64_octets [p, q] = Some [p * 4 + q div 16]"
| "b64_octets [p, q, r] = Some [p * 4 + q div 16, (q mod 16) * 16 + r div 4]"
| "b64_octets (p # q # r # s # rest) =
     map_option (\<lambda>t. (p * 4 + q div 16) # ((q mod 16) * 16 + r div 4) # ((r mod 4) * 64 + s) # t) (b64_octets rest)"
| "b64_octets _ = None"

text \<open>\<open>b64encode(data, altchars=b"-_")\<close> without and with the padding.\<close>

definition b64_text :: "string \<Rightarrow> string" where
  "b64_text data = map b64_char (b64_sextets (map of_char data))"

definition b64encode :: "string \<Rightarrow> string" where
  "b64encode data = b64_text data @ replicate (nat ((- int (length (b64_text data))) mod 4)) (CHR ''='')"

fun vals :: "string \<Rightarrow> nat list option" where
  "vals [] = Some []"
| "vals (c # s) = (case b64_val c of None \<Rightarrow> None | Some v \<Rightarrow> map_option ((#) v) (vals s))"

text \<open>
  \<open>b64decode(text, altchars=b"-_", validate=True)\<close>: letters of the alphabet and at most two signs of
  padding, in groups of four.
\<close>

definition b64decode :: "string \<Rightarrow> string option" where
  "b64decode s = (let body = takeWhile (\<lambda>c. c \<noteq> CHR ''='') s; pad = dropWhile (\<lambda>c. c \<noteq> CHR ''='') s in
     if set pad \<subseteq> {CHR ''=''} \<and> length pad \<le> 2 \<and> length s mod 4 = 0
     then Option.bind (vals body) (\<lambda>vs. map_option (map char_of) (b64_octets vs))
     else None)"

text \<open>UTF-8 of the code points below 256.\<close>

fun utf8_encode :: "string \<Rightarrow> string" where
  "utf8_encode [] = []"
| "utf8_encode (c # s) = (let n = (of_char c :: nat) in
     if n < 128 then c # utf8_encode s else char_of (192 + n div 64) # char_of (128 + n mod 64) # utf8_encode s)"

fun utf8_decode :: "string \<Rightarrow> string option" where
  "utf8_decode [] = Some []"
| "utf8_decode (b # s) = (let n = (of_char b :: nat) in
     if n < 128 then map_option ((#) b) (utf8_decode s)
     else (case s of [] \<Rightarrow> None
       | c # s' \<Rightarrow> (let m = (of_char c :: nat) in
           if (n = 194 \<or> n = 195) \<and> 128 \<le> m \<and> m < 192
           then map_option ((#) (char_of ((n - 192) * 64 + (m - 128)))) (utf8_decode s') else None)))"

section \<open>JSON web tokens\<close>

record claims =
  cl_sub :: "string option"
  cl_access :: "string option"
  cl_iat :: "int option"
  cl_exp :: "int option"

text \<open>\<open>jl_decode now token key\<close> is None where \<open>jwt.decode\<close> raises.\<close>

record token_lib =
  jl_encode :: "claims \<Rightarrow> string \<Rightarrow> string"
  jl_decode :: "int \<Rightarrow> string \<Rightarrow> string \<Rightarrow> claims option"
  jl_digest :: "string \<Rightarrow> string"

record token_keys =
  tk_primary :: string
  tk_legacy :: "string list"
  tk_expire_minutes :: int

definition get_subscription_secret_keys :: "token_keys \<Rightarrow> string list" where
  "get_subscription_secret_keys tk = fold (\<lambda>k ks. if k \<noteq> [] \<and> k \<notin> set ks then ks @ [k] else ks) (tk_legacy tk) [tk_primary tk]"

definition create_admin_token :: "token_lib \<Rightarrow> token_keys \<Rightarrow> int \<Rightarrow> string \<Rightarrow> bool \<Rightarrow> string" where
  "create_admin_token lib tk now username is_sudo =
     jl_encode lib \<lparr>cl_sub = Some username, cl_access = Some (if is_sudo then ''sudo'' else ''admin''), cl_iat = Some now,
       cl_exp = (if tk_expire_minutes tk > 0 then Some (now + 60 * tk_expire_minutes tk) else None)\<rparr> (tk_primary tk)"

record admin_payload =
  ap_username :: string
  ap_sudo :: bool
  ap_created_at :: "int option"

definition get_admin_payload :: "token_lib \<Rightarrow> token_keys \<Rightarrow> int \<Rightarrow> string \<Rightarrow> admin_payload option" where
  "get_admin_payload lib tk now token =
     (case jl_decode lib now token (tk_primary tk) of
        None \<Rightarrow> None
      | Some p \<Rightarrow>
          if \<not> truthy_str (cl_sub p) \<or> (cl_access p \<noteq> Some ''admin'' \<and> cl_access p \<noteq> Some ''sudo'') then None
          else Some \<lparr>ap_username = the (cl_sub p), ap_sudo = (cl_access p = Some ''sudo''), ap_created_at = cl_iat p\<rparr>)"

section \<open>Subscription tokens\<close>

definition sign :: "token_lib \<Rightarrow> string \<Rightarrow> string \<Rightarrow> string" where
  "sign lib body key = take 10 (b64encode (jl_digest lib (utf8_encode (body @ key))))"

text \<open>\<open>now\<close> is the time rounded up.\<close>

definition create_subscription_token :: "token_lib \<Rightarrow> token_keys \<Rightarrow> int \<Rightarrow> string \<Rightarrow> string" where
  "create_subscription_token lib tk now username =
     (let body = b64_text (utf8_encode (username @ '','' @ int_str now)) in body @ sign lib body (tk_primary tk))"

definition jwt_prefix :: string where
  "jwt_prefix = ''eyJhbGciOiJIUzI1NiIsInR5cCI6IkpXVCJ9.''"

type_synonym sub_payload = "(string \<times> int) option result"

fun jwt_payload :: "token_lib \<Rightarrow> int \<Rightarrow> string \<Rightarrow> string list \<Rightarrow> sub_payload" where
  "jwt_payload lib now token [] = Inr None"
| "jwt_payload lib now token (k # ks) =
     (case jl_decode lib now token k of
        None \<Rightarrow> jwt_payload lib now token ks
      | Some p \<Rightarrow> if cl_access p = Some ''subscription''
          then (case cl_sub p of None \<Rightarrow> Inl (KeyError ''sub'')
            | Some s \<Rightarrow> (case cl_iat p of None \<Rightarrow> Inl (KeyError ''iat'') | Some t \<Rightarrow> Inr (Some (s, t))))
          else jwt_payload lib now token ks)"

definition signed_payload :: "string \<Rightarrow> sub_payload" where
  "signed_payload text' = (case split_on (CHR '','') text' of
     name # stamp # _ \<Rightarrow> (case parse_int stamp of None \<Rightarrow> Inl (ValueError stamp) | Some t \<Rightarrow> Inr (Some (name, t)))
   | _ \<Rightarrow> Inl (IndexError ''1''))"

definition get_subscription_payload :: "token_lib \<Rightarrow> token_keys \<Rightarrow> int \<Rightarrow> string \<Rightarrow> sub_payload" where
  "get_subscription_payload lib tk now token =
     (if length token < 15 then Inr None
      else if starts_with token jwt_prefix then jwt_payload lib now token (get_subscription_secret_keys tk)
      else
        (let u_token = take (length token - 10) token;
             u_signature = drop (length token - 10) token;
             padded = u_token @ replicate (nat ((- int (length (utf8_encode u_token))) mod 4)) (CHR ''='')
         in case Option.bind (b64decode (utf8_encode padded)) utf8_decode of
              None \<Rightarrow> Inr None
            | Some text' \<Rightarrow>
                if \<exists>k \<in> set (get_subscription_secret_keys tk). u_signature = sign lib u_token k
                then signed_payload text' else Inr None))"

section \<open>Who is behind a token\<close>

text \<open>The name column of users ignores case.\<close>

definition user_named :: "user_db \<Rightarrow> string \<Rightarrow> user_row option" where
  "user_named db name = find (\<lambda>u. map lower_char (u_name u) = map lower_char name) (ud_users db)"

datatype sub_error = SubNotFound | SubUnhandled py_error

definition get_validated_sub :: "token_lib \<Rightarrow> token_keys \<Rightarrow> int \<Rightarrow> user_db \<Rightarrow> string \<Rightarrow> sub_error + user_row" where
  "get_validated_sub lib tk now db token =
     (case get_subscription_payload lib tk now token of
        Inl e \<Rightarrow> Inl (SubUnhandled e)
      | Inr None \<Rightarrow> Inl SubNotFound
      | Inr (Some (name, created)) \<Rightarrow>
          (case user_named db name of
             None \<Rightarrow> Inl SubNotFound
           | Some u \<Rightarrow> if u_created_at u > created then Inl SubNotFound
               else if (case u_sub_revoked_at u of None \<Rightarrow> False | Some r \<Rightarrow> r > created) then Inl SubNotFound
               else Inr u))"

text \<open>The page and the subscription itself also show what is left to a revoked link: the user, the flag, the time.\<close>

definition resolve_subscription_context ::
  "token_lib \<Rightarrow> token_keys \<Rightarrow> int \<Rightarrow> user_db \<Rightarrow> string \<Rightarrow> (user_row option \<times> bool \<times> int option) result" where
  "resolve_subscription_context lib tk now db token =
     bindE (get_subscription_payload lib tk now token) (\<lambda>sub. case sub of
        None \<Rightarrow> Inr (None, False, None)
      | Some (name, created) \<Rightarrow>
          (case user_named db name of
             None \<Rightarrow> Inr (None, False, None)
           | Some u \<Rightarrow> if u_created_at u > created then Inr (None, False, None)
               else Inr (Some u, case u_sub_revoked_at u of None \<Rightarrow> False | Some r \<Rightarrow> r > created, Some created)))"

section \<open>Round trips of the encodings\<close>

lemma b64_val_char [simp]: "n < 64 \<Longrightarrow> b64_val (b64_char n) = Some n"
proof -
  assume n: "n < 64"
  consider "n < 26" | "26 \<le> n" "n < 52" | "52 \<le> n" "n < 62" | "n = 62" | "n = 63" using n by linarith
  then show ?thesis
  proof cases
    case 3
    then have "48 \<le> n - 4" "n - 4 \<le> 57" "\<not> 65 \<le> n - 4" "\<not> 97 \<le> n - 4" by linarith+
    with 3 show ?thesis by (simp add: b64_char_def b64_val_def Let_def)
  qed (simp_all add: b64_char_def b64_val_def Let_def)
qed

lemma sextets_bound: "\<forall>b \<in> set bs. b < 256 \<Longrightarrow> \<forall>v \<in> set (b64_sextets bs). v < 64"
  by (induction bs rule: b64_sextets.induct) auto

lemma join_bits:
  "b < 256 \<Longrightarrow> (a div 4) * 4 + (a mod 4 * 16 + b div 16) div 16 = a"
  "b < 256 \<Longrightarrow> c < 256 \<Longrightarrow> (a mod 4 * 16 + b div 16) mod 16 * 16 + (b mod 16 * 4 + c div 64) div 4 = b"
  "c < 256 \<Longrightarrow> (b mod 16 * 4 + c div 64) mod 4 * 64 + c mod 64 = c"
  "b < 256 \<Longrightarrow> (a mod 4 * 16 + b div 16) mod 16 * 16 + (b mod 16 * 4) div 4 = b"
  for a b c :: nat
proof -
  have lo: "(x * 16 + y) div 16 = x" "(x * 16 + y) mod 16 = y" if "y < 16" for x y :: nat using that by simp_all
  have lo4: "(x * 4 + y) div 4 = x" "(x * 4 + y) mod 4 = y" if "y < 4" for x y :: nat using that by simp_all
  have b: "b div 16 < 16" if "b < 256" using that by (simp add: less_mult_imp_div_less)
  have c: "c div 64 < 4" if "c < 256" using that by (simp add: less_mult_imp_div_less)
  show "b < 256 \<Longrightarrow> (a div 4) * 4 + (a mod 4 * 16 + b div 16) div 16 = a"
    using b by (simp only: lo div_mult_mod_eq)
  show "b < 256 \<Longrightarrow> c < 256 \<Longrightarrow> (a mod 4 * 16 + b div 16) mod 16 * 16 + (b mod 16 * 4 + c div 64) div 4 = b"
    using b c by (simp only: lo lo4 div_mult_mod_eq)
  show "c < 256 \<Longrightarrow> (b mod 16 * 4 + c div 64) mod 4 * 64 + c mod 64 = c"
    using c by (simp only: lo4 div_mult_mod_eq)
  show "b < 256 \<Longrightarrow> (a mod 4 * 16 + b div 16) mod 16 * 16 + (b mod 16 * 4) div 4 = b"
    using b lo4(1) [of 0 "b mod 16"] by (simp only: lo div_mult_mod_eq) simp
qed

lemma octets_sextets: "\<forall>b \<in> set bs. b < 256 \<Longrightarrow> b64_octets (b64_sextets bs) = Some bs"
proof (induction bs rule: b64_sextets.induct)
  case (2 a) then show ?case by simp
next
  case (3 a b)
  then have "b < 256" by simp
  then show ?case by (simp only: b64_sextets.simps b64_octets.simps join_bits)
next
  case (4 a b c r) then show ?case by (simp add: join_bits del: div_mult_self1 div_mult_self2 div_mult_self3 div_mult_self4 mod_mult_self1 mod_mult_self2 mod_mult_self3 mod_mult_self4)
qed simp

definition alphabet :: "char set" where
  "alphabet = b64_char ` {..<64}"

lemma alphabet_chars: "c \<in> alphabet \<Longrightarrow> (of_char c :: nat) < 128 \<and> c \<noteq> CHR ''='' \<and> c \<noteq> CHR ''.''"
proof -
  assume "c \<in> alphabet"
  then obtain n where n: "c = b64_char n" "n < 64" by (auto simp: alphabet_def)
  then have "b64_val c = Some n" by simp
  moreover have "b64_val (CHR ''='') = None" "b64_val (CHR ''.'') = None" by code_simp+
  moreover have "(of_char c :: nat) < 128" if "b64_val c \<noteq> None"
    using that by (auto simp: b64_val_def Let_def split: if_splits)
  ultimately show ?thesis by auto
qed

lemma b64_text_alphabet: "set (b64_text data) \<subseteq> alphabet"
  using sextets_bound [of "map of_char data"] by (auto simp: b64_text_def alphabet_def)

lemma utf8_ascii: "\<forall>c \<in> set s. (of_char c :: nat) < 128 \<Longrightarrow> utf8_encode s = s"
  by (induction s rule: utf8_encode.induct) simp_all

lemma vals_chars: "\<forall>v \<in> set vs. v < 64 \<Longrightarrow> vals (map b64_char vs) = Some vs"
  by (induction vs) simp_all

lemma length_sextets: "length (b64_sextets bs) mod 4 \<noteq> 1"
  by (induction bs rule: b64_sextets.induct) auto

lemma pad_le: "n mod 4 \<noteq> 1 \<Longrightarrow> nat ((- int n) mod 4) \<le> 2 \<and> (n + nat ((- int n) mod 4)) mod 4 = 0" for n :: nat
proof -
  assume "n mod 4 \<noteq> 1"
  then have r: "int n mod 4 \<noteq> 1" by presburger
  define m where "m = (- int n) mod 4"
  have m: "0 \<le> m" "m \<le> 2" "(int n + m) mod 4 = 0" using r unfolding m_def by presburger+
  then have "int ((n + nat m) mod 4) = 0" by (simp add: zmod_int)
  with m show ?thesis by (simp add: m_def)
qed

lemma b64_roundtrip:
  assumes "pad = nat ((- int (length (b64_text data))) mod 4)"
  shows "b64decode (b64_text data @ replicate pad (CHR ''='')) = Some data"
proof -
  let ?t = "b64_text data"
  have no: "\<forall>c \<in> set ?t. c \<noteq> CHR ''=''" using b64_text_alphabet alphabet_chars by blast
  then have "takeWhile (\<lambda>c. c \<noteq> CHR ''='') (?t @ replicate pad (CHR ''='')) = ?t"
    "dropWhile (\<lambda>c. c \<noteq> CHR ''='') (?t @ replicate pad (CHR ''='')) = replicate pad (CHR ''='')"
    by (auto simp: takeWhile_append2 dropWhile_append2 takeWhile_replicate dropWhile_replicate)
  moreover have "vals ?t = Some (b64_sextets (map of_char data))"
    unfolding b64_text_def by (rule vals_chars [OF sextets_bound]) auto
  moreover have "b64_octets (b64_sextets (map of_char data)) = Some (map of_char data)"
    by (rule octets_sextets) auto
  moreover have "pad \<le> 2" "(length ?t + pad) mod 4 = 0"
    using pad_le [OF length_sextets [of "map of_char data"]] assms by (simp_all add: b64_text_def)
  ultimately show ?thesis by (auto simp: b64decode_def comp_def)
qed

lemma utf8_two_bytes:
  fixes n :: nat
  assumes "128 \<le> n" and "n < 256"
  shows "utf8_decode (char_of (192 + n div 64) # char_of (128 + n mod 64) # s) = map_option ((#) (char_of n)) (utf8_decode s)"
proof -
  define q m where "q = n div 64" and "m = n mod 64"
  have "128 div 64 \<le> n div 64" by (rule div_le_mono) (rule assms(1))
  moreover have "n div 64 < 4" using assms(2) by (simp add: less_mult_imp_div_less)
  ultimately have n: "n = q * 64 + m" "m < 64" "q = 2 \<or> q = 3"
    unfolding q_def m_def by auto
  have byte: "(of_char (char_of k) :: nat) = k" if "k < 256" for k :: nat using that by simp
  have "192 + q < 256" "128 + m < 256" using n by auto
  then have "utf8_decode (char_of (192 + q) # char_of (128 + m) # s) = map_option ((#) (char_of ((192 + q - 192) * 64 + (128 + m - 128)))) (utf8_decode s)"
    using n(2,3) by (subst utf8_decode.simps) (simp only: byte Let_def list.case, auto)
  moreover have "(192 + q - 192) * 64 + (128 + m - 128) = n" using n(1) by linarith
  ultimately show ?thesis by (simp only: q_def [symmetric] m_def [symmetric])
qed

lemma utf8_roundtrip: "utf8_decode (utf8_encode s) = Some s"
proof (induction s)
  case (Cons c s)
  show ?case
  proof (cases "(of_char c :: nat) < 128")
    case False
    then have "utf8_decode (utf8_encode (c # s)) = map_option ((#) (char_of (of_char c :: nat))) (utf8_decode (utf8_encode s))"
      by (subst utf8_encode.simps, subst utf8_two_bytes [symmetric]) (simp_all add: Let_def)
    with Cons show ?thesis by simp
  qed (use Cons in simp)
qed simp

section \<open>Tokens\<close>

lemma sextets_length: "bs \<noteq> [] \<Longrightarrow> length bs < length (b64_sextets bs)"
proof (induction bs rule: b64_sextets.induct)
  case (4 a b c r) then show ?case by (cases "r = []") auto
qed auto

definition digest_law :: "token_lib \<Rightarrow> bool" where
  "digest_law lib \<longleftrightarrow> (\<forall>x. length (jl_digest lib x) = 32)"

lemma sign_shape:
  assumes "digest_law lib"
  shows "length (sign lib body key) = 10" and "set (sign lib body key) \<subseteq> alphabet"
proof -
  let ?d = "jl_digest lib (utf8_encode (body @ key))"
  have len: "length ?d = 32" using assms by (simp add: digest_law_def)
  then have "map of_char ?d \<noteq> ([] :: nat list)" by auto
  from sextets_length [OF this] len have "10 \<le> length (b64_text ?d)" by (simp add: b64_text_def)
  then have "sign lib body key = take 10 (b64_text ?d)" "length (take 10 (b64_text ?d)) = 10"
    by (simp_all add: sign_def b64encode_def)
  then show "length (sign lib body key) = 10" "set (sign lib body key) \<subseteq> alphabet"
    using b64_text_alphabet [of ?d] by (auto dest: in_set_takeD)
qed

lemma made_token_no_jwt:
  assumes "digest_law lib"
  shows "\<not> starts_with (create_subscription_token lib tk made name) jwt_prefix"
proof -
  have "set (create_subscription_token lib tk made name) \<subseteq> alphabet"
    using b64_text_alphabet sign_shape(2) [OF assms] by (simp add: create_subscription_token_def Let_def)
  then have "CHR ''.'' \<notin> set (create_subscription_token lib tk made name)" using alphabet_chars by blast
  moreover have "CHR ''.'' \<in> set jwt_prefix" by (simp add: jwt_prefix_def)
  ultimately show ?thesis by (auto simp: starts_with_iff)
qed

lemma primary_key: "tk_primary tk \<in> set (get_subscription_secret_keys tk)"
proof -
  have "set ks \<subseteq> set (fold (\<lambda>k ks. if k \<noteq> [] \<and> k \<notin> set ks then ks @ [k] else ks) ls ks)" for ls ks :: "string list"
  proof (induction ls arbitrary: ks)
    case (Cons l ls)
    have "set ks \<subseteq> set (if l \<noteq> [] \<and> l \<notin> set ks then ks @ [l] else ks)" by auto
    also have "\<dots> \<subseteq> set (fold (\<lambda>k ks. if k \<noteq> [] \<and> k \<notin> set ks then ks @ [k] else ks) ls (if l \<noteq> [] \<and> l \<notin> set ks then ks @ [l] else ks))"
      by (rule Cons)
    finally show ?case by simp
  qed simp
  from this [where ks = "[tk_primary tk]" and ls = "tk_legacy tk"] show ?thesis
    by (simp add: get_subscription_secret_keys_def)
qed

lemma split_on_append:
  "c \<notin> set xs \<Longrightarrow> split_on c (xs @ c # ys) = xs # split_on c ys"
  by (induction xs) auto

lemma split_on_none: "c \<notin> set xs \<Longrightarrow> split_on c xs = [xs]"
  by (induction xs) auto

lemma comma_notin_int_str: "CHR '','' \<notin> set (int_str n)"
  by (auto simp: int_str_def is_digit_def dest: nat_str_digits split: if_splits)

lemma subscription_token_roundtrip_aux:
  assumes "digest_law lib" and "CHR '','' \<notin> set name" and "4 \<le> length (name @ '','' @ int_str made)"
  shows "get_subscription_payload lib tk now (create_subscription_token lib tk made name) = Inr (Some (name, made))"
proof -
  define text' where "text' = name @ '','' @ int_str made"
  define body where "body = b64_text (utf8_encode text')"
  define token where "token = body @ sign lib body (tk_primary tk)"
  have made: "create_subscription_token lib tk made name = token"
    by (simp add: create_subscription_token_def Let_def token_def body_def text'_def)
  have ascii: "set body \<subseteq> alphabet" unfolding body_def by (rule b64_text_alphabet)
  have "length text' \<le> length (utf8_encode text')" by (induction text' rule: utf8_encode.induct) (auto simp: Let_def)
  then have "4 \<le> length (utf8_encode text')" using assms(3) by (simp add: text'_def)
  moreover have "map of_char (utf8_encode text') \<noteq> ([] :: nat list)" using calculation by auto
  ultimately have "5 \<le> length body"
    using sextets_length [of "map of_char (utf8_encode text')"] by (simp add: body_def b64_text_def)
  then have len: "15 \<le> length token" using sign_shape(1) [OF assms(1)] by (simp add: token_def)
  have no_jwt: "\<not> starts_with token jwt_prefix" using made_token_no_jwt [OF assms(1)] made by metis
  have cut: "take (length token - 10) token = body" "drop (length token - 10) token = sign lib body (tk_primary tk)"
    using sign_shape(1) [OF assms(1)] by (simp_all add: token_def)
  have "\<forall>c \<in> set body. (of_char c :: nat) < 128" using ascii alphabet_chars by blast
  then have plain: "utf8_encode (body @ replicate k (CHR ''='')) = body @ replicate k (CHR ''='')" for k
    by (intro utf8_ascii) auto
  from plain [of 0] have plain0: "utf8_encode body = body" by simp
  have "b64decode (body @ replicate (nat ((- int (length body)) mod 4)) (CHR ''='')) = Some (utf8_encode text')"
    unfolding body_def by (rule b64_roundtrip) simp
  moreover have "signed_payload text' = Inr (Some (name, made))"
    using assms(2) comma_notin_int_str [of made]
    by (simp add: signed_payload_def text'_def split_on_append split_on_none)
  ultimately have "get_subscription_payload lib tk now token = Inr (Some (name, made))"
    using len no_jwt primary_key utf8_roundtrip [of text']
    by (auto simp: get_subscription_payload_def Let_def cut plain plain0)
  with made show ?thesis by simp
qed

text \<open>C14: A link works: the token made for a user names that user and the moment it was made, for every name
  without a comma, under every digest of the length of SHA-256, with any further keys the panel
  accepts.\<close>
theorem subscription_token_roundtrip:
  assumes "digest_law lib" and "CHR '','' \<notin> set name" and "4 \<le> length (name @ '','' @ int_str made)"
  shows "get_subscription_payload lib tk now (create_subscription_token lib tk made name) = Inr (Some (name, made))"
  using assms by (rule subscription_token_roundtrip_aux)

text \<open>Nobody gets at a subscription without a key: a token in the current form is only accepted when its
  last ten characters are the signature of the rest under one of the keys of the panel, and when the
  user it names exists, was not created after the token and did not have its links revoked after it.\<close>
theorem subscription_needs_signature:
  assumes "get_validated_sub lib tk now db token = Inr u" and "\<not> starts_with token jwt_prefix"
  shows "\<exists>body k name made. token = body @ sign lib body k \<and> k \<in> set (get_subscription_secret_keys tk) \<and>
    get_subscription_payload lib tk now token = Inr (Some (name, made)) \<and> user_named db name = Some u \<and>
    u_created_at u \<le> made \<and> (\<forall>r. u_sub_revoked_at u = Some r \<longrightarrow> r \<le> made)"
proof -
  obtain name made where p: "get_subscription_payload lib tk now token = Inr (Some (name, made))"
    and u: "user_named db name = Some u" "u_created_at u \<le> made" "\<forall>r. u_sub_revoked_at u = Some r \<longrightarrow> r \<le> made"
    using assms(1) by (auto simp: get_validated_sub_def split: sum.splits option.splits prod.splits if_splits)
  define body where "body = take (length token - 10) token"
  obtain k where "k \<in> set (get_subscription_secret_keys tk)" "drop (length token - 10) token = sign lib body k"
    using p assms(2) by (auto simp: get_subscription_payload_def Let_def body_def split: if_splits option.splits)
  moreover have "token = body @ drop (length token - 10) token" by (simp add: body_def)
  ultimately show ?thesis using p u by metis
qed

section \<open>Revoking a link\<close>

lemma bind_result: "bindS m f s = (Inr y, s') \<Longrightarrow> \<exists>x s1. m s = (Inr x, s1) \<and> f x s1 = (Inr y, s')"
  by (auto simp: bindS_def split: sum.splits prod.splits)

definition revoked_ident :: "int \<Rightarrow> int \<Rightarrow> user_row \<Rightarrow> int \<times> string \<times> int \<times> int option \<times> string option" where
  "revoked_ident now uid u = ident (if u_id u = uid then u\<lparr>u_sub_revoked_at := Some now, u_token := None\<rparr> else u)"

lemma revoke_idents:
  assumes "revoke_user_sub st fresh now yq uid s = (Inr x, s')"
  shows "map ident (ud_users (se_db s')) = map (revoked_ident now uid) (ud_users (se_db s))"
proof -
  let ?f = "\<lambda>u :: user_row. u\<lparr>u_sub_revoked_at := Some now, u_token := None\<rparr>"
  define s1 where "s1 = s\<lparr>se_db := set_user uid ?f (se_db s)\<rparr>"
  define s2 where "s2 = s1\<lparr>se_db := revoke_devices now uid (se_db s1)\<rparr>"
  define m where "m = (\<lambda>u :: user_row. no_change\<lparr>um_proxies := map (revoke_settings fresh) (u_proxies u)\<rparr>)"
  have one: "map ident (ud_users (se_db s2)) = map (revoked_ident now uid) (ud_users (se_db s))"
    by (simp add: s2_def s1_def set_user_def revoke_devices_def revoked_ident_def)
  have run: "bindS (the_user uid) (\<lambda>u. if u_proxies u = [] then throw (ValueError ''Each user needs at least one proxy'')
        else thenS (update_user st now yq uid (m u)) commit) s2 = (Inr x, s')"
    using assms unfolding m_def by (simp add: revoke_user_sub_def bindS_def put_user_def mod_db_def modS_def s1_def s2_def)
  define g where "g = bindS (the_user uid) (\<lambda>u. if u_proxies u = [] then throw (ValueError ''Each user needs at least one proxy'')
        else thenS (update_user st now yq uid (m u)) commit)"
  have "follows same_ident g" unfolding g_def by (intro si.fr_basic si.fr_update_user)
  moreover have "g s2 = (Inr x, s')" using run by (simp only: g_def)
  ultimately have "same_ident s2 s'" by (rule followsD)
  with one show ?thesis by (simp add: same_ident_def)
qed

lemma find_ident:
  "map ident us' = map (revoked_ident now uid) us \<Longrightarrow>
   map_option ident (find (\<lambda>u. map lower_char (u_name u) = n) us') =
     map_option (revoked_ident now uid) (find (\<lambda>u. map lower_char (u_name u) = n) us)"
proof (induction us arbitrary: us')
  case (Cons u us)
  then obtain u' vs where u': "us' = u' # vs" "ident u' = revoked_ident now uid u" "map ident vs = map (revoked_ident now uid) us"
    by auto
  then have "u_name u' = u_name u" by (auto simp: ident_def revoked_ident_def split: if_splits)
  with Cons.IH [OF u'(3)] u' show ?case by simp
qed simp


section \<open>Witnesses\<close>

text \<open>A digest that mixes all characters into each of its 32 bytes.\<close>

definition toy_digest :: "string \<Rightarrow> string" where
  "toy_digest s = map (\<lambda>i. char_of (fold (\<lambda>c a. (a * 31 + of_char c + i) mod 256) s i)) [0..<32]"

definition toy_lib :: token_lib where
  "toy_lib = \<lparr>jl_encode = (\<lambda>p k. []), jl_decode = (\<lambda>now t k. None), jl_digest = toy_digest\<rparr>"

definition sample_keys :: token_keys where
  "sample_keys = \<lparr>tk_primary = ''k1'', tk_legacy = [''k0'', [], ''k1''], tk_expire_minutes = 60\<rparr>"

lemma toy_law: "digest_law toy_lib"
  by (simp add: digest_law_def toy_lib_def toy_digest_def)

theorem subscription_token_roundtrip_witness:
  "get_subscription_payload toy_lib sample_keys 2000 (create_subscription_token toy_lib sample_keys 1000 ''alice'') = Inr (Some (''alice'', 1000))"
proof -
  have "CHR '','' \<notin> set ''alice''" "4 \<le> length (''alice'' @ '','' @ int_str 1000)" by simp_all
  then show ?thesis by (rule subscription_token_roundtrip [OF toy_law])
qed

lemma alice_token:
  "get_subscription_payload toy_lib sample_keys now (create_subscription_token toy_lib sample_keys made ''alice'') = Inr (Some (''alice'', made))"
  by (rule subscription_token_roundtrip_aux [OF toy_law]) simp_all

theorem subscription_needs_signature_witness:
  "\<exists>body k. create_subscription_token toy_lib sample_keys 1000 ''alice'' = body @ sign toy_lib body k \<and> k \<in> {''k0'', ''k1''}"
proof -
  let ?t = "create_subscription_token toy_lib sample_keys 1000 ''alice''"
  have "user_named sample_users ''alice'' = Some sample_user" "u_created_at sample_user = 0" "u_sub_revoked_at sample_user = None"
    by (simp_all add: user_named_def sample_users_def sample_user_def)
  then have ok: "get_validated_sub toy_lib sample_keys 2000 sample_users ?t = Inr sample_user"
    by (simp add: get_validated_sub_def alice_token)
  have no: "\<not> starts_with ?t jwt_prefix" by (rule made_token_no_jwt [OF toy_law])
  have "set (get_subscription_secret_keys sample_keys) = {''k0'', ''k1''}" by code_simp
  with subscription_needs_signature [OF ok no] show ?thesis by blast
qed


end
