(* ===== verification/Admins.thy ===== *)
theory Admins
  imports UserApi Tokens
begin

text \<open>
  Administrators: their rows (app/db/crud.py), passwords and requests (app/models/admin.py), who is
  behind a request (app/dependencies.py) and the endpoints (app/routers/admin.py). The password
  library is an argument; hashing draws a salt, so a hash is made with the number of the call.
  Restarting the cores after a bulk change is left out. Times are seconds.
\<close>

section \<open>Rows and passwords\<close>

record admin_row =
  ad_id :: int
  ad_name :: string
  ad_password :: "string option"
  ad_sudo :: bool
  ad_reset_at :: "int option"
  ad_telegram :: "int option"
  ad_discord :: "string option"
  ad_usage :: int

record usage_log =
  ul_admin :: "int option"
  ul_used :: int
  ul_at :: int

record admin_state =
  as_admins :: "admin_row list"
  as_next :: int
  as_logs :: "usage_log list"
  as_session :: session
  as_notify :: notify_state

record pw_lib =
  pw_hash :: "nat \<Rightarrow> string \<Rightarrow> string"
  pw_verify :: "string \<Rightarrow> string \<Rightarrow> bool result"
  pw_identify :: "string \<Rightarrow> bool"

definition is_password_hash :: "pw_lib \<Rightarrow> string \<Rightarrow> bool" where
  "is_password_hash pw v \<longleftrightarrow> v \<noteq> [] \<and> pw_identify pw v"

record admin_create =
  ac_name :: string
  ac_password :: "string option"
  ac_hash :: "string option"
  ac_sudo :: bool
  ac_telegram :: "int option"
  ac_discord :: "string option"

record admin_modify =
  am_password :: "string option"
  am_hash :: "string option"
  am_is_sudo :: "bool option"
  am_telegram :: "int option"
  am_discord :: "string option"

definition require_password_or_hash :: "admin_create \<Rightarrow> bool" where
  "require_password_or_hash c \<longleftrightarrow> truthy_str (ac_password c) \<or> truthy_str (ac_hash c)"

definition created_password :: "pw_lib \<Rightarrow> nat \<Rightarrow> admin_create \<Rightarrow> string" where
  "created_password pw salt c =
     (if truthy_str (ac_hash c) then the (ac_hash c)
      else (let p = the (ac_password c) in if is_password_hash pw p then p else pw_hash pw salt p))"

definition modified_password :: "pw_lib \<Rightarrow> nat \<Rightarrow> admin_modify \<Rightarrow> string option" where
  "modified_password pw salt m =
     (if truthy_str (am_hash m) then am_hash m
      else if truthy_str (am_password m)
      then (let p = the (am_password m) in Some (if is_password_hash pw p then p else pw_hash pw salt p))
      else None)"

definition valid_webhook :: "string option \<Rightarrow> bool" where
  "valid_webhook v \<longleftrightarrow> \<not> truthy_str v \<or> starts_with (the v) ''https://discord.com''"

definition verify_password :: "pw_lib \<Rightarrow> string \<Rightarrow> string \<Rightarrow> bool result" where
  "verify_password pw hashed plain = (if plain = hashed then Inr True else pw_verify pw plain hashed)"

section \<open>Operations on the rows\<close>

definition find_admin :: "admin_state \<Rightarrow> string \<Rightarrow> admin_row option" where
  "find_admin st name = find (\<lambda>a. ad_name a = name) (as_admins st)"

definition create_admin_db :: "pw_lib \<Rightarrow> admin_create \<Rightarrow> admin_state \<Rightarrow> admin_state option" where
  "create_admin_db pw c st =
     (if find_admin st (ac_name c) \<noteq> None then None
      else Some (st\<lparr>as_admins := as_admins st @ [\<lparr>ad_id = as_next st, ad_name = ac_name c,
             ad_password = Some (created_password pw 0 c), ad_sudo = ac_sudo c, ad_reset_at = None,
             ad_telegram = or_none (ac_telegram c), ad_discord = (if truthy_str (ac_discord c) then ac_discord c else None),
             ad_usage = 0\<rparr>],
           as_next := as_next st + 1\<rparr>))"

definition change_admin :: "int \<Rightarrow> (admin_row \<Rightarrow> admin_row) \<Rightarrow> admin_state \<Rightarrow> admin_state" where
  "change_admin i f st = st\<lparr>as_admins := map (\<lambda>a. if ad_id a = i then f a else a) (as_admins st)\<rparr>"

definition new_password :: "pw_lib \<Rightarrow> int \<Rightarrow> admin_modify \<Rightarrow> admin_row \<Rightarrow> admin_row" where
  "new_password pw now m a =
     (if am_password m \<noteq> None \<and> ad_password a \<noteq> modified_password pw 0 m
      then a\<lparr>ad_password := modified_password pw 1 m, ad_reset_at := Some now\<rparr> else a)"

definition updated_row :: "pw_lib \<Rightarrow> int \<Rightarrow> admin_modify \<Rightarrow> admin_row \<Rightarrow> admin_row" where
  "updated_row pw now m a =
     (let a1 = (if am_is_sudo m = Some True then a\<lparr>ad_sudo := True\<rparr> else a);
          a2 = new_password pw now m a1;
          a3 = (if truthy_int (am_telegram m) then a2\<lparr>ad_telegram := am_telegram m\<rparr> else a2)
      in if truthy_str (am_discord m) then a3\<lparr>ad_discord := am_discord m\<rparr> else a3)"

definition update_admin :: "pw_lib \<Rightarrow> int \<Rightarrow> int \<Rightarrow> admin_modify \<Rightarrow> admin_state \<Rightarrow> admin_state" where
  "update_admin pw now i m = change_admin i (updated_row pw now m)"

definition partial_update_admin :: "pw_lib \<Rightarrow> int \<Rightarrow> int \<Rightarrow> admin_modify \<Rightarrow> admin_state \<Rightarrow> admin_state" where
  "partial_update_admin pw now i m = change_admin i (\<lambda>a.
     let a1 = (case am_is_sudo m of None \<Rightarrow> a | Some b \<Rightarrow> a\<lparr>ad_sudo := b\<rparr>);
         a2 = new_password pw now m a1;
         a3 = (if am_telegram m \<noteq> None then a2\<lparr>ad_telegram := am_telegram m\<rparr> else a2)
     in if am_discord m \<noteq> None then a3\<lparr>ad_discord := am_discord m\<rparr> else a3)"

text \<open>Deleting a row sets the references to it to NULL.\<close>

definition disown :: "int \<Rightarrow> user_db \<Rightarrow> user_db" where
  "disown i db = db\<lparr>ud_users := map (\<lambda>u. if u_admin u = Some i then u\<lparr>u_admin := None\<rparr> else u) (ud_users db)\<rparr>"

definition remove_admin_db :: "int \<Rightarrow> admin_state \<Rightarrow> admin_state" where
  "remove_admin_db i st = st\<lparr>as_admins := filter (\<lambda>a. ad_id a \<noteq> i) (as_admins st),
     as_logs := map (\<lambda>l. if ul_admin l = Some i then l\<lparr>ul_admin := None\<rparr> else l) (as_logs st),
     as_session := snd (thenS (mod_db (disown i)) commit (as_session st))\<rparr>"

definition reset_admin_usage :: "int \<Rightarrow> admin_row \<Rightarrow> admin_state \<Rightarrow> admin_state" where
  "reset_admin_usage now a st =
     (if ad_usage a = 0 then st
      else (change_admin (ad_id a) (\<lambda>a. a\<lparr>ad_usage := 0\<rparr>) st)\<lparr>as_logs :=
        as_logs st @ [\<lparr>ul_admin = Some (ad_id a), ul_used = ad_usage a, ul_at = now\<rparr>]\<rparr>)"

definition get_admins :: "(string \<Rightarrow> string \<Rightarrow> bool) \<Rightarrow> int option \<Rightarrow> int option \<Rightarrow> string option \<Rightarrow> admin_state \<Rightarrow> admin_row list" where
  "get_admins like offset limit name st =
     (let found = (if truthy_str name then filter (\<lambda>a. like (''%'' @ the name @ ''%'') (ad_name a)) (as_admins st) else as_admins st)
      in page (or0 offset) (or0 limit) found)"

section \<open>Who is asking\<close>

record auth_env =
  au_lib :: token_lib
  au_keys :: token_keys
  au_pw :: pw_lib
  au_sudoers :: "(string \<times> string) list"
  au_now :: int
  au_notify :: notify_settings
  au_white_list :: "string list"
  au_like :: "string \<Rightarrow> string \<Rightarrow> bool"

definition validate_admin :: "auth_env \<Rightarrow> admin_state \<Rightarrow> string \<Rightarrow> string \<Rightarrow> (admin_user option) result" where
  "validate_admin env st username password =
     (if dget (au_sudoers env) username = Some password then Inr (Some \<lparr>am_name = username, am_sudo = True\<rparr>)
      else (case find_admin st username of
          None \<Rightarrow> Inr None
        | Some a \<Rightarrow> (case ad_password a of
              None \<Rightarrow> Inl (ValueError ''hashed_password'')
            | Some h \<Rightarrow> bindE (verify_password (au_pw env) h password) (\<lambda>ok.
                Inr (if ok then Some \<lparr>am_name = ad_name a, am_sudo = ad_sudo a\<rparr> else None)))))"

definition admin_of_token :: "auth_env \<Rightarrow> admin_state \<Rightarrow> string \<Rightarrow> admin_user option" where
  "admin_of_token env st token =
     (case get_admin_payload (au_lib env) (au_keys env) (au_now env) token of
        None \<Rightarrow> None
      | Some p \<Rightarrow>
          if dget (au_sudoers env) (ap_username p) \<noteq> None \<and> ap_sudo p then Some \<lparr>am_name = ap_username p, am_sudo = True\<rparr>
          else (case find_admin st (ap_username p) of
              None \<Rightarrow> None
            | Some a \<Rightarrow>
                if (case ad_reset_at a of None \<Rightarrow> False
                    | Some r \<Rightarrow> \<not> truthy_int (ap_created_at p) \<or> r > or0 (ap_created_at p)) then None
                else Some \<lparr>am_name = ad_name a, am_sudo = ad_sudo a\<rparr>))"

datatype admin_response = AdminToken string | AdminRow admin_row | AdminRows "admin_row list" | AdminDetail string | AdminUsage int

type_synonym admin_op = "admin_state \<Rightarrow> (api_error + admin_response) \<times> admin_state"

definition fail :: "int \<Rightarrow> string \<Rightarrow> admin_op" where
  "fail code detail st = (Inl (HTTPException code detail), st)"

definition get_current :: "auth_env \<Rightarrow> string \<Rightarrow> (admin_user \<Rightarrow> admin_op) \<Rightarrow> admin_op" where
  "get_current env token k st = (case admin_of_token env st token of
     None \<Rightarrow> fail 401 ''Could not validate credentials'' st | Some am \<Rightarrow> k am st)"

definition require_sudo :: "auth_env \<Rightarrow> string \<Rightarrow> (admin_user \<Rightarrow> admin_op) \<Rightarrow> admin_op" where
  "require_sudo env token k = get_current env token (\<lambda>am. if am_sudo am then k am else fail 403 ''not allowed'')"

definition with_admin :: "string \<Rightarrow> (admin_row \<Rightarrow> admin_op) \<Rightarrow> admin_op" where
  "with_admin name k st = (case find_admin st name of None \<Rightarrow> fail 404 ''Admin not found'' st | Some a \<Rightarrow> k a st)"

section \<open>Endpoints\<close>

definition admin_token_api :: "auth_env \<Rightarrow> string \<Rightarrow> string \<Rightarrow> string \<Rightarrow> admin_op" where
  "admin_token_api env ip username password st =
     (case validate_admin env st username password of
        Inl e \<Rightarrow> (Inl (Unhandled e), st)
      | Inr None \<Rightarrow> fail 401 ''Incorrect username or password''
          (st\<lparr>as_notify := login_report (au_notify env) username ip False (as_notify st)\<rparr>)
      | Inr (Some am) \<Rightarrow>
          (Inr (AdminToken (create_admin_token (au_lib env) (au_keys env) (au_now env) username (am_sudo am))),
           if ip \<in> set (au_white_list env) then st
           else st\<lparr>as_notify := login_report (au_notify env) username ip True (as_notify st)\<rparr>))"

definition create_admin_api :: "auth_env \<Rightarrow> string \<Rightarrow> admin_create \<Rightarrow> admin_op" where
  "create_admin_api env token c = require_sudo env token (\<lambda>_ st.
     if \<not> require_password_or_hash c \<or> \<not> valid_webhook (ac_discord c) then fail 422 ''invalid request'' st
     else (case create_admin_db (au_pw env) c st of
         None \<Rightarrow> fail 409 ''Admin already exists'' st
       | Some st' \<Rightarrow> (Inr (AdminRow (the (find_admin st' (ac_name c)))), st')))"

definition modify_admin_api :: "auth_env \<Rightarrow> string \<Rightarrow> string \<Rightarrow> admin_modify \<Rightarrow> admin_op" where
  "modify_admin_api env token name m = with_admin name (\<lambda>a. require_sudo env token (\<lambda>am st.
     if \<not> valid_webhook (am_discord m) \<or> am_is_sudo m = None then fail 422 ''invalid request'' st
     else if ad_name a \<noteq> am_name am \<and> ad_sudo a then fail 403 ''not allowed to edit another sudoer'' st
     else (let st' = update_admin (au_pw env) (au_now env) (ad_id a) m st
           in (Inr (AdminRow (the (find_admin st' name))), st'))))"

definition remove_admin_api :: "auth_env \<Rightarrow> string \<Rightarrow> string \<Rightarrow> admin_op" where
  "remove_admin_api env token name = with_admin name (\<lambda>a. require_sudo env token (\<lambda>am st.
     if ad_sudo a then fail 403 ''not allowed to delete sudo accounts'' st
     else (Inr (AdminDetail ''Admin removed successfully''), remove_admin_db (ad_id a) st)))"

definition get_current_admin_api :: "auth_env \<Rightarrow> string \<Rightarrow> admin_op" where
  "get_current_admin_api env token = get_current env token (\<lambda>am st. (Inr (AdminDetail (am_name am)), st))"

definition get_admins_api :: "auth_env \<Rightarrow> string \<Rightarrow> int option \<Rightarrow> int option \<Rightarrow> string option \<Rightarrow> admin_op" where
  "get_admins_api env token offset limit name = require_sudo env token (\<lambda>_ st.
     (Inr (AdminRows (get_admins (au_like env) offset limit name st)), st))"

definition disable_users_api :: "auth_env \<Rightarrow> string \<Rightarrow> string \<Rightarrow> admin_op" where
  "disable_users_api env token name = with_admin name (\<lambda>a. require_sudo env token (\<lambda>_ st.
     (Inr (AdminDetail ''Users successfully disabled''),
      st\<lparr>as_session := snd (disable_all_active_users (au_now env) (Some (ad_id a)) (as_session st))\<rparr>)))"

definition activate_users_api :: "auth_env \<Rightarrow> string \<Rightarrow> string \<Rightarrow> admin_op" where
  "activate_users_api env token name = with_admin name (\<lambda>a. require_sudo env token (\<lambda>_ st.
     (Inr (AdminDetail ''Users successfully activated''),
      st\<lparr>as_session := snd (activate_all_disabled_users (au_now env) (Some (ad_id a)) (as_session st))\<rparr>)))"

definition reset_admin_usage_api :: "auth_env \<Rightarrow> string \<Rightarrow> string \<Rightarrow> admin_op" where
  "reset_admin_usage_api env token name = with_admin name (\<lambda>a. require_sudo env token (\<lambda>_ st.
     let st' = reset_admin_usage (au_now env) a st in (Inr (AdminRow (the (find_admin st' name))), st')))"

definition get_admin_usage_api :: "auth_env \<Rightarrow> string \<Rightarrow> string \<Rightarrow> admin_op" where
  "get_admin_usage_api env token name = with_admin name (\<lambda>a. require_sudo env token (\<lambda>_ st. (Inr (AdminUsage (ad_usage a)), st)))"

datatype admin_req =
    LoginReq string string string
  | CreateAdminReq string admin_create
  | ModifyAdminReq string string admin_modify
  | RemoveAdminReq string string
  | CurrentAdminReq string
  | ListAdminsReq string "int option" "int option" "string option"
  | DisableUsersReq string string
  | ActivateUsersReq string string
  | ResetAdminReq string string
  | AdminUsageReq string string

fun admin_request :: "auth_env \<Rightarrow> admin_req \<Rightarrow> admin_op" where
  "admin_request env (LoginReq ip u p) = admin_token_api env ip u p"
| "admin_request env (CreateAdminReq t c) = create_admin_api env t c"
| "admin_request env (ModifyAdminReq t n m) = modify_admin_api env t n m"
| "admin_request env (RemoveAdminReq t n) = remove_admin_api env t n"
| "admin_request env (CurrentAdminReq t) = get_current_admin_api env t"
| "admin_request env (ListAdminsReq t a b n) = get_admins_api env t a b n"
| "admin_request env (DisableUsersReq t n) = disable_users_api env t n"
| "admin_request env (ActivateUsersReq t n) = activate_users_api env t n"
| "admin_request env (ResetAdminReq t n) = reset_admin_usage_api env t n"
| "admin_request env (AdminUsageReq t n) = get_admin_usage_api env t n"

fun token_of :: "admin_req \<Rightarrow> string option" where
  "token_of (LoginReq _ _ _) = None"
| "token_of (CreateAdminReq t _) = Some t"
| "token_of (ModifyAdminReq t _ _) = Some t"
| "token_of (RemoveAdminReq t _) = Some t"
| "token_of (CurrentAdminReq t) = Some t"
| "token_of (ListAdminsReq t _ _ _) = Some t"
| "token_of (DisableUsersReq t _) = Some t"
| "token_of (ActivateUsersReq t _) = Some t"
| "token_of (ResetAdminReq t _) = Some t"
| "token_of (AdminUsageReq t _) = Some t"

section \<open>What requests can do\<close>

definition admins_wf :: "admin_state \<Rightarrow> bool" where
  "admins_wf st \<longleftrightarrow> distinct (map ad_id (as_admins st)) \<and> distinct (map ad_name (as_admins st)) \<and>
     (\<forall>a \<in> set (as_admins st). ad_id a < as_next st)"

lemma find_admin_in: "find_admin st name = Some a \<Longrightarrow> a \<in> set (as_admins st) \<and> ad_name a = name"
  by (auto simp: find_admin_def find_Some_iff)

lemma same_admin_id: "admins_wf st \<Longrightarrow> a \<in> set (as_admins st) \<Longrightarrow> b \<in> set (as_admins st) \<Longrightarrow> ad_id a = ad_id b \<Longrightarrow> a = b"
  by (auto simp: admins_wf_def distinct_map dest: inj_onD)

text \<open>Everything of a row but the traffic of its users.\<close>

definition identity :: "admin_row \<Rightarrow> admin_row" where
  "identity a = a\<lparr>ad_usage := 0\<rparr>"

definition caller :: "auth_env \<Rightarrow> admin_state \<Rightarrow> admin_req \<Rightarrow> admin_user option" where
  "caller env st req = Option.bind (token_of req) (admin_of_token env st)"

lemmas request_defs = admin_token_api_def create_admin_api_def modify_admin_api_def remove_admin_api_def
  get_current_admin_api_def get_admins_api_def disable_users_api_def activate_users_api_def
  reset_admin_usage_api_def get_admin_usage_api_def require_sudo_def get_current_def with_admin_def fail_def

lemma change_admin_keeps:
  "admins_wf st \<Longrightarrow> b \<in> set (as_admins st) \<Longrightarrow> a \<in> set (as_admins st) \<Longrightarrow> b \<noteq> a \<Longrightarrow> b \<in> set (as_admins (change_admin (ad_id a) f st))"
  using same_admin_id by (fastforce simp: change_admin_def image_iff)

lemma create_keeps: "create_admin_db pw c st = Some st' \<Longrightarrow> b \<in> set (as_admins st) \<Longrightarrow> b \<in> set (as_admins st')"
  by (auto simp: create_admin_db_def split: if_splits)

lemma remove_keeps:
  "admins_wf st \<Longrightarrow> b \<in> set (as_admins st) \<Longrightarrow> a \<in> set (as_admins st) \<Longrightarrow> b \<noteq> a \<Longrightarrow> b \<in> set (as_admins (remove_admin_db (ad_id a) st))"
  using same_admin_id by (fastforce simp: remove_admin_db_def)

lemma reset_keeps:
  assumes "b \<in> set (as_admins st)"
  shows "\<exists>b' \<in> set (as_admins (reset_admin_usage now a st)). identity b' = identity b"
proof (cases "ad_usage a = 0 \<or> ad_id b \<noteq> ad_id a")
  case True
  with assms show ?thesis by (intro bexI [of _ b]) (auto simp: reset_admin_usage_def change_admin_def image_iff)
next
  case False
  with assms show ?thesis
    by (intro bexI [of _ "b\<lparr>ad_usage := 0\<rparr>"]) (auto simp: reset_admin_usage_def change_admin_def image_iff identity_def)
qed

text \<open>C16: Only a sudo administrator changes anything through the endpoints of administrators, and even that one
  cannot touch the account of another sudo administrator: name, password, privilege and contacts of the
  row stay as they are. Without a token of a sudo administrator, rows, logs and users are as before.\<close>
theorem admin_requests_guarded:
  assumes "admins_wf st"
  shows "(\<not> (\<exists>am. caller env st req = Some am \<and> am_sudo am) \<longrightarrow>
      (let st' = snd (admin_request env req st) in
         as_admins st' = as_admins st \<and> as_logs st' = as_logs st \<and> as_session st' = as_session st)) \<and>
    (\<forall>b \<in> set (as_admins st). ad_sudo b \<longrightarrow> map_option am_name (caller env st req) \<noteq> Some (ad_name b) \<longrightarrow>
      (\<exists>b' \<in> set (as_admins (snd (admin_request env req st))). identity b' = identity b))"
proof (intro conjI impI ballI)
  assume no: "\<not> (\<exists>am. caller env st req = Some am \<and> am_sudo am)"
  show "let st' = snd (admin_request env req st) in
         as_admins st' = as_admins st \<and> as_logs st' = as_logs st \<and> as_session st' = as_session st"
    using no by (cases req) (auto simp: caller_def request_defs Let_def split: option.splits sum.splits)
next
  fix b assume b: "b \<in> set (as_admins st)" "ad_sudo b" "map_option am_name (caller env st req) \<noteq> Some (ad_name b)"
  have same: "\<exists>b' \<in> set (as_admins st'). identity b' = identity b" if "b \<in> set (as_admins st')" for st' using that by blast
  show "\<exists>b' \<in> set (as_admins (snd (admin_request env req st))). identity b' = identity b"
  proof (cases req)
    case (CreateAdminReq t c)
    with b(1) create_keeps show ?thesis
      by (auto simp: request_defs intro!: same split: option.splits)
  next
    case (ModifyAdminReq t n m)
    have "b \<in> set (as_admins (change_admin (ad_id a) f st))"
      if "find_admin st n = Some a" "\<not> (ad_name a \<noteq> am_name am \<and> ad_sudo a)" "admin_of_token env st t = Some am" for a am f
      using that b ModifyAdminReq find_admin_in [OF that(1)] change_admin_keeps [OF assms b(1)]
      by (cases "b = a") (auto simp: caller_def)
    with b(1) ModifyAdminReq show ?thesis
      by (auto simp: request_defs Let_def update_admin_def intro!: same split: option.splits)
  next
    case (RemoveAdminReq t n)
    have "b \<in> set (as_admins (remove_admin_db (ad_id a) st))" if "find_admin st n = Some a" "\<not> ad_sudo a" for a
      using that b find_admin_in [OF that(1)] remove_keeps [OF assms b(1)] by (cases "b = a") auto
    with b(1) RemoveAdminReq show ?thesis
      by (auto simp: request_defs intro!: same split: option.splits)
  next
    case (ResetAdminReq t n)
    with b(1) reset_keeps show ?thesis
      by (auto simp: request_defs Let_def split: option.splits)
  qed (use b(1) in \<open>auto simp: request_defs intro!: same split: option.splits sum.splits\<close>)
qed

section \<open>Tokens of administrators\<close>

definition jwt_law :: "token_lib \<Rightarrow> bool" where
  "jwt_law lib \<longleftrightarrow> (\<forall>now c k. jl_decode lib now (jl_encode lib c k) k =
     (if (case cl_exp c of None \<Rightarrow> False | Some e \<Rightarrow> e \<le> now) \<or> (case cl_iat c of None \<Rightarrow> False | Some i \<Rightarrow> now < i) then None else Some c))"

definition unexpired :: "token_keys \<Rightarrow> int \<Rightarrow> int \<Rightarrow> bool" where
  "unexpired tk issued now \<longleftrightarrow> issued \<le> now \<and> (tk_expire_minutes tk > 0 \<longrightarrow> now < issued + 60 * tk_expire_minutes tk)"

lemma admin_token_payload:
  assumes "jwt_law lib" and "name \<noteq> []"
  shows "get_admin_payload lib tk now (create_admin_token lib tk issued name sudo) =
    (if unexpired tk issued now then Some \<lparr>ap_username = name, ap_sudo = sudo, ap_created_at = Some issued\<rparr> else None)"
  using assms by (auto simp: get_admin_payload_def create_admin_token_def jwt_law_def unexpired_def split: if_splits)

text \<open>C17: What the token of an administrator is worth is decided by the database at the time of the request, not
  by the token: it stands for the row of that name with the privilege the row has now, as long as it
  has not expired, the row exists and the password was not changed since.\<close>
theorem admin_token_follows_database:
  assumes "jwt_law (au_lib env)" and "name \<noteq> []" and "0 < issued" and "dget (au_sudoers env) name = None"
  shows "admin_of_token env st (create_admin_token (au_lib env) (au_keys env) issued name sudo) =
    (if unexpired (au_keys env) issued (au_now env)
     then (case find_admin st name of
         None \<Rightarrow> None
       | Some a \<Rightarrow> if \<exists>r. ad_reset_at a = Some r \<and> issued < r then None else Some \<lparr>am_name = name, am_sudo = ad_sudo a\<rparr>)
     else None)"
  using assms find_admin_in
  by (auto simp: admin_of_token_def admin_token_payload split: option.splits)

definition pw_law :: "pw_lib \<Rightarrow> bool" where
  "pw_law pw \<longleftrightarrow> (\<forall>salt p. pw_verify pw p (pw_hash pw salt p) = Inr True)"

lemma find_created:
  "create_admin_db pw c st = Some st' \<Longrightarrow> \<exists>a. find_admin st' (ac_name c) = Some a \<and>
     ad_password a = Some (created_password pw 0 c) \<and> ad_sudo a = ac_sudo c \<and> ad_reset_at a = None \<and> ad_name a = ac_name c"
proof -
  assume made: "create_admin_db pw c st = Some st'"
  have none: "find (\<lambda>a. ad_name a = ac_name c) (as_admins st) = None"
    using made by (auto simp: create_admin_db_def find_admin_def split: if_splits)
  have app: "find P (xs @ [y]) = (if P y then Some y else None)" if "find P xs = None" for P :: "admin_row \<Rightarrow> bool" and xs y
    using that by (induction xs) (auto split: if_splits)
  show ?thesis using made none app [OF none] by (auto simp: create_admin_db_def find_admin_def)
qed

text \<open>An administrator who was just created can log in: the password is accepted, and the token that comes
  back stands for the new account with the privilege it was created with until it expires.\<close>
theorem created_admin_logs_in:
  assumes "pw_law (au_pw env)" and "jwt_law (au_lib env)"
    and "create_admin_db (au_pw env) c st = Some st'" and "ac_password c = Some p" and "\<not> truthy_str (ac_hash c)"
    and "\<not> is_password_hash (au_pw env) p" and "ac_name c \<noteq> []" and "dget (au_sudoers env) (ac_name c) = None"
    and "0 < au_now env" and "unexpired (au_keys env) (au_now env) later"
  shows "\<exists>token st''. admin_token_api env ip (ac_name c) p st' = (Inr (AdminToken token), st'') \<and>
    admin_of_token (env\<lparr>au_now := later\<rparr>) st'' token = Some \<lparr>am_name = ac_name c, am_sudo = ac_sudo c\<rparr>"
proof -
  obtain a where a: "find_admin st' (ac_name c) = Some a" "ad_password a = Some (pw_hash (au_pw env) 0 p)"
    "ad_sudo a = ac_sudo c" "ad_reset_at a = None" "ad_name a = ac_name c"
    using find_created [OF assms(3)] assms(4,5,6) by (auto simp: created_password_def Let_def)
  have valid: "validate_admin env st' (ac_name c) p = Inr (Some \<lparr>am_name = ac_name c, am_sudo = ac_sudo c\<rparr>)"
    using a assms(1,8) by (simp add: validate_admin_def verify_password_def pw_law_def)
  define token where "token = create_admin_token (au_lib env) (au_keys env) (au_now env) (ac_name c) (ac_sudo c)"
  obtain st'' where run: "admin_token_api env ip (ac_name c) p st' = (Inr (AdminToken token), st'')"
    and st'': "as_admins st'' = as_admins st'"
    using valid by (cases "ip \<in> set (au_white_list env)") (auto simp: admin_token_api_def token_def)
  have "admin_of_token (env\<lparr>au_now := later\<rparr>) st'' token = Some \<lparr>am_name = ac_name c, am_sudo = ac_sudo c\<rparr>"
    using a st'' assms(2,7,8,10)
    by (simp add: admin_of_token_def token_def admin_token_payload find_admin_def)
  with run show ?thesis by blast
qed

section \<open>Weak spots\<close>

text \<open>The stored hash itself is accepted as a password, whatever the library says.\<close>

lemma hash_is_a_password:
  "find_admin st name = Some a \<Longrightarrow> ad_password a = Some h \<Longrightarrow>
   \<exists>am. validate_admin env st name h = Inr (Some am) \<and> am_name am = (if dget (au_sudoers env) name = Some h then name else ad_name a)"
  by (auto simp: validate_admin_def verify_password_def)

lemma updated_row_fixed [simp]:
  "ad_name (updated_row pw now m a) = ad_name a" "ad_id (updated_row pw now m a) = ad_id a"
  "ad_sudo (updated_row pw now m a) = (am_is_sudo m = Some True \<or> ad_sudo a)"
  by (simp_all add: updated_row_def Let_def new_password_def)

text \<open>An empty password removes the password: every later login of that administrator raises.\<close>

lemma empty_password_locks_out:
  assumes "admins_wf st" and "find_admin st name = Some a" and "am_password m = Some []" and "\<not> truthy_str (am_hash m)"
    and "ad_password a \<noteq> None" and "dget (au_sudoers env) name = None"
  shows "\<exists>e. validate_admin env (update_admin pw now (ad_id a) m st) name p = Inl e"
proof -
  have "find (\<lambda>a. ad_name a = name) (map (\<lambda>x. if ad_id x = i then updated_row pw now m x else x) xs) =
      map_option (\<lambda>x. if ad_id x = i then updated_row pw now m x else x) (find (\<lambda>a. ad_name a = name) xs)" for xs i
    by (induction xs) (auto simp: updated_row_fixed)
  then have "find_admin (update_admin pw now (ad_id a) m st) name = Some (updated_row pw now m a)"
    using assms(2) by (simp add: find_admin_def update_admin_def change_admin_def)
  moreover have "ad_password (updated_row pw now m a) = None"
    using assms(3-5) by (simp add: updated_row_def Let_def new_password_def modified_password_def)
  ultimately show ?thesis using assms(6) by (simp add: validate_admin_def)
qed

text \<open>Taking the sudo privilege away by the PUT request has no effect.\<close>

lemma demotion_ignored: "ad_sudo a \<Longrightarrow> a \<in> set (as_admins st) \<Longrightarrow> am_is_sudo m = Some False \<Longrightarrow>
  \<exists>a' \<in> set (as_admins (update_admin pw now (ad_id a) m st)). ad_id a' = ad_id a \<and> ad_sudo a'"
  by (intro bexI [of _ "updated_row pw now m a"]) (auto simp: update_admin_def change_admin_def image_iff)

text \<open>Without any token the answer already tells whether an administrator of that name exists.\<close>

lemma names_can_be_probed:
  "admin_of_token env st token = None \<Longrightarrow>
   (fst (admin_request env (RemoveAdminReq token name) st) = Inl (HTTPException 404 ''Admin not found'') \<longleftrightarrow> find_admin st name = None)"
  by (auto simp: request_defs split: option.split)

section \<open>Witnesses\<close>

text \<open>A token library that writes the key and the claims one after another, each with its length in unary.\<close>

definition put_field :: "string option \<Rightarrow> string" where
  "put_field v = (case v of None \<Rightarrow> ''0'' | Some s \<Rightarrow> CHR ''1'' # replicate (length s) (CHR ''x'') @ CHR '':'' # s)"

definition get_field :: "string \<Rightarrow> string option \<times> string" where
  "get_field t = (case t of
     [] \<Rightarrow> (None, [])
   | c # r \<Rightarrow> if c = CHR ''0'' then (None, r)
       else (let n = length (takeWhile (\<lambda>c. c = CHR ''x'') r); body = drop (n + 1) r in (Some (take n body), drop n body)))"

lemma takeWhile_xs: "takeWhile (\<lambda>c. c = CHR ''x'') (replicate n (CHR ''x'') @ CHR '':'' # t) = replicate n (CHR ''x'')"
  by (induction n) auto

lemma get_put_field [simp]: "get_field (put_field v @ r) = (v, r)"
proof (cases v)
  case (Some s)
  then show ?thesis by (simp add: put_field_def get_field_def Let_def takeWhile_xs)
qed (simp add: put_field_def get_field_def)

definition field_encode :: "claims \<Rightarrow> string \<Rightarrow> string" where
  "field_encode c k = put_field (Some k) @ put_field (cl_sub c) @ put_field (cl_access c) @
     put_field (map_option int_str (cl_iat c)) @ put_field (map_option int_str (cl_exp c)) @ []"

definition field_decode :: "int \<Rightarrow> string \<Rightarrow> string \<Rightarrow> claims option" where
  "field_decode now t k =
     (let (k', t1) = get_field t; (sub, t2) = get_field t1; (acc, t3) = get_field t2; (iat, t4) = get_field t3; (ex, t5) = get_field t4;
          c = \<lparr>cl_sub = sub, cl_access = acc, cl_iat = Option.bind iat parse_int, cl_exp = Option.bind ex parse_int\<rparr>
      in if k' \<noteq> Some k \<or> (case cl_exp c of None \<Rightarrow> False | Some e \<Rightarrow> e \<le> now) \<or> (case cl_iat c of None \<Rightarrow> False | Some i \<Rightarrow> now < i)
         then None else Some c)"

lemma bind_int_str [simp]: "Option.bind (map_option int_str v) parse_int = v"
  by (cases v) auto

definition field_lib :: token_lib where
  "field_lib = \<lparr>jl_encode = field_encode, jl_decode = field_decode, jl_digest = toy_digest\<rparr>"

lemma field_law: "jwt_law field_lib"
  by (simp add: jwt_law_def field_lib_def field_decode_def field_encode_def del: append_Nil2)

text \<open>Passwords hashed by a prefix.\<close>

definition plain_pw :: pw_lib where
  "plain_pw = \<lparr>pw_hash = (\<lambda>n p. CHR ''#'' # p), pw_verify = (\<lambda>p h. Inr (h = CHR ''#'' # p)), pw_identify = (\<lambda>h. starts_with h ''#'')\<rparr>"

lemma plain_pw_law: "pw_law plain_pw"
  by (simp add: pw_law_def plain_pw_def)

definition sample_auth :: auth_env where
  "sample_auth = \<lparr>au_lib = field_lib, au_keys = sample_keys, au_pw = plain_pw, au_sudoers = [(''env'', ''secret'')], au_now = 1000,
     au_notify = sample_notify, au_white_list = [], au_like = (\<lambda>_ _. True)\<rparr>"

definition root_row :: admin_row where
  "root_row = \<lparr>ad_id = 1, ad_name = ''root'', ad_password = Some ''#pw'', ad_sudo = True, ad_reset_at = Some 900,
     ad_telegram = None, ad_discord = None, ad_usage = 5\<rparr>"

definition sample_admins :: admin_state where
  "sample_admins = \<lparr>as_admins = [root_row, root_row\<lparr>ad_id := 2, ad_name := ''ann'', ad_reset_at := None\<rparr>], as_next = 3, as_logs = [],
     as_session = sample_session, as_notify = \<lparr>nq_queue = [], nq_chat = [], nq_posts = []\<rparr>\<rparr>"

theorem admin_token_follows_database_witness:
  "admin_of_token sample_auth sample_admins (create_admin_token field_lib sample_keys 950 ''root'' False) = Some \<lparr>am_name = ''root'', am_sudo = True\<rparr> \<and>
   admin_of_token sample_auth sample_admins (create_admin_token field_lib sample_keys 850 ''root'' True) = None"
proof -
  have p: "jwt_law (au_lib sample_auth)" "''root'' \<noteq> []" "dget (au_sudoers sample_auth) ''root'' = None" "au_keys sample_auth = sample_keys"
    "au_lib sample_auth = field_lib" "au_now sample_auth = 1000"
    by (simp_all add: sample_auth_def field_law)
  have f: "find_admin sample_admins ''root'' = Some root_row" "ad_reset_at root_row = Some 900" "ad_sudo root_row"
    by (simp_all add: find_admin_def sample_admins_def root_row_def)
  have u: "unexpired sample_keys 950 1000" "unexpired sample_keys 850 1000" by (simp_all add: unexpired_def sample_keys_def)
  show ?thesis
    using admin_token_follows_database [OF p(1,2) _ p(3), of 950 sample_admins False]
      admin_token_follows_database [OF p(1,2) _ p(3), of 850 sample_admins True] f u p by simp
qed

definition bob_request :: admin_create where
  "bob_request = \<lparr>ac_name = ''bob'', ac_password = Some ''pw'', ac_hash = None, ac_sudo = False, ac_telegram = Some 0, ac_discord = None\<rparr>"

theorem created_admin_logs_in_witness:
  "\<exists>token st''. admin_token_api sample_auth ''1.1.1.1'' ''bob'' ''pw'' (the (create_admin_db plain_pw bob_request sample_admins)) = (Inr (AdminToken token), st'') \<and>
    admin_of_token (sample_auth\<lparr>au_now := 1200\<rparr>) st'' token = Some \<lparr>am_name = ''bob'', am_sudo = False\<rparr>"
proof -
  have e: "pw_law (au_pw sample_auth)" "jwt_law (au_lib sample_auth)" "0 < au_now sample_auth" "dget (au_sudoers sample_auth) (ac_name bob_request) = None"
    "unexpired (au_keys sample_auth) (au_now sample_auth) 1200" "\<not> is_password_hash (au_pw sample_auth) ''pw''"
    by (simp_all add: sample_auth_def field_law plain_pw_law bob_request_def unexpired_def sample_keys_def)
      (simp add: is_password_hash_def plain_pw_def starts_with_iff)
  have c: "ac_password bob_request = Some ''pw''" "\<not> truthy_str (ac_hash bob_request)" "ac_name bob_request \<noteq> []"
    by (simp_all add: bob_request_def)
  have m: "create_admin_db (au_pw sample_auth) bob_request sample_admins = Some (the (create_admin_db plain_pw bob_request sample_admins))"
    by (simp add: create_admin_db_def find_admin_def sample_admins_def root_row_def bob_request_def sample_auth_def)
  show ?thesis
    using created_admin_logs_in [OF e(1,2) m c(1,2) e(6) c(3) e(4,3,5), of "''1.1.1.1''"] by (simp add: bob_request_def)
qed

lemma sample_admins_wf: "admins_wf sample_admins"
  by (simp add: admins_wf_def sample_admins_def root_row_def)

theorem admin_requests_guarded_witness:
  "\<exists>b \<in> set (as_admins (snd (admin_request sample_auth (RemoveAdminReq (create_admin_token field_lib sample_keys 950 ''ann'' True) ''root'') sample_admins))).
     ad_name b = ''root'' \<and> ad_sudo b"
proof -
  let ?t = "create_admin_token field_lib sample_keys 950 ''ann'' True"
  have p: "jwt_law (au_lib sample_auth)" "dget (au_sudoers sample_auth) ''ann'' = None" "au_lib sample_auth = field_lib" "au_keys sample_auth = sample_keys"
    by (simp_all add: sample_auth_def field_law)
  have "unexpired (au_keys sample_auth) 950 (au_now sample_auth)" by (simp add: unexpired_def sample_keys_def sample_auth_def)
  then have "ap = Some \<lparr>ap_username = ''ann'', ap_sudo = True, ap_created_at = Some 950\<rparr>"
    if "ap = get_admin_payload (au_lib sample_auth) (au_keys sample_auth) (au_now sample_auth) ?t" for ap
    using admin_token_payload [OF p(1), of "''ann''" "au_keys sample_auth" "au_now sample_auth" 950 True] p that by simp
  then have "map_option am_name (admin_of_token sample_auth sample_admins ?t) \<noteq> Some ''root''"
    using p by (auto simp: admin_of_token_def find_admin_def sample_admins_def root_row_def split: if_splits)
  then have "map_option am_name (caller sample_auth sample_admins (RemoveAdminReq ?t ''root'')) \<noteq> Some (ad_name root_row)"
    by (simp add: caller_def root_row_def)
  moreover have "root_row \<in> set (as_admins sample_admins)" "ad_sudo root_row" by (simp_all add: sample_admins_def root_row_def)
  ultimately obtain b where b: "b \<in> set (as_admins (snd (admin_request sample_auth (RemoveAdminReq ?t ''root'') sample_admins)))"
    "identity b = identity root_row"
    using admin_requests_guarded [OF sample_admins_wf] by blast
  have "ad_name (identity b) = ''root''" "ad_sudo (identity b)" by (simp_all only: b(2)) (simp_all add: identity_def root_row_def)
  with b(1) show ?thesis by (auto simp: identity_def)
qed

end
