(* ===== verification/HostBalancer.thy ===== *)
theory HostBalancer
  imports XrayDoc
begin

text \<open>
  app/models/host_balancing.py and app/xray/host_balancer.py: the balancing settings of a host and
  what they do to a client document. Validation maps a JSON value to the dump of the model or to an
  error (which of pydantic's messages is not modelled). \<open>Decimal\<close> durations are exact rationals; the
  code rounds only literals of more than 28 digits. Whether a string is an http URL is decided by
  pydantic's \<open>AnyHttpUrl\<close>, the parameter \<open>url_ok\<close>.
\<close>

section \<open>Durations\<close>

definition dur_units :: "(string \<times> rat) list" where
  "dur_units = [(''ns'', 1 / 1000000000), (''us'', 1 / 1000000), (CHR 0xB5 # ''s'', 1 / 1000000), (''ms'', 1 / 1000),
     (''s'', 1), (''m'', 60), (''h'', 3600)]"

definition DURATION_LIMIT :: rat where
  "DURATION_LIMIT = 9223372036854775807 / 1000000000"

text \<open>One match of \<open>_DURATION\<close> at the start of the string: the number and the rest, the unit and the rest.\<close>

definition dec_value :: "string \<Rightarrow> string \<Rightarrow> rat" where
  "dec_value a f = of_nat (str_nat (a @ f)) / 10 ^ length f"

definition dur_number :: "string \<Rightarrow> (rat \<times> string) option" where
  "dur_number s = (let a = takeWhile is_digit s; r = dropWhile is_digit s in
     case r of
       [] \<Rightarrow> None
     | c # r' \<Rightarrow> if c = CHR ''.'' then
                   let f = takeWhile is_digit r' in
                   if a = [] \<and> f = [] then None else Some (dec_value a f, dropWhile is_digit r')
                 else if a = [] then None else Some (dec_value a [], r))"

fun dur_unit :: "(string \<times> rat) list \<Rightarrow> string \<Rightarrow> (rat \<times> string) option" where
  "dur_unit [] s = None"
| "dur_unit ((u, x) # us) s = (if starts_with s u then Some (x, drop (length u) s) else dur_unit us s)"

definition dur_match :: "string \<Rightarrow> (rat \<times> string) option" where
  "dur_match s = (case dur_number s of None \<Rightarrow> None
     | Some (n, r) \<Rightarrow> (case dur_unit dur_units r of None \<Rightarrow> None | Some (x, r') \<Rightarrow> Some (n * x, r')))"

lemma length_dropWhile: "length (dropWhile P s) \<le> length s"
  by (induction s) auto

lemma dur_number_shorter: "dur_number s = Some (n, r) \<Longrightarrow> length r \<le> length s"
proof -
  assume found: "dur_number s = Some (n, r)"
  then obtain c r' where r': "dropWhile is_digit s = c # r'" and r: "r = dropWhile is_digit r' \<or> r = c # r'"
    by (auto simp: dur_number_def Let_def split: list.splits if_splits)
  have "length (c # r') \<le> length s" using length_dropWhile [of is_digit s] by (simp add: r')
  moreover have "length (dropWhile is_digit r') \<le> length r'" by (rule length_dropWhile)
  ultimately show ?thesis using r by auto
qed

lemma dur_unit_shorter: "dur_unit us s = Some (x, r) \<Longrightarrow> \<forall>p \<in> set us. fst p \<noteq> [] \<Longrightarrow> length r < length s"
  by (induction us s rule: dur_unit.induct) (auto simp: starts_with_iff split: if_splits)

lemma dur_match_shorter: "dur_match s = Some (x, r) \<Longrightarrow> length r < length s"
proof -
  assume "dur_match s = Some (x, r)"
  then obtain n q y where "dur_number s = Some (n, q)" and "dur_unit dur_units q = Some (y, r)"
    by (auto simp: dur_match_def split: option.splits prod.splits)
  then show ?thesis
    using dur_number_shorter dur_unit_shorter [of dur_units q y r] by (fastforce simp: dur_units_def)
qed

text \<open>
  \<open>finditer\<close> finds matches whose concatenation is the whole string exactly when matching repeatedly at the
  front uses the string up: the alternatives of the pattern cannot match two different prefixes.
\<close>

function duration_parts :: "string \<Rightarrow> rat list option" where
  "duration_parts s = (if s = [] then Some [] else
     case dur_match s of None \<Rightarrow> None
     | Some (x, r) \<Rightarrow> (case duration_parts r of None \<Rightarrow> None | Some xs \<Rightarrow> Some (x # xs)))"
  by pat_completeness auto
termination by (relation "measure length") (auto dest: dur_match_shorter)

declare duration_parts.simps [simp del]

definition duration_seconds :: "string \<Rightarrow> rat result" where
  "duration_seconds value = (if value = ''0'' then Inr 0
     else case duration_parts value of
         None \<Rightarrow> Inl (ValueError ''Use a duration such as 200ms, 15s or 1m30s'')
       | Some parts \<Rightarrow> if parts = [] then Inl (ValueError ''Use a duration such as 200ms, 15s or 1m30s'')
           else if sum_list parts > DURATION_LIMIT then Inl (ValueError ''Duration exceeds Xray limit'')
           else Inr (sum_list parts))"

lemma dur_unit_nonneg: "dur_unit us q = Some (y, r) \<Longrightarrow> \<forall>p \<in> set us. 0 \<le> snd p \<Longrightarrow> 0 \<le> y"
  by (induction us q rule: dur_unit.induct) (auto split: if_splits)

lemma dur_number_nonneg: "dur_number s = Some (n, q) \<Longrightarrow> 0 \<le> n"
  by (auto simp: dur_number_def dec_value_def Let_def split: list.splits if_splits)

lemma dur_match_nonneg: "dur_match s = Some (x, r) \<Longrightarrow> 0 \<le> x"
proof -
  assume "dur_match s = Some (x, r)"
  then obtain n q y where n: "dur_number s = Some (n, q)" and y: "dur_unit dur_units q = Some (y, r)" and x: "x = n * y"
    by (auto simp: dur_match_def split: option.splits prod.splits)
  have "0 \<le> y" by (rule dur_unit_nonneg [OF y]) (simp add: dur_units_def)
  with dur_number_nonneg [OF n] x show ?thesis by simp
qed

lemma duration_parts_nonneg: "duration_parts s = Some xs \<Longrightarrow> \<forall>x \<in> set xs. 0 \<le> x"
proof (induction s arbitrary: xs rule: duration_parts.induct)
  case (1 s)
  show ?case
  proof (cases "s = []")
    case True
    with 1 show ?thesis by (simp add: duration_parts.simps)
  next
    case False
    with 1(2) obtain x r ys where m: "dur_match s = Some (x, r)" and rest: "duration_parts r = Some ys" and xs: "xs = x # ys"
      by (subst (asm) duration_parts.simps) (auto split: option.splits)
    from m have "0 \<le> x" by (rule dur_match_nonneg)
    with 1(1) [OF False m _ rest] xs show ?thesis by auto
  qed
qed

text \<open>A duration that the settings accept is between zero and the largest number of nanoseconds Go can hold
  in 64 bits, whatever the string is.\<close>

theorem duration_in_range:
  assumes "duration_seconds v = Inr d"
  shows "0 \<le> d \<and> d * 1000000000 \<le> 2 ^ 63 - 1"
proof -
  have "0 \<le> sum_list xs" if "duration_parts v = Some xs" for xs
    using duration_parts_nonneg [OF that] by (auto intro: sum_list_nonneg)
  with assms show ?thesis
    by (auto simp: duration_seconds_def DURATION_LIMIT_def split: if_splits option.splits)
qed

lemma duration_in_range_witness:
  "0 \<le> (9223372036854775807 / 1000000000 :: rat) \<and> (9223372036854775807 / 1000000000 :: rat) * 1000000000 \<le> 2 ^ 63 - 1"
proof -
  have s: "starts_with [] (c # u) = False" for c u by (simp add: starts_with_def)
  have "duration_seconds ''9223372036854775807ns'' = Inr (9223372036854775807 / 1000000000)"
    by (simp add: duration_seconds_def duration_parts.simps dur_match_def dur_number_def dec_value_def is_digit_def str_nat_def
        dur_units_def starts_with_def DURATION_LIMIT_def)
  from duration_in_range [OF this] show ?thesis .
qed

section \<open>Field types\<close>

text \<open>\<open>StrictInt\<close> with bounds, \<open>StrictFloat\<close> (which takes an integer and makes it a float), \<open>StrictBool\<close>, \<open>str\<close>,
  \<open>list[str]\<close>; a model refuses keys it does not know.\<close>

fun strict_int :: "int \<Rightarrow> int \<Rightarrow> json \<Rightarrow> json result" where
  "strict_int lo hi (JInt n) = (if lo \<le> n \<and> n \<le> hi then Inr (JInt n) else Inl (ValueError ''range''))"
| "strict_int lo hi _ = Inl (ValueError ''Input should be a valid integer'')"

fun strict_float :: "(rat \<Rightarrow> bool) \<Rightarrow> json \<Rightarrow> json result" where
  "strict_float ok (JFloat x) = (if ok x then Inr (JFloat x) else Inl (ValueError ''range''))"
| "strict_float ok (JInt n) = (if ok (of_int n) then Inr (JFloat (of_int n)) else Inl (ValueError ''range''))"
| "strict_float ok _ = Inl (ValueError ''Input should be a valid number'')"

fun strict_bool :: "json \<Rightarrow> json result" where
  "strict_bool (JBool b) = Inr (JBool b)"
| "strict_bool _ = Inl (ValueError ''Input should be a valid boolean'')"

fun checked_str :: "(string \<Rightarrow> bool) \<Rightarrow> json \<Rightarrow> json result" where
  "checked_str ok (JStr s) = (if ok s then Inr (JStr s) else Inl (ValueError ''Value error''))"
| "checked_str ok _ = Inl (ValueError ''Input should be a valid string'')"

fun list_field :: "(json \<Rightarrow> json result) \<Rightarrow> json \<Rightarrow> json result" where
  "list_field f (JList xs) = bindE (mapE f xs) (\<lambda>ys. Inr (JList ys))"
| "list_field f _ = Inl (ValueError ''Input should be a valid list'')"

fun model_obj :: "string list \<Rightarrow> json \<Rightarrow> obj result" where
  "model_obj ks (JObj d) = (if list_all (\<lambda>p. fst p \<in> set ks) d then Inr d
     else Inl (ValueError ''Extra inputs are not permitted''))"
| "model_obj ks _ = Inl (ValueError ''Input should be a valid dictionary'')"

definition required :: "obj \<Rightarrow> string \<Rightarrow> json result" where
  "required d k = (case dget d k of None \<Rightarrow> Inl (ValueError ''Field required'') | Some v \<Rightarrow> Inr v)"

section \<open>The settings of a host\<close>

definition duration_ok :: "string \<Rightarrow> bool" where
  "duration_ok s \<longleftrightarrow> (case duration_seconds s of Inl e \<Rightarrow> False | Inr d \<Rightarrow> True)"

definition duration_at_least :: "rat \<Rightarrow> string \<Rightarrow> bool" where
  "duration_at_least lo s \<longleftrightarrow> (case duration_seconds s of Inl e \<Rightarrow> False | Inr d \<Rightarrow> 0 < d \<and> lo \<le> d)"

definition balancer_cost :: "json \<Rightarrow> json result" where
  "balancer_cost v = bindE (model_obj [''match'', ''regexp'', ''value''] v) (\<lambda>d.
     bindE (bindE (required d ''match'') (checked_str (\<lambda>s. s \<noteq> []))) (\<lambda>m.
     bindE (strict_bool (dget_or d ''regexp'' (JBool False))) (\<lambda>r.
     bindE (bindE (required d ''value'') (strict_float (\<lambda>x. 0 < x))) (\<lambda>x.
       Inr (JObj [(''match'', m), (''regexp'', r), (''value'', x)])))))"

definition least_load_settings :: "json \<Rightarrow> json result" where
  "least_load_settings v =
     bindE (model_obj [''expected'', ''maxRTT'', ''tolerance'', ''baselines'', ''costs''] v) (\<lambda>d.
     bindE (strict_int 0 2147483647 (dget_or d ''expected'' (JInt 2))) (\<lambda>e.
     bindE (checked_str duration_ok (dget_or d ''maxRTT'' (JStr ''1s''))) (\<lambda>m.
     bindE (strict_float (\<lambda>x. 0 \<le> x \<and> x \<le> 1) (dget_or d ''tolerance'' (JFloat (1 / 10)))) (\<lambda>t.
     bindE (list_field (checked_str (duration_at_least 0)) (dget_or d ''baselines'' (JList []))) (\<lambda>b.
     bindE (list_field balancer_cost (dget_or d ''costs'' (JList []))) (\<lambda>c.
       Inr (JObj [(''expected'', e), (''maxRTT'', m), (''tolerance'', t), (''baselines'', b), (''costs'', c)])))))))"

definition HOST_PROBE_URL :: string where
  "HOST_PROBE_URL = ''https://www.google.com/generate_204''"

definition ping_probe :: "(string \<Rightarrow> bool) \<Rightarrow> json \<Rightarrow> json result" where
  "ping_probe url_ok v =
     bindE (model_obj [''url'', ''interval'', ''enableConcurrency''] v) (\<lambda>d.
     bindE (checked_str url_ok (dget_or d ''url'' (JStr HOST_PROBE_URL))) (\<lambda>u.
     bindE (checked_str (duration_at_least 0) (dget_or d ''interval'' (JStr ''15s''))) (\<lambda>i.
     bindE (strict_bool (dget_or d ''enableConcurrency'' (JBool False))) (\<lambda>c.
       Inr (JObj [(''url'', u), (''interval'', i), (''enableConcurrency'', c)])))))"

definition burst_probe :: "(string \<Rightarrow> bool) \<Rightarrow> json \<Rightarrow> json result" where
  "burst_probe url_ok v =
     bindE (model_obj [''url'', ''interval'', ''timeout'', ''sampling'', ''connectivity''] v) (\<lambda>d.
     bindE (checked_str url_ok (dget_or d ''url'' (JStr HOST_PROBE_URL))) (\<lambda>u.
     bindE (checked_str (duration_at_least 10) (dget_or d ''interval'' (JStr ''15s''))) (\<lambda>i.
     bindE (checked_str (duration_at_least 0) (dget_or d ''timeout'' (JStr ''3s''))) (\<lambda>t.
     bindE (strict_int 1 2147483647 (dget_or d ''sampling'' (JInt 3))) (\<lambda>n.
     bindE (checked_str (\<lambda>s. s = [] \<or> url_ok s) (dget_or d ''connectivity'' (JStr []))) (\<lambda>c.
       Inr (JObj [(''url'', u), (''interval'', i), (''timeout'', t), (''sampling'', n), (''connectivity'', c)])))))))"

definition HOST_STRATEGIES :: "string list" where
  "HOST_STRATEGIES = [''random'', ''roundRobin'', ''leastPing'', ''leastLoad'']"

definition or_empty :: "json \<Rightarrow> json" where
  "or_empty v = (if v = JNull then JObj [] else v)"

definition strategy_settings :: "string \<Rightarrow> json \<Rightarrow> json result" where
  "strategy_settings strategy v =
     (if strategy = ''leastLoad'' then least_load_settings (or_empty v)
      else if v \<noteq> JNull then Inl (ValueError ''Only leastLoad accepts strategy settings'')
      else Inr JNull)"

definition strategy_probe :: "(string \<Rightarrow> bool) \<Rightarrow> string \<Rightarrow> json \<Rightarrow> json result" where
  "strategy_probe url_ok strategy v =
     (if strategy = ''leastLoad'' then burst_probe url_ok (or_empty v)
      else if strategy = ''leastPing'' then ping_probe url_ok (or_empty v)
      else if v \<noteq> JNull then Inl (ValueError ''This strategy does not use a probe'')
      else Inr JNull)"

text \<open>\<open>HostBalancing.model_validate(v).model_dump(mode="json")\<close>; absent fields are validated as their defaults.\<close>

definition host_balancing :: "(string \<Rightarrow> bool) \<Rightarrow> json \<Rightarrow> obj result" where
  "host_balancing url_ok v =
     bindE (model_obj [''strategy'', ''settings'', ''probe''] v) (\<lambda>d.
     bindE (bindE (required d ''strategy'') (checked_str (\<lambda>s. s \<in> set HOST_STRATEGIES))) (\<lambda>s.
     bindE (strategy_settings (the (jstr s)) (jget d ''settings'')) (\<lambda>settings.
     bindE (strategy_probe url_ok (the (jstr s)) (jget d ''probe'')) (\<lambda>probe.
       Inr [(''strategy'', s), (''settings'', settings), (''probe'', probe)]))))"

section \<open>Accepted settings\<close>

lemma field_types:
  "strict_int lo hi v = Inr w \<longleftrightarrow> (\<exists>n. v = JInt n \<and> w = v \<and> lo \<le> n \<and> n \<le> hi)"
  "strict_bool v = Inr w \<longleftrightarrow> (\<exists>b. v = JBool b \<and> w = v)"
  "checked_str ok v = Inr w \<longleftrightarrow> (\<exists>s. v = JStr s \<and> w = v \<and> ok s)"
  by (cases v; auto)+

lemma strict_float_type: "strict_float ok v = Inr w \<Longrightarrow> \<exists>x. w = JFloat x \<and> ok x"
  by (cases v) (auto split: if_splits)

lemma list_field_fixed:
  assumes "list_field f v = Inr w" and fixed: "\<And>x y. f x = Inr y \<Longrightarrow> f y = Inr y"
  shows "list_field f w = Inr w"
proof -
  from assms(1) obtain xs ys where ys: "mapE f xs = Inr ys" and w: "w = JList ys" by (cases v) (auto simp: bindE_Inr_iff)
  from ys fixed have "mapE f ys = Inr ys" by (rule mapE_fixed)
  with w show ?thesis by simp
qed

lemma dget_or_Cons: "dget_or ((k, v) # d) k' x = (if k' = k then v else dget_or d k' x)"
  by (simp add: dget_or_def)

lemma balancer_cost_fixed: "balancer_cost v = Inr w \<Longrightarrow> balancer_cost w = Inr w"
  by (auto simp: balancer_cost_def bindE_Inr_iff field_types required_def dget_or_Cons dest!: strict_float_type)

lemma least_load_settings_fixed: "least_load_settings v = Inr w \<Longrightarrow> least_load_settings w = Inr w"
proof -
  assume "least_load_settings v = Inr w"
  then obtain e m t b c vb vc where w: "w = JObj [(''expected'', JInt e), (''maxRTT'', JStr m), (''tolerance'', JFloat t),
        (''baselines'', b), (''costs'', c)]"
    and ok: "0 \<le> e" "e \<le> 2147483647" "duration_ok m" "0 \<le> t" "t \<le> 1"
    and b: "list_field (checked_str (duration_at_least 0)) vb = Inr b" and c: "list_field balancer_cost vc = Inr c"
    by (fastforce simp: least_load_settings_def bindE_Inr_iff field_types dest!: strict_float_type)
  have "list_field (checked_str (duration_at_least 0)) b = Inr b"
    by (rule list_field_fixed [OF b]) (auto simp: field_types)
  moreover have "list_field balancer_cost c = Inr c"
    by (rule list_field_fixed [OF c]) (rule balancer_cost_fixed)
  ultimately show ?thesis using ok by (simp add: w least_load_settings_def dget_or_Cons)
qed

lemma ping_probe_fixed: "ping_probe url_ok v = Inr w \<Longrightarrow> ping_probe url_ok w = Inr w"
  by (auto simp: ping_probe_def bindE_Inr_iff field_types dget_or_Cons)

lemma burst_probe_fixed: "burst_probe url_ok v = Inr w \<Longrightarrow> burst_probe url_ok w = Inr w"
  by (auto simp: burst_probe_def bindE_Inr_iff field_types dget_or_Cons)

lemma model_dumps: "least_load_settings v = Inr w \<Longrightarrow> w \<noteq> JNull" "ping_probe url_ok v = Inr w \<Longrightarrow> w \<noteq> JNull"
  "burst_probe url_ok v = Inr w \<Longrightarrow> w \<noteq> JNull"
  by (auto simp: least_load_settings_def ping_probe_def burst_probe_def bindE_Inr_iff)

lemma strategy_settings_fixed: "strategy_settings s v = Inr w \<Longrightarrow> strategy_settings s w = Inr w"
  by (auto simp: strategy_settings_def or_empty_def least_load_settings_fixed dest: model_dumps split: if_splits)

lemma strategy_probe_fixed: "strategy_probe url_ok s v = Inr w \<Longrightarrow> strategy_probe url_ok s w = Inr w"
  by (auto simp: strategy_probe_def or_empty_def ping_probe_fixed burst_probe_fixed dest: model_dumps split: if_splits)

lemma host_balancing_shape:
  assumes "host_balancing url_ok v = Inr b"
  obtains s settings probe where "b = [(''strategy'', JStr s), (''settings'', settings), (''probe'', probe)]"
    and "s \<in> set HOST_STRATEGIES" and "strategy_settings s settings = Inr settings" and "strategy_probe url_ok s probe = Inr probe"
proof -
  from assms obtain x st c d where "b = [(''strategy'', JStr st), (''settings'', c), (''probe'', d)]" "st \<in> set HOST_STRATEGIES"
    and "strategy_settings st (jget x ''settings'') = Inr c" and "strategy_probe url_ok st (jget x ''probe'') = Inr d"
    by (auto simp: host_balancing_def bindE_Inr_iff field_types)
  then show thesis by (intro that strategy_settings_fixed strategy_probe_fixed)
qed

text \<open>What is stored for a host validates to itself: reading the settings back never changes or refuses
  what an earlier request was allowed to write, and filling in defaults happens once.\<close>

theorem balancing_settings_stable:
  assumes "host_balancing url_ok v = Inr b"
  shows "host_balancing url_ok (JObj b) = Inr b"
  by (rule host_balancing_shape [OF assms]) (simp add: host_balancing_def required_def jget_def dget_or_Cons)

lemma balancing_settings_stable_witness:
  "host_balancing (\<lambda>u. True) (JObj [(''strategy'', JStr ''leastPing''), (''settings'', JNull),
     (''probe'', JObj [(''url'', JStr HOST_PROBE_URL), (''interval'', JStr ''15s''), (''enableConcurrency'', JBool False)])])
   = Inr [(''strategy'', JStr ''leastPing''), (''settings'', JNull),
     (''probe'', JObj [(''url'', JStr HOST_PROBE_URL), (''interval'', JStr ''15s''), (''enableConcurrency'', JBool False)])]"
proof -
  have "duration_at_least 0 ''15s''"
    by (simp add: duration_at_least_def duration_seconds_def duration_parts.simps dur_match_def dur_number_def dec_value_def
        is_digit_def str_nat_def dur_units_def starts_with_def DURATION_LIMIT_def)
  then have "host_balancing (\<lambda>u. True) (JObj [(''strategy'', JStr ''leastPing'')])
     = Inr [(''strategy'', JStr ''leastPing''), (''settings'', JNull),
       (''probe'', JObj [(''url'', JStr HOST_PROBE_URL), (''interval'', JStr ''15s''), (''enableConcurrency'', JBool False)])]"
    by (simp add: host_balancing_def required_def jget_def dget_or_Cons strategy_settings_def strategy_probe_def
        or_empty_def ping_probe_def HOST_STRATEGIES_def)
  from balancing_settings_stable [OF this] show ?thesis .
qed

section \<open>apply_host_balancer\<close>

definition PROXY_OUTBOUND_TAG :: string where
  "PROXY_OUTBOUND_TAG = ''proxy''"

definition HOST_BALANCER_TAG :: string where
  "HOST_BALANCER_TAG = ''proxy-balancer''"

definition HOST_BALANCER_STRATEGY :: string where
  "HOST_BALANCER_STRATEGY = ''leastPing''"

definition HOST_OBSERVATORY_INTERVAL :: string where
  "HOST_OBSERVATORY_INTERVAL = ''15s''"

definition proxy_outbound_tag :: "nat \<Rightarrow> string" where
  "proxy_outbound_tag index = (if index = 0 then PROXY_OUTBOUND_TAG else PROXY_OUTBOUND_TAG @ ''-'' @ nat_str index)"

definition host_balancer :: obj where
  "host_balancer = [(''tag'', JStr HOST_BALANCER_TAG), (''selector'', JList [JStr PROXY_OUTBOUND_TAG]),
     (''strategy'', JObj [(''type'', JStr HOST_BALANCER_STRATEGY)])]"

definition host_balancer_rule :: obj where
  "host_balancer_rule = [(''type'', JStr ''field''), (''network'', JStr ''tcp,udp''), (''balancerTag'', JStr HOST_BALANCER_TAG)]"

definition host_observatory :: obj where
  "host_observatory = [(''subjectSelector'', JList [JStr PROXY_OUTBOUND_TAG]), (''probeUrl'', JStr HOST_PROBE_URL),
     (''probeInterval'', JStr HOST_OBSERVATORY_INTERVAL)]"

definition catch_all :: "obj \<Rightarrow> bool" where
  "catch_all rule \<longleftrightarrow> jget rule ''balancerTag'' = JStr HOST_BALANCER_TAG
     \<and> jget rule ''network'' \<in> {JStr ''tcp,udp'', JStr ''udp,tcp''}
     \<and> set (map fst rule) - {''type'', ''network'', ''balancerTag'', ''ruleTag''} = {}"

text \<open>Iterating over \<open>routing.get("rules", [])\<close>: a string gives its characters, an object its keys.\<close>

fun py_iter :: "json \<Rightarrow> json list result" where
  "py_iter (JList xs) = Inr xs"
| "py_iter (JStr s) = Inr (map (\<lambda>c. JStr [c]) s)"
| "py_iter (JObj d) = Inr (map (\<lambda>p. JStr (fst p)) d)"
| "py_iter _ = Inl (TypeError ''object is not iterable'')"

definition rules_of :: "obj \<Rightarrow> json list result" where
  "rules_of routing = py_iter (dget_or routing ''rules'' (JList []))"

definition managed_rule :: "obj \<Rightarrow> obj" where
  "managed_rule rule = (if truthy (jget rule ''balancerTag'') \<or> jget rule ''outboundTag'' = JStr PROXY_OUTBOUND_TAG
     then dput ''balancerTag'' (JStr HOST_BALANCER_TAG) (ddel ''outboundTag'' rule) else rule)"

text \<open>The loop over the rules: a second catch-all is dropped; \<open>bool\<close> is \<open>has_catch_all\<close>.\<close>

fun managed_rules :: "obj list \<Rightarrow> bool \<Rightarrow> obj list" where
  "managed_rules [] found = (if found then [] else [host_balancer_rule])"
| "managed_rules (rule # rules) found =
     (let r = managed_rule rule in
      if catch_all r then (if found then managed_rules rules found else r # managed_rules rules True)
      else r # managed_rules rules found)"

text \<open>\<open>v or {}\<close>, then used as an object.\<close>

definition obj_or_empty :: "json \<Rightarrow> obj result" where
  "obj_or_empty v = (if truthy v then as_obj v else Inr [])"

lemma obj_or_empty_simps [simp]: "obj_or_empty (JObj d) = Inr d" "obj_or_empty JNull = Inr []"
  by (simp_all add: obj_or_empty_def)

text \<open>The section the strategy needs, with its name.\<close>

definition managed_observatory :: "obj \<Rightarrow> json list \<Rightarrow> (string \<times> json) option result" where
  "managed_observatory balancing selectors =
     bindE (obj_or_empty (jget balancing ''probe'')) (\<lambda>probe.
     bindE (jindex balancing ''strategy'') (\<lambda>strategy.
       if strategy = JStr ''leastPing'' then
         bindE (jindex probe ''url'') (\<lambda>u. bindE (jindex probe ''interval'') (\<lambda>i. bindE (jindex probe ''enableConcurrency'') (\<lambda>c.
           Inr (Some (''observatory'', JObj [(''subjectSelector'', JList selectors), (''probeUrl'', u), (''probeInterval'', i),
             (''enableConcurrency'', c)])))))
       else if strategy = JStr ''leastLoad'' then
         bindE (jindex probe ''url'') (\<lambda>u. bindE (jindex probe ''interval'') (\<lambda>i. bindE (jindex probe ''timeout'') (\<lambda>t.
         bindE (jindex probe ''sampling'') (\<lambda>n. bindE (jindex probe ''connectivity'') (\<lambda>c.
           Inr (Some (''burstObservatory'', JObj [(''subjectSelector'', JList selectors), (''pingConfig'', JObj
             [(''destination'', u), (''interval'', i), (''timeout'', t), (''sampling'', n), (''connectivity'', c)])])))))))
       else Inr None))"

definition put_section :: "(string \<times> json) option \<Rightarrow> obj \<Rightarrow> obj" where
  "put_section s config = (case s of None \<Rightarrow> config | Some (k, v) \<Rightarrow> dput k v config)"

definition apply_host_balancer :: "obj \<Rightarrow> obj option \<Rightarrow> string list option \<Rightarrow> obj result" where
  "apply_host_balancer config balancing participants =
     bindE (obj_or_empty (jget config ''routing'')) (\<lambda>routing.
       case balancing of
         None \<Rightarrow>
           if truthy (jget routing ''balancers'') then Inr config
           else
             (let routing1 = dput ''balancers'' (JList [JObj host_balancer]) routing in
              bindE (rules_of routing1) (\<lambda>rules.
                let config1 = dput ''routing'' (JObj (dput ''rules'' (JList (rules @ [JObj host_balancer_rule])) routing1)) config
                in Inr (if dget config1 ''observatory'' = None \<and> dget config1 ''burstObservatory'' = None
                        then dput ''observatory'' (JObj host_observatory) config1 else config1)))
       | Some bal \<Rightarrow>
           (let selectors = map JStr (case participants of None \<Rightarrow> [PROXY_OUTBOUND_TAG] | Some ps \<Rightarrow> ps) in
            bindE (jindex bal ''strategy'') (\<lambda>st.
            let strategy = [(''type'', st)] @ (let s = jget bal ''settings'' in if s = JNull then [] else [(''settings'', s)]);
                routing1 = dput ''balancers'' (JList [JObj [(''tag'', JStr HOST_BALANCER_TAG), (''selector'', JList selectors),
                              (''strategy'', JObj strategy)]]) routing in
            bindE (bindE (rules_of routing1) (mapE as_obj)) (\<lambda>rules.
              bindE (managed_observatory bal selectors) (\<lambda>section.
                Inr (put_section section (ddel ''burstObservatory'' (ddel ''observatory''
                  (dput ''routing'' (JObj (dput ''rules'' (JList (map JObj (managed_rules rules False))) routing1)) config)))))))))"

section \<open>The rules of a managed document\<close>

lemma managed_rule_gets:
  "jget (managed_rule r) ''balancerTag'' = (if truthy (jget r ''balancerTag'') \<or> jget r ''outboundTag'' = JStr PROXY_OUTBOUND_TAG
     then JStr HOST_BALANCER_TAG else jget r ''balancerTag'')"
  "truthy (jget (managed_rule r) ''balancerTag'') \<Longrightarrow> jget (managed_rule r) ''outboundTag'' = JNull"
  "jget (managed_rule r) ''outboundTag'' \<noteq> JStr PROXY_OUTBOUND_TAG"
  by (auto simp: managed_rule_def jget_def dget_or_def)

lemma managed_rule_fixed [simp]: "managed_rule (managed_rule r) = managed_rule r"
proof (cases "truthy (jget r ''balancerTag'') \<or> jget r ''outboundTag'' = JStr PROXY_OUTBOUND_TAG")
  case True
  then have "managed_rule r = dput ''balancerTag'' (JStr HOST_BALANCER_TAG) (ddel ''outboundTag'' r)" by (simp add: managed_rule_def)
  moreover have "managed_rule (dput ''balancerTag'' (JStr HOST_BALANCER_TAG) (ddel ''outboundTag'' r)) =
      dput ''balancerTag'' (JStr HOST_BALANCER_TAG) (ddel ''outboundTag'' r)"
    by (simp add: managed_rule_def HOST_BALANCER_TAG_def delete_update update_triv delete_idem)
  ultimately show ?thesis by simp
qed (simp add: managed_rule_def)

lemma host_balancer_rule_managed [simp]: "managed_rule host_balancer_rule = host_balancer_rule" "catch_all host_balancer_rule"
  by (simp_all add: managed_rule_def catch_all_def host_balancer_rule_def jget_def dget_or_Cons HOST_BALANCER_TAG_def)

lemma managed_rules_mem: "r \<in> set (managed_rules rs found) \<Longrightarrow> managed_rule r = r"
  by (induction rs found rule: managed_rules.induct) (auto simp: Let_def split: if_splits)

lemma managed_rules_none: "filter catch_all (managed_rules rs True) = []"
  by (induction rs "True" rule: managed_rules.induct) (simp_all add: Let_def)

lemma managed_rules_once: "length (filter catch_all (managed_rules rs False)) = 1"
  by (induction rs "False" rule: managed_rules.induct) (auto simp: Let_def managed_rules_none)

lemma managed_rules_others:
  "filter (\<lambda>r. \<not> catch_all r) (managed_rules rs found) = filter (\<lambda>r. \<not> catch_all r) (map managed_rule rs)"
  by (induction rs found rule: managed_rules.induct) (auto simp: Let_def)

lemma managed_rules_stable:
  "(\<forall>r \<in> set rs. managed_rule r = r) \<Longrightarrow> length (filter catch_all rs) = (if found then 0 else 1) \<Longrightarrow> managed_rules rs found = rs"
  by (induction rs arbitrary: found) (auto simp: Let_def split: if_splits)

lemma managed_rules_fixed [simp]: "managed_rules (managed_rules rs False) False = managed_rules rs False"
  by (rule managed_rules_stable) (auto simp: managed_rules_once intro: managed_rules_mem)

section \<open>The document\<close>

lemma managed_observatory_key:
  "managed_observatory bal sel = Inr (Some (k, v)) \<Longrightarrow> k = ''observatory'' \<or> k = ''burstObservatory''"
  by (auto simp: managed_observatory_def bindE_Inr_iff split: if_splits)

lemma rules_of_dput [simp]: "rules_of (dput ''rules'' v d) = py_iter v" "rules_of (dput ''balancers'' w d) = rules_of d"
  by (simp_all add: rules_of_def)

text \<open>What a managed document looks like: the routing of the source with its balancers and rules replaced, no
  observatory of the template, and the observatory the strategy asks for.\<close>

definition managed_routing :: "obj \<Rightarrow> string list option \<Rightarrow> json \<Rightarrow> obj list \<Rightarrow> obj \<Rightarrow> obj" where
  "managed_routing bal ps st rules routing =
     dput ''rules'' (JList (map JObj (managed_rules rules False)))
       (dput ''balancers'' (JList [JObj [(''tag'', JStr HOST_BALANCER_TAG),
          (''selector'', JList (map JStr (case ps of None \<Rightarrow> [PROXY_OUTBOUND_TAG] | Some p \<Rightarrow> p))),
          (''strategy'', JObj ([(''type'', st)] @ (let s = jget bal ''settings'' in if s = JNull then [] else [(''settings'', s)])))]])
        routing)"

lemma managed_document:
  "apply_host_balancer config (Some bal) ps = Inr config' \<longleftrightarrow>
   (\<exists>st routing rules sect. jindex bal ''strategy'' = Inr st
     \<and> obj_or_empty (jget config ''routing'') = Inr routing
     \<and> bindE (rules_of routing) (mapE as_obj) = Inr rules
     \<and> managed_observatory bal (map JStr (case ps of None \<Rightarrow> [PROXY_OUTBOUND_TAG] | Some p \<Rightarrow> p)) = Inr sect
     \<and> config' = put_section sect (ddel ''burstObservatory'' (ddel ''observatory''
          (dput ''routing'' (JObj (managed_routing bal ps st rules routing)) config))))"
  unfolding apply_host_balancer_def managed_routing_def by (auto simp: bindE_Inr_iff Let_def)

lemma managed_routing_fixed:
  "managed_routing bal ps st (managed_rules rules False) (managed_routing bal ps st rules routing)
     = managed_routing bal ps st rules routing"
  by (simp add: managed_routing_def update_triv update_swap)

lemma put_section_again:
  assumes "\<forall>k v. sect = Some (k, v) \<longrightarrow> k = ''observatory'' \<or> k = ''burstObservatory''"
  shows "put_section sect (ddel ''burstObservatory'' (ddel ''observatory'' (put_section sect
           (ddel ''burstObservatory'' (ddel ''observatory'' c)))))
         = put_section sect (ddel ''burstObservatory'' (ddel ''observatory'' c))"
proof -
  have swap: "ddel ''observatory'' (ddel ''burstObservatory'' d) = ddel ''burstObservatory'' (ddel ''observatory'' d)" for d :: obj
    by (rule delete_twist)
  show ?thesis
  proof (cases sect)
    case None
    then show ?thesis by (simp add: put_section_def swap delete_idem)
  next
    case (Some p)
    obtain k v where p: "p = (k, v)" by force
    from assms Some p consider "k = ''observatory''" | "k = ''burstObservatory''" by auto
    then show ?thesis
      by cases (simp_all add: put_section_def Some p delete_update delete_update_same swap delete_idem)
  qed
qed

lemma jget_put_section:
  assumes "k \<noteq> ''observatory''" and "k \<noteq> ''burstObservatory''"
    and "\<forall>l v. sect = Some (l, v) \<longrightarrow> l = ''observatory'' \<or> l = ''burstObservatory''"
  shows "dget (put_section sect (ddel ''burstObservatory'' (ddel ''observatory'' c))) k = dget c k"
  using assms by (auto simp: put_section_def split: option.splits)

text \<open>Only routing and the observatories change, in either mode.\<close>

lemma apply_host_balancer_rest:
  assumes "apply_host_balancer config bal ps = Inr config'" and "k \<noteq> ''routing''" "k \<noteq> ''observatory''" "k \<noteq> ''burstObservatory''"
  shows "dget config' k = dget config k"
proof (cases bal)
  case None
  with assms show ?thesis by (auto simp: apply_host_balancer_def bindE_Inr_iff Let_def split: if_splits)
next
  case (Some b)
  from assms(1) [unfolded Some managed_document] obtain routing' sect
    where obs: "managed_observatory b (map JStr (case ps of None \<Rightarrow> [PROXY_OUTBOUND_TAG] | Some p \<Rightarrow> p)) = Inr sect"
      and config': "config' = put_section sect (ddel ''burstObservatory'' (ddel ''observatory'' (dput ''routing'' (JObj routing') config)))"
    by blast
  from obs managed_observatory_key have key: "\<forall>k v. sect = Some (k, v) \<longrightarrow> k = ''observatory'' \<or> k = ''burstObservatory''" by blast
  have "dget config' k = dget (dput ''routing'' (JObj routing') config) k"
    unfolding config' using assms(3,4) key by (rule jget_put_section)
  with assms(2) show ?thesis by simp
qed

lemma managed_rules_of:
  "bindE (rules_of (managed_routing bal ps st rules routing)) (mapE as_obj) = Inr (managed_rules rules False)"
  by (simp add: managed_routing_def)

text \<open>Balancing a document twice is balancing it once, with the same settings or with none: the template's
  own balancers are left alone the second time, and a managed document already has its rules, its balancer and its
  observatory in place.\<close>

theorem host_balancer_idempotent:
  assumes "apply_host_balancer config bal ps = Inr config'"
  shows "apply_host_balancer config' bal ps = Inr config'"
proof (cases bal)
  case None
  from assms [unfolded None] obtain routing where r: "obj_or_empty (jget config ''routing'') = Inr routing"
    by (auto simp: apply_host_balancer_def bindE_Inr_iff)
  show ?thesis
  proof (cases "truthy (jget routing ''balancers'')")
    case True
    with assms r have "config' = config" by (simp add: apply_host_balancer_def None)
    with assms show ?thesis by simp
  next
    case False
    with assms r obtain rules where "config' = (let config1 = dput ''routing'' (JObj (dput ''rules'' (JList (rules @ [JObj host_balancer_rule]))
          (dput ''balancers'' (JList [JObj host_balancer]) routing))) config
        in (if dget config1 ''observatory'' = None \<and> dget config1 ''burstObservatory'' = None
            then dput ''observatory'' (JObj host_observatory) config1 else config1))"
      by (auto simp: apply_host_balancer_def None bindE_Inr_iff Let_def)
    then have "jget config' ''routing'' = JObj (dput ''rules'' (JList (rules @ [JObj host_balancer_rule]))
        (dput ''balancers'' (JList [JObj host_balancer]) routing))"
      by (simp add: Let_def)
    then show ?thesis by (simp add: apply_host_balancer_def None dget_None_iff dkeys_dput)
  qed
next
  case (Some b)
  from assms [unfolded Some managed_document] obtain st routing rules sect where st: "jindex b ''strategy'' = Inr st"
    and obs: "managed_observatory b (map JStr (case ps of None \<Rightarrow> [PROXY_OUTBOUND_TAG] | Some p \<Rightarrow> p)) = Inr sect"
    and config': "config' = put_section sect (ddel ''burstObservatory'' (ddel ''observatory''
        (dput ''routing'' (JObj (managed_routing b ps st rules routing)) config)))"
    by blast
  define doc where "doc = dput ''routing'' (JObj (managed_routing b ps st rules routing)) config"
  from obs managed_observatory_key have key: "\<forall>k v. sect = Some (k, v) \<longrightarrow> k = ''observatory'' \<or> k = ''burstObservatory''" by blast
  have get: "dget config' ''routing'' = Some (JObj (managed_routing b ps st rules routing))"
    unfolding config' by (subst jget_put_section) (use key in simp_all)
  have routing': "obj_or_empty (jget config' ''routing'') = Inr (managed_routing b ps st rules routing)"
  proof -
    have "managed_routing b ps st rules routing \<noteq> []"
      unfolding managed_routing_def by (metis dget_dput map_of.simps(1) option.distinct(1))
    then show ?thesis by (simp add: jget_def dget_or_def get)
  qed
  have same: "config' = put_section sect (ddel ''burstObservatory'' (ddel ''observatory''
      (dput ''routing'' (JObj (managed_routing b ps st (managed_rules rules False) (managed_routing b ps st rules routing))) config')))"
  proof -
    have "dput ''routing'' (JObj (managed_routing b ps st rules routing)) config' = config'"
      by (rule update_triv) (rule get)
    moreover have "put_section sect (ddel ''burstObservatory'' (ddel ''observatory'' config')) = config'"
      unfolding config' doc_def [symmetric] by (rule put_section_again) (rule key)
    ultimately show ?thesis by (simp add: managed_routing_fixed)
  qed
  show ?thesis
    unfolding Some managed_document
    by (intro exI conjI, rule st, rule routing', rule managed_rules_of, rule obs, rule same)
qed

lemma host_balancer_idempotent_witness:
  "apply_host_balancer [(''outbounds'', JList []), (''routing'', JObj [(''balancers'', JList [JObj host_balancer]),
       (''rules'', JList [JObj host_balancer_rule])]), (''observatory'', JObj host_observatory)] None None
   = Inr [(''outbounds'', JList []), (''routing'', JObj [(''balancers'', JList [JObj host_balancer]),
       (''rules'', JList [JObj host_balancer_rule])]), (''observatory'', JObj host_observatory)]"
proof -
  have "apply_host_balancer [(''outbounds'', JList [])] None None
   = Inr [(''outbounds'', JList []), (''routing'', JObj [(''balancers'', JList [JObj host_balancer]),
       (''rules'', JList [JObj host_balancer_rule])]), (''observatory'', JObj host_observatory)]"
    by (simp add: apply_host_balancer_def jget_def dget_or_def rules_of_def)
  from host_balancer_idempotent [OF this] show ?thesis .
qed



text \<open>C23: Settings that validation accepted can always be applied: on a document whose routing is an object with a list
  of rule objects nothing raises, and the document carries the observatory its strategy reads and no other.\<close>

theorem accepted_balancing_applies:
  assumes accepted: "host_balancing url_ok v = Inr bal"
    and routing: "obj_or_empty (jget config ''routing'') = Inr routing"
    and rules: "bindE (rules_of routing) (mapE as_obj) = Inr rules"
  shows "\<exists>config'. apply_host_balancer config (Some bal) ps = Inr config'
    \<and> (dget config' ''observatory'' \<noteq> None \<longleftrightarrow> jget bal ''strategy'' = JStr ''leastPing'')
    \<and> (dget config' ''burstObservatory'' \<noteq> None \<longleftrightarrow> jget bal ''strategy'' = JStr ''leastLoad'')"
proof -
  define sel where "sel = map JStr (case ps of None \<Rightarrow> [PROXY_OUTBOUND_TAG] | Some p \<Rightarrow> p)"
  from accepted obtain s settings probe where bal: "bal = [(''strategy'', JStr s), (''settings'', settings), (''probe'', probe)]"
    and s: "s \<in> set HOST_STRATEGIES" and probe: "strategy_probe url_ok s probe = Inr probe"
    by (rule host_balancing_shape)
  have st: "jindex bal ''strategy'' = Inr (JStr s)" and get: "jget bal ''strategy'' = JStr s" and pr: "jget bal ''probe'' = probe"
    by (simp_all add: bal jindex_def jget_def dget_or_def)
  have "\<exists>sect. managed_observatory bal sel = Inr sect \<and> (case sect of None \<Rightarrow> s \<noteq> ''leastPing'' \<and> s \<noteq> ''leastLoad''
      | Some (k, w) \<Rightarrow> (s = ''leastPing'' \<and> k = ''observatory'') \<or> (s = ''leastLoad'' \<and> k = ''burstObservatory''))"
  proof -
    consider "s = ''leastPing''" | "s = ''leastLoad''" | "s \<noteq> ''leastPing''" "s \<noteq> ''leastLoad''" by blast
    then show ?thesis
    proof cases
      case 1
      with probe obtain u i c where "probe = JObj [(''url'', u), (''interval'', i), (''enableConcurrency'', c)]"
        by (auto simp: strategy_probe_def ping_probe_def bindE_Inr_iff)
      with 1 st pr show ?thesis by (simp add: managed_observatory_def jindex_def)
    next
      case 2
      with probe obtain u i t n c where "probe = JObj [(''url'', u), (''interval'', i), (''timeout'', t), (''sampling'', n), (''connectivity'', c)]"
        by (auto simp: strategy_probe_def burst_probe_def bindE_Inr_iff)
      with 2 st pr show ?thesis by (simp add: managed_observatory_def jindex_def)
    next
      case 3
      with probe have "probe = JNull" by (auto simp: strategy_probe_def split: if_splits)
      with 3 st pr show ?thesis by (simp add: managed_observatory_def)
    qed
  qed
  then obtain sect where obs: "managed_observatory bal sel = Inr sect"
    and kind: "case sect of None \<Rightarrow> s \<noteq> ''leastPing'' \<and> s \<noteq> ''leastLoad''
      | Some (k, w) \<Rightarrow> (s = ''leastPing'' \<and> k = ''observatory'') \<or> (s = ''leastLoad'' \<and> k = ''burstObservatory'')" by blast
  define doc where "doc = dput ''routing'' (JObj (managed_routing bal ps (JStr s) rules routing)) config"
  have "apply_host_balancer config (Some bal) ps
      = Inr (put_section sect (ddel ''burstObservatory'' (ddel ''observatory'' doc)))"
    unfolding managed_document doc_def using st routing rules obs [unfolded sel_def] by blast
  moreover have "dget (put_section sect (ddel ''burstObservatory'' (ddel ''observatory'' doc))) ''observatory'' \<noteq> None \<longleftrightarrow> s = ''leastPing''"
    and "dget (put_section sect (ddel ''burstObservatory'' (ddel ''observatory'' doc))) ''burstObservatory'' \<noteq> None \<longleftrightarrow> s = ''leastLoad''"
    using kind by (auto simp: put_section_def split: option.splits prod.splits)
  ultimately show ?thesis using get by auto
qed

lemma accepted_balancing_applies_witness:
  "\<exists>config'. apply_host_balancer [] (Some [(''strategy'', JStr ''random''), (''settings'', JNull), (''probe'', JNull)]) None = Inr config'
    \<and> dget config' ''observatory'' = None"
proof -
  have accepted: "host_balancing (\<lambda>u. False) (JObj [(''strategy'', JStr ''random'')])
      = Inr [(''strategy'', JStr ''random''), (''settings'', JNull), (''probe'', JNull)]"
    by (simp add: host_balancing_def required_def jget_def dget_or_def strategy_settings_def strategy_probe_def HOST_STRATEGIES_def)
  have routing: "obj_or_empty (jget [] ''routing'') = Inr []"
    and rules: "bindE (rules_of []) (mapE as_obj) = Inr []"
    by (simp_all add: rules_of_def)
  from accepted_balancing_applies [OF accepted routing rules, of None] show ?thesis
    by (auto simp: jget_def dget_or_def)
qed

end
