(* ===== verification/HostInjection.thy ===== *)
theory HostInjection
  imports HostBalancer
begin

text \<open>
  app/models/host_injection.py and app/xray/host_injection.py: which hosts a composed subscription takes its
  outbounds from. Validation turns a JSON value into a value of the model; the regex engine (whether a pattern
  compiles, whether it matches within a time limit), the error locations pydantic reports and the monotonic
  clock are fields of \<open>inj_env\<close>. The clock is a function of the number of readings so far.
\<close>

section \<open>The model\<close>

datatype selector = IdSelector "int list" | RegexSelector string string | SameTagSelector

datatype select_from = FromHidden | FromNotHidden | FromAll

record injection_group =
  g_selector :: selector
  g_select_from :: select_from
  g_tag_prefix :: "string option"
  g_remark_as_tag :: bool
  g_tag_as_tag :: bool

record host_injection =
  inj_enabled :: bool
  inj_hosts :: "injection_group list"
  inj_virtual :: bool

record inj_env =
  ie_regex_ok :: "string \<Rightarrow> bool"
  ie_paths :: "json \<Rightarrow> string list"
  ie_search :: "string \<Rightarrow> string \<Rightarrow> rat \<Rightarrow> bool option"
  ie_clock :: "nat \<Rightarrow> rat"

definition MAX_ENDPOINTS :: nat where
  "MAX_ENDPOINTS = 512"

definition SELECTION_SECONDS :: rat where
  "SELECTION_SECONDS = 5 / 100"

definition bool_field :: "obj \<Rightarrow> string \<Rightarrow> bool \<Rightarrow> bool result" where
  "bool_field d k dflt = (case dget d k of None \<Rightarrow> Inr dflt | Some (JBool b) \<Rightarrow> Inr b
     | _ \<Rightarrow> Inl (ValueError ''Input should be a valid boolean''))"

fun positive_int :: "json \<Rightarrow> int result" where
  "positive_int (JInt n) = (if n > 0 then Inr n else Inl (ValueError ''Input should be greater than 0''))"
| "positive_int _ = Inl (ValueError ''Input should be a valid integer'')"

definition id_selector :: "obj \<Rightarrow> selector result" where
  "id_selector d = bindE (model_obj [''type'', ''values''] (JObj d)) (\<lambda>_.
     bindE (bindE (required d ''values'') as_list) (\<lambda>vs. bindE (mapE positive_int vs) (\<lambda>ids.
       if 1 \<le> length ids \<and> length ids \<le> 256 \<and> distinct ids then Inr (IdSelector ids)
       else Inl (ValueError ''Host IDs must be unique''))))"

definition regex_selector :: "(string \<Rightarrow> bool) \<Rightarrow> string \<Rightarrow> obj \<Rightarrow> selector result" where
  "regex_selector regex_ok kind d = bindE (model_obj [''type'', ''pattern''] (JObj d)) (\<lambda>_.
     bindE (required d ''pattern'') (\<lambda>p. case p of
         JStr s \<Rightarrow> if 1 \<le> length s \<and> length s \<le> 256 \<and> regex_ok s then Inr (RegexSelector kind s)
                   else Inl (ValueError ''Invalid host selector regex'')
       | _ \<Rightarrow> Inl (ValueError ''Input should be a valid string'')))"

text \<open>The union is discriminated by \<open>type\<close>.\<close>

definition selector_of :: "(string \<Rightarrow> bool) \<Rightarrow> json \<Rightarrow> selector result" where
  "selector_of regex_ok v = bindE (as_obj v) (\<lambda>d.
     case dget d ''type'' of
       Some (JStr t) \<Rightarrow>
         if t = ''ids'' then id_selector d
         else if t = ''remarkRegex'' \<or> t = ''tagRegex'' then regex_selector regex_ok t d
         else if t = ''sameTagAsRecipient'' then bindE (model_obj [''type''] (JObj d)) (\<lambda>_. Inr SameTagSelector)
         else Inl (ValueError ''union_tag_invalid'')
     | _ \<Rightarrow> Inl (ValueError ''union_tag_not_found''))"

definition select_from_of :: "obj \<Rightarrow> select_from result" where
  "select_from_of d = (case dget d ''selectFrom'' of None \<Rightarrow> Inr FromHidden
     | Some v \<Rightarrow> if v = JStr ''HIDDEN'' then Inr FromHidden else if v = JStr ''NOT_HIDDEN'' then Inr FromNotHidden
         else if v = JStr ''ALL'' then Inr FromAll else Inl (ValueError ''literal_error''))"

definition tag_prefix_of :: "obj \<Rightarrow> string option result" where
  "tag_prefix_of d = (case dget d ''tagPrefix'' of None \<Rightarrow> Inr None | Some JNull \<Rightarrow> Inr None
     | Some (JStr s) \<Rightarrow> if 1 \<le> length s \<and> length s \<le> 128 then Inr (Some s) else Inl (ValueError ''string length'')
     | _ \<Rightarrow> Inl (ValueError ''Input should be a valid string''))"

definition tagging_mode :: "injection_group \<Rightarrow> bool" where
  "tagging_mode g \<longleftrightarrow>
     of_bool (g_tag_prefix g \<noteq> None) + of_bool (g_remark_as_tag g) + of_bool (g_tag_as_tag g) = (1::nat)
     \<and> (\<forall>s. g_tag_prefix g = Some s \<longrightarrow> strip s \<noteq> [])"

definition injection_group_of :: "(string \<Rightarrow> bool) \<Rightarrow> json \<Rightarrow> injection_group result" where
  "injection_group_of regex_ok v =
     bindE (model_obj [''selector'', ''selectFrom'', ''tagPrefix'', ''useHostRemarkAsTag'', ''useHostTagAsTag''] v) (\<lambda>d.
     bindE (bindE (required d ''selector'') (selector_of regex_ok)) (\<lambda>s.
     bindE (select_from_of d) (\<lambda>f.
     bindE (tag_prefix_of d) (\<lambda>p.
     bindE (bool_field d ''useHostRemarkAsTag'' False) (\<lambda>r.
     bindE (bool_field d ''useHostTagAsTag'' False) (\<lambda>t.
       let g = \<lparr>g_selector = s, g_select_from = f, g_tag_prefix = p, g_remark_as_tag = r, g_tag_as_tag = t\<rparr> in
       if tagging_mode g then Inr g else Inl (ValueError ''Choose exactly one outbound tagging mode'')))))))"

definition meaningful_source :: "host_injection \<Rightarrow> bool" where
  "meaningful_source i \<longleftrightarrow> inj_enabled i = (inj_hosts i \<noteq> [] \<or> inj_virtual i)"

definition host_injection_of :: "(string \<Rightarrow> bool) \<Rightarrow> json \<Rightarrow> host_injection result" where
  "host_injection_of regex_ok v =
     bindE (model_obj [''enabled'', ''injectHosts'', ''addVirtualHostAsOutbound''] v) (\<lambda>d.
     bindE (bool_field d ''enabled'' True) (\<lambda>e.
     bindE (bindE (as_list (dget_or d ''injectHosts'' (JList []))) (mapE (injection_group_of regex_ok))) (\<lambda>gs.
     bindE (bool_field d ''addVirtualHostAsOutbound'' False) (\<lambda>a.
       let i = \<lparr>inj_enabled = e, inj_hosts = gs, inj_virtual = a\<rparr> in
       if length gs \<le> 32 \<and> meaningful_source i then Inr i
       else Inl (ValueError ''Select source hosts or enable the connection of the recipient'')))))"

text \<open>\<open>model_dump(mode="json")\<close>.\<close>

fun dump_selector :: "selector \<Rightarrow> json" where
  "dump_selector (IdSelector ids) = JObj [(''type'', JStr ''ids''), (''values'', JList (map JInt ids))]"
| "dump_selector (RegexSelector kind p) = JObj [(''type'', JStr kind), (''pattern'', JStr p)]"
| "dump_selector SameTagSelector = JObj [(''type'', JStr ''sameTagAsRecipient'')]"

definition dump_group :: "injection_group \<Rightarrow> json" where
  "dump_group g = JObj
     [(''selector'', dump_selector (g_selector g)),
      (''selectFrom'', JStr (case g_select_from g of FromHidden \<Rightarrow> ''HIDDEN'' | FromNotHidden \<Rightarrow> ''NOT_HIDDEN'' | FromAll \<Rightarrow> ''ALL'')),
      (''tagPrefix'', case g_tag_prefix g of None \<Rightarrow> JNull | Some s \<Rightarrow> JStr s),
      (''useHostRemarkAsTag'', JBool (g_remark_as_tag g)), (''useHostTagAsTag'', JBool (g_tag_as_tag g))]"

definition dump_injection :: "host_injection \<Rightarrow> json" where
  "dump_injection i = JObj [(''enabled'', JBool (inj_enabled i)), (''injectHosts'', JList (map dump_group (inj_hosts i))),
     (''addVirtualHostAsOutbound'', JBool (inj_virtual i))]"

section \<open>Validation accepts what was dumped\<close>

definition selector_valid :: "(string \<Rightarrow> bool) \<Rightarrow> selector \<Rightarrow> bool" where
  "selector_valid regex_ok s = (case s of
       IdSelector ids \<Rightarrow> 1 \<le> length ids \<and> length ids \<le> 256 \<and> distinct ids \<and> (\<forall>n \<in> set ids. 0 < n)
     | RegexSelector kind p \<Rightarrow> (kind = ''remarkRegex'' \<or> kind = ''tagRegex'') \<and> 1 \<le> length p \<and> length p \<le> 256 \<and> regex_ok p
     | SameTagSelector \<Rightarrow> True)"

definition group_valid :: "(string \<Rightarrow> bool) \<Rightarrow> injection_group \<Rightarrow> bool" where
  "group_valid regex_ok g \<longleftrightarrow> selector_valid regex_ok (g_selector g) \<and> tagging_mode g
     \<and> (\<forall>s. g_tag_prefix g = Some s \<longrightarrow> 1 \<le> length s \<and> length s \<le> 128)"

definition injection_valid :: "(string \<Rightarrow> bool) \<Rightarrow> host_injection \<Rightarrow> bool" where
  "injection_valid regex_ok i \<longleftrightarrow> (\<forall>g \<in> set (inj_hosts i). group_valid regex_ok g) \<and> length (inj_hosts i) \<le> 32
     \<and> meaningful_source i"

lemma positive_ints: "mapE positive_int vs = Inr ids \<Longrightarrow> \<forall>n \<in> set ids. 0 < n"
proof (induction vs arbitrary: ids)
  case (Cons v vs)
  then show ?case by (cases v) (auto simp: bindE_Inr_iff split: if_splits)
qed auto

lemma positive_ints_back: "\<forall>n \<in> set ids. 0 < n \<Longrightarrow> mapE positive_int (map JInt ids) = Inr ids"
  by (induction ids) auto

lemma id_selector_valid: "id_selector d = Inr s \<Longrightarrow> selector_valid regex_ok s"
  by (auto simp: id_selector_def selector_valid_def bindE_Inr_iff positive_ints split: if_splits)

lemma regex_selector_valid:
  assumes "regex_selector regex_ok kind d = Inr s" and "kind = ''remarkRegex'' \<or> kind = ''tagRegex''"
  shows "selector_valid regex_ok s"
proof -
  from assms(1) obtain p where p: "(case p of JStr s \<Rightarrow> if 1 \<le> length s \<and> length s \<le> 256 \<and> regex_ok s then Inr (RegexSelector kind s)
      else Inl (ValueError ''Invalid host selector regex'') | _ \<Rightarrow> Inl (ValueError ''Input should be a valid string'')) = Inr s"
    unfolding regex_selector_def bindE_Inr_iff by blast
  then show ?thesis using assms(2) by (cases p) (auto simp: selector_valid_def split: if_splits)
qed

lemma selector_of_valid:
  assumes "selector_of regex_ok v = Inr s"
  shows "selector_valid regex_ok s"
proof -
  from assms obtain d where d: "(case dget d ''type'' of Some (JStr t) \<Rightarrow>
         if t = ''ids'' then id_selector d
         else if t = ''remarkRegex'' \<or> t = ''tagRegex'' then regex_selector regex_ok t d
         else if t = ''sameTagAsRecipient'' then bindE (model_obj [''type''] (JObj d)) (\<lambda>_. Inr SameTagSelector)
         else Inl (ValueError ''union_tag_invalid'') | _ \<Rightarrow> Inl (ValueError ''union_tag_not_found'')) = Inr s"
    unfolding selector_of_def bindE_Inr_iff by blast
  show ?thesis
  proof (cases "dget d ''type''")
    case (Some w)
    with d obtain t where w: "w = JStr t" by (cases w) auto
    from d have d': "(if t = ''ids'' then id_selector d
         else if t = ''remarkRegex'' \<or> t = ''tagRegex'' then regex_selector regex_ok t d
         else if t = ''sameTagAsRecipient'' then bindE (model_obj [''type''] (JObj d)) (\<lambda>_. Inr SameTagSelector)
         else Inl (ValueError ''union_tag_invalid'')) = Inr s"
      unfolding Some w option.case json.case .
    consider "t = ''ids''" | "t \<noteq> ''ids''" "t = ''remarkRegex'' \<or> t = ''tagRegex''"
      | "t \<noteq> ''ids''" "\<not> (t = ''remarkRegex'' \<or> t = ''tagRegex'')" by blast
    then show ?thesis
    proof cases
      case 1
      with d' have "id_selector d = Inr s" by simp
      then show ?thesis by (rule id_selector_valid)
    next
      case 2
      with d' have "regex_selector regex_ok t d = Inr s" by (simp only: if_False if_True)
      then show ?thesis using 2 by (intro regex_selector_valid)
    next
      case 3
      with d' have "s = SameTagSelector" by (simp only: if_False) (auto simp: bindE_Inr_iff split: if_splits)
      then show ?thesis by (simp add: selector_valid_def)
    qed
  qed (use d in simp)
qed

lemma selector_of_dump: "selector_valid regex_ok s \<Longrightarrow> selector_of regex_ok (dump_selector s) = Inr s"
  by (cases s) (auto simp: selector_of_def id_selector_def regex_selector_def selector_valid_def required_def positive_ints_back)

lemma tag_prefix_of_valid: "tag_prefix_of d = Inr (Some s) \<Longrightarrow> 1 \<le> length s \<and> length s \<le> 128"
proof -
  assume p: "tag_prefix_of d = Inr (Some s)"
  show ?thesis
  proof (cases "dget d ''tagPrefix''")
    case (Some w)
    with p show ?thesis by (cases w) (simp_all add: tag_prefix_of_def split: if_splits)
  qed (use p in \<open>simp add: tag_prefix_of_def\<close>)
qed

lemma group_of_valid: "injection_group_of regex_ok v = Inr g \<Longrightarrow> group_valid regex_ok g"
  unfolding injection_group_of_def bindE_Inr_iff Let_def group_valid_def
  by (clarsimp simp: selector_of_valid tag_prefix_of_valid [simplified] split: if_splits)

lemma group_of_dump: "group_valid regex_ok g \<Longrightarrow> injection_group_of regex_ok (dump_group g) = Inr g"
proof (cases g)
  case (fields s f p r t)
  assume "group_valid regex_ok g"
  with fields show ?thesis
    by (cases f; cases p)
      (auto simp: injection_group_of_def dump_group_def group_valid_def required_def selector_of_dump select_from_of_def
        tag_prefix_of_def bool_field_def Let_def)
qed

lemma injection_of_valid: "host_injection_of regex_ok v = Inr i \<Longrightarrow> injection_valid regex_ok i"
proof -
  have "\<forall>g \<in> set gs. group_valid regex_ok g" if "mapE (injection_group_of regex_ok) xs = Inr gs" for xs gs
    using that by (induction xs arbitrary: gs) (auto simp: bindE_Inr_iff group_of_valid)
  then show "host_injection_of regex_ok v = Inr i \<Longrightarrow> injection_valid regex_ok i"
    by (auto simp: host_injection_of_def bindE_Inr_iff injection_valid_def Let_def split: if_splits)
qed

lemma injection_of_dump: "injection_valid regex_ok i \<Longrightarrow> host_injection_of regex_ok (dump_injection i) = Inr i"
proof -
  assume valid: "injection_valid regex_ok i"
  have "mapE (injection_group_of regex_ok) (map dump_group gs) = Inr gs" if "\<forall>g \<in> set gs. group_valid regex_ok g" for gs
    using that by (induction gs) (auto simp: group_of_dump)
  with valid show ?thesis
    by (cases i) (auto simp: host_injection_of_def dump_injection_def injection_valid_def bool_field_def dget_or_def Let_def)
qed

text \<open>What the panel accepts as a composition is exactly what it can read back: every accepted document is within the
  limits (at most 32 groups of at most 256 distinct positive ids, one way of naming outbounds per group, enabled exactly
  when it has a source), and the stored dump of it validates to the same composition.\<close>

theorem injection_documents_sound:
  assumes "host_injection_of regex_ok v = Inr i"
  shows "injection_valid regex_ok i \<and> host_injection_of regex_ok (dump_injection i) = Inr i"
  using injection_of_valid [OF assms] injection_of_dump by blast

lemma injection_documents_sound_witness:
  "host_injection_of (\<lambda>p. False) (dump_injection \<lparr>inj_enabled = True, inj_hosts = [\<lparr>g_selector = IdSelector [4, 2],
     g_select_from = FromHidden, g_tag_prefix = Some ''de'', g_remark_as_tag = False, g_tag_as_tag = False\<rparr>], inj_virtual = False\<rparr>)
   = Inr \<lparr>inj_enabled = True, inj_hosts = [\<lparr>g_selector = IdSelector [4, 2],
     g_select_from = FromHidden, g_tag_prefix = Some ''de'', g_remark_as_tag = False, g_tag_as_tag = False\<rparr>], inj_virtual = False\<rparr>"
proof -
  have "host_injection_of (\<lambda>p. False) (JObj [(''injectHosts'', JList [JObj [(''selector'', JObj [(''type'', JStr ''ids''),
      (''values'', JList [JInt 4, JInt 2])]), (''tagPrefix'', JStr ''de'')]])])
    = Inr \<lparr>inj_enabled = True, inj_hosts = [\<lparr>g_selector = IdSelector [4, 2],
     g_select_from = FromHidden, g_tag_prefix = Some ''de'', g_remark_as_tag = False, g_tag_as_tag = False\<rparr>], inj_virtual = False\<rparr>"
    by (simp add: host_injection_of_def bool_field_def dget_or_def injection_group_of_def required_def selector_of_def
        id_selector_def select_from_of_def tag_prefix_of_def tagging_mode_def meaningful_source_def Let_def strip_def lstrip_def
        is_space_def)
  from injection_documents_sound [OF this] show ?thesis by blast
qed

section \<open>Directives of a template and of a host\<close>

datatype inj_error = InjectionError string | ValidationError "string list" | OtherValueError

type_synonym 'a inj = "inj_error + 'a"

definition validated :: "inj_env \<Rightarrow> json \<Rightarrow> host_injection inj" where
  "validated env v = (case host_injection_of (ie_regex_ok env) v of
     Inl e \<Rightarrow> Inl (ValidationError (ie_paths env v)) | Inr i \<Rightarrow> Inr i)"

definition template_injection :: "inj_env \<Rightarrow> obj \<Rightarrow> host_injection option inj" where
  "template_injection env template =
     (let keys = filter (\<lambda>k. dget template k \<noteq> None) [''npvpn'', ''remnawave''] in
      if length keys > 1 then Inl (InjectionError ''conflicting_directives'')
      else case keys of
          [] \<Rightarrow> Inr None
        | k # _ \<Rightarrow> (case jget template k of
              JObj d \<Rightarrow> if dget d ''enabled'' \<noteq> None then Inl (InjectionError ''invalid_directive'')
                        else (case validated env (JObj d) of Inl e \<Rightarrow> Inl e | Inr i \<Rightarrow> Inr (Some i))
            | _ \<Rightarrow> Inl (InjectionError ''invalid_directive'')))"

definition resolve_host_injection :: "inj_env \<Rightarrow> json option \<Rightarrow> obj \<Rightarrow> host_injection option inj" where
  "resolve_host_injection env host_override template =
     (case template_injection env template of
        Inl e \<Rightarrow> Inl e
      | Inr inherited \<Rightarrow>
          (case (case host_override of None \<Rightarrow> Inr inherited
                 | Some v \<Rightarrow> (case validated env v of Inl e \<Rightarrow> Inl e | Inr i \<Rightarrow> Inr (Some i))) of
             Inl e \<Rightarrow> Inl e
           | Inr value \<Rightarrow> Inr (case value of None \<Rightarrow> None | Some i \<Rightarrow> if inj_enabled i then Some i else None)))"

definition strip_injection_directives :: "obj \<Rightarrow> obj" where
  "strip_injection_directives template = ddel ''remnawave'' (ddel ''npvpn'' template)"

lemma stripped_has_no_directive: "resolve_host_injection env None (strip_injection_directives t) = Inr None"
  by (simp add: resolve_host_injection_def template_injection_def strip_injection_directives_def)

section \<open>select_injected_hosts\<close>

text \<open>The keys of a host dictionary that composition reads.\<close>

record inj_host =
  ih_id :: int
  ih_remark :: string
  ih_group_tag :: string
  ih_disabled :: bool
  ih_hidden :: bool
  ih_order :: "int option"
  ih_inbound :: string
  ih_config :: "int option"
  ih_injection :: "json option"
  ih_is_bs :: bool

text \<open>The host that receives; a draft in the form has no id yet.\<close>

record recipient =
  rc_id :: "int option"
  rc_host :: inj_host

definition selectable :: "injection_group \<Rightarrow> recipient \<Rightarrow> inj_host \<Rightarrow> bool" where
  "selectable g r h \<longleftrightarrow> rc_id r \<noteq> Some (ih_id h) \<and> \<not> ih_disabled h
     \<and> (case g_select_from g of FromAll \<Rightarrow> True | FromHidden \<Rightarrow> ih_hidden h | FromNotHidden \<Rightarrow> \<not> ih_hidden h)"

definition by_order :: "inj_host list \<Rightarrow> inj_host list" where
  "by_order hs = sort_key (\<lambda>h. or0 (ih_order h)) (sort_key ih_id hs)"

fun search_hosts :: "inj_env \<Rightarrow> string \<Rightarrow> (inj_host \<Rightarrow> string) \<Rightarrow> rat \<Rightarrow> inj_host list \<Rightarrow> nat \<Rightarrow> inj_host list inj \<times> nat" where
  "search_hosts env pattern key deadline [] n = (Inr [], n)"
| "search_hosts env pattern key deadline (h # hs) n =
     (let remaining = deadline - ie_clock env n in
      if remaining \<le> 0 then (Inl (InjectionError ''selector_timeout''), Suc n)
      else if length (key h) > 512 then (Inl (InjectionError ''selector_input_too_long''), Suc n)
      else case ie_search env pattern (key h) remaining of
          None \<Rightarrow> (Inl (InjectionError ''selector_timeout''), Suc n)
        | Some found \<Rightarrow> (case search_hosts env pattern key deadline hs (Suc n) of
              (Inl e, m) \<Rightarrow> (Inl e, m)
            | (Inr rest, m) \<Rightarrow> (Inr (if found then h # rest else rest), m)))"

definition select_injected_hosts ::
    "inj_env \<Rightarrow> injection_group \<Rightarrow> recipient \<Rightarrow> inj_host list \<Rightarrow> rat \<Rightarrow> nat \<Rightarrow> inj_host list inj \<times> nat" where
  "select_injected_hosts env g r hosts deadline n =
     (if ie_clock env n \<ge> deadline then (Inl (InjectionError ''selector_timeout''), Suc n)
      else let candidates = filter (selectable g r) hosts in
        case g_selector g of
          IdSelector ids \<Rightarrow>
            (let by_id = map_of (rev (map (\<lambda>h. (ih_id h, h)) candidates)) in
             (Inr (List.map_filter by_id ids), Suc n))
        | SameTagSelector \<Rightarrow>
            (let tag = ih_group_tag (rc_host r) in
             (Inr (filter (\<lambda>h. tag \<noteq> [] \<and> ih_group_tag h = tag) (by_order candidates)), Suc n))
        | RegexSelector kind pattern \<Rightarrow>
            search_hosts env pattern (if kind = ''remarkRegex'' then ih_remark else ih_group_tag) deadline
              (by_order candidates) (Suc n))"

lemma search_hosts_subseq: "search_hosts env p key dl hs n = (Inr out, m) \<Longrightarrow> subseq out hs"
proof (induction hs arbitrary: n m out)
  case (Cons h hs)
  then obtain b rest where "search_hosts env p key dl hs (Suc n) = (Inr rest, m)" and "out = (if b then h # rest else rest)"
    by (auto simp: Let_def split: if_splits option.splits prod.splits sum.splits)
  with Cons.IH [of "Suc n" rest m] show ?case by auto
qed auto

lemma set_map_filter: "y \<in> set (List.map_filter f xs) \<longleftrightarrow> (\<exists>x \<in> set xs. f x = Some y)"
  by (induction xs) (auto simp: List.map_filter_simps split: option.splits)

lemma subseq_members: "subseq xs ys \<Longrightarrow> set xs \<subseteq> set ys"
  by (induction rule: list_emb.induct) auto

text \<open>A group never selects the recipient itself, a disabled host, or a host of the wrong visibility, whichever way
  it selects; hosts chosen by id come in the order of the ids, the others in the order of the host list.\<close>

theorem selection_is_admissible:
  assumes "select_injected_hosts env g r hosts deadline n = (Inr out, m)"
  shows "(\<forall>h \<in> set out. h \<in> set hosts \<and> selectable g r h)
    \<and> (case g_selector g of IdSelector ids \<Rightarrow> subseq (map ih_id out) ids
       | _ \<Rightarrow> subseq out (by_order (filter (selectable g r) hosts)))"
proof (cases "g_selector g")
  case (IdSelector ids)
  define by_id where "by_id = map_of (rev (map (\<lambda>h. (ih_id h, h)) (filter (selectable g r) hosts)))"
  have found: "h \<in> set hosts \<and> selectable g r h \<and> ih_id h = i" if "by_id i = Some h" for i h
    using that unfolding by_id_def by (auto dest!: map_of_SomeD)
  have sub: "subseq (map ih_id (List.map_filter by_id xs)) xs" for xs
  proof (induction xs)
    case (Cons x xs)
    then show ?case by (cases "by_id x") (auto simp: List.map_filter_simps dest: found)
  qed (simp add: List.map_filter_simps)
  from assms IdSelector have "out = List.map_filter by_id ids"
    by (auto simp: select_injected_hosts_def by_id_def Let_def split: if_splits)
  then show ?thesis using found sub IdSelector by (auto simp: set_map_filter)
next
  case (RegexSelector kind p)
  then have "subseq out (by_order (filter (selectable g r) hosts))"
    using assms by (auto simp: select_injected_hosts_def Let_def split: if_splits dest: search_hosts_subseq)
  moreover from this have "set out \<subseteq> set (by_order (filter (selectable g r) hosts))" by (rule subseq_members)
  ultimately show ?thesis using RegexSelector by (auto simp: by_order_def)
next
  case SameTagSelector
  then have "out = filter (\<lambda>h. ih_group_tag (rc_host r) \<noteq> [] \<and> ih_group_tag h = ih_group_tag (rc_host r))
      (by_order (filter (selectable g r) hosts))"
    using assms by (auto simp: select_injected_hosts_def Let_def split: if_splits)
  then show ?thesis using SameTagSelector by (auto simp: by_order_def)
qed

section \<open>validate_composed_tag_graph\<close>

text \<open>
  Tags are compared as JSON values. \<open>InjectionError\<close> is a ValueError with its code. Where a tag that is no string
  meets a selector, Python's answer depends on the order of a set; the model raises.
\<close>

fun hashable :: "json \<Rightarrow> bool" where
  "hashable (JList _) = False"
| "hashable (JObj _) = False"
| "hashable _ = True"

definition truthy_values :: "json list \<Rightarrow> json list" where
  "truthy_values vs = filter truthy vs"

definition require_tag :: "json list \<Rightarrow> json \<Rightarrow> unit result" where
  "require_tag tags tag = (if \<not> truthy tag then Inr ()
     else if \<not> hashable tag then Inl (TypeError ''unhashable type'')
     else if tag \<notin> set tags then Inl (ValueError ''unresolved_outbound_tag'') else Inr ())"

definition rule_resolves :: "json list \<Rightarrow> json list \<Rightarrow> obj \<Rightarrow> unit result" where
  "rule_resolves tags balancer_tags rule =
     bindE (require_tag tags (jget rule ''outboundTag'')) (\<lambda>_.
       if truthy (jget rule ''balancerTag'') \<and> jget rule ''balancerTag'' \<notin> set balancer_tags
       then Inl (ValueError ''unresolved_balancer_tag'') else Inr ())"

fun some_selected :: "json list \<Rightarrow> json list \<Rightarrow> bool result" where
  "some_selected tags [] = Inr False"
| "some_selected tags (pre # ps) =
     (if tags = [] then some_selected tags ps
      else if list_ex (\<lambda>t. case (t, pre) of (JStr s, JStr p) \<Rightarrow> starts_with s p | _ \<Rightarrow> False) tags then Inr True
      else if jstr pre = None then Inl (TypeError ''startswith first arg must be str'')
      else if list_ex (\<lambda>t. jstr t = None) tags then Inl (AttributeError ''startswith'')
      else some_selected tags ps)"

definition balancer_resolves :: "json list \<Rightarrow> obj \<Rightarrow> unit result" where
  "balancer_resolves tags balancer =
     bindE (require_tag tags (jget balancer ''fallbackTag'')) (\<lambda>_.
     bindE (bindE (py_iter (dget_or balancer ''selector'' (JList []))) (some_selected tags)) (\<lambda>found.
       if found then Inr () else Inl (ValueError ''empty_balancer_selector'')))"

definition outbound_resolves :: "json list \<Rightarrow> obj \<Rightarrow> unit result" where
  "outbound_resolves tags outbound =
     bindE (obj_or_empty (jget outbound ''proxySettings'')) (\<lambda>ps.
     bindE (require_tag tags (jget ps ''tag'')) (\<lambda>_.
     bindE (obj_or_empty (jget outbound ''streamSettings'')) (\<lambda>stream.
     bindE (obj_or_empty (jget stream ''sockopt'')) (\<lambda>sockopt.
       require_tag tags (jget sockopt ''dialerProxy'')))))"

fun checkE :: "('a \<Rightarrow> unit result) \<Rightarrow> 'a list \<Rightarrow> unit result" where
  "checkE f [] = Inr ()"
| "checkE f (x # xs) = bindE (f x) (\<lambda>_. checkE f xs)"

definition validate_composed_tag_graph :: "obj \<Rightarrow> unit result" where
  "validate_composed_tag_graph config =
     bindE (bindE (py_iter (dget_or config ''outbounds'' (JList []))) (mapE as_obj)) (\<lambda>outbounds.
     let tags = truthy_values (map (\<lambda>d. jget d ''tag'') outbounds) in
     if list_ex (\<lambda>t. \<not> hashable t) tags then Inl (TypeError ''unhashable type'') else
     bindE (obj_or_empty (jget config ''routing'')) (\<lambda>routing.
     bindE (bindE (py_iter (dget_or routing ''balancers'' (JList []))) (mapE as_obj)) (\<lambda>balancers.
     let balancer_tags = map (\<lambda>b. jget b ''tag'') balancers in
     if list_ex (\<lambda>t. \<not> hashable t) balancer_tags then Inl (TypeError ''unhashable type'')
     else if \<not> distinct balancer_tags then Inl (ValueError ''duplicate_balancer_tag'') else
     bindE (bindE (rules_of routing) (mapE as_obj)) (\<lambda>rules.
     bindE (checkE (rule_resolves tags balancer_tags) rules) (\<lambda>_.
     bindE (checkE (balancer_resolves tags) balancers) (\<lambda>_.
       checkE (outbound_resolves tags) outbounds))))))"

lemma jget_Cons: "jget ((k, v) # d) k' = (if k' = k then v else jget d k')"
  by (simp add: jget_def dget_or_def)

lemma checkE_ok: "checkE f xs = Inr () \<longleftrightarrow> (\<forall>x \<in> set xs. f x = Inr ())"
  by (induction xs) (auto simp: bindE_Inr_iff)

lemma some_selected_true:
  assumes "t \<in> set tags" and "p \<in> set ps" and "starts_with t p"
  shows "some_selected (map JStr tags) (map JStr ps) = Inr True"
  using assms(2)
proof (induction ps)
  case (Cons q ps)
  have "\<not> list_ex (\<lambda>t. jstr t = None) (map JStr tags)" by (induction tags) auto
  moreover have "list_ex (\<lambda>t. case (t, JStr p) of (JStr s, JStr p) \<Rightarrow> starts_with s p | _ \<Rightarrow> False) (map JStr tags)"
    using assms(1,3) by (auto simp: list_ex_iff)
  ultimately show ?case using Cons assms(1) by auto
qed simp

text \<open>C21: A managed document passes the final check of its references whatever balancers the template names: it is enough
  that one participant is an outbound, that rules sent to an outbound directly name one that exists, and that the
  outbounds' own references do.\<close>

theorem managed_document_resolves:
  assumes applied: "apply_host_balancer config (Some bal) (Some ps) = Inr config'"
    and outbounds: "dget config ''outbounds'' = Some (JList (map JObj outs))"
    and tags: "truthy_values (map (\<lambda>d. jget d ''tag'') outs) = map JStr ts"
    and participant: "p \<in> set ps" "t \<in> set ts" "starts_with t p"
    and routing: "obj_or_empty (jget config ''routing'') = Inr routing"
    and rules: "bindE (rules_of routing) (mapE as_obj) = Inr rs"
    and direct: "\<And>r. r \<in> set rs \<Longrightarrow> managed_rule r = r \<Longrightarrow> require_tag (map JStr ts) (jget r ''outboundTag'') = Inr ()"
    and refs: "\<And>out. out \<in> set outs \<Longrightarrow> outbound_resolves (map JStr ts) out = Inr ()"
  shows "validate_composed_tag_graph config' = Inr ()"
proof -
  from applied [unfolded managed_document] routing rules obtain st sect
    where obs: "managed_observatory bal (map JStr ps) = Inr sect"
    and config': "config' = put_section sect (ddel ''burstObservatory'' (ddel ''observatory''
        (dput ''routing'' (JObj (managed_routing bal (Some ps) st rs routing)) config)))" by auto
  from obs managed_observatory_key have key: "\<forall>k v. sect = Some (k, v) \<longrightarrow> k = ''observatory'' \<or> k = ''burstObservatory''" by blast
  define mr where "mr = managed_routing bal (Some ps) st rs routing"
  have get: "dget config' k = dget (dput ''routing'' (JObj mr) config) k" if "k \<noteq> ''observatory''" "k \<noteq> ''burstObservatory''" for k
    unfolding config' mr_def using that key by (rule jget_put_section)
  then have "dget_or config' ''outbounds'' (JList []) = JList (map JObj outs)" and "jget config' ''routing'' = JObj mr"
    using outbounds by (simp_all add: dget_or_def jget_def)
  moreover have "\<exists>s. dget_or mr ''balancers'' (JList []) = JList [JObj [(''tag'', JStr HOST_BALANCER_TAG), (''selector'', JList (map JStr ps)), (''strategy'', s)]]"
    by (simp add: mr_def managed_routing_def)
  then obtain s where "dget_or mr ''balancers'' (JList []) = JList [JObj [(''tag'', JStr HOST_BALANCER_TAG), (''selector'', JList (map JStr ps)), (''strategy'', s)]]" ..
  moreover have "bindE (rules_of mr) (mapE as_obj) = Inr (managed_rules rs False)"
    unfolding mr_def by (rule managed_rules_of)
  moreover have "\<not> list_ex (\<lambda>t. \<not> hashable t) (map JStr ts)" by (induction ts) auto
  moreover have "checkE (rule_resolves (map JStr ts) [JStr HOST_BALANCER_TAG]) (managed_rules rs False) = Inr ()"
    unfolding checkE_ok
  proof
    fix r assume r: "r \<in> set (managed_rules rs False)"
    then have fixed: "managed_rule r = r" by (rule managed_rules_mem)
    have tag: "truthy (jget r ''balancerTag'') \<Longrightarrow> jget r ''balancerTag'' = JStr HOST_BALANCER_TAG \<and> jget r ''outboundTag'' = JNull"
      using managed_rule_gets [of r] by (metis fixed)
    have "require_tag (map JStr ts) (jget r ''outboundTag'') = Inr ()"
    proof (cases "truthy (jget r ''balancerTag'')")
      case True
      with tag show ?thesis by (simp add: require_tag_def)
    next
      case False
      then have "\<not> catch_all r" by (auto simp: catch_all_def HOST_BALANCER_TAG_def)
      with r have "r \<in> set (filter (\<lambda>r. \<not> catch_all r) (managed_rules rs False))" by simp
      then have "r \<in> set (filter (\<lambda>r. \<not> catch_all r) (map managed_rule rs))" by (simp only: managed_rules_others)
      then obtain r0 where r0: "r0 \<in> set rs" "r = managed_rule r0" by auto
      have "managed_rule r0 = r0"
      proof (rule ccontr)
        assume "managed_rule r0 \<noteq> r0"
        then have "truthy (jget r0 ''balancerTag'') \<or> jget r0 ''outboundTag'' = JStr PROXY_OUTBOUND_TAG"
          by (auto simp: managed_rule_def split: if_splits)
        then have "jget r ''balancerTag'' = JStr HOST_BALANCER_TAG" by (simp add: r0 managed_rule_gets)
        with False show False by (simp add: HOST_BALANCER_TAG_def)
      qed
      with direct r0 show ?thesis by simp
    qed
    then show "rule_resolves (map JStr ts) [JStr HOST_BALANCER_TAG] r = Inr ()" using tag by (auto simp: rule_resolves_def)
  qed
  moreover have "balancer_resolves (map JStr ts) [(''tag'', JStr HOST_BALANCER_TAG), (''selector'', JList (map JStr ps)), (''strategy'', s)] = Inr ()"
    using some_selected_true [OF participant(2,1,3)]
    by (simp add: balancer_resolves_def require_tag_def jget_def dget_or_def)
  moreover have "checkE (outbound_resolves (map JStr ts)) outs = Inr ()" using refs by (simp add: checkE_ok)
  ultimately show ?thesis
    by (simp add: validate_composed_tag_graph_def tags Let_def jget_Cons)
qed

lemma managed_document_resolves_witness:
  "\<exists>config'. apply_host_balancer [(''outbounds'', JList [JObj [(''tag'', JStr ''proxy'')], JObj [(''tag'', JStr ''direct'')]]),
       (''routing'', JObj [(''rules'', JList [JObj [(''outboundTag'', JStr ''direct'')], JObj [(''balancerTag'', JStr ''lost'')]])])]
       (Some [(''strategy'', JStr ''random'')]) (Some [''proxy'']) = Inr config' \<and> validate_composed_tag_graph config' = Inr ()"
proof -
  define cfg where "cfg = [(''outbounds'', JList [JObj [(''tag'', JStr ''proxy'')], JObj [(''tag'', JStr ''direct'')]]),
       (''routing'', JObj [(''rules'', JList [JObj [(''outboundTag'', JStr ''direct'')], JObj [(''balancerTag'', JStr ''lost'')]])])]"
  define rs where "rs = [[(''outboundTag'', JStr ''direct'')], [(''balancerTag'', JStr ''lost'')]]"
  have "\<exists>config'. apply_host_balancer cfg (Some [(''strategy'', JStr ''random'')]) (Some [''proxy'']) = Inr config'"
    by (simp add: cfg_def apply_host_balancer_def jget_def dget_or_def rules_of_def jindex_def managed_observatory_def Let_def)
  then obtain config' where applied: "apply_host_balancer cfg (Some [(''strategy'', JStr ''random'')]) (Some [''proxy'']) = Inr config'" ..
  have "validate_composed_tag_graph config' = Inr ()"
  proof (rule managed_document_resolves [OF applied, where outs = "[[(''tag'', JStr ''proxy'')], [(''tag'', JStr ''direct'')]]"
        and ts = "[''proxy'', ''direct'']" and p = "''proxy''" and t = "''proxy''" and rs = rs
        and routing = "[(''rules'', JList (map JObj rs))]"])
    show "require_tag (map JStr [''proxy'', ''direct'']) (jget r ''outboundTag'') = Inr ()" if "r \<in> set rs" for r
      using that by (auto simp: rs_def require_tag_def jget_Cons)
    show "outbound_resolves (map JStr [''proxy'', ''direct'']) out = Inr ()"
      if "out \<in> set [[(''tag'', JStr ''proxy'')], [(''tag'', JStr ''direct'')]]" for out
      using that by (auto simp: outbound_resolves_def require_tag_def jget_Cons)
  qed (simp_all add: cfg_def rs_def truthy_values_def jget_Cons starts_with_def rules_of_def dget_or_def)
  with applied show ?thesis unfolding cfg_def by blast
qed

section \<open>diagnose_injection\<close>

record diagnostic =
  di_code :: string
  di_error :: bool
  di_group :: "nat option"
  di_host :: "int option"
  di_path :: string

definition warning :: "string \<Rightarrow> nat option \<Rightarrow> int option \<Rightarrow> diagnostic" where
  "warning code grp host = \<lparr>di_code = code, di_error = False, di_group = grp, di_host = host, di_path = []\<rparr>"

definition problem :: "string \<Rightarrow> nat option \<Rightarrow> string \<Rightarrow> diagnostic" where
  "problem code grp path = \<lparr>di_code = code, di_error = True, di_group = grp, di_host = None, di_path = path\<rparr>"

record group_preview =
  gp_group :: nat
  gp_host_ids :: "int list"
  gp_pattern :: string

record preview =
  pv_active :: bool
  pv_groups :: "group_preview list"
  pv_issues :: "diagnostic list"

text \<open>Why an id of the selector selects nothing.\<close>

definition id_reason :: "injection_group \<Rightarrow> recipient \<Rightarrow> inj_host list \<Rightarrow> string list \<Rightarrow> int \<Rightarrow> string option" where
  "id_reason g r hosts active i =
     (if Some i = rc_id r then Some ''self_source''
      else case map_of (rev (map (\<lambda>h. (ih_id h, h)) hosts)) i of
          None \<Rightarrow> Some ''missing_source''
        | Some h \<Rightarrow>
            if ih_disabled h then Some ''disabled_source''
            else if ih_inbound h \<notin> set active then Some ''inactive_inbound''
            else if g_select_from g \<noteq> FromAll \<and> ih_hidden h \<noteq> (g_select_from g = FromHidden) then Some ''visibility_mismatch''
            else None)"

definition id_issues :: "injection_group \<Rightarrow> recipient \<Rightarrow> inj_host list \<Rightarrow> string list \<Rightarrow> nat \<Rightarrow> diagnostic list" where
  "id_issues g r hosts active index = (case g_selector g of
       IdSelector ids \<Rightarrow> List.map_filter (\<lambda>i. case id_reason g r hosts active i of None \<Rightarrow> None
         | Some reason \<Rightarrow> Some (warning reason (Some index) (Some i))) ids
     | _ \<Rightarrow> [])"

fun preview_sources :: "inj_env \<Rightarrow> (int option \<Rightarrow> obj inj) \<Rightarrow> nat \<Rightarrow> inj_host list \<Rightarrow> int list \<times> diagnostic list" where
  "preview_sources env template_for index [] = ([], [])"
| "preview_sources env template_for index (h # hs) =
     (let (ids, issues) = preview_sources env template_for index hs in
      case (case template_for (ih_config h) of Inl e \<Rightarrow> Inl e | Inr t \<Rightarrow> resolve_host_injection env (ih_injection h) t) of
        Inl e \<Rightarrow> (ids, warning ''invalid_source'' (Some index) (Some (ih_id h)) # issues)
      | Inr source \<Rightarrow>
          (case source of
             Some i \<Rightarrow> if inj_virtual i then (ih_id h # ids, issues)
                       else (ids, warning ''virtual_source'' (Some index) (Some (ih_id h)) # issues)
           | None \<Rightarrow> (ih_id h # ids, issues)))"

definition group_prologue :: "injection_group \<Rightarrow> recipient \<Rightarrow> inj_host list \<Rightarrow> string list \<Rightarrow> nat \<Rightarrow> string list \<Rightarrow> diagnostic list" where
  "group_prologue g r hosts active index seen =
     (case g_tag_prefix g of Some p \<Rightarrow> if p \<in> set seen then [problem ''duplicate_group_prefix'' (Some index) []] else [] | None \<Rightarrow> [])
     @ (if g_selector g = SameTagSelector \<and> ih_group_tag (rc_host r) = [] then [warning ''recipient_tag_missing'' (Some index) None] else [])
     @ id_issues g r hosts active index"

definition selector_pattern :: "selector \<Rightarrow> string" where
  "selector_pattern s = (case s of RegexSelector kind p \<Rightarrow> p | _ \<Rightarrow> [])"

fun diagnose_groups :: "inj_env \<Rightarrow> (int option \<Rightarrow> obj inj) \<Rightarrow> recipient \<Rightarrow> inj_host list \<Rightarrow> string list \<Rightarrow> rat \<Rightarrow>
    nat \<Rightarrow> nat \<Rightarrow> string list \<Rightarrow> injection_group list \<Rightarrow> group_preview list \<times> diagnostic list" where
  "diagnose_groups env template_for r hosts active deadline n index seen [] = ([], [])"
| "diagnose_groups env template_for r hosts active deadline n index seen (g # gs) =
     (let eligible = filter (\<lambda>h. ih_inbound h \<in> set active) hosts;
          before = group_prologue g r hosts active index seen;
          seen' = (case g_tag_prefix g of Some p \<Rightarrow> p # seen | None \<Rightarrow> seen);
          pattern = selector_pattern (g_selector g) in
      case select_injected_hosts env g r eligible deadline n of
        (Inl e, m) \<Rightarrow> ([\<lparr>gp_group = index, gp_host_ids = [], gp_pattern = pattern\<rparr>],
           before @ [problem (case e of InjectionError code \<Rightarrow> code | _ \<Rightarrow> []) (Some index) []])
      | (Inr selected, m) \<Rightarrow>
          (let (ids, issues) = preview_sources env template_for index selected;
               (groups, rest) = diagnose_groups env template_for r hosts active deadline m (Suc index) seen' gs in
           (\<lparr>gp_group = index, gp_host_ids = ids, gp_pattern = pattern\<rparr> # groups,
            before @ issues @ (if ids = [] then [warning ''empty_group'' (Some index) None] else []) @ rest)))"

definition diagnose_injection :: "inj_env \<Rightarrow> recipient \<Rightarrow> inj_host list \<Rightarrow> (int option \<Rightarrow> obj inj) \<Rightarrow> string list \<Rightarrow> nat \<Rightarrow> preview" where
  "diagnose_injection env r hosts template_for active n =
     (case (case template_for (ih_config (rc_host r)) of Inl e \<Rightarrow> Inl e
            | Inr t \<Rightarrow> resolve_host_injection env (ih_injection (rc_host r)) t) of
        Inl (ValidationError paths) \<Rightarrow> \<lparr>pv_active = False, pv_groups = [], pv_issues = map (problem ''invalid_directive'' None) paths\<rparr>
      | Inl (InjectionError code) \<Rightarrow> \<lparr>pv_active = False, pv_groups = [], pv_issues = [problem code None []]\<rparr>
      | Inl OtherValueError \<Rightarrow> \<lparr>pv_active = False, pv_groups = [], pv_issues = [problem ''invalid_template'' None []]\<rparr>
      | Inr None \<Rightarrow> \<lparr>pv_active = False, pv_groups = [], pv_issues = []\<rparr>
      | Inr (Some injection) \<Rightarrow>
          (let deadline = ie_clock env n + SELECTION_SECONDS;
               (groups, issues) = diagnose_groups env template_for r hosts active deadline (Suc n) 1 [] (inj_hosts injection) in
           \<lparr>pv_active = True, pv_groups = groups,
             pv_issues = (if ih_disabled (rc_host r) then [warning ''recipient_disabled'' None None] else [])
               @ (if ih_hidden (rc_host r) then [warning ''recipient_hidden'' None None] else [])
               @ issues
               @ (if \<not> inj_virtual injection \<and> (\<forall>p \<in> set groups. gp_host_ids p = []) then [problem ''empty_injection'' None []] else [])\<rparr>))"

section \<open>What the preview tells\<close>

lemma preview_sources_covers:
  assumes "preview_sources env template_for index hs = (ids, issues)" and "h \<in> set hs"
  shows "ih_id h \<in> set ids \<or> (\<exists>d \<in> set issues. di_group d = Some index \<and> di_host d = Some (ih_id h))"
  using assms
proof (induction hs arbitrary: ids issues)
  case (Cons x hs)
  obtain ids' issues' where rest: "preview_sources env template_for index hs = (ids', issues')" by force
  define src where "src = (case template_for (ih_config x) of Inl e \<Rightarrow> Inl e | Inr t \<Rightarrow> resolve_host_injection env (ih_injection x) t)"
  from Cons.prems(1) rest have out: "(case src of Inl e \<Rightarrow> (ids', warning ''invalid_source'' (Some index) (Some (ih_id x)) # issues')
      | Inr source \<Rightarrow> (case source of
             Some i \<Rightarrow> if inj_virtual i then (ih_id x # ids', issues')
                       else (ids', warning ''virtual_source'' (Some index) (Some (ih_id x)) # issues')
           | None \<Rightarrow> (ih_id x # ids', issues'))) = (ids, issues)"
    by (simp add: src_def)
  then have mono: "set ids' \<subseteq> set ids" "set issues' \<subseteq> set issues"
    by (auto split: sum.splits option.splits if_splits)
  have here: "ih_id x \<in> set ids \<or> (\<exists>d \<in> set issues. di_group d = Some index \<and> di_host d = Some (ih_id x))"
    using out by (auto simp: warning_def split: sum.splits option.splits if_splits)
  show ?case
  proof (cases "h = x")
    case False
    with Cons.prems(2) Cons.IH [OF rest] mono show ?thesis by auto
  qed (use here in simp)
qed simp

lemma diagnose_groups_covers:
  assumes "diagnose_groups env template_for r hosts active deadline n index seen gs = (groups, issues)"
    and "distinct (map ih_id hosts)" and "j < length groups" and "j < length gs" and "g_selector (gs ! j) = IdSelector ids" and "i \<in> set ids"
    and "\<forall>d \<in> set issues. di_error d \<longrightarrow> di_code d = ''duplicate_group_prefix''"
  shows "i \<in> set (gp_host_ids (groups ! j)) \<or> (\<exists>d \<in> set issues. di_group d = Some (index + j) \<and> di_host d = Some i)"
  using assms
proof (induction gs arbitrary: n index seen groups issues j)
  case (Cons g gs)
  define eligible where "eligible = filter (\<lambda>h. ih_inbound h \<in> set active) hosts"
  define before where "before = group_prologue g r hosts active index seen"
  obtain res m where sel: "select_injected_hosts env g r eligible deadline n = (res, m)" by force
  have uniq: "map_of (rev (map (\<lambda>h. (ih_id h, h)) hs)) i = Some h \<longleftrightarrow> h \<in> set hs \<and> ih_id h = i"
    if "distinct (map ih_id hs)" for hs h
    using that by (subst map_of_eq_Some_iff) (auto simp: rev_map [symmetric] comp_def)
  show ?case
  proof (cases res)
    case (Inl e)
    with Cons.prems(1) sel have g: "groups = [\<lparr>gp_group = index, gp_host_ids = [], gp_pattern = selector_pattern (g_selector g)\<rparr>]"
      and bad: "problem (case e of InjectionError code \<Rightarrow> code | _ \<Rightarrow> []) (Some index) [] \<in> set issues"
      by (auto simp: eligible_def before_def Let_def)
    have "(case e of InjectionError code \<Rightarrow> code | _ \<Rightarrow> []) = ''duplicate_group_prefix''"
      using bspec [OF Cons.prems(7) bad] by (simp add: problem_def)
    moreover from Cons.prems(3) g have "j = 0" by simp
    with Cons.prems(5) have "g_selector g = IdSelector ids" by simp
    with sel Inl have "e = InjectionError ''selector_timeout''"
      by (auto simp: select_injected_hosts_def Let_def split: if_splits)
    ultimately show ?thesis by simp
  next
    case (Inr selected)
    obtain pids pissues where ps: "preview_sources env template_for index selected = (pids, pissues)" by force
    obtain gsr rest where tl: "diagnose_groups env template_for r hosts active deadline m (Suc index)
        (case g_tag_prefix g of Some p \<Rightarrow> p # seen | None \<Rightarrow> seen) gs = (gsr, rest)" by force
    from Cons.prems(1) sel Inr ps tl have groups: "groups = \<lparr>gp_group = index, gp_host_ids = pids, gp_pattern = selector_pattern (g_selector g)\<rparr> # gsr"
      and issues: "issues = before @ pissues @ (if pids = [] then [warning ''empty_group'' (Some index) None] else []) @ rest"
      by (auto simp: eligible_def before_def Let_def)
    have sub: "set before \<subseteq> set issues" "set pissues \<subseteq> set issues" "set rest \<subseteq> set issues" unfolding issues by auto
    show ?thesis
    proof (cases j)
      case (Suc k)
      have "i \<in> set (gp_host_ids (gsr ! k)) \<or> (\<exists>d \<in> set rest. di_group d = Some (Suc index + k) \<and> di_host d = Some i)"
      proof (rule Cons.IH [OF tl Cons.prems(2) _ _ _ Cons.prems(6)])
        show "k < length gsr" using Cons.prems(3) Suc groups by simp
        show "k < length gs" using Cons.prems(4) Suc by simp
        show "g_selector (gs ! k) = IdSelector ids" using Cons.prems(5) Suc by simp
        show "\<forall>d \<in> set rest. di_error d \<longrightarrow> di_code d = ''duplicate_group_prefix''" using Cons.prems(7) sub by blast
      qed
      moreover have "groups ! j = gsr ! k" using Suc groups by simp
      moreover have "Suc index + k = index + j" using Suc by simp
      ultimately show ?thesis using sub by auto
    next
      case 0
      with Cons.prems(5) have g: "g_selector g = IdSelector ids" by simp
      show ?thesis
      proof (cases "id_reason g r hosts active i")
        case (Some reason)
        have "i \<in> set ids" by (rule Cons.prems(6))
        with Some g have "warning reason (Some index) (Some i) \<in> set (id_issues g r hosts active index)"
          by (auto simp: id_issues_def set_map_filter intro!: bexI [of _ i])
        then have "warning reason (Some index) (Some i) \<in> set issues"
          using sub(1) by (auto simp: before_def group_prologue_def)
        then show ?thesis using 0 by (auto simp: warning_def intro!: bexI [of _ "warning reason (Some index) (Some i)"])
      next
        case None
        then obtain h where h: "map_of (rev (map (\<lambda>h. (ih_id h, h)) hosts)) i = Some h" and ok: "Some i \<noteq> rc_id r" "\<not> ih_disabled h"
          "ih_inbound h \<in> set active" "g_select_from g = FromAll \<or> ih_hidden h = (g_select_from g = FromHidden)"
          by (auto simp: id_reason_def split: if_splits option.splits)
        from h uniq [OF Cons.prems(2)] have mem: "h \<in> set hosts" "ih_id h = i" by auto
        define cands where "cands = filter (selectable g r) eligible"
        have "h \<in> set cands"
          using mem ok by (cases "g_select_from g") (auto simp: cands_def eligible_def selectable_def)
        moreover have "distinct (map ih_id cands)"
          using Cons.prems(2) by (simp add: cands_def eligible_def distinct_map_filter)
        ultimately have "map_of (rev (map (\<lambda>h. (ih_id h, h)) cands)) i = Some h" using uniq mem by blast
        with sel Inr g Cons.prems(6) have "h \<in> set selected"
          by (auto simp: select_injected_hosts_def Let_def cands_def set_map_filter split: if_splits)
        from preview_sources_covers [OF ps this] mem
        have "i \<in> set pids \<or> (\<exists>d \<in> set pissues. di_group d = Some index \<and> di_host d = Some i)" by simp
        moreover have "gp_host_ids (groups ! j) = pids" using 0 groups by simp
        ultimately show ?thesis using 0 sub(2) by auto
      qed
    qed
  qed
qed simp

text \<open>C22: The preview of a composition never drops a host silently: unless it reports an error, every id that the form lists
  in a group either appears among the sources of that group or in a warning that names the group and the host.\<close>

theorem preview_accounts_for_every_id:
  assumes "diagnose_injection env r hosts template_for active n = pv" and "pv_active pv"
    and "template_for (ih_config (rc_host r)) = Inr t" and "resolve_host_injection env (ih_injection (rc_host r)) t = Inr (Some injection)"
    and "distinct (map ih_id hosts)" and "\<forall>d \<in> set (pv_issues pv). \<not> di_error d"
    and "j < length (pv_groups pv)" and "j < length (inj_hosts injection)"
    and "g_selector (inj_hosts injection ! j) = IdSelector ids" and "i \<in> set ids"
  shows "i \<in> set (gp_host_ids (pv_groups pv ! j)) \<or> (\<exists>d \<in> set (pv_issues pv). di_group d = Some (Suc j) \<and> di_host d = Some i)"
proof -
  obtain groups issues where dg: "diagnose_groups env template_for r hosts active (ie_clock env n + SELECTION_SECONDS) (Suc n) 1 []
      (inj_hosts injection) = (groups, issues)" by force
  with assms(1,3,4) have "pv_groups pv = groups" and sub: "set issues \<subseteq> set (pv_issues pv)"
    by (auto simp: diagnose_injection_def Let_def)
  with diagnose_groups_covers [OF dg assms(5), of j ids i] assms(6-10) show ?thesis by auto
qed

definition sample_env :: inj_env where
  "sample_env = \<lparr>ie_regex_ok = (\<lambda>p. True), ie_paths = (\<lambda>v. []), ie_search = (\<lambda>p s t. Some (contains p s)), ie_clock = (\<lambda>n. 0)\<rparr>"

definition sample_group :: injection_group where
  "sample_group = \<lparr>g_selector = IdSelector [2, 9], g_select_from = FromAll, g_tag_prefix = Some ''de'', g_remark_as_tag = False,
     g_tag_as_tag = False\<rparr>"

definition sample_injection :: host_injection where
  "sample_injection = \<lparr>inj_enabled = True, inj_hosts = [sample_group], inj_virtual = False\<rparr>"

definition sample_host :: "int \<Rightarrow> inj_host" where
  "sample_host i = \<lparr>ih_id = i, ih_remark = ''DE'', ih_group_tag = [], ih_disabled = False, ih_hidden = False, ih_order = None,
     ih_inbound = ''in'', ih_config = None, ih_injection = None, ih_is_bs = False\<rparr>"

lemma sample_injection_valid: "injection_valid (ie_regex_ok sample_env) sample_injection"
  by (simp add: injection_valid_def sample_injection_def sample_group_def group_valid_def selector_valid_def tagging_mode_def
      meaningful_source_def strip_def lstrip_def is_space_def Let_def)

lemma sample_plain: "resolve_host_injection sample_env None [] = Inr None"
  by (simp add: resolve_host_injection_def template_injection_def)

lemma sample_resolved: "resolve_host_injection sample_env (Some (dump_injection sample_injection)) [] = Inr (Some sample_injection)"
  by (simp add: resolve_host_injection_def template_injection_def validated_def injection_of_dump [OF sample_injection_valid])
    (simp add: sample_injection_def)

lemma preview_accounts_for_every_id_witness:
  "\<exists>pv. diagnose_injection sample_env \<lparr>rc_id = Some 1, rc_host = (sample_host 1)\<lparr>ih_injection := Some (dump_injection sample_injection)\<rparr>\<rparr>
      [sample_host 2] (\<lambda>c. Inr []) [''in''] 0 = pv
    \<and> (9 \<in> set (gp_host_ids (pv_groups pv ! 0)) \<or> (\<exists>d \<in> set (pv_issues pv). di_group d = Some (Suc 0) \<and> di_host d = Some 9))"
proof -
  define r where "r = \<lparr>rc_id = Some 1, rc_host = (sample_host 1)\<lparr>ih_injection := Some (dump_injection sample_injection)\<rparr>\<rparr>"
  have resolved: "resolve_host_injection sample_env (ih_injection (rc_host r)) [] = Inr (Some sample_injection)"
    by (simp add: r_def sample_resolved)
  define pv where "pv = diagnose_injection sample_env r [sample_host 2] (\<lambda>c. Inr []) [''in''] 0"
  have sel: "select_injected_hosts sample_env sample_group r [sample_host 2] SELECTION_SECONDS (Suc 0) = (Inr [sample_host 2], 2)"
    by (simp add: select_injected_hosts_def sample_env_def SELECTION_SECONDS_def sample_group_def selectable_def r_def sample_host_def
        List.map_filter_simps)
  have "id_issues sample_group r [sample_host 2] [''in''] 1 = [warning ''missing_source'' (Some 1) (Some 9)]"
    by (simp add: id_issues_def sample_group_def id_reason_def r_def sample_host_def List.map_filter_simps)
  then have pro: "group_prologue sample_group r [sample_host 2] [''in''] 1 [] = [warning ''missing_source'' (Some 1) (Some 9)]"
    by (simp add: group_prologue_def) (simp add: sample_group_def)
  have "preview_sources sample_env (\<lambda>c. Inr []) 1 [sample_host 2] = ([2], [])"
    by (simp add: sample_host_def sample_plain)
  with sel pro have "diagnose_groups sample_env (\<lambda>c. Inr []) r [sample_host 2] [''in''] SELECTION_SECONDS (Suc 0) 1 [] [sample_group]
    = ([\<lparr>gp_group = 1, gp_host_ids = [2], gp_pattern = []\<rparr>], [warning ''missing_source'' (Some 1) (Some 9)])"
    by (simp add: sample_host_def) (simp add: sample_group_def selector_pattern_def)
  with resolved have pv: "pv = \<lparr>pv_active = True, pv_groups = [\<lparr>gp_group = 1, gp_host_ids = [2], gp_pattern = []\<rparr>],
      pv_issues = [warning ''missing_source'' (Some 1) (Some 9)]\<rparr>"
    by (simp add: pv_def diagnose_injection_def Let_def sample_injection_def sample_env_def)
      (simp add: r_def sample_host_def)
  have "9 \<in> set (gp_host_ids (pv_groups pv ! 0)) \<or> (\<exists>d \<in> set (pv_issues pv). di_group d = Some (Suc 0) \<and> di_host d = Some 9)"
  proof (rule preview_accounts_for_every_id [OF pv_def [symmetric] _ _ resolved])
    show "pv_active pv" "0 < length (pv_groups pv)" "\<forall>d \<in> set (pv_issues pv). \<not> di_error d" by (simp_all add: pv warning_def)
    show "g_selector (inj_hosts sample_injection ! 0) = IdSelector [2, 9]" "0 < length (inj_hosts sample_injection)"
      by (simp_all add: sample_injection_def sample_group_def)
  qed simp_all
  then show ?thesis unfolding pv_def r_def by blast
qed

definition sample_recipient :: recipient where
  "sample_recipient = \<lparr>rc_id = Some 1, rc_host = sample_host 1\<rparr>"

lemma selection_is_admissible_witness:
  "subseq (map ih_id [sample_host 2]) [2, 9] \<and> selectable sample_group sample_recipient (sample_host 2)"
proof -
  have "select_injected_hosts sample_env sample_group sample_recipient [sample_host 1, sample_host 2] SELECTION_SECONDS 0
      = (Inr [sample_host 2], 1)"
    by (simp add: select_injected_hosts_def sample_env_def SELECTION_SECONDS_def sample_group_def selectable_def sample_recipient_def
        sample_host_def List.map_filter_simps)
  from selection_is_admissible [OF this]
  have "selectable sample_group sample_recipient (sample_host 2)" and "case g_selector sample_group of
      IdSelector ids \<Rightarrow> subseq (map ih_id [sample_host 2]) ids | _ \<Rightarrow> True" by (auto split: selector.splits)
  then show ?thesis by (simp add: sample_group_def)
qed

end
