(* ===== verification/V2rayJson.thy ===== *)
theory V2rayJson
  imports HostInjection
begin

text \<open>
  The JSON documents of app/subscription/v2ray.py (\<open>V2rayJsonConfig\<close>), app/subscription/funcs.py and
  app/xray/client_configs.py: how one server of a subscription becomes a client document. The settings
  template, the user agents and the mux template are loaded once and are fields of \<open>json_env\<close>; the draws of
  \<open>random.choice\<close> for one outbound are a \<open>draw\<close>: an index for every length of list.

  One dictionary is shared: for the network \<open>http\<close> the code does not copy \<open>settings["httpSettings"]\<close>, so all
  outbounds of that network hold the same object, which every later one overwrites and which is printed at
  the end. The model keeps that dictionary in the state and \<open>shared_ref\<close> in its place.
\<close>

section \<open>Choosing the document\<close>

definition select_config :: "(int \<times> obj) list \<Rightarrow> int option \<Rightarrow> int option \<Rightarrow> obj option" where
  "select_config configs default_id config_id =
     (case (case config_id of None \<Rightarrow> None | Some i \<Rightarrow> dget configs i) of
        Some body \<Rightarrow> Some body
      | None \<Rightarrow> (case default_id of None \<Rightarrow> None | Some i \<Rightarrow> dget configs i))"

text \<open>\<open>make_template_lookup\<close>; the file template is its parse: an error, nothing, or a document.\<close>

definition template_lookup :: "(int \<times> obj) list \<Rightarrow> int option \<Rightarrow> obj option result \<Rightarrow> int option \<Rightarrow> obj" where
  "template_lookup configs default_id fallback config_id =
     (case select_config configs default_id config_id of
        Some body \<Rightarrow> body
      | None \<Rightarrow> (case fallback of Inl e \<Rightarrow> [(''npvpn'', JNull)] | Inr None \<Rightarrow> [] | Inr (Some d) \<Rightarrow> d))"

section \<open>Strings\<close>

text \<open>\<open>path.rsplit("/", 1)\<close> of a path that contains a slash.\<close>

definition rsplit_slash :: "string \<Rightarrow> string \<times> string" where
  "rsplit_slash path = (rev (tl (dropWhile (\<lambda>c. c \<noteq> CHR ''/'') (rev path))), rev (takeWhile (\<lambda>c. c \<noteq> CHR ''/'') (rev path)))"

definition get_grpc_gun :: "string \<Rightarrow> string" where
  "get_grpc_gun path =
     (if \<not> starts_with path ''/'' then path
      else let (servicename, name) = rsplit_slash path; streamname = hd (split_on (CHR ''|'') name) in
        if streamname = ''Tun'' then drop 1 servicename else servicename @ ''/'' @ streamname)"

definition get_grpc_multi :: "string \<Rightarrow> string result" where
  "get_grpc_multi path =
     (if \<not> starts_with path ''/'' then Inr path
      else let (servicename, name) = rsplit_slash path in
        case split_on (CHR ''|'') name of
          a # b # _ \<Rightarrow> Inr (servicename @ ''/'' @ b)
        | _ \<Rightarrow> Inl (IndexError ''list index out of range''))"

definition make_fragment :: "string \<Rightarrow> obj result" where
  "make_fragment fragment = (case split_on (CHR '','') fragment of
       [len, interval, packets] \<Rightarrow> Inr [(''packets'', JStr packets), (''length'', JStr len), (''interval'', JStr interval)]
     | _ \<Rightarrow> Inl (ValueError ''unpack''))"

text \<open>One noise; a string that does not unpack is passed over.\<close>

definition make_noise :: "string \<Rightarrow> json option" where
  "make_noise n = (case split_on (CHR '','') n of
       [tp, delay] \<Rightarrow> (case split_on (CHR '':'') tp of
           [kind, packet] \<Rightarrow> Some (JObj [(''type'', JStr kind), (''packet'', JStr packet), (''delay'', JStr delay)])
         | _ \<Rightarrow> None)
     | _ \<Rightarrow> None)"

definition make_noises :: "string \<Rightarrow> json list" where
  "make_noises noises = List.map_filter make_noise (split_on (CHR ''&'') noises)"

definition make_dialer_outbound :: "string \<Rightarrow> string \<Rightarrow> obj option result" where
  "make_dialer_outbound fragment noises =
     bindE (if fragment \<noteq> [] then bindE (make_fragment fragment) (\<lambda>f. Inr [(''fragment'', JObj f)]) else Inr []) (\<lambda>d1.
       let d2 = d1 @ (if noises \<noteq> [] then [(''noises'', JList (make_noises noises))] else []) in
       Inr (if d2 \<noteq> [] then Some [(''tag'', JStr ''dialer''), (''protocol'', JStr ''freedom''), (''settings'', JObj d2)] else None))"

section \<open>Transports\<close>

record json_env =
  je_settings :: obj
  je_user_agents :: "json list"
  je_grpc_agents :: "json list"
  je_mux :: "obj result"
  je_url_ok :: "string \<Rightarrow> bool"

record draw =
  dr_port :: "nat \<Rightarrow> nat"
  dr_agent :: "nat \<Rightarrow> nat"

definition choice :: "(nat \<Rightarrow> nat) \<Rightarrow> 'a list \<Rightarrow> 'a result" where
  "choice pick xs = (if xs = [] then Inl (IndexError ''Cannot choose from an empty sequence'')
     else Inr (xs ! (pick (length xs) mod length xs)))"

fun item_obj :: "json \<Rightarrow> obj result" where
  "item_obj (JObj d) = Inr d"
| "item_obj _ = Inl (TypeError ''not a dictionary'')"

definition put_if :: "json \<Rightarrow> string \<Rightarrow> json \<Rightarrow> obj \<Rightarrow> obj" where
  "put_if condition k v d = (if truthy condition then dput k v d else d)"

text \<open>\<open>d[k1][k2] = v\<close>\<close>

definition put_in :: "string \<Rightarrow> string \<Rightarrow> json \<Rightarrow> obj \<Rightarrow> obj result" where
  "put_in k1 k2 v d = bindE (bindE (jindex d k1) item_obj) (\<lambda>inner. Inr (dput k1 (JObj (dput k2 v inner)) d))"

definition put_agent :: "json \<Rightarrow> json list \<Rightarrow> (nat \<Rightarrow> nat) \<Rightarrow> obj \<Rightarrow> obj result" where
  "put_agent wanted agents pick d =
     (if truthy wanted then bindE (choice pick agents) (\<lambda>a. put_in ''headers'' ''User-Agent'' a d) else Inr d)"

record stream_args =
  sa_net :: string
  sa_path :: json
  sa_host :: json
  sa_tls :: string
  sa_sni :: json
  sa_fp :: json
  sa_alpn :: "json list option"
  sa_pbk :: json
  sa_sid :: json
  sa_spx :: json
  sa_headers :: json
  sa_ais :: json
  sa_dialer :: string
  sa_multi :: json
  sa_rua :: json
  sa_mode :: json
  sa_heartbeat :: json
  sa_xhttp_extra :: json

definition ws_config :: "json_env \<Rightarrow> draw \<Rightarrow> stream_args \<Rightarrow> obj result" where
  "ws_config env dr a =
     bindE (item_obj (dget_or (je_settings env) ''wsSettings'' (JObj []))) (\<lambda>d.
     bindE (put_agent (sa_rua a) (je_user_agents env) (dr_agent dr)
       (put_if (sa_host a) ''host'' (sa_host a) (put_if (sa_path a) ''path'' (sa_path a) (dsetdefault ''headers'' (JObj []) d)))) (\<lambda>d'.
       Inr (put_if (sa_heartbeat a) ''heartbeatPeriod'' (sa_heartbeat a) d')))"

definition httpupgrade_config :: "json_env \<Rightarrow> draw \<Rightarrow> stream_args \<Rightarrow> obj result" where
  "httpupgrade_config env dr a =
     bindE (item_obj (dget_or (je_settings env) ''httpupgradeSettings'' (JObj []))) (\<lambda>d.
       put_agent (sa_rua a) (je_user_agents env) (dr_agent dr)
         (put_if (sa_host a) ''host'' (sa_host a) (put_if (sa_path a) ''path'' (sa_path a) (dsetdefault ''headers'' (JObj []) d))))"

definition splithttp_config :: "json_env \<Rightarrow> draw \<Rightarrow> stream_args \<Rightarrow> obj result" where
  "splithttp_config env dr a =
     bindE (item_obj (dget_or (je_settings env) ''splithttpSettings'' (JObj []))) (\<lambda>d.
     bindE (put_agent (sa_rua a) (je_user_agents env) (dr_agent dr)
       (put_if (sa_host a) ''host'' (sa_host a) (put_if (sa_path a) ''path'' (sa_path a) (dput ''mode'' (sa_mode a) d)))) (\<lambda>d'.
       Inr (put_if (sa_xhttp_extra a) ''extra'' (sa_xhttp_extra a) d')))"

definition grpc_config :: "json_env \<Rightarrow> draw \<Rightarrow> stream_args \<Rightarrow> obj result" where
  "grpc_config env dr a =
     bindE (item_obj (dget_or (je_settings env) ''grpcSettings'' (JObj [(''idle_timeout'', JInt 60), (''health_check_timeout'', JInt 20),
         (''permit_without_stream'', JBool False), (''initial_windows_size'', JInt 35538)]))) (\<lambda>d.
       let d' = put_if (sa_host a) ''authority'' (sa_host a) (put_if (sa_path a) ''serviceName'' (sa_path a) (dput ''multiMode'' (sa_multi a) d)) in
       if truthy (sa_rua a) then bindE (choice (dr_agent dr) (je_grpc_agents env)) (\<lambda>u. Inr (dput ''user_agent'' u d')) else Inr d')"

definition default_tcphttp :: json where
  "default_tcphttp = JObj [(''header'', JObj [(''request'', JObj [(''headers'', JObj
     [(''Accept-Encoding'', JList [JStr ''gzip'', JStr ''deflate'']), (''Connection'', JList [JStr ''keep-alive'']), (''Pragma'', JStr ''no-cache'')]),
     (''method'', JStr ''GET''), (''version'', JStr ''1.1'')])])]"

text \<open>The request of a TCP header: created when something has to be written into it.\<close>

definition tcp_request :: "json_env \<Rightarrow> draw \<Rightarrow> stream_args \<Rightarrow> obj \<Rightarrow> obj result" where
  "tcp_request env dr a header =
     (if \<not> (truthy (sa_path a) \<or> truthy (sa_host a) \<or> truthy (sa_rua a)) then Inr header
      else bindE (item_obj (dget_or header ''request'' (JObj []))) (\<lambda>request.
        let req1 = (if truthy (sa_rua a) \<or> truthy (sa_host a) then dsetdefault ''headers'' (JObj []) request else request);
            req2 = put_if (sa_path a) ''path'' (JList [sa_path a]) req1 in
        bindE (if truthy (sa_host a) then put_in ''headers'' ''Host'' (JList [sa_host a]) req2 else Inr req2) (\<lambda>req3.
        bindE (if truthy (sa_rua a) then bindE (choice (dr_agent dr) (je_user_agents env)) (\<lambda>u.
                 put_in ''headers'' ''User-Agent'' (JList [u]) req3) else Inr req3) (\<lambda>req4.
          Inr (dput ''request'' (JObj req4) header)))))"

definition tcp_config :: "json_env \<Rightarrow> draw \<Rightarrow> stream_args \<Rightarrow> obj result" where
  "tcp_config env dr a =
     bindE (item_obj (if sa_headers a = JStr ''http'' then dget_or (je_settings env) ''tcphttpSettings'' default_tcphttp
       else dget_or (je_settings env) ''tcpSettings'' (dget_or (je_settings env) ''rawSettings''
              (JObj [(''header'', JObj [(''type'', JStr ''none'')])])))) (\<lambda>config.
     bindE (item_obj (dget_or config ''header'' (JObj []))) (\<lambda>header.
     bindE (tcp_request env dr a (put_if (sa_headers a) ''type'' (sa_headers a) header)) (\<lambda>header'.
       Inr (dput ''header'' (JObj header') config))))"

definition quic_config :: "json_env \<Rightarrow> stream_args \<Rightarrow> obj result" where
  "quic_config env a =
     bindE (item_obj (dget_or (je_settings env) ''quicSettings'' (JObj [(''security'', JStr ''none''),
         (''header'', JObj [(''type'', JStr ''none'')]), (''key'', JStr [])]))) (\<lambda>d.
       let d' = put_if (sa_host a) ''security'' (sa_host a) (put_if (sa_path a) ''key'' (sa_path a)
                  (dsetdefault ''header'' (JObj [(''type'', JStr ''none'')]) d)) in
       if truthy (sa_headers a) then put_in ''header'' ''type'' (sa_headers a) d' else Inr d')"

definition default_kcp :: json where
  "default_kcp = JObj [(''header'', JObj [(''type'', JStr ''none'')]), (''mtu'', JInt 1350), (''tti'', JInt 50),
     (''uplinkCapacity'', JInt 12), (''downlinkCapacity'', JInt 100), (''congestion'', JBool False), (''readBufferSize'', JInt 2),
     (''writeBufferSize'', JInt 2)]"

definition kcp_config :: "json_env \<Rightarrow> stream_args \<Rightarrow> obj result" where
  "kcp_config env a =
     bindE (item_obj (dget_or (je_settings env) ''kcpSettings'' default_kcp)) (\<lambda>d.
       let d1 = put_if (sa_path a) ''seed'' (sa_path a) (dsetdefault ''header'' (JObj [(''type'', JStr ''none'')]) d) in
       bindE (if truthy (sa_headers a) then put_in ''header'' ''type'' (sa_headers a) d1 else Inr d1) (\<lambda>d2.
         if truthy (sa_host a) then put_in ''header'' ''domain'' (sa_host a) d2 else Inr d2))"

text \<open>The state of \<open>http\<close>: \<open>settings["httpSettings"]\<close>, absent when the template has none.\<close>

definition shared_ref :: json where
  "shared_ref = JObj [(''<settings.httpSettings>'', JNull)]"

definition http_update :: "json_env \<Rightarrow> draw \<Rightarrow> stream_args \<Rightarrow> obj \<Rightarrow> obj result" where
  "http_update env dr a d =
     (let d1 = dput ''host'' (if truthy (sa_host a) then JList [sa_host a] else JList [])
                 (dput ''path'' (sa_path a) (dsetdefault ''header'' (JObj []) d)) in
      if truthy (sa_rua a) then bindE (choice (dr_agent dr) (je_user_agents env)) (\<lambda>u. put_in ''headers'' ''User-Agent'' (JList [u]) d1)
      else Inr d1)"

definition http_config :: "json_env \<Rightarrow> draw \<Rightarrow> stream_args \<Rightarrow> json option \<Rightarrow> (json \<times> json option) result" where
  "http_config env dr a shared =
     (if sa_net a = ''h2'' \<or> sa_net a = ''h3'' then
        bindE (item_obj (dget_or (je_settings env) (sa_net a @ ''Settings'') (JObj [(''header'', JObj [])]))) (\<lambda>d.
        bindE (http_update env dr a d) (\<lambda>d'. Inr (JObj d', shared)))
      else case shared of
          None \<Rightarrow> bindE (http_update env dr a [(''header'', JObj [])]) (\<lambda>d'. Inr (JObj d', None))
        | Some v \<Rightarrow> bindE (item_obj v) (\<lambda>d. bindE (http_update env dr a d) (\<lambda>d'. Inr (shared_ref, Some (JObj d')))))"

section \<open>Stream settings\<close>

definition tls_config :: "stream_args \<Rightarrow> obj" where
  "tls_config a =
     (let d1 = (if sa_sni a = JNull then [] else [(''serverName'', sa_sni a)]);
          d2 = put_if (sa_fp a) ''fingerprint'' (sa_fp a) (dput ''allowInsecure'' (if truthy (sa_ais a) then sa_ais a else JBool False) d1);
          d3 = (case sa_alpn a of None \<Rightarrow> d2 | Some xs \<Rightarrow> put_if (JList xs) ''alpn'' (JList xs) d2)
      in dput ''show'' (JBool False) d3)"

definition reality_config :: "stream_args \<Rightarrow> obj" where
  "reality_config a =
     (let d1 = (if sa_sni a = JNull then [] else [(''serverName'', sa_sni a)]);
          d2 = dput ''show'' (JBool False) (put_if (sa_fp a) ''fingerprint'' (sa_fp a) d1)
      in put_if (sa_spx a) ''spiderX'' (sa_spx a) (put_if (sa_sid a) ''shortId'' (sa_sid a) (put_if (sa_pbk a) ''publicKey'' (sa_pbk a) d2)))"

definition stream_setting_config :: "string \<Rightarrow> string \<Rightarrow> json \<Rightarrow> json \<Rightarrow> obj option \<Rightarrow> obj" where
  "stream_setting_config network security network_setting tls_settings sockopt =
     (let d1 = [(''network'', JStr network)];
          d2 = (if security \<noteq> [] \<and> security \<noteq> ''none''
                then dput (security @ ''Settings'') tls_settings (dput ''security'' (JStr security) d1) else d1);
          d3 = (if network \<noteq> [] \<and> truthy network_setting then dput (network @ ''Settings'') network_setting d2 else d2)
      in (case sockopt of None \<Rightarrow> d3 | Some o' \<Rightarrow> dput ''sockopt'' (JObj o') d3))"

text \<open>The transport of an outbound, and \<open>settings["httpSettings"]\<close> afterwards.\<close>

definition network_setting :: "json_env \<Rightarrow> draw \<Rightarrow> stream_args \<Rightarrow> json option \<Rightarrow> (json \<times> json option) result" where
  "network_setting env dr a shared =
     (let own = (\<lambda>r. bindE r (\<lambda>d. Inr (JObj d, shared))); net = sa_net a in
      if net = ''ws'' then own (ws_config env dr a)
      else if net = ''grpc'' then own (grpc_config env dr a)
      else if net = ''h3'' \<or> net = ''h2'' \<or> net = ''http'' then http_config env dr a shared
      else if net = ''kcp'' then own (kcp_config env a)
      else if (net = ''tcp'' \<or> net = ''raw'') \<and> sa_tls a \<noteq> ''reality'' then own (tcp_config env dr a)
      else if net = ''quic'' then own (quic_config env a)
      else if net = ''httpupgrade'' then own (httpupgrade_config env dr a)
      else if net = ''splithttp'' \<or> net = ''xhttp'' then own (splithttp_config env dr a)
      else Inr (JObj [], shared))"

definition make_stream_setting :: "json_env \<Rightarrow> draw \<Rightarrow> stream_args \<Rightarrow> json option \<Rightarrow> (obj \<times> json option) result" where
  "make_stream_setting env dr a shared =
     bindE (network_setting env dr a shared) (\<lambda>(ns, shared').
       Inr (stream_setting_config (sa_net a) (sa_tls a) ns
              (if sa_tls a = ''tls'' then JObj (tls_config a) else if sa_tls a = ''reality'' then JObj (reality_config a) else JNull)
              (if sa_dialer a \<noteq> [] then Some [(''dialerProxy'', JStr (sa_dialer a))] else None), shared'))"

section \<open>Outbounds\<close>

definition MARZBAN_EMAIL :: json where
  "MARZBAN_EMAIL = JStr ''https://gozargah.github.io/marzban/''"

definition vmess_config :: "json \<Rightarrow> json \<Rightarrow> json \<Rightarrow> obj" where
  "vmess_config address port uid = [(''vnext'', JList [JObj [(''address'', address), (''port'', port),
     (''users'', JList [JObj [(''id'', uid), (''alterId'', JInt 0), (''email'', MARZBAN_EMAIL), (''security'', JStr ''auto'')]])]])]"

definition vless_config :: "json \<Rightarrow> json \<Rightarrow> json \<Rightarrow> json \<Rightarrow> obj" where
  "vless_config address port uid flow = [(''vnext'', JList [JObj [(''address'', address), (''port'', port),
     (''users'', JList [JObj [(''id'', uid), (''security'', JStr ''auto''), (''encryption'', JStr ''none''), (''email'', MARZBAN_EMAIL),
       (''alterId'', JInt 0), (''flow'', flow)]])]])]"

definition trojan_config :: "json \<Rightarrow> json \<Rightarrow> json \<Rightarrow> obj" where
  "trojan_config address port pw = [(''servers'', JList [JObj [(''address'', address), (''port'', port), (''password'', pw),
     (''email'', MARZBAN_EMAIL)]])]"

definition shadowsocks_config :: "json \<Rightarrow> json \<Rightarrow> json \<Rightarrow> json \<Rightarrow> obj" where
  "shadowsocks_config address port pw meth = [(''servers'', JList [JObj [(''address'', address), (''port'', port), (''password'', pw),
     (''email'', MARZBAN_EMAIL), (''method'', meth), (''uot'', JBool False)]])]"

text \<open>A port may be a list \<open>"443,8443"\<close>.\<close>

definition pick_port :: "draw \<Rightarrow> json \<Rightarrow> json result" where
  "pick_port dr v = (case v of
       JStr s \<Rightarrow> bindE (choice (dr_port dr) (split_on (CHR '','') s)) (\<lambda>p. case parse_int p of
           None \<Rightarrow> Inl (ValueError ''invalid literal for int()'') | Some n \<Rightarrow> Inr (JInt n))
     | _ \<Rightarrow> Inr v)"

fun as_str :: "json \<Rightarrow> string result" where
  "as_str (JStr s) = Inr s"
| "as_str _ = Inl (TypeError ''not a string'')"

definition grpc_path :: "string \<Rightarrow> json \<Rightarrow> json \<Rightarrow> json result" where
  "grpc_path net multi path =
     (if net = ''grpc'' \<or> net = ''gun'' then
        bindE (as_str path) (\<lambda>p. if truthy multi then bindE (get_grpc_multi p) (\<lambda>q. Inr (JStr q)) else Inr (JStr (get_grpc_gun p)))
      else Inr path)"

definition protocol_settings :: "json \<Rightarrow> string \<Rightarrow> string \<Rightarrow> json \<Rightarrow> json \<Rightarrow> json \<Rightarrow> obj \<Rightarrow> obj option result" where
  "protocol_settings protocol net tls headers address port settings =
     (if protocol = JStr ''vmess'' then bindE (jindex settings ''id'') (\<lambda>i. Inr (Some (vmess_config address port i)))
      else if protocol = JStr ''vless'' then
        (let flow = (if net \<in> {''tcp'', ''raw'', ''kcp''} \<and> headers \<noteq> JStr ''http'' \<and> (tls = ''tls'' \<or> tls = ''reality'')
                     then dget_or settings ''flow'' (JStr []) else JNull) in
         bindE (jindex settings ''id'') (\<lambda>i. Inr (Some (vless_config address port i flow))))
      else if protocol = JStr ''trojan'' then bindE (jindex settings ''password'') (\<lambda>p. Inr (Some (trojan_config address port p)))
      else if protocol = JStr ''shadowsocks'' then
        bindE (jindex settings ''password'') (\<lambda>p. bindE (jindex settings ''method'') (\<lambda>m.
          Inr (Some (shadowsocks_config address port p m))))
      else Inr None)"

definition split_alpn :: "json \<Rightarrow> json list option result" where
  "split_alpn v = (if \<not> truthy v then Inr None else bindE (as_str v) (\<lambda>s. Inr (Some (map JStr (split_on (CHR '','') s)))))"

definition stream_args_of :: "string \<Rightarrow> string \<Rightarrow> json \<Rightarrow> json \<Rightarrow> json \<Rightarrow> json \<Rightarrow> json list option \<Rightarrow> string \<Rightarrow> obj \<Rightarrow> stream_args" where
  "stream_args_of net tls sni host path headers alpn dialer inb =
     \<lparr>sa_net = net, sa_path = path, sa_host = host, sa_tls = tls, sa_sni = sni, sa_fp = dget_or inb ''fp'' (JStr []), sa_alpn = alpn,
       sa_pbk = dget_or inb ''pbk'' (JStr []), sa_sid = dget_or inb ''sid'' (JStr []), sa_spx = dget_or inb ''spx'' (JStr []),
       sa_headers = headers, sa_ais = dget_or inb ''ais'' (JStr []), sa_dialer = dialer, sa_multi = dget_or inb ''multiMode'' (JBool False),
       sa_rua = dget_or inb ''random_user_agent'' (JBool False), sa_mode = dget_or inb ''mode'' (JStr ''auto''),
       sa_heartbeat = dget_or inb ''heartbeatPeriod'' (JInt 0), sa_xhttp_extra = jget inb ''xhttp_extra''\<rparr>"

definition build_proxy_outbound ::
    "json_env \<Rightarrow> draw \<Rightarrow> string \<Rightarrow> json \<Rightarrow> obj \<Rightarrow> obj \<Rightarrow> string \<Rightarrow> json option \<Rightarrow> (obj \<times> json option) result" where
  "build_proxy_outbound env dr tag address inb settings dialer shared =
     bindE (bindE (jindex inb ''network'') as_str) (\<lambda>net.
     bindE (jindex inb ''protocol'') (\<lambda>protocol.
     bindE (bindE (jindex inb ''port'') (pick_port dr)) (\<lambda>port.
     bindE (bindE (jindex inb ''tls'') as_str) (\<lambda>tls.
     bindE (jindex inb ''header_type'') (\<lambda>headers.
     bindE (bindE (jindex inb ''path'') (grpc_path net (dget_or inb ''multiMode'' (JBool False)))) (\<lambda>path.
     bindE (protocol_settings protocol net tls headers address port settings) (\<lambda>ps.
     bindE (split_alpn (jget inb ''alpn'')) (\<lambda>alpn.
     bindE (jindex inb ''sni'') (\<lambda>sni.
     bindE (jindex inb ''host'') (\<lambda>host.
     bindE (make_stream_setting env dr (stream_args_of net tls sni host path headers alpn dialer inb) shared) (\<lambda>(stream, shared').
       let stream' = (let fm = jget inb ''finalmask'' in put_if fm ''finalmask'' fm stream);
           out = [(''tag'', JStr tag), (''protocol'', protocol)] @ (case ps of None \<Rightarrow> [] | Some d \<Rightarrow> [(''settings'', JObj d)])
                 @ [(''streamSettings'', JObj stream')] in
       if truthy (dget_or inb ''mux_enable'' (JBool False))
       then bindE (je_mux env) (\<lambda>m. Inr (out @ [(''mux'', JObj (dput ''enabled'' (JBool True) m))], shared'))
       else Inr (out, shared'))))))))))))"

definition fragment_for_dialer :: "obj \<Rightarrow> string result" where
  "fragment_for_dialer inb = (if truthy (jget inb ''finalmask'') then Inr []
     else let f = jget inb ''fragment_setting'' in if truthy f then as_str f else Inr [])"

definition noise_of :: "json \<Rightarrow> string result" where
  "noise_of v = (if truthy v then as_str v else Inr [])"

section \<open>The documents of a subscription\<close>

record endpoint =
  ep_host_id :: "int option"
  ep_address :: string
  ep_inbound :: obj
  ep_settings :: obj

text \<open>\<open>V2rayJsonConfig\<close>: the documents by id, the default, the parsed file template, the documents made so far.\<close>

record json_conf =
  jc_configs :: "(int \<times> obj) list"
  jc_default :: "int option"
  jc_file :: "obj result"
  jc_out :: "obj list"
  jc_shared :: "json option"

definition new_conf :: "json_env \<Rightarrow> (int \<times> obj) list \<Rightarrow> int option \<Rightarrow> obj result \<Rightarrow> json_conf" where
  "new_conf env configs default_id file = \<lparr>jc_configs = configs, jc_default = default_id, jc_file = file, jc_out = [],
     jc_shared = dget (je_settings env) ''httpSettings''\<rparr>"

definition base_template :: "json_conf \<Rightarrow> int option \<Rightarrow> obj result" where
  "base_template c config_id = (case select_config (jc_configs c) (jc_default c) config_id of None \<Rightarrow> jc_file c | Some d \<Rightarrow> Inr d)"

definition assemble_config :: "json_conf \<Rightarrow> string \<Rightarrow> obj list \<Rightarrow> int option \<Rightarrow> obj result" where
  "assemble_config c remarks outbounds config_id =
     bindE (base_template c config_id) (\<lambda>base.
       let t = dput ''remarks'' (JStr remarks) (strip_injection_directives base) in
       bindE (get_list_or t ''outbounds'') (\<lambda>own. Inr (dput ''outbounds'' (JList (map JObj outbounds @ own)) t)))"

definition put_doc :: "obj \<Rightarrow> json_conf \<Rightarrow> json_conf" where
  "put_doc d c = c\<lparr>jc_out := jc_out c @ [d]\<rparr>"

definition add_config :: "json_conf \<Rightarrow> string \<Rightarrow> obj list \<Rightarrow> int option \<Rightarrow> json_conf result" where
  "add_config c remarks outbounds config_id = bindE (assemble_config c remarks outbounds config_id) (\<lambda>d. Inr (put_doc d c))"

definition dialer_of :: "obj \<Rightarrow> json \<Rightarrow> obj option result" where
  "dialer_of inb noise = bindE (fragment_for_dialer inb) (\<lambda>f. bindE (noise_of noise) (\<lambda>n. make_dialer_outbound f n))"

definition tag_name :: "obj option \<Rightarrow> string" where
  "tag_name d = (case d of None \<Rightarrow> [] | Some o' \<Rightarrow> ''dialer'')"

definition add_json :: "json_env \<Rightarrow> draw \<Rightarrow> json_conf \<Rightarrow> string \<Rightarrow> string \<Rightarrow> obj \<Rightarrow> obj \<Rightarrow> int option \<Rightarrow> json_conf result" where
  "add_json env dr c remark address inb settings config_id =
     bindE (bindE (jindex inb ''noise_setting'') (dialer_of inb)) (\<lambda>dialer.
     bindE (build_proxy_outbound env dr ''proxy'' (JStr address) inb settings (tag_name dialer) (jc_shared c)) (\<lambda>(out, shared).
       add_config (c\<lparr>jc_shared := shared\<rparr>) remark ([out] @ (case dialer of None \<Rightarrow> [] | Some d \<Rightarrow> [d])) config_id))"

fun build_outbounds :: "json_env \<Rightarrow> (nat \<Rightarrow> draw) \<Rightarrow> nat \<Rightarrow> string list \<Rightarrow> obj \<Rightarrow> obj \<Rightarrow> string \<Rightarrow> json option \<Rightarrow>
    (obj list \<times> json option) result" where
  "build_outbounds env drs i [] inb settings dialer shared = Inr ([], shared)"
| "build_outbounds env drs i (a # as) inb settings dialer shared =
     bindE (build_proxy_outbound env (drs i) (proxy_outbound_tag i) (JStr a) inb settings dialer shared) (\<lambda>(out, shared').
     bindE (build_outbounds env drs (Suc i) as inb settings dialer shared') (\<lambda>(outs, shared'').
       Inr (out # outs, shared'')))"

definition add_balanced :: "json_env \<Rightarrow> (nat \<Rightarrow> draw) \<Rightarrow> json_conf \<Rightarrow> string \<Rightarrow> string list \<Rightarrow> obj \<Rightarrow> obj \<Rightarrow> int option \<Rightarrow> obj option \<Rightarrow>
    json_conf result" where
  "add_balanced env drs c remark addresses inb settings config_id balancing =
     bindE (bindE (jindex inb ''noise_setting'') (dialer_of inb)) (\<lambda>dialer.
     bindE (build_outbounds env drs 0 addresses inb settings (tag_name dialer) (jc_shared c)) (\<lambda>(outs, shared).
     bindE (assemble_config c remark (outs @ (case dialer of None \<Rightarrow> [] | Some d \<Rightarrow> [d])) config_id) (\<lambda>d.
     bindE (apply_host_balancer d balancing None) (\<lambda>d'. Inr (put_doc d' (c\<lparr>jc_shared := shared\<rparr>))))))"

definition build_endpoint_outbounds :: "json_env \<Rightarrow> draw \<Rightarrow> endpoint \<Rightarrow> string \<Rightarrow> string \<Rightarrow> json option \<Rightarrow> (obj list \<times> json option) result" where
  "build_endpoint_outbounds env dr e tag helper shared =
     bindE (dialer_of (ep_inbound e) (jget (ep_inbound e) ''noise_setting'')) (\<lambda>dialer.
     bindE (build_proxy_outbound env dr tag (JStr (ep_address e)) (ep_inbound e) (ep_settings e)
              (if dialer = None then [] else helper) shared) (\<lambda>(out, shared').
       Inr ([out] @ (case dialer of None \<Rightarrow> [] | Some d \<Rightarrow> [dput ''tag'' (JStr helper) d]), shared')))"

definition helper_tag :: "nat \<Rightarrow> string" where
  "helper_tag i = ''__npvpn_dialer_'' @ nat_str i"

fun build_endpoints :: "json_env \<Rightarrow> (nat \<Rightarrow> draw) \<Rightarrow> nat \<Rightarrow> (string \<times> endpoint) list \<Rightarrow> json option \<Rightarrow> (obj list \<times> json option) result" where
  "build_endpoints env drs i [] shared = Inr ([], shared)"
| "build_endpoints env drs i ((tag, e) # es) shared =
     bindE (build_endpoint_outbounds env (drs i) e tag (helper_tag i) shared) (\<lambda>(outs, shared').
     bindE (build_endpoints env drs (Suc i) es shared') (\<lambda>(rest, shared''). Inr (outs @ rest, shared'')))"

text \<open>The checks of \<open>add_composed\<close>: \<open>Some\<close> is the code of an \<open>InjectionError\<close>, \<open>Inl\<close> any other exception.\<close>

definition tags_of :: "obj \<Rightarrow> json list result" where
  "tags_of config = bindE (bindE (get_list_or config ''outbounds'') (mapE as_obj)) (\<lambda>outs.
     Inr (truthy_values (map (\<lambda>d. jget d ''tag'') outs)))"

definition prefix_collision :: "string list \<Rightarrow> json list \<Rightarrow> bool result" where
  "prefix_collision participants tags =
     (let others = filter (\<lambda>t. t \<notin> JStr ` set participants) tags in
      if list_ex (\<lambda>v. case v of JStr s \<Rightarrow> list_ex (starts_with s) participants | _ \<Rightarrow> False) others then Inr True
      else if participants \<noteq> [] \<and> list_ex (\<lambda>v. jstr v = None) others then Inl (AttributeError ''startswith'')
      else Inr False)"

definition checked_document :: "obj \<Rightarrow> (obj + string) result" where
  "checked_document config = (case validate_composed_tag_graph config of
     Inr _ \<Rightarrow> Inr (Inl config) | Inl (ValueError code) \<Rightarrow> Inr (Inr code) | Inl e \<Rightarrow> Inl e)"

definition default_balancing :: "json_env \<Rightarrow> obj result" where
  "default_balancing env = host_balancing (je_url_ok env) (JObj [(''strategy'', JStr ''leastPing'')])"

definition composed_document :: "json_env \<Rightarrow> string list \<Rightarrow> obj \<Rightarrow> obj option \<Rightarrow> (obj + string) result" where
  "composed_document env participants config balancing =
     bindE (tags_of config) (\<lambda>tags.
       if list_ex (\<lambda>t. \<not> hashable t) tags then Inl (TypeError ''unhashable type'')
       else if \<not> distinct tags then Inr (Inr ''outbound_tag_collision'')
       else
         bindE (obj_or_empty (jget config ''routing'')) (\<lambda>routing.
         if balancing \<noteq> None \<or> \<not> truthy (jget routing ''balancers'') then
           bindE (prefix_collision participants tags) (\<lambda>bad.
             if bad then Inr (Inr ''outbound_prefix_collision'')
             else
               bindE (case balancing of None \<Rightarrow> default_balancing env
                      | Some b \<Rightarrow> if b = [] then default_balancing env else Inr b) (\<lambda>b.
                 bindE (apply_host_balancer config (Some b) (Some participants)) checked_document))
         else checked_document config))"

definition add_composed :: "json_env \<Rightarrow> (nat \<Rightarrow> draw) \<Rightarrow> json_conf \<Rightarrow> string \<Rightarrow> (string \<times> endpoint) list \<Rightarrow> int option \<Rightarrow> obj option \<Rightarrow>
    (json_conf \<times> string option) result" where
  "add_composed env drs c remark endpoints config_id balancing =
     bindE (build_endpoints env drs 0 endpoints (jc_shared c)) (\<lambda>(outs, shared).
     let c' = c\<lparr>jc_shared := shared\<rparr> in
     bindE (assemble_config c' remark outs config_id) (\<lambda>config.
     bindE (composed_document env (map fst endpoints) config balancing) (\<lambda>r.
       Inr (case r of Inl d \<Rightarrow> (put_doc d c', None) | Inr code \<Rightarrow> (c', Some code)))))"

definition add_blocked :: "json_conf \<Rightarrow> string \<Rightarrow> json_conf" where
  "add_blocked c remark = put_doc [(''remarks'', JStr remark),
     (''outbounds'', JList [JObj [(''tag'', JStr ''proxy''), (''protocol'', JStr ''blackhole'')]])] c"

text \<open>What is printed: the documents in order or reversed, with the shared dictionary as it is at the end.\<close>

definition resolve_outbound :: "json option \<Rightarrow> json \<Rightarrow> json" where
  "resolve_outbound shared v = (case (shared, v) of
       (Some sh, JObj d) \<Rightarrow> (case jget d ''streamSettings'' of
           JObj st \<Rightarrow> if dget st ''httpSettings'' = Some shared_ref
                      then JObj (dput ''streamSettings'' (JObj (dput ''httpSettings'' sh st)) d) else v
         | _ \<Rightarrow> v)
     | _ \<Rightarrow> v)"

definition resolve_doc :: "json option \<Rightarrow> obj \<Rightarrow> obj" where
  "resolve_doc shared d = (case jget d ''outbounds'' of
       JList outs \<Rightarrow> dput ''outbounds'' (JList (map (resolve_outbound shared) outs)) d | _ \<Rightarrow> d)"

definition render_json :: "json_conf \<Rightarrow> bool \<Rightarrow> obj list" where
  "render_json c reverse = (let ds = map (resolve_doc (jc_shared c)) (jc_out c) in if reverse then rev ds else ds)"

section \<open>Tags\<close>

lemma bind_prod_Inr: "bindE r (\<lambda>(x, y). f x y) = Inr z \<longleftrightarrow> (\<exists>x y. r = Inr (x, y) \<and> f x y = Inr z)"
  by (cases r) auto

lemma outbound_tag:
  assumes "build_proxy_outbound env dr tag address inb settings dialer shared = Inr (out, shared')"
  shows "jget out ''tag'' = JStr tag"
proof -
  from assms obtain protocol tl where "out = (''tag'', JStr tag) # (''protocol'', protocol) # tl"
    unfolding build_proxy_outbound_def bindE_Inr_iff bind_prod_Inr Let_def
    by (auto simp: bindE_Inr_iff split: if_splits)
  then show ?thesis by (simp add: jget_Cons)
qed

lemma build_outbounds_tags:
  "build_outbounds env drs i as inb settings dialer shared = Inr (outs, shared') \<Longrightarrow>
   map (\<lambda>d. jget d ''tag'') outs = map (\<lambda>j. JStr (proxy_outbound_tag j)) [i..<i + length as]"
proof (induction as arbitrary: i outs shared shared')
  case (Cons a as)
  then obtain out sh outs' where "build_proxy_outbound env (drs i) (proxy_outbound_tag i) (JStr a) inb settings dialer shared = Inr (out, sh)"
    and "build_outbounds env drs (Suc i) as inb settings dialer sh = Inr (outs', shared')" and "outs = out # outs'"
    by (auto simp: bind_prod_Inr)
  moreover from this have "map (\<lambda>d. jget d ''tag'') outs' = map (\<lambda>j. JStr (proxy_outbound_tag j)) [Suc i..<Suc i + length as]"
    by (intro Cons.IH)
  ultimately show ?case by (simp add: outbound_tag upt_conv_Cons del: upt_Suc)
qed simp

lemma build_endpoints_tags:
  assumes "build_endpoints env drs i es shared = Inr (outs, shared')"
  shows "JStr ` set (map fst es) \<subseteq> set (map (\<lambda>d. jget d ''tag'') outs)"
  using assms
proof (induction es arbitrary: i outs shared)
  case (Cons x es)
  obtain tag e where x: "x = (tag, e)" by force
  with Cons.prems obtain dialer out sh hs rest where
      "build_proxy_outbound env (drs i) tag (JStr (ep_address e)) (ep_inbound e) (ep_settings e) dialer shared = Inr (out, sh)"
    and rest: "build_endpoints env drs (Suc i) es sh = Inr (rest, shared')" and outs: "outs = (out # hs) @ rest"
    by (auto simp: bind_prod_Inr build_endpoint_outbounds_def bindE_Inr_iff)
  with Cons.IH [OF rest] x show ?case by (auto simp: outbound_tag)
qed simp

lemma nat_str_tag: "''proxy-'' @ nat_str m = ''proxy-'' @ nat_str n \<longleftrightarrow> m = n" by simp

lemma proxy_outbound_tag_inj: "inj proxy_outbound_tag"
  by (rule injI) (auto simp: proxy_outbound_tag_def PROXY_OUTBOUND_TAG_def split: if_splits)

lemma proxy_outbound_tag_prefix: "starts_with (proxy_outbound_tag i) PROXY_OUTBOUND_TAG"
  by (auto simp: proxy_outbound_tag_def starts_with_def)

section \<open>Nothing of the panel's directives is printed\<close>

definition clean :: "obj \<Rightarrow> bool" where
  "clean d \<longleftrightarrow> dget d ''npvpn'' = None \<and> dget d ''remnawave'' = None"

lemma assemble_clean: "assemble_config c r outs i = Inr d \<Longrightarrow> clean d"
  by (auto simp: assemble_config_def clean_def strip_injection_directives_def bindE_Inr_iff Let_def)

lemma balancer_clean: "apply_host_balancer d b ps = Inr d' \<Longrightarrow> clean d \<Longrightarrow> clean d'"
  by (simp add: clean_def apply_host_balancer_rest)

text \<open>The documents of a subscription under construction carry no directive, and every step keeps it so.\<close>

definition conf_clean :: "json_conf \<Rightarrow> bool" where
  "conf_clean c \<longleftrightarrow> (\<forall>d \<in> set (jc_out c). clean d)"

lemma put_doc_clean [simp]: "conf_clean (put_doc d c) \<longleftrightarrow> conf_clean c \<and> clean d"
  by (auto simp: conf_clean_def put_doc_def)

lemma conf_clean_shared [simp]: "conf_clean (c\<lparr>jc_shared := s\<rparr>) = conf_clean c"
  by (simp add: conf_clean_def)

lemma checked_document_ok: "checked_document d = Inr (Inl d') \<longleftrightarrow> d' = d \<and> validate_composed_tag_graph d = Inr ()"
  by (auto simp: checked_document_def split: sum.splits py_error.splits)

lemma composed_document_result:
  assumes "composed_document env ps d b = Inr (Inl d')"
  shows "validate_composed_tag_graph d' = Inr () \<and> (d' = d \<or> (\<exists>b'. apply_host_balancer d (Some b') (Some ps) = Inr d'))
    \<and> (\<exists>tags. tags_of d = Inr tags \<and> distinct tags \<and> (b \<noteq> None \<longrightarrow> prefix_collision ps tags = Inr False))"
  using assms by (auto simp: composed_document_def bindE_Inr_iff checked_document_ok split: if_splits)

lemma composed_document_clean: "composed_document env ps d b = Inr (Inl d') \<Longrightarrow> clean d \<Longrightarrow> clean d'"
  using composed_document_result balancer_clean by blast

lemma add_json_clean: "add_json env dr c r a inb st i = Inr c' \<Longrightarrow> conf_clean c \<Longrightarrow> conf_clean c'"
  by (auto simp: add_json_def add_config_def bindE_Inr_iff bind_prod_Inr dest: assemble_clean)

lemma add_balanced_clean: "add_balanced env drs c r as inb st i b = Inr c' \<Longrightarrow> conf_clean c \<Longrightarrow> conf_clean c'"
  by (auto simp: add_balanced_def bindE_Inr_iff bind_prod_Inr dest!: assemble_clean intro: balancer_clean)

lemma add_composed_parts:
  assumes "add_composed env drs c remark es i b = Inr (c', e)"
  obtains outs shared config res where "build_endpoints env drs 0 es (jc_shared c) = Inr (outs, shared)"
    and "assemble_config (c\<lparr>jc_shared := shared\<rparr>) remark outs i = Inr config"
    and "composed_document env (map fst es) config b = Inr res"
    and "(c', e) = (case res of Inl d \<Rightarrow> (put_doc d (c\<lparr>jc_shared := shared\<rparr>), None) | Inr code \<Rightarrow> (c\<lparr>jc_shared := shared\<rparr>, Some code))"
  using assms by (auto simp: add_composed_def bindE_Inr_iff bind_prod_Inr Let_def)

lemma add_composed_clean:
  assumes "add_composed env drs c r es i b = Inr (c', e)" and "conf_clean c"
  shows "conf_clean c'"
proof -
  from assms(1) obtain outs shared config res
    where config: "assemble_config (c\<lparr>jc_shared := shared\<rparr>) r outs i = Inr config"
      and res: "composed_document env (map fst es) config b = Inr res"
      and c': "(c', e) = (case res of Inl d \<Rightarrow> (put_doc d (c\<lparr>jc_shared := shared\<rparr>), None) | Inr code \<Rightarrow> (c\<lparr>jc_shared := shared\<rparr>, Some code))"
    by (rule add_composed_parts)
  from assemble_clean [OF config] res assms(2) c' show ?thesis
    by (cases res) (auto dest: composed_document_clean)
qed

lemma add_blocked_clean: "conf_clean (add_blocked c r) = conf_clean c"
  by (simp add: add_blocked_def clean_def)

section \<open>Balanced hosts\<close>

text \<open>A host with several addresses becomes one document in which every address has its own outbound, in order, under
  pairwise different tags, and all of them fall under the selector of the host's balancer.\<close>

theorem balanced_host_covers_addresses:
  assumes "add_balanced env drs c remark addresses inb settings config_id balancing = Inr c'"
  shows "\<exists>d outs rest. jc_out c' = jc_out c @ [d] \<and> dget d ''outbounds'' = Some (JList (map JObj outs @ rest))
    \<and> map (\<lambda>x. jget x ''tag'') outs = map (\<lambda>j. JStr (proxy_outbound_tag j)) [0..<length addresses]
    \<and> distinct (map (\<lambda>x. jget x ''tag'') outs)
    \<and> (\<forall>j < length addresses. starts_with (proxy_outbound_tag j) PROXY_OUTBOUND_TAG)"
proof -
  have "\<exists>dialer outs shared config d. build_outbounds env drs 0 addresses inb settings (tag_name dialer) (jc_shared c) = Inr (outs, shared)
    \<and> assemble_config c remark (outs @ (case dialer of None \<Rightarrow> [] | Some d \<Rightarrow> [d])) config_id = Inr config
    \<and> apply_host_balancer config balancing None = Inr d \<and> c' = put_doc d (c\<lparr>jc_shared := shared\<rparr>)"
    using assms by (fastforce simp: add_balanced_def bindE_Inr_iff bind_prod_Inr)
  then obtain dialer outs shared config d where
      outs: "build_outbounds env drs 0 addresses inb settings (tag_name dialer) (jc_shared c) = Inr (outs, shared)"
    and config: "assemble_config c remark (outs @ (case dialer of None \<Rightarrow> [] | Some d \<Rightarrow> [d])) config_id = Inr config"
    and d: "apply_host_balancer config balancing None = Inr d" and c': "c' = put_doc d (c\<lparr>jc_shared := shared\<rparr>)" by blast
  have tags: "map (\<lambda>x. jget x ''tag'') outs = map (\<lambda>j. JStr (proxy_outbound_tag j)) [0..<length addresses]"
    using build_outbounds_tags [OF outs] by simp
  have "distinct (map (\<lambda>j. JStr (proxy_outbound_tag j)) [0..<length addresses])"
    using proxy_outbound_tag_inj by (auto simp: distinct_map inj_def inj_on_def)
  moreover have "\<exists>rest. dget d ''outbounds'' = Some (JList (map JObj outs @ rest))"
    using config apply_host_balancer_rest [OF d, of "''outbounds''"] by (auto simp: assemble_config_def bindE_Inr_iff Let_def)
  moreover have "jc_out c' = jc_out c @ [d]" by (simp add: c' put_doc_def)
  ultimately show ?thesis using tags proxy_outbound_tag_prefix by metis
qed

section \<open>Composed documents\<close>


section \<open>Examples\<close>

definition sample_json_env :: "obj \<Rightarrow> json_env" where
  "sample_json_env settings = \<lparr>je_settings = settings, je_user_agents = [], je_grpc_agents = [], je_mux = Inr [], je_url_ok = (\<lambda>u. True)\<rparr>"

definition sample_draw :: draw where
  "sample_draw = \<lparr>dr_port = (\<lambda>n. 0), dr_agent = (\<lambda>n. 0)\<rparr>"

definition sample_inbound :: "string \<Rightarrow> string \<Rightarrow> obj" where
  "sample_inbound net path = [(''network'', JStr net), (''protocol'', JStr ''trojan''), (''port'', JInt 443), (''tls'', JStr ''none''),
     (''header_type'', JStr []), (''path'', JStr path), (''sni'', JStr []), (''host'', JStr []), (''noise_setting'', JNull)]"

definition sample_account :: obj where
  "sample_account = [(''password'', JStr ''secret'')]"

definition sample_conf :: "json_env \<Rightarrow> json_conf" where
  "sample_conf env = new_conf env [] None (Inr [(''npvpn'', JNull), (''outbounds'', JList [JObj [(''tag'', JStr ''direct'')]])])"

lemma sample_dialer: "bindE (jindex (sample_inbound net path) ''noise_setting'') (dialer_of (sample_inbound net path)) = Inr None"
  by (simp add: sample_inbound_def jindex_def dialer_of_def fragment_for_dialer_def noise_of_def make_dialer_outbound_def jget_Cons)

lemma sample_template: "assemble_config (sample_conf env\<lparr>jc_shared := sh, jc_out := ds\<rparr>) r outs None =
    Inr [(''outbounds'', JList (map JObj outs @ [JObj [(''tag'', JStr ''direct'')]])), (''remarks'', JStr r)]"
  by (simp add: assemble_config_def base_template_def sample_conf_def new_conf_def select_config_def
      strip_injection_directives_def get_list_or_def)

definition sample_outbound :: "string \<Rightarrow> string \<Rightarrow> string \<Rightarrow> obj \<Rightarrow> obj" where
  "sample_outbound tag net address stream = [(''tag'', JStr tag), (''protocol'', JStr ''trojan''),
     (''settings'', JObj (trojan_config (JStr address) (JInt 443) (JStr ''secret''))), (''streamSettings'', JObj stream)]"

lemma sample_quic: "build_proxy_outbound (sample_json_env []) dr tag (JStr a) (sample_inbound ''gun'' p) sample_account [] sh
    = Inr (sample_outbound tag ''gun'' a [(''network'', JStr ''gun'')], sh)" if "p = []"
  using that by (simp add: build_proxy_outbound_def sample_inbound_def sample_account_def jindex_def pick_port_def grpc_path_def
      get_grpc_gun_def starts_with_def protocol_settings_def split_alpn_def jget_Cons dget_or_Cons make_stream_setting_def
      network_setting_def stream_args_of_def stream_setting_config_def put_if_def sample_outbound_def)

lemma sample_http: "build_proxy_outbound (sample_json_env st) dr tag (JStr a) (sample_inbound ''http'' (c # p)) sample_account [] (Some (JObj d))
    = Inr (sample_outbound tag ''http'' a [(''network'', JStr ''http''), (''httpSettings'', shared_ref)],
        Some (JObj (dput ''host'' (JList []) (dput ''path'' (JStr (c # p)) (dsetdefault ''header'' (JObj []) d)))))"
  by (simp add: build_proxy_outbound_def sample_inbound_def sample_account_def jindex_def pick_port_def grpc_path_def
      protocol_settings_def split_alpn_def jget_Cons dget_or_Cons make_stream_setting_def network_setting_def http_config_def
      http_update_def stream_args_of_def stream_setting_config_def put_if_def sample_outbound_def shared_ref_def)

text \<open>
  The shared dictionary makes hosts of the network \<open>http\<close> overwrite each other: of two hosts with different paths both
  documents are printed with the second path. A noise without a delay, which the form accepts, is dropped.
\<close>

definition printed_path :: "obj \<Rightarrow> json" where
  "printed_path d = (case jget d ''outbounds'' of JList (JObj x # _) \<Rightarrow> (case jget x ''streamSettings'' of
     JObj st \<Rightarrow> (case jget st ''httpSettings'' of JObj h \<Rightarrow> jget h ''path'' | _ \<Rightarrow> JNull) | _ \<Rightarrow> JNull) | _ \<Rightarrow> JNull)"

lemma http_hosts_share_settings:
  "\<exists>c1 c2. add_json (sample_json_env []) sample_draw (sample_conf (sample_json_env [])\<lparr>jc_shared := Some (JObj [])\<rparr>) ''A'' ''a.org''
       (sample_inbound ''http'' ''/a'') sample_account None = Inr c1
    \<and> add_json (sample_json_env []) sample_draw c1 ''B'' ''b.org'' (sample_inbound ''http'' ''/b'') sample_account None = Inr c2
    \<and> map printed_path (render_json c2 False) = [JStr ''/b'', JStr ''/b'']"
proof -
  define env where "env = sample_json_env []"
  have ne: "shared_ref = JObj [(''<settings.httpSettings>'', JNull)]" by (simp add: shared_ref_def)
  define h1 where "h1 = JObj [(''header'', JObj []), (''path'', JStr ''/a''), (''host'', JList [])]"
  define h2 where "h2 = JObj [(''header'', JObj []), (''path'', JStr ''/b''), (''host'', JList [])]"
  define st where "st = [(''network'', JStr ''http''), (''httpSettings'', shared_ref)]"
  define doc where "doc n a = [(''outbounds'', JList [JObj (sample_outbound ''proxy'' ''http'' a st), JObj [(''tag'', JStr ''direct'')]]),
      (''remarks'', JStr n)]" for n a
  define c0 where "c0 = sample_conf env\<lparr>jc_shared := Some (JObj [])\<rparr>"
  define c1 where "c1 = sample_conf env\<lparr>jc_shared := Some h1, jc_out := [doc ''A'' ''a.org'']\<rparr>"
  define c2 where "c2 = sample_conf env\<lparr>jc_shared := Some h2, jc_out := [doc ''A'' ''a.org'', doc ''B'' ''b.org'']\<rparr>"
  have out: "jc_out (sample_conf env) = []" by (simp add: sample_conf_def new_conf_def)
  have t: "assemble_config (sample_conf env\<lparr>jc_shared := sh, jc_out := ds\<rparr>) r [x] None
     = Inr [(''outbounds'', JList [JObj x, JObj [(''tag'', JStr ''direct'')]]), (''remarks'', JStr r)]" for sh ds r x
    using sample_template [where outs = "[x]"] by simp
  have t2: "assemble_config (sample_conf env\<lparr>jc_out := ds, jc_shared := sh\<rparr>) r [x] None
     = Inr [(''outbounds'', JList [JObj x, JObj [(''tag'', JStr ''direct'')]]), (''remarks'', JStr r)]" for sh ds r x
    by (simp add: assemble_config_def base_template_def sample_conf_def new_conf_def select_config_def
        strip_injection_directives_def get_list_or_def)
  have t0: "assemble_config (sample_conf env\<lparr>jc_shared := sh\<rparr>) r [x] None
     = Inr [(''outbounds'', JList [JObj x, JObj [(''tag'', JStr ''direct'')]]), (''remarks'', JStr r)]" for sh r x
    using t [where ds = "jc_out (sample_conf env)"] by simp
  have b1: "build_proxy_outbound env sample_draw ''proxy'' (JStr ''a.org'') (sample_inbound ''http'' ''/a'') sample_account [] (Some (JObj []))
     = Inr (sample_outbound ''proxy'' ''http'' ''a.org'' st, Some h1)"
    unfolding env_def by (subst sample_http) (simp add: st_def h1_def dsetdefault_def)
  have b2: "build_proxy_outbound env sample_draw ''proxy'' (JStr ''b.org'') (sample_inbound ''http'' ''/b'') sample_account [] (Some h1)
     = Inr (sample_outbound ''proxy'' ''http'' ''b.org'' st, Some h2)"
    unfolding env_def h1_def by (subst sample_http) (simp add: st_def h2_def dsetdefault_def)
  have s1: "add_json env sample_draw c0 ''A'' ''a.org'' (sample_inbound ''http'' ''/a'') sample_account None = Inr c1"
    unfolding add_json_def sample_dialer
    by (simp add: tag_name_def b1 c0_def add_config_def t0 put_doc_def c1_def doc_def out)
  have s2: "add_json env sample_draw c1 ''B'' ''b.org'' (sample_inbound ''http'' ''/b'') sample_account None = Inr c2"
    unfolding add_json_def sample_dialer
    by (simp add: tag_name_def b2 c1_def add_config_def t2 put_doc_def c2_def doc_def)
  have p: "printed_path (resolve_doc (Some h2) (doc n a)) = JStr ''/b''" for n a
    by (simp add: doc_def resolve_doc_def resolve_outbound_def sample_outbound_def st_def jget_Cons printed_path_def h2_def)
  have "map printed_path (render_json c2 False) = [JStr ''/b'', JStr ''/b'']"
    by (simp add: render_json_def c2_def p)
  from this s1 s2 show ?thesis unfolding env_def c0_def by (intro exI conjI)
qed

lemma noise_without_delay_dropped: "make_noises ''rand:10-20'' = []"
  by (simp add: make_noises_def make_noise_def List.map_filter_simps)

lemma agent_needs_headers:
  "truthy (sa_rua a) \<Longrightarrow> je_settings env = [] \<Longrightarrow> je_user_agents env = [u] \<Longrightarrow> splithttp_config env dr a = Inl (KeyError ''headers'')"
  by (simp add: splithttp_config_def put_agent_def choice_def put_in_def jindex_def put_if_def)

lemma balanced_host_covers_addresses_witness:
  "\<exists>c'. add_balanced (sample_json_env []) (\<lambda>n. sample_draw) (sample_conf (sample_json_env [])) ''DE'' [''a.org'', ''b.org'']
      (sample_inbound ''gun'' []) sample_account None None = Inr c'
    \<and> (\<exists>d. jc_out c' = jc_out (sample_conf (sample_json_env [])) @ [d])"
proof -
  define env where "env = sample_json_env []"
  have b: "build_proxy_outbound env dr tag (JStr a) (sample_inbound ''gun'' []) sample_account [] sh
      = Inr (sample_outbound tag ''gun'' a [(''network'', JStr ''gun'')], sh)" for dr tag a sh
    unfolding env_def by (rule sample_quic) simp
  have t: "\<exists>d. assemble_config (sample_conf env) r outs None = Inr d \<and> dget d ''routing'' = None" for r outs
    by (simp add: assemble_config_def base_template_def sample_conf_def new_conf_def select_config_def
        strip_injection_directives_def get_list_or_def)
  have applied: "\<exists>d'. apply_host_balancer d None None = Inr d'" if "dget d ''routing'' = None" for d
    using that by (simp add: apply_host_balancer_def jget_def dget_or_def rules_of_def Let_def)
  have "\<exists>c'. add_balanced env (\<lambda>n. sample_draw) (sample_conf env) ''DE'' [''a.org'', ''b.org''] (sample_inbound ''gun'' []) sample_account None None = Inr c'"
  proof -
    have outs: "build_outbounds env (\<lambda>n. sample_draw) 0 [''a.org'', ''b.org''] (sample_inbound ''gun'' []) sample_account [] sh
      = Inr ([sample_outbound (proxy_outbound_tag 0) ''gun'' ''a.org'' [(''network'', JStr ''gun'')],
          sample_outbound (proxy_outbound_tag (Suc 0)) ''gun'' ''b.org'' [(''network'', JStr ''gun'')]], sh)" for sh
      by (simp add: b)
    define os where "os = [sample_outbound (proxy_outbound_tag 0) ''gun'' ''a.org'' [(''network'', JStr ''gun'')],
          sample_outbound (proxy_outbound_tag (Suc 0)) ''gun'' ''b.org'' [(''network'', JStr ''gun'')]]"
    from t [of "''DE''" os] obtain d where d: "assemble_config (sample_conf env) ''DE'' os None = Inr d" "dget d ''routing'' = None" by blast
    from applied [OF d(2)] obtain d' where "apply_host_balancer d None None = Inr d'" ..
    with d(1) show ?thesis
      unfolding add_balanced_def sample_dialer by (simp add: tag_name_def outs [folded os_def] del: build_outbounds.simps)
  qed
  then obtain c' where c': "add_balanced env (\<lambda>n. sample_draw) (sample_conf env) ''DE'' [''a.org'', ''b.org''] (sample_inbound ''gun'' [])
      sample_account None None = Inr c'" ..
  from balanced_host_covers_addresses [OF c'] c' show ?thesis unfolding env_def by blast
qed

definition sample_endpoint :: endpoint where
  "sample_endpoint = \<lparr>ep_host_id = Some 2, ep_address = ''a.org'', ep_inbound = sample_inbound ''gun'' [], ep_settings = sample_account\<rparr>"


end
