(* ===== verification/Subscription.thy ===== *)
theory Subscription
  imports V2rayJson AddressHistory
begin

text \<open>
  app/subscription/host_candidates.py and the loop of app/subscription/share.py: from the hosts of the panel to
  the entries of one user's subscription. The candidates are the hosts the user may see; each becomes a stub, a
  plain entry, a balanced entry or a composition of other candidates. What a format does with an entry is its
  renderer's business: the result is the sequence of calls to the renderer (\<open>conf_call\<close>).

  Random choices and salts are functions of the place that draws them (purpose, inbound, host, position).
  \<open>str.format_map\<close> is modelled for plain field names; a field with an attribute, an index, a conversion or a
  format specification, with all that follows it, is handed to \<open>se_special\<close>. One call of
  \<open>compose_endpoints\<close> keeps the tags in use as the first components of what it selected.
\<close>

section \<open>Strings\<close>

definition plain_field :: "string \<Rightarrow> bool" where
  "plain_field f \<longleftrightarrow> set f \<inter> {CHR ''{'', CHR '':'', CHR ''!'', CHR ''.'', CHR ''[''} = {}"

function format_map :: "(string \<Rightarrow> string) \<Rightarrow> (string \<Rightarrow> string result) \<Rightarrow> string \<Rightarrow> string result" where
  "format_map value special s = (case s of
       [] \<Rightarrow> Inr []
     | c # r \<Rightarrow>
         if c = CHR ''{'' then
           (if r \<noteq> [] \<and> hd r = CHR ''{'' then bindE (format_map value special (tl r)) (\<lambda>t. Inr (CHR ''{'' # t))
            else let f = takeWhile (\<lambda>x. x \<noteq> CHR ''}'') r; rest = dropWhile (\<lambda>x. x \<noteq> CHR ''}'') r in
              if rest = [] then Inl (ValueError ''expected } before end of string'')
              else if \<not> plain_field f then special r
              else if \<forall>x \<in> set f. is_digit x then Inl (ValueError ''Format string contains positional fields'')
              else bindE (format_map value special (tl rest)) (\<lambda>t. Inr (value f @ t)))
         else if c = CHR ''}'' then
           (if r \<noteq> [] \<and> hd r = CHR ''}'' then bindE (format_map value special (tl r)) (\<lambda>t. Inr (CHR ''}'' # t))
            else Inl (ValueError ''Single } encountered in format string''))
         else bindE (format_map value special r) (\<lambda>t. Inr (c # t)))"
  by pat_completeness auto
termination
proof (relation "measure (\<lambda>(v, s, x). length x)", goal_cases)
  case (3 v sp s c r f rest)
  have "length rest \<le> length r" unfolding 3 by (rule length_dropWhile)
  with 3 show ?case by auto
qed auto

declare format_map.simps [simp del]

definition fill_star :: "string \<Rightarrow> string \<Rightarrow> string" where
  "fill_star salt s = concat (map (\<lambda>c. if c = CHR ''*'' then salt else [c]) s)"

section \<open>Hosts, candidates\<close>

text \<open>One entry of the cache \<open>xray.hosts\<close>.\<close>

record sub_host = inj_host +
  sh_address :: "string list"
  sh_node_ids :: "int list"
  sh_from_nodes :: bool
  sh_subset :: host_subset
  sh_balancing :: "obj option"
  sh_nodes_source :: string
  sh_port :: json
  sh_path :: "string option"
  sh_sni :: "string list"
  sh_host :: "string list"
  sh_alpn :: json
  sh_fp :: json
  sh_tls :: json
  sh_ais :: json
  sh_mux :: json
  sh_fragment :: json
  sh_noise :: json
  sh_finalmask :: json
  sh_rua :: json
  sh_sni_as_host :: json
  sh_bots :: "string list"
  sh_xhttp_extra :: json

record places =
  pl_pick :: "string \<Rightarrow> string \<Rightarrow> int \<Rightarrow> nat \<Rightarrow> nat"
  pl_salt :: "string \<Rightarrow> string \<Rightarrow> int \<Rightarrow> nat \<Rightarrow> string"

record sub_env =
  se_bot :: "string option"
  se_vars :: "(string \<times> string) list"
  se_special :: "string \<Rightarrow> string result"
  se_json :: bool
  se_template :: "sub_host \<Rightarrow> obj inj"
  se_blocked :: "int list"
  se_hasher :: hasher
  se_subset :: address_context
  se_inj :: inj_env
  se_places :: places

record candidate =
  cd_blocked :: bool
  cd_host :: sub_host
  cd_injection :: "host_injection option"
  cd_inbound :: obj
  cd_settings :: obj
  cd_config :: "int option"
  cd_remark :: string
  cd_balanced :: bool
  cd_addresses :: "string list"
  cd_address :: string
  cd_endpoints :: "endpoint list"

definition as_inj_host :: "sub_host \<Rightarrow> inj_host" where
  "as_inj_host h = inj_host.truncate h"

text \<open>\<open>BsContext.is_blocked\<close>\<close>

definition bs_is_blocked :: "int list \<Rightarrow> sub_host \<Rightarrow> bool" where
  "bs_is_blocked blocked h \<longleftrightarrow> (\<exists>n \<in> set (sh_node_ids h). n \<in> set blocked)"

fun str_list :: "json \<Rightarrow> string list result" where
  "str_list (JList xs) = mapE as_str xs"
| "str_list JNull = Inr []"
| "str_list _ = Inl (TypeError ''not a list of strings'')"

text \<open>\<open>host[k] or inbound[k]\<close>, one of them at random with its stars filled; nothing for the empty list.\<close>

definition pick_name :: "sub_env \<Rightarrow> string \<Rightarrow> string \<Rightarrow> sub_host \<Rightarrow> string list \<Rightarrow> obj \<Rightarrow> string result" where
  "pick_name env purpose tag h own inb =
     bindE (if own \<noteq> [] then Inr own else bindE (jindex inb purpose) str_list) (\<lambda>names.
       if names = [] then Inr []
       else bindE (choice (pl_pick (se_places env) purpose tag (ih_id h)) names) (\<lambda>x.
         Inr (fill_star (pl_salt (se_places env) purpose tag (ih_id h) 0) x)))"

definition or_json :: "json \<Rightarrow> json \<Rightarrow> json" where
  "or_json v w = (if truthy v then v else w)"

definition fill_all :: "sub_env \<Rightarrow> string \<Rightarrow> string \<Rightarrow> sub_host \<Rightarrow> (string \<Rightarrow> string result) \<Rightarrow> string list \<Rightarrow> string list result" where
  "fill_all env purpose tag h fmt addrs =
     mapE (\<lambda>(i, a). fmt (fill_star (pl_salt (se_places env) purpose tag (ih_id h) i) a)) (zip [0..<length addrs] addrs)"

text \<open>The inbound of one host: the panel's inbound with the host's settings over it.\<close>

definition host_inbound :: "obj \<Rightarrow> obj \<Rightarrow> sub_host \<Rightarrow> string \<Rightarrow> string \<Rightarrow> string \<Rightarrow> obj result" where
  "host_inbound base inb h sni req_host path =
     bindE (if truthy (sh_port h) then Inr (sh_port h) else jindex inb ''port'') (\<lambda>port.
     bindE (if sh_tls h = JNull then jindex inb ''tls'' else Inr (sh_tls h)) (\<lambda>tls.
       Inr (fold (\<lambda>(k, v) d. dput k v d)
         [(''port'', port), (''sni'', JStr sni), (''host'', JStr req_host), (''tls'', tls),
          (''alpn'', if truthy (sh_alpn h) then sh_alpn h else JNull), (''path'', JStr path),
          (''fp'', or_json (sh_fp h) (dget_or inb ''fp'' (JStr []))), (''ais'', or_json (sh_ais h) (dget_or inb ''allowinsecure'' (JStr []))),
          (''mux_enable'', sh_mux h), (''fragment_setting'', sh_fragment h), (''noise_setting'', sh_noise h),
          (''finalmask'', sh_finalmask h), (''random_user_agent'', sh_rua h),
          (''xhttp_extra'', or_json (sh_xhttp_extra h) (jget inb ''xhttp_extra''))] base)))"

text \<open>The addresses of the host this user gets.\<close>

definition user_addresses :: "sub_env \<Rightarrow> sub_host \<Rightarrow> host_injection option \<Rightarrow> string list" where
  "user_addresses env h injection =
     (if sh_address h \<noteq> [] \<and> injection = None
      then ctx_pick (se_hasher env) (se_subset env) (sh_address h) (sh_node_ids h) (sh_from_nodes h) (Some (ih_id h))
             (settings_from_host (sh_subset h))
      else sh_address h)"

definition candidate_of :: "sub_env \<Rightarrow> (string \<Rightarrow> string result) \<Rightarrow> string \<Rightarrow> obj \<Rightarrow> obj \<Rightarrow> sub_host \<Rightarrow> host_injection option \<Rightarrow> candidate result" where
  "candidate_of env fmt tag inb settings h injection =
     bindE (pick_name env ''sni'' tag h (sh_sni h) inb) (\<lambda>sni.
     bindE (let sids = jget inb ''sids'' in if truthy sids then bindE (as_list sids) (\<lambda>xs.
              bindE (choice (pl_pick (se_places env) ''sid'' tag (ih_id h)) xs) (\<lambda>x. Inr (dput ''sid'' x inb))) else Inr inb) (\<lambda>base.
     bindE (pick_name env ''host'' tag h (sh_host h) inb) (\<lambda>req_host0.
     let addrs = user_addresses env h injection;
         balanced = (se_json env \<and> addrs \<noteq> [] \<and> (length addrs > 1 \<or> sh_balancing h \<noteq> None)) in
     bindE (if addrs \<noteq> [] \<and> \<not> balanced then bindE (choice (pl_pick (se_places env) ''address'' tag (ih_id h)) addrs) (\<lambda>a.
              Inr (fill_star (pl_salt (se_places env) ''address'' tag (ih_id h) 0) a)) else Inr []) (\<lambda>address0.
     bindE (case sh_path h of Some p \<Rightarrow> fmt p | None \<Rightarrow> bindE (as_str (dget_or inb ''path'' (JStr []))) fmt) (\<lambda>path.
     let req_host = (if truthy (sh_sni_as_host h) \<and> sni \<noteq> [] then sni else req_host0) in
     bindE (host_inbound base inb h sni req_host path) (\<lambda>hin.
     bindE (fmt (ih_remark h)) (\<lambda>remark.
     bindE (if balanced then fill_all env ''addresses'' tag h fmt addrs else Inr []) (\<lambda>addresses.
     bindE (if balanced then Inr [] else fmt address0) (\<lambda>address.
     bindE (if injection \<noteq> None then fill_all env ''endpoints'' tag h fmt addrs
            else Inr (if balanced then addresses else [address])) (\<lambda>resolved.
       Inr \<lparr>cd_blocked = bs_is_blocked (se_blocked env) h, cd_host = h, cd_injection = injection, cd_inbound = hin,
         cd_settings = settings, cd_config = (if se_json env then ih_config h else None), cd_remark = remark,
         cd_balanced = balanced, cd_addresses = addresses, cd_address = address,
         cd_endpoints = map (\<lambda>a. \<lparr>ep_host_id = Some (ih_id h), ep_address = a, ep_inbound = hin, ep_settings = settings\<rparr>)
           (filter (\<lambda>a. a \<noteq> []) resolved)\<rparr>))))))))))"

text \<open>One host: not of this bot, disabled, an invalid composition or an entry pool without addresses gives nothing.\<close>

definition host_candidate :: "sub_env \<Rightarrow> (string \<Rightarrow> string result) \<Rightarrow> string \<Rightarrow> obj \<Rightarrow> obj \<Rightarrow> sub_host \<Rightarrow> candidate option result" where
  "host_candidate env fmt tag inb settings h =
     (if \<not> host_allowed_for_bot (sh_bots h) (se_bot env) then Inr None
      else if ih_disabled h then Inr None
      else case (case se_template env h of Inl e \<Rightarrow> Inl e | Inr t \<Rightarrow> resolve_host_injection (se_inj env) (ih_injection h) t) of
          Inl e \<Rightarrow> Inr None
        | Inr injection \<Rightarrow>
            if injection = None \<and> sh_nodes_source h = ''selected'' \<and> sh_address h = [] then
              bindE (pick_name env ''sni'' tag h (sh_sni h) inb) (\<lambda>_. bindE (pick_name env ''host'' tag h (sh_host h) inb) (\<lambda>_. Inr None))
            else bindE (candidate_of env fmt tag inb settings h injection) (\<lambda>c. Inr (Some c)))"

definition index_in :: "(string \<times> obj) list \<Rightarrow> string \<Rightarrow> nat" where
  "index_in inbounds_by_tag tag = length (takeWhile (\<lambda>p. fst p \<noteq> tag) inbounds_by_tag)"

definition ordered_inbounds :: "(string \<times> string list) list \<Rightarrow> (string \<times> obj) list \<Rightarrow> (string \<times> string) list" where
  "ordered_inbounds inbounds by_tag =
     sort_key (\<lambda>p. index_in by_tag (snd p)) (concat (map (\<lambda>(protocol, tags). map (\<lambda>t. (protocol, t)) tags) inbounds))"

definition tag_candidates :: "sub_env \<Rightarrow> (string \<times> obj) list \<Rightarrow> (string \<times> obj) list \<Rightarrow> (string \<times> sub_host list) list \<Rightarrow>
    string \<times> string \<Rightarrow> candidate list result" where
  "tag_candidates env proxies by_tag hosts_by_tag pt =
     (case dget proxies (fst pt) of
        None \<Rightarrow> Inr []
      | Some settings \<Rightarrow>
          (let inb = dget_or by_tag (snd pt) [] in
           if inb = [] then Inr []
           else bindE (bindE (jindex inb ''network'') as_str) (\<lambda>net.
             let vars = dput ''TRANSPORT'' net (dput ''PROTOCOL'' (fst pt) (se_vars env));
                 fmt = format_map (\<lambda>f. dget_or vars f ''<missing>'') (se_special env) in
             bindE (mapE (host_candidate env fmt (snd pt) inb settings) (dget_or hosts_by_tag (snd pt) [])) (\<lambda>cs.
               Inr (List.map_filter (\<lambda>c. c) cs)))))"

definition prepare_candidates :: "sub_env \<Rightarrow> (string \<times> string list) list \<Rightarrow> (string \<times> obj) list \<Rightarrow> (string \<times> obj) list \<Rightarrow>
    (string \<times> sub_host list) list \<Rightarrow> candidate list result" where
  "prepare_candidates env inbounds proxies by_tag hosts_by_tag =
     bindE (mapE (tag_candidates env proxies by_tag hosts_by_tag) (ordered_inbounds inbounds by_tag)) (\<lambda>css. Inr (concat css))"

section \<open>compose_endpoints\<close>

record composition =
  cp_selected :: "(string \<times> endpoint) list"
  cp_counts :: "(string \<times> nat) list"
  cp_has_bs :: bool
  cp_blocked :: bool
  cp_unavailable :: bool

definition empty_composition :: composition where
  "empty_composition = \<lparr>cp_selected = [], cp_counts = [], cp_has_bs = False, cp_blocked = False, cp_unavailable = False\<rparr>"

definition numbered :: "string \<Rightarrow> nat \<Rightarrow> string" where
  "numbered s n = (if n = 1 then s else s @ ''-'' @ nat_str n)"

fun add_endpoints :: "string option \<Rightarrow> string \<Rightarrow> nat \<Rightarrow> endpoint list \<Rightarrow> composition \<Rightarrow> composition inj" where
  "add_endpoints pre name index [] st = Inr st"
| "add_endpoints pre name index (e # es) st =
     (let st1 = (case pre of None \<Rightarrow> st | Some p \<Rightarrow> st\<lparr>cp_counts := dput p (dget_or (cp_counts st) p 0 + 1) (cp_counts st)\<rparr>);
          tag = (case pre of None \<Rightarrow> numbered name (Suc index) | Some p \<Rightarrow> numbered p (dget_or (cp_counts st1) p 0)) in
      if strip tag = [] \<or> tag \<in> set (map fst (cp_selected st1)) then Inl (InjectionError ''outbound_tag_collision'')
      else
        (let st2 = st1\<lparr>cp_selected := cp_selected st1 @ [(tag, e)]\<rparr> in
         if length (cp_selected st2) > MAX_ENDPOINTS then Inl (InjectionError ''too_many_endpoints'')
         else add_endpoints pre name (Suc index) es st2))"

definition add_source :: "candidate \<Rightarrow> string option \<Rightarrow> string \<Rightarrow> composition \<Rightarrow> composition inj" where
  "add_source item pre name st =
     (if cd_blocked item then Inr (st\<lparr>cp_blocked := True\<rparr>)
      else if cd_endpoints item = [] then Inr (st\<lparr>cp_unavailable := True\<rparr>)
      else add_endpoints pre name 0 (cd_endpoints item) (st\<lparr>cp_has_bs := cp_has_bs st \<or> ih_is_bs (cd_host item)\<rparr>))"

definition purely_virtual :: "candidate \<Rightarrow> bool" where
  "purely_virtual c \<longleftrightarrow> (case cd_injection c of None \<Rightarrow> False | Some i \<Rightarrow> \<not> inj_virtual i)"

text \<open>The hosts selected by one group; \<open>by_id\<close> finds every one of them, the last branch is never taken.\<close>

fun add_hosts :: "injection_group \<Rightarrow> (int \<Rightarrow> candidate option) \<Rightarrow> inj_host list \<Rightarrow> composition \<Rightarrow> composition inj" where
  "add_hosts g by_id [] st = Inr st"
| "add_hosts g by_id (h # hs) st =
     (case by_id (ih_id h) of
        None \<Rightarrow> Inl OtherValueError
      | Some item \<Rightarrow>
          if purely_virtual item then add_hosts g by_id hs st
          else (case add_source item (g_tag_prefix g) (if g_tag_as_tag g \<and> ih_group_tag h \<noteq> [] then ih_group_tag h else ih_remark h) st of
                  Inl e \<Rightarrow> Inl e | Inr st' \<Rightarrow> add_hosts g by_id hs st'))"

fun inject_groups :: "inj_env \<Rightarrow> recipient \<Rightarrow> inj_host list \<Rightarrow> (int \<Rightarrow> candidate option) \<Rightarrow> rat \<Rightarrow> injection_group list \<Rightarrow> string list \<Rightarrow>
    composition \<Rightarrow> nat \<Rightarrow> composition inj \<times> nat" where
  "inject_groups env r catalog by_id deadline [] seen st n = (Inr st, n)"
| "inject_groups env r catalog by_id deadline (g # gs) seen st n =
     (if (case g_tag_prefix g of None \<Rightarrow> False | Some p \<Rightarrow> p \<in> set seen) then (Inl (InjectionError ''duplicate_group_prefix''), n)
      else case select_injected_hosts env g r catalog deadline n of
          (Inl e, m) \<Rightarrow> (Inl e, m)
        | (Inr hosts, m) \<Rightarrow> (case add_hosts g by_id hosts st of
              Inl e \<Rightarrow> (Inl e, m)
            | Inr st' \<Rightarrow> inject_groups env r catalog by_id deadline gs (case g_tag_prefix g of None \<Rightarrow> seen | Some p \<Rightarrow> p # seen) st' m))"

definition as_recipient :: "candidate \<Rightarrow> recipient" where
  "as_recipient c = \<lparr>rc_id = Some (ih_id (cd_host c)), rc_host = as_inj_host (cd_host c)\<rparr>"

definition compose_endpoints :: "inj_env \<Rightarrow> candidate \<Rightarrow> host_injection \<Rightarrow> candidate list \<Rightarrow> nat \<Rightarrow>
    ((string \<times> endpoint) list \<times> bool \<times> bool) inj \<times> nat" where
  "compose_endpoints env r injection candidates n =
     (let deadline = ie_clock env n + SELECTION_SECONDS;
          by_id = map_of (rev (map (\<lambda>c. (ih_id (cd_host c), c)) candidates));
          catalog = map (\<lambda>c. as_inj_host (cd_host c)) candidates in
      case (if inj_virtual injection then add_source r (Some ''proxy'') [] empty_composition else Inr empty_composition) of
        Inl e \<Rightarrow> (Inl e, Suc n)
      | Inr st \<Rightarrow> (case inject_groups env (as_recipient r) catalog by_id deadline (inj_hosts injection) [] st (Suc n) of
            (Inl e, m) \<Rightarrow> (Inl e, m)
          | (Inr st', m) \<Rightarrow> (Inr (cp_selected st', cp_has_bs st', cp_blocked st' \<and> \<not> cp_unavailable st'), m)))"

section \<open>process_inbounds_and_tags\<close>

datatype conf_call =
    CallAdd string string obj obj "int option"
  | CallBalanced string "string list" "obj option" obj obj "int option"
  | CallComposed string "(string \<times> endpoint) list" "int option" "obj option"
  | CallBlocked string

record stub =
  st_address :: string
  st_port :: int
  st_text :: string

definition ZERO_STUB :: "string \<Rightarrow> stub" where
  "ZERO_STUB t = \<lparr>st_address = ''0.0.0.0'', st_port = 0, st_text = t\<rparr>"

definition with_bs_label :: "string option \<Rightarrow> string \<Rightarrow> bool \<Rightarrow> string" where
  "with_bs_label label remark is_bs = (case label of None \<Rightarrow> remark | Some l \<Rightarrow> if is_bs then remark @ l else remark)"

text \<open>One candidate of the loop: the calls it makes, and the clock readings after it.\<close>

definition process_candidate :: "sub_env \<Rightarrow> stub \<Rightarrow> string option \<Rightarrow> candidate list \<Rightarrow> candidate \<Rightarrow> nat \<Rightarrow> conf_call list \<times> nat" where
  "process_candidate env sb label candidates item n =
     (if ih_hidden (cd_host item) then ([], n)
      else case cd_injection item of
          Some injection \<Rightarrow>
            if \<not> se_json env then ([], n)
            else (case compose_endpoints (se_inj env) item injection candidates n of
                (Inl e, m) \<Rightarrow> ([], m)
              | (Inr (endpoints, is_bs, all_blocked), m) \<Rightarrow>
                  (if endpoints = [] then (if all_blocked then [CallBlocked (st_text sb)] else [])
                   else [CallComposed (with_bs_label label (cd_remark item) is_bs) endpoints (ih_config (cd_host item))
                           (sh_balancing (cd_host item))], m))
        | None \<Rightarrow>
            if cd_blocked item then
              ([CallAdd (st_text sb) (st_address sb) (dput ''port'' (JInt (st_port sb)) (cd_inbound item)) (cd_settings item) None], n)
            else
              (let remark = with_bs_label label (cd_remark item) (ih_is_bs (cd_host item)) in
               if cd_balanced item \<and> se_json env
               then ([CallBalanced remark (cd_addresses item) (sh_balancing (cd_host item)) (cd_inbound item) (cd_settings item) (cd_config item)], n)
               else ([CallAdd remark (cd_address item) (cd_inbound item) (cd_settings item) (cd_config item)], n)))"

fun process_all :: "sub_env \<Rightarrow> stub \<Rightarrow> string option \<Rightarrow> candidate list \<Rightarrow> candidate list \<Rightarrow> nat \<Rightarrow> conf_call list" where
  "process_all env sb label candidates [] n = []"
| "process_all env sb label candidates (item # items) n =
     (case process_candidate env sb label candidates item n of
        (calls, m) \<Rightarrow> calls @ process_all env sb label candidates items m)"

definition process_inbounds_and_tags :: "sub_env \<Rightarrow> stub \<Rightarrow> string option \<Rightarrow> (string \<times> string list) list \<Rightarrow> (string \<times> obj) list \<Rightarrow>
    (string \<times> obj) list \<Rightarrow> (string \<times> sub_host list) list \<Rightarrow> nat \<Rightarrow> conf_call list result" where
  "process_inbounds_and_tags env sb label inbounds proxies by_tag hosts_by_tag n =
     bindE (prepare_candidates env inbounds proxies by_tag hosts_by_tag) (\<lambda>cs.
       let sorted = sort_key (\<lambda>c. or0 (ih_order (cd_host c))) cs in
       Inr (process_all env sb label sorted sorted n))"

section \<open>What a composition contains\<close>

text \<open>The invariant of the composition under construction: \<open>P\<close> holds of every endpoint.\<close>

definition comp_ok :: "(endpoint \<Rightarrow> bool) \<Rightarrow> composition \<Rightarrow> bool" where
  "comp_ok P st \<longleftrightarrow> distinct (map fst (cp_selected st)) \<and> length (cp_selected st) \<le> MAX_ENDPOINTS
     \<and> (\<forall>(t, e) \<in> set (cp_selected st). strip t \<noteq> [] \<and> P e)"

lemma comp_ok_empty [simp]: "comp_ok P empty_composition"
  by (simp add: comp_ok_def empty_composition_def)

lemma comp_ok_flags [simp]:
  "comp_ok P (st\<lparr>cp_counts := c\<rparr>) = comp_ok P st" "comp_ok P (st\<lparr>cp_has_bs := b\<rparr>) = comp_ok P st"
  "comp_ok P (st\<lparr>cp_blocked := b\<rparr>) = comp_ok P st" "comp_ok P (st\<lparr>cp_unavailable := b\<rparr>) = comp_ok P st"
  by (simp_all add: comp_ok_def)

lemma add_endpoints_ok:
  assumes "add_endpoints pre name i es st = Inr st'" and "comp_ok P st" and "\<forall>e \<in> set es. P e"
  shows "comp_ok P st'"
  using assms
proof (induction es arbitrary: i st)
  case (Cons e es)
  define st1 where "st1 = (case pre of None \<Rightarrow> st | Some p \<Rightarrow> st\<lparr>cp_counts := dput p (dget_or (cp_counts st) p 0 + 1) (cp_counts st)\<rparr>)"
  define tag where "tag = (case pre of None \<Rightarrow> numbered name (Suc i) | Some p \<Rightarrow> numbered p (dget_or (cp_counts st1) p 0))"
  define st2 where "st2 = st1\<lparr>cp_selected := cp_selected st1 @ [(tag, e)]\<rparr>"
  from Cons.prems(1) have step: "(if strip tag = [] \<or> tag \<in> set (map fst (cp_selected st1)) then Inl (InjectionError ''outbound_tag_collision'')
      else if length (cp_selected st2) > MAX_ENDPOINTS then Inl (InjectionError ''too_many_endpoints'')
      else add_endpoints pre name (Suc i) es st2) = Inr st'"
    unfolding st2_def tag_def st1_def by (simp only: add_endpoints.simps Let_def)
  then have fresh: "strip tag \<noteq> []" "tag \<notin> set (map fst (cp_selected st1))" "length (cp_selected st2) \<le> MAX_ENDPOINTS"
    and rest: "add_endpoints pre name (Suc i) es st2 = Inr st'" by (auto split: if_splits)
  from Cons.prems(2) have "comp_ok P st1" by (simp add: st1_def split: option.split)
  with fresh Cons.prems(3) have "comp_ok P st2" by (auto simp: comp_ok_def st2_def)
  with Cons.IH [OF rest] Cons.prems(3) show ?case by simp
qed simp

lemma add_source_ok:
  assumes "add_source c pre name st = Inr st'" and "comp_ok P st" and "\<not> cd_blocked c \<Longrightarrow> \<forall>e \<in> set (cd_endpoints c). P e"
  shows "comp_ok P st'"
  using assms by (auto simp: add_source_def split: if_splits intro: add_endpoints_ok)

lemma add_hosts_ok:
  assumes "add_hosts g by_id hs st = Inr st'" and "comp_ok P st"
    and "\<And>h c e. h \<in> set hs \<Longrightarrow> by_id (ih_id h) = Some c \<Longrightarrow> \<not> cd_blocked c \<Longrightarrow> \<not> purely_virtual c \<Longrightarrow> e \<in> set (cd_endpoints c) \<Longrightarrow> P e"
  shows "comp_ok P st'"
  using assms
proof (induction hs arbitrary: st)
  case (Cons h hs)
  then obtain c where c: "by_id (ih_id h) = Some c" by (auto split: option.splits)
  show ?case
  proof (cases "purely_virtual c")
    case True
    with Cons.prems(1) c have "add_hosts g by_id hs st = Inr st'" by simp
    from Cons.IH [OF this Cons.prems(2)] Cons.prems(3) show ?thesis by (meson list.set_intros(2))
  next
    case False
    with Cons.prems(1) c obtain st1 where st1: "add_source c (g_tag_prefix g) (if g_tag_as_tag g \<and> ih_group_tag h \<noteq> [] then ih_group_tag h else ih_remark h) st = Inr st1"
      and rest: "add_hosts g by_id hs st1 = Inr st'" by (auto split: sum.splits)
    have "comp_ok P st1"
      by (rule add_source_ok [OF st1 Cons.prems(2)]) (use Cons.prems(3) [of h c] c False in auto)
    from Cons.IH [OF rest this] Cons.prems(3) show ?thesis by (meson list.set_intros(2))
  qed
qed simp

lemma inject_groups_ok:
  assumes "inject_groups env r catalog by_id dl gs seen st n = (Inr st', m)" and "comp_ok P st"
    and "\<And>g h c e. h \<in> set catalog \<Longrightarrow> selectable g r h \<Longrightarrow> by_id (ih_id h) = Some c \<Longrightarrow> \<not> cd_blocked c \<Longrightarrow> \<not> purely_virtual c
      \<Longrightarrow> e \<in> set (cd_endpoints c) \<Longrightarrow> P e"
  shows "comp_ok P st'"
  using assms(1,2)
proof (induction gs arbitrary: seen st n)
  case (Cons g gs)
  then obtain hosts k st1 where sel: "select_injected_hosts env g r catalog dl n = (Inr hosts, k)"
    and st1: "add_hosts g by_id hosts st = Inr st1"
    and rest: "inject_groups env r catalog by_id dl gs (case g_tag_prefix g of None \<Rightarrow> seen | Some p \<Rightarrow> p # seen) st1 k = (Inr st', m)"
    by (auto split: if_splits prod.splits sum.splits)
  have "comp_ok P st1"
  proof (rule add_hosts_ok [OF st1 Cons.prems(2)])
    fix h c e
    assume "h \<in> set hosts" and c: "by_id (ih_id h) = Some c" "\<not> cd_blocked c" "\<not> purely_virtual c" "e \<in> set (cd_endpoints c)"
    with selection_is_admissible [OF sel] have "h \<in> set catalog" "selectable g r h" by auto
    then show "P e" using c by (rule assms(3))
  qed
  with Cons.IH [OF rest] show ?case .
qed simp


section \<open>Who gets what\<close>

text \<open>A candidate comes from a host of one of the user's inbounds whose protocol the user has an account for, bound to the
  user's bot and enabled.\<close>

definition entitled :: "sub_env \<Rightarrow> (string \<times> string list) list \<Rightarrow> (string \<times> obj) list \<Rightarrow> (string \<times> sub_host list) list \<Rightarrow> candidate \<Rightarrow> bool" where
  "entitled env inbounds proxies hosts_by_tag c \<longleftrightarrow>
     host_allowed_for_bot (sh_bots (cd_host c)) (se_bot env) \<and> \<not> ih_disabled (cd_host c)
     \<and> cd_blocked c = bs_is_blocked (se_blocked env) (cd_host c)
     \<and> (\<exists>protocol tags tag settings. (protocol, tags) \<in> set inbounds \<and> tag \<in> set tags \<and> dget proxies protocol = Some settings
         \<and> cd_settings c = settings \<and> cd_host c \<in> set (dget_or hosts_by_tag tag []))"

lemma mapE_members: "mapE f xs = Inr ys \<Longrightarrow> y \<in> set ys \<Longrightarrow> \<exists>x \<in> set xs. f x = Inr y"
  by (induction xs arbitrary: ys) (auto simp: bindE_Inr_iff)

lemma candidate_of_fields:
  assumes "candidate_of env fmt tag inb settings h injection = Inr c"
  shows "cd_host c = h \<and> cd_settings c = settings \<and> cd_injection c = injection \<and> cd_blocked c = bs_is_blocked (se_blocked env) h"
  using assms unfolding candidate_of_def Let_def bindE_Inr_iff by (elim exE conjE) clarsimp

lemma host_candidate_some:
  assumes "host_candidate env fmt tag inb settings h = Inr (Some c)"
  shows "cd_host c = h \<and> cd_settings c = settings \<and> cd_blocked c = bs_is_blocked (se_blocked env) h
    \<and> host_allowed_for_bot (sh_bots h) (se_bot env) \<and> \<not> ih_disabled h"
proof -
  from assms have ok: "host_allowed_for_bot (sh_bots h) (se_bot env)" "\<not> ih_disabled h"
    by (auto simp: host_candidate_def split: if_splits)
  with assms obtain injection where "candidate_of env fmt tag inb settings h injection = Inr c"
    by (auto simp: host_candidate_def bindE_Inr_iff split: sum.splits if_splits)
  from candidate_of_fields [OF this] ok show ?thesis by simp
qed

lemma ordered_inbounds_mem: "(protocol, tag) \<in> set (ordered_inbounds inbounds by_tag) \<Longrightarrow> \<exists>tags. (protocol, tags) \<in> set inbounds \<and> tag \<in> set tags"
  by (auto simp: ordered_inbounds_def)

lemma prepare_entitled:
  assumes "prepare_candidates env inbounds proxies by_tag hosts_by_tag = Inr cs" and "c \<in> set cs"
  shows "entitled env inbounds proxies hosts_by_tag c"
proof -
  from assms obtain css where css: "mapE (tag_candidates env proxies by_tag hosts_by_tag) (ordered_inbounds inbounds by_tag) = Inr css"
    and cs: "cs = concat css" by (auto simp: prepare_candidates_def bindE_Inr_iff)
  from assms(2) cs obtain ds where "ds \<in> set css" and c: "c \<in> set ds" by auto
  with mapE_members [OF css] obtain protocol tag where mem: "(protocol, tag) \<in> set (ordered_inbounds inbounds by_tag)"
    and tc: "tag_candidates env proxies by_tag hosts_by_tag (protocol, tag) = Inr ds" by fastforce
  from tc c obtain settings where settings: "dget proxies protocol = Some settings" by (auto simp: tag_candidates_def split: option.splits)
  with tc c obtain fmt os where os: "mapE (host_candidate env fmt tag (dget_or by_tag tag []) settings) (dget_or hosts_by_tag tag []) = Inr os"
    and ds: "ds = List.map_filter (\<lambda>c. c) os"
    by (auto simp: tag_candidates_def bindE_Inr_iff Let_def split: if_splits)
  from c ds have "Some c \<in> set os" by (simp add: set_map_filter)
  with mapE_members [OF os] obtain h where h: "h \<in> set (dget_or hosts_by_tag tag [])"
    and hc: "host_candidate env fmt tag (dget_or by_tag tag []) settings h = Inr (Some c)" by blast
  from ordered_inbounds_mem [OF mem] obtain tags where "(protocol, tags) \<in> set inbounds" "tag \<in> set tags" by blast
  with host_candidate_some [OF hc] h settings show ?thesis unfolding entitled_def by blast
qed

text \<open>The addresses a call gives away, apart from the stub.\<close>

definition call_served :: "stub \<Rightarrow> candidate list \<Rightarrow> conf_call \<Rightarrow> bool" where
  "call_served sb cs call \<longleftrightarrow> (case call of
       CallBlocked t \<Rightarrow> t = st_text sb
     | CallAdd remark address inb settings cfg \<Rightarrow>
         (remark = st_text sb \<and> address = st_address sb \<and> jget inb ''port'' = JInt (st_port sb))
         \<or> (\<exists>c \<in> set cs. \<not> cd_blocked c \<and> \<not> ih_hidden (cd_host c) \<and> address = cd_address c \<and> inb = cd_inbound c)
     | CallBalanced remark addresses balancing inb settings cfg \<Rightarrow>
         (\<exists>c \<in> set cs. \<not> cd_blocked c \<and> \<not> ih_hidden (cd_host c) \<and> addresses = cd_addresses c \<and> inb = cd_inbound c)
     | CallComposed remark endpoints cfg balancing \<Rightarrow>
         (\<forall>(t, e) \<in> set endpoints. \<exists>c \<in> set cs. \<not> cd_blocked c \<and> e \<in> set (cd_endpoints c)))"

lemma composition_endpoints:
  assumes "compose_endpoints env r injection cs n = (Inr (selected, has_bs, all_blocked), m)" and "r \<in> set cs"
    and "\<forall>c \<in> set cs. \<not> ih_disabled (cd_host c)"
  shows "\<forall>(t, e) \<in> set selected. \<exists>c \<in> set cs. \<not> cd_blocked c \<and> e \<in> set (cd_endpoints c)"
proof -
  define P where "P e \<longleftrightarrow> (\<exists>c \<in> set cs. \<not> cd_blocked c \<and> e \<in> set (cd_endpoints c))" for e
  define by_id where "by_id = map_of (rev (map (\<lambda>c. (ih_id (cd_host c), c)) cs))"
  define catalog where "catalog = map (\<lambda>c. as_inj_host (cd_host c)) cs"
  from assms(1) obtain st st' where st: "(if inj_virtual injection then add_source r (Some ''proxy'') [] empty_composition else Inr empty_composition) = Inr st"
    and st': "inject_groups env (as_recipient r) catalog by_id (ie_clock env n + SELECTION_SECONDS) (inj_hosts injection) [] st (Suc n) = (Inr st', m)"
    and selected: "selected = cp_selected st'"
    by (auto simp: compose_endpoints_def by_id_def catalog_def Let_def split: sum.splits prod.splits)
  have "comp_ok P st"
  proof (cases "inj_virtual injection")
    case True
    with st have "add_source r (Some ''proxy'') [] empty_composition = Inr st" by simp
    then show ?thesis by (rule add_source_ok) (use assms(2) in \<open>auto simp: P_def\<close>)
  qed (use st in simp)
  then have "comp_ok P st'"
    by (rule inject_groups_ok [OF st']) (auto simp: P_def by_id_def dest!: map_of_SomeD)
  then show ?thesis unfolding comp_ok_def P_def selected by auto
qed

lemma process_candidate_served:
  assumes "process_candidate env sb label cs item n = (calls, m)" and "item \<in> set cs" and "\<forall>c \<in> set cs. \<not> ih_disabled (cd_host c)"
    and "call \<in> set calls"
  shows "call_served sb cs call"
proof (cases "cd_injection item")
  case None
  with assms show ?thesis
    by (auto simp: process_candidate_def call_served_def Let_def split: if_splits)
next
  case (Some injection)
  obtain res k where res: "compose_endpoints (se_inj env) item injection cs n = (res, k)" by force
  show ?thesis
  proof (cases res)
    case (Inl e)
    with assms(1,4) Some res show ?thesis by (auto simp: process_candidate_def split: if_splits)
  next
    case (Inr x)
    obtain endpoints is_bs all_blocked where x: "x = (endpoints, is_bs, all_blocked)" by (cases x) auto
    from composition_endpoints [OF res [unfolded Inr x] assms(2,3)] assms(1,4) Some res Inr x show ?thesis
      by (auto simp: process_candidate_def call_served_def split: if_splits)
  qed
qed

lemma process_all_served:
  "call \<in> set (process_all env sb label cs items n) \<Longrightarrow> set items \<subseteq> set cs \<Longrightarrow> \<forall>c \<in> set cs. \<not> ih_disabled (cd_host c) \<Longrightarrow>
   call_served sb cs call"
proof (induction items arbitrary: n)
  case (Cons item items)
  obtain calls m where "process_candidate env sb label cs item n = (calls, m)" by force
  with Cons process_candidate_served [of env sb label cs item n calls m call] show ?case by auto
qed simp


section \<open>A subscription without compositions\<close>

text \<open>The one entry of a candidate that is no composition.\<close>

definition entry_of :: "sub_env \<Rightarrow> stub \<Rightarrow> string option \<Rightarrow> candidate \<Rightarrow> conf_call" where
  "entry_of env sb label c =
     (if cd_blocked c then CallAdd (st_text sb) (st_address sb) (dput ''port'' (JInt (st_port sb)) (cd_inbound c)) (cd_settings c) None
      else let remark = with_bs_label label (cd_remark c) (ih_is_bs (cd_host c)) in
        if cd_balanced c \<and> se_json env
        then CallBalanced remark (cd_addresses c) (sh_balancing (cd_host c)) (cd_inbound c) (cd_settings c) (cd_config c)
        else CallAdd remark (cd_address c) (cd_inbound c) (cd_settings c) (cd_config c))"

lemma process_all_plain:
  "\<forall>c \<in> set items. cd_injection c = None \<Longrightarrow>
   process_all env sb label cs items n = map (entry_of env sb label) (filter (\<lambda>c. \<not> ih_hidden (cd_host c)) items)"
  by (induction items arbitrary: n) (auto simp: process_candidate_def entry_of_def Let_def)

text \<open>Where no host is a composition, a subscription is one entry per visible candidate in the order of the hosts, a
  stub for each blocked one: a blocked host keeps its place, and the clock plays no part.\<close>

theorem plain_subscription_one_entry_per_host:
  assumes "prepare_candidates env inbounds proxies by_tag hosts_by_tag = Inr cs" and "\<forall>c \<in> set cs. cd_injection c = None"
  shows "process_inbounds_and_tags env sb label inbounds proxies by_tag hosts_by_tag n =
    Inr (map (entry_of env sb label) (filter (\<lambda>c. \<not> ih_hidden (cd_host c)) (sort_key (\<lambda>c. or0 (ih_order (cd_host c))) cs)))"
  using assms by (simp add: process_inbounds_and_tags_def Let_def process_all_plain)

section \<open>Examples\<close>

definition sample_sub_env :: sub_env where
  "sample_sub_env = \<lparr>se_bot = Some ''shop'', se_vars = [(''USERNAME'', ''ann'')], se_special = (\<lambda>s. Inr s), se_json = False,
     se_template = (\<lambda>h. Inr []), se_blocked = [], se_hasher = sample_hasher, se_subset = disabled_context, se_inj = sample_env,
     se_places = \<lparr>pl_pick = (\<lambda>p t h n. 0), pl_salt = (\<lambda>p t h i. ''s'')\<rparr>\<rparr>"

definition sample_sub_host :: "int \<Rightarrow> sub_host" where
  "sample_sub_host i = inj_host.extend (sample_host i)
     \<lparr>sh_address = [''a.org''], sh_node_ids = [7], sh_from_nodes = False,
       sh_subset = \<lparr>hs_enabled = False, hs_size = None, hs_rotation_days = None\<rparr>, sh_balancing = None, sh_nodes_source = ''host'',
       sh_port = JInt 443, sh_path = Some ''/p'', sh_sni = [''s''], sh_host = [''h''], sh_alpn = JNull, sh_fp = JNull, sh_tls = JStr ''tls'',
       sh_ais = JNull, sh_mux = JNull, sh_fragment = JNull, sh_noise = JNull, sh_finalmask = JNull, sh_rua = JNull,
       sh_sni_as_host = JNull, sh_bots = [''shop''], sh_xhttp_extra = JNull\<rparr>"

definition sample_by_tag :: "(string \<times> obj) list" where
  "sample_by_tag = [(''in'', [(''network'', JStr ''tcp'')])]"

lemma format_map_plain: "\<forall>c \<in> set s. c \<noteq> CHR ''{'' \<and> c \<noteq> CHR ''}'' \<Longrightarrow> format_map value special s = Inr s"
  by (induction s) (simp_all add: format_map.simps)

lemma sample_sub_fields: "sh_bots (sample_sub_host i) = [''shop'']" "ih_disabled (sample_sub_host i) = False" "ih_injection (sample_sub_host i) = None"
  "sh_nodes_source (sample_sub_host i) = ''host''" "ih_id (sample_sub_host i) = i" "sh_sni (sample_sub_host i) = [''s'']"
  "sh_host (sample_sub_host i) = [''h'']" "sh_address (sample_sub_host i) = [''a.org'']" "sh_path (sample_sub_host i) = Some ''/p''"
  "sh_node_ids (sample_sub_host i) = [7]" "sh_from_nodes (sample_sub_host i) = False" "sh_balancing (sample_sub_host i) = None"
  "sh_sni_as_host (sample_sub_host i) = JNull" "sh_port (sample_sub_host i) = JInt 443" "sh_tls (sample_sub_host i) = JStr ''tls''"
  "ih_remark (sample_sub_host i) = ''DE''" "ih_config (sample_sub_host i) = None" "ih_hidden (sample_sub_host i) = False"
  by (simp_all add: sample_sub_host_def inj_host.extend_def sample_host_def)

lemma sample_candidate: "\<exists>c. host_candidate sample_sub_env (format_map value special) ''in'' [(''network'', JStr ''tcp'')] [] (sample_sub_host i)
    = Inr (Some c) \<and> cd_injection c = None"
proof -
  have pick: "ctx_pick H disabled_context addrs ids b h s = addrs" for H addrs ids b h s
    by (cases h) (simp_all add: ctx_pick_def disabled_context_def pinned_nodes_def Let_def)
  have "\<exists>c. candidate_of sample_sub_env (format_map value special) ''in'' [(''network'', JStr ''tcp'')] [] (sample_sub_host i) None = Inr c"
    by (simp add: candidate_of_def pick_name_def sample_sub_fields choice_def fill_star_def jget_def user_addresses_def pick
        sample_sub_env_def host_inbound_def format_map_plain jindex_def dget_or_def)
  moreover have "host_allowed_for_bot [''shop''] (se_bot sample_sub_env)" by (simp add: host_allowed_for_bot_def sample_sub_env_def)
  moreover have "resolve_host_injection (se_inj sample_sub_env) None [] = Inr None" by (simp add: sample_sub_env_def sample_plain)
  moreover have "se_template sample_sub_env h = Inr []" for h by (simp add: sample_sub_env_def)
  ultimately show ?thesis
    using candidate_of_fields by (fastforce simp: host_candidate_def sample_sub_fields)
qed

lemma sample_prepared: "\<exists>cs. prepare_candidates sample_sub_env [(''VLESS'', [''in''])] [(''VLESS'', [])] sample_by_tag [(''in'', [sample_sub_host 1])]
    = Inr cs \<and> (\<forall>c \<in> set cs. cd_injection c = None)"
proof -
  obtain c where c: "host_candidate sample_sub_env (format_map (\<lambda>f. dget_or (dput ''TRANSPORT'' ''tcp'' (dput ''PROTOCOL'' ''VLESS'' (se_vars sample_sub_env))) f ''<missing>'')
      (se_special sample_sub_env)) ''in'' [(''network'', JStr ''tcp'')] [] (sample_sub_host 1) = Inr (Some c)" "cd_injection c = None"
    using sample_candidate by blast
  have ord: "ordered_inbounds [(''VLESS'', [''in''])] sample_by_tag = [(''VLESS'', ''in'')]" by (simp add: ordered_inbounds_def)
  have "tag_candidates sample_sub_env [(''VLESS'', [])] sample_by_tag [(''in'', [sample_sub_host 1])] (''VLESS'', ''in'') = Inr [c]"
    using c(1) by (simp add: tag_candidates_def sample_by_tag_def dget_or_def jindex_def Let_def List.map_filter_simps)
  with ord c(2) show ?thesis by (simp add: prepare_candidates_def)
qed

lemma plain_subscription_one_entry_per_host_witness:
  "\<exists>cs. process_inbounds_and_tags sample_sub_env (ZERO_STUB ''limit'') None [(''VLESS'', [''in''])] [(''VLESS'', [])] sample_by_tag
      [(''in'', [sample_sub_host 1])] 0
    = Inr (map (entry_of sample_sub_env (ZERO_STUB ''limit'') None) (filter (\<lambda>c. \<not> ih_hidden (cd_host c)) (sort_key (\<lambda>c. or0 (ih_order (cd_host c))) cs)))"
proof -
  obtain cs where "prepare_candidates sample_sub_env [(''VLESS'', [''in''])] [(''VLESS'', [])] sample_by_tag [(''in'', [sample_sub_host 1])] = Inr cs"
    and "\<forall>c \<in> set cs. cd_injection c = None" using sample_prepared by blast
  from plain_subscription_one_entry_per_host [OF this] show ?thesis by blast
qed


definition sample_cand :: candidate where
  "sample_cand = \<lparr>cd_blocked = False, cd_host = sample_sub_host 1, cd_injection = None, cd_inbound = [], cd_settings = [], cd_config = None,
     cd_remark = [], cd_balanced = False, cd_addresses = [], cd_address = ''a.org'', cd_endpoints = [sample_endpoint]\<rparr>"


end
