(* ===== verification/HostEdit.thy ===== *)
theory HostEdit
  imports Subscription AddressHistory
begin

text \<open>
  The administration of hosts: app/db/crud.py (\<open>add_host\<close>, \<open>update_hosts\<close>, \<open>update_hosts_batch\<close> and their helpers),
  the endpoints of app/routers/system.py and the cache \<open>xray.hosts\<close>. A row holds its columns and its association
  rows: the bots, each with the date it rents the host since, the nodes and the entry nodes. The session is opened
  without autoflush, so a query sees what was flushed; a host that was not added to the session yet has no key.
\<close>

section \<open>Rows and forms\<close>

text \<open>The columns that a form always overwrites, those that only \<open>update_hosts\<close> writes, and the rest.\<close>

record host_plain =
  hp_remark :: string
  hp_address :: string
  hp_port :: "int option"
  hp_path :: "string option"
  hp_sni :: "string option"
  hp_host :: "string option"
  hp_security :: string
  hp_alpn :: string
  hp_fingerprint :: string
  hp_xhttp_extra :: "json option"
  hp_config :: "int option"
  hp_subset :: host_subset

record host_extra =
  he_allowinsecure :: "bool option"
  he_disabled :: "bool option"
  he_fragment :: "string option"
  he_noise :: "string option"

record host_flags =
  fl_mux :: bool
  fl_random_agent :: bool
  fl_sni_as_host :: bool

record host_links =
  hl_injection :: "json option"
  hl_group_tag :: string
  hl_hidden :: bool
  hl_balancing :: "obj option"
  hl_source :: string
  hl_entry_nodes :: "int list"

record host_row =
  hr_id :: int
  hr_inbound :: string
  hr_order :: int
  hr_plain :: host_plain
  hr_extra :: host_extra
  hr_finalmask :: "json option"
  hr_flags :: host_flags
  hr_links :: host_links
  hr_bots :: "(int \<times> int option) list"
  hr_nodes :: "int list"

record host_form =
  hf_id :: "int option"
  hf_order :: "int option"
  hf_plain :: host_plain
  hf_extra :: host_extra
  hf_finalmask :: "json option"
  hf_mux :: "bool option"
  hf_random_agent :: "bool option"
  hf_sni_as_host :: "bool option"
  hf_injection :: "host_injection option"
  hf_group_tag :: string
  hf_hidden :: bool
  hf_balancing :: "obj option"
  hf_source :: string
  hf_entry_nodes :: "int list"
  hf_bots :: "string list"
  hf_rented :: "string list"
  hf_nodes :: "int list"
  hf_fields :: "string list"

record hosts_db =
  hd_inbounds :: "string list"
  hd_hosts :: "host_row list"
  hd_bots :: "(int \<times> string) list"
  hd_nodes :: "ah_node list"
  hd_next :: int

definition no_flags :: host_flags where
  "no_flags = \<lparr>fl_mux = False, fl_random_agent = False, fl_sni_as_host = False\<rparr>"

definition new_extra :: host_extra where
  "new_extra = \<lparr>he_allowinsecure = None, he_disabled = Some False, he_fragment = None, he_noise = None\<rparr>"

definition new_links :: host_links where
  "new_links = \<lparr>hl_injection = None, hl_group_tag = [], hl_hidden = False, hl_balancing = None, hl_source = ''host'', hl_entry_nodes = []\<rparr>"

section \<open>Inbounds\<close>

definition default_host :: "string \<Rightarrow> int \<Rightarrow> host_row" where
  "default_host tag i =
     \<lparr>hr_id = i, hr_inbound = tag, hr_order = 0,
      hr_plain = \<lparr>hp_remark = ''Marz ({USERNAME}) [{PROTOCOL} - {TRANSPORT}]'', hp_address = ''{SERVER_IP}'', hp_port = None, hp_path = None,
        hp_sni = None, hp_host = None, hp_security = ''inbound_default'', hp_alpn = [], hp_fingerprint = [], hp_xhttp_extra = None,
        hp_config = None, hp_subset = \<lparr>hs_enabled = False, hs_size = None, hs_rotation_days = None\<rparr>\<rparr>,
      hr_extra = new_extra, hr_finalmask = None, hr_flags = no_flags, hr_links = new_links, hr_bots = [], hr_nodes = []\<rparr>"

definition insert_host :: "(int \<Rightarrow> host_row) \<Rightarrow> hosts_db \<Rightarrow> hosts_db" where
  "insert_host row db = db\<lparr>hd_hosts := hd_hosts db @ [row (hd_next db)], hd_next := hd_next db + 1\<rparr>"

definition add_default_host :: "string \<Rightarrow> hosts_db \<Rightarrow> hosts_db" where
  "add_default_host tag = insert_host (default_host tag)"

definition add_inbound :: "string \<Rightarrow> hosts_db \<Rightarrow> hosts_db" where
  "add_inbound tag db = (if tag \<in> set (hd_inbounds db) then db else db\<lparr>hd_inbounds := hd_inbounds db @ [tag]\<rparr>)"

definition get_or_create_inbound :: "string \<Rightarrow> hosts_db \<Rightarrow> hosts_db" where
  "get_or_create_inbound tag db =
     (if tag \<in> set (hd_inbounds db) then db else add_default_host tag (add_inbound tag db))"

definition inbound_hosts :: "string \<Rightarrow> hosts_db \<Rightarrow> host_row list" where
  "inbound_hosts tag db = filter (\<lambda>r. hr_inbound r = tag) (hd_hosts db)"

definition get_hosts :: "string \<Rightarrow> hosts_db \<Rightarrow> host_row list \<times> hosts_db" where
  "get_hosts tag db = (let db' = get_or_create_inbound tag db in (sort_key hr_order (sort_key hr_id (inbound_hosts tag db')), db'))"

definition max_order :: "host_row list \<Rightarrow> int" where
  "max_order rows = (if rows = [] then -1 else Max (set (map hr_order rows)))"

definition max_host_order :: "hosts_db \<Rightarrow> string option \<Rightarrow> int" where
  "max_host_order db exclude = max_order (filter (\<lambda>r. Some (hr_inbound r) \<noteq> exclude) (hd_hosts db))"

fun assign_orders :: "int \<Rightarrow> int option list \<Rightarrow> int list" where
  "assign_orders hi [] = []"
| "assign_orders hi (None # os) = (hi + 1) # assign_orders (hi + 1) os"
| "assign_orders hi (Some k # os) = k # assign_orders (max hi k) os"

definition resolve_host_orders :: "hosts_db \<Rightarrow> string \<Rightarrow> host_form list \<Rightarrow> int list" where
  "resolve_host_orders db tag forms = assign_orders (max_host_order db (Some tag)) (map hf_order forms)"

section \<open>Bots and nodes of a host\<close>

definition first_unique :: "'a list \<Rightarrow> 'a list" where
  "first_unique xs = fold (\<lambda>x acc. if x \<in> set acc then acc else acc @ [x]) xs []"

definition normalize_bot_username :: "string \<Rightarrow> string" where
  "normalize_bot_username s = dropWhile (\<lambda>c. c = CHR ''@'') (strip s)"

definition bot_names :: "string list \<Rightarrow> string list" where
  "bot_names names = filter (\<lambda>n. n \<noteq> []) (map normalize_bot_username names)"

definition bot_named :: "hosts_db \<Rightarrow> string \<Rightarrow> int option" where
  "bot_named db name = map_option fst (find (\<lambda>b. snd b = name) (hd_bots db))"

definition get_bots_by_usernames :: "hosts_db \<Rightarrow> string list \<Rightarrow> int list result" where
  "get_bots_by_usernames db names =
     mapE (\<lambda>n. case bot_named db n of None \<Rightarrow> Inl (ValueError ''Bot not found'') | Some b \<Rightarrow> Inr b) (first_unique (bot_names names))"

definition node_row :: "hosts_db \<Rightarrow> int \<Rightarrow> ah_node option" where
  "node_row db i = find (\<lambda>n. an_id n = i) (hd_nodes db)"

definition get_nodes_by_ids :: "hosts_db \<Rightarrow> int list \<Rightarrow> int list result" where
  "get_nodes_by_ids db ids =
     mapE (\<lambda>i. case node_row db i of None \<Rightarrow> Inl (ValueError ''Node not found'') | Some n \<Rightarrow> Inr (an_id n)) (first_unique ids)"

text \<open>
  The date of a rental is set once. A host that is not in the session yet has no key, so the updates meet no row.
\<close>

definition apply_rental_marks :: "hosts_db \<Rightarrow> int \<Rightarrow> bool \<Rightarrow> string list \<Rightarrow> (int \<times> int option) list \<Rightarrow> (int \<times> int option) list result" where
  "apply_rental_marks db now stored rented bound =
     (let wanted = bot_names rented; names = filter (\<lambda>b. fst b \<in> fst ` set bound) (hd_bots db) in
      if \<not> set wanted \<subseteq> set (map snd names) then Inl (ValueError ''rented bot is not bound to host'')
      else (let wanted_ids = map fst (filter (\<lambda>b. snd b \<in> set wanted) names) in
        Inr (if stored
             then map (\<lambda>(b, since). (b, if b \<in> set wanted_ids then (case since of None \<Rightarrow> Some now | Some d \<Rightarrow> Some d) else None)) bound
             else bound)))"

section \<open>References to other hosts, balancing\<close>

fun subscript :: "json \<Rightarrow> string \<Rightarrow> json result" where
  "subscript (JObj d) k = jindex d k"
| "subscript _ k = Inl (TypeError k)"

definition group_ids :: "json \<Rightarrow> json list result" where
  "group_ids g = bindE (subscript g ''selector'') (\<lambda>s. bindE (subscript s ''type'') (\<lambda>t.
     if t = JStr ''ids'' then bindE (subscript s ''values'') as_list else Inr []))"

definition referenced_ids :: "json option \<Rightarrow> json list result" where
  "referenced_ids v = (case v of None \<Rightarrow> Inr []
     | Some j \<Rightarrow> if \<not> truthy j then Inr []
       else bindE (as_obj j) (\<lambda>d. bindE (as_list (dget_or d ''injectHosts'' (JList []))) (\<lambda>gs. bindE (mapE group_ids gs) (\<lambda>ids. Inr (concat ids)))))"

definition given :: "host_form \<Rightarrow> host_row option \<Rightarrow> string \<Rightarrow> bool" where
  "given f target key \<longleftrightarrow> target = None \<or> key \<in> set (hf_fields f)"

definition old_links :: "host_row option \<Rightarrow> host_links" where
  "old_links target = (case target of None \<Rightarrow> new_links | Some r \<Rightarrow> hr_links r)"

definition prepare_host_injection :: "int list \<Rightarrow> host_form \<Rightarrow> host_row option \<Rightarrow> (json option \<times> string \<times> bool) result" where
  "prepare_host_injection source_ids f target =
     (let old = old_links target;
          injection = (if given f target ''host_injection'' then map_option dump_injection (hf_injection f) else hl_injection old);
          group = (if given f target ''group_tag'' then hf_group_tag f else hl_group_tag old);
          hidden = (if given f target ''is_hidden'' then hf_hidden f else hl_hidden old) in
      bindE (referenced_ids injection) (\<lambda>ids. bindE (referenced_ids (hl_injection old)) (\<lambda>old_ids.
        if \<forall>i \<in> set ids. i \<in> set old_ids \<or> i \<in> JInt ` set source_ids then Inr (injection, group, hidden)
        else Inl (ValueError ''host_injection: unknown source host IDs''))))"

definition is_disabled :: "hosts_db \<Rightarrow> int \<Rightarrow> bool" where
  "is_disabled db i \<longleftrightarrow> (case node_row db i of None \<Rightarrow> False | Some n \<Rightarrow> an_status n = NodeDisabled)"

definition check_entry_nodes :: "hosts_db \<Rightarrow> host_row option \<Rightarrow> string \<Rightarrow> int list \<Rightarrow> unit result" where
  "check_entry_nodes db target source nodes =
     (let old = old_links target; old_ids = (if target \<noteq> None \<and> hl_source old = ''selected'' then hl_entry_nodes old else []) in
      if source \<noteq> ''selected'' then Inr ()
      else if nodes = [] \<and> (target = None \<or> hl_source old \<noteq> ''selected'' \<or> hl_entry_nodes old \<noteq> [])
      then Inl (ValueError ''balancer_node_ids: select at least one entry node'')
      else if \<exists>i \<in> set nodes. is_disabled db i \<and> i \<notin> set old_ids
      then Inl (ValueError ''balancer_node_ids: disabled entry nodes cannot be added'')
      else Inr ())"

definition prepare_host_balancing :: "hosts_db \<Rightarrow> int list \<Rightarrow> host_form \<Rightarrow> host_row option \<Rightarrow> host_links result" where
  "prepare_host_balancing db source_ids f target =
     (let old = old_links target;
          source = (if given f target ''balancer_nodes_source'' then hf_source f else hl_source old) in
      bindE (if given f target ''balancer_node_ids'' then get_nodes_by_ids db (hf_entry_nodes f) else Inr (hl_entry_nodes old)) (\<lambda>nodes.
      bindE (check_entry_nodes db target source nodes) (\<lambda>_.
      bindE (prepare_host_injection source_ids f target) (\<lambda>(injection, group, hidden).
        Inr \<lparr>hl_injection = injection, hl_group_tag = group, hl_hidden = hidden,
             hl_balancing = (if given f target ''balancing'' then hf_balancing f else hl_balancing old),
             hl_source = source, hl_entry_nodes = sort nodes\<rparr>))))"

section \<open>Adding and updating\<close>

definition host_ids :: "hosts_db \<Rightarrow> int list" where
  "host_ids db = map hr_id (hd_hosts db)"

definition add_host :: "string \<Rightarrow> host_form \<Rightarrow> hosts_db \<Rightarrow> host_row list result \<times> hosts_db" where
  "add_host tag f db =
     (case prepare_host_balancing db (host_ids db) f None of Inl e \<Rightarrow> (Inl e, db)
      | Inr links \<Rightarrow>
        let db1 = get_or_create_inbound tag db in
        case bindE (get_bots_by_usernames db1 (hf_bots f)) (\<lambda>bs. bindE (get_nodes_by_ids db1 (hf_nodes f)) (\<lambda>ns. Inr (bs, ns))) of
          Inl e \<Rightarrow> (Inl e, db1)
        | Inr (bs, ns) \<Rightarrow>
          let k = (case hf_order f of Some k \<Rightarrow> k | None \<Rightarrow> max_host_order db1 None + 1);
              db2 = insert_host (\<lambda>i. \<lparr>hr_id = i, hr_inbound = tag, hr_order = k, hr_plain = hf_plain f, hr_extra = new_extra,
                 hr_finalmask = None, hr_flags = no_flags, hr_links = links, hr_bots = map (\<lambda>b. (b, None)) bs, hr_nodes = ns\<rparr>) db1;
              (rows, db3) = get_hosts tag db2
          in (Inr rows, db3))"

text \<open>What a form says beyond the columns of \<open>host_plain\<close> is not stored for a host that is added this way.\<close>

lemma add_host_ignores:
  "add_host tag (f\<lparr>hf_extra := x, hf_finalmask := y, hf_mux := a, hf_random_agent := b, hf_sni_as_host := c, hf_rented := r\<rparr>) db = add_host tag f db"
proof -
  let ?f = "f\<lparr>hf_extra := x, hf_finalmask := y, hf_mux := a, hf_random_agent := b, hf_sni_as_host := c, hf_rented := r\<rparr>"
  have "prepare_host_balancing db s ?f None = prepare_host_balancing db s f None" for s
    by (simp add: prepare_host_balancing_def prepare_host_injection_def given_def)
  then show ?thesis by (simp add: add_host_def cong: sum.case_cong option.case_cong)
qed

definition keep_flag :: "bool option \<Rightarrow> bool \<Rightarrow> bool" where
  "keep_flag v old = (case v of None \<Rightarrow> old | Some b \<Rightarrow> b)"

definition save_host :: "hosts_db \<Rightarrow> int \<Rightarrow> string \<Rightarrow> host_row option \<Rightarrow> int \<Rightarrow> host_form \<Rightarrow> int \<Rightarrow> host_links \<Rightarrow> host_row result" where
  "save_host db now tag target i f k links =
     (let old_flags = (case target of None \<Rightarrow> no_flags | Some r \<Rightarrow> hr_flags r);
          old_bots = (case target of None \<Rightarrow> [] | Some r \<Rightarrow> hr_bots r) in
      bindE (get_bots_by_usernames db (hf_bots f)) (\<lambda>bs.
      bindE (apply_rental_marks db now (target \<noteq> None) (hf_rented f) (map (\<lambda>b. (b, dget_or old_bots b None)) bs)) (\<lambda>bots.
      bindE (get_nodes_by_ids db (hf_nodes f)) (\<lambda>ns.
        Inr \<lparr>hr_id = i, hr_inbound = (case target of None \<Rightarrow> tag | Some r \<Rightarrow> hr_inbound r), hr_order = k,
             hr_plain = hf_plain f, hr_extra = hf_extra f,
             hr_finalmask = (case target of None \<Rightarrow> hf_finalmask f
               | Some r \<Rightarrow> if ''finalmask'' \<in> set (hf_fields f) then hf_finalmask f else hr_finalmask r),
             hr_flags = \<lparr>fl_mux = keep_flag (hf_mux f) (fl_mux old_flags), fl_random_agent = keep_flag (hf_random_agent f) (fl_random_agent old_flags),
               fl_sni_as_host = keep_flag (hf_sni_as_host f) (fl_sni_as_host old_flags)\<rparr>,
             hr_links = links, hr_bots = bots, hr_nodes = ns\<rparr>))))"

definition host_with_id :: "host_row list \<Rightarrow> int option \<Rightarrow> host_row option" where
  "host_with_id rows i = (case i of None \<Rightarrow> None | Some j \<Rightarrow> find (\<lambda>r. hr_id r = j) rows)"

definition put_host :: "host_row \<Rightarrow> host_row list \<Rightarrow> host_row list" where
  "put_host r rows = map (\<lambda>q. if hr_id q = hr_id r then r else q) rows"

definition save_form :: "int \<Rightarrow> string \<Rightarrow> host_row list \<Rightarrow> host_form \<times> int \<times> host_links \<Rightarrow> hosts_db \<Rightarrow> hosts_db result" where
  "save_form now tag existing job db =
     (case job of (f, k, links) \<Rightarrow>
      (case host_with_id existing (hf_id f) of
         Some r \<Rightarrow> bindE (save_host db now tag (Some r) (hr_id r) f k links) (\<lambda>row. Inr (db\<lparr>hd_hosts := put_host row (hd_hosts db)\<rparr>))
       | None \<Rightarrow> bindE (save_host db now tag None (hd_next db) f k links) (\<lambda>row. Inr (insert_host (\<lambda>_. row) db))))"

definition update_hosts :: "int \<Rightarrow> string \<Rightarrow> host_form list \<Rightarrow> int list option \<Rightarrow> hosts_db \<Rightarrow> hosts_db result" where
  "update_hosts now tag forms sources db =
     (let db1 = add_inbound tag db;
          orders = resolve_host_orders db1 tag forms;
          incoming = List.map_filter hf_id forms;
          existing = inbound_hosts tag db1;
          ids = map hr_id existing in
      if \<not> distinct incoming then Inl (ValueError ''duplicate host id in payload'')
      else if \<not> set incoming \<subseteq> set ids then Inl (ValueError ''host id does not belong to inbound'')
      else (let source_ids = (case sources of Some s \<Rightarrow> s | None \<Rightarrow> filter (\<lambda>i. i \<notin> set ids - set incoming) (host_ids db1)) in
        bindE (mapE (\<lambda>f. prepare_host_balancing db1 source_ids f (host_with_id existing (hf_id f))) forms) (\<lambda>links.
        bindE (foldE (save_form now tag existing) (zip forms (zip orders links)) db1) (\<lambda>db2.
          Inr (db2\<lparr>hd_hosts := filter (\<lambda>r. \<not> (hr_id r \<in> set ids \<and> hr_id r \<notin> set incoming)) (hd_hosts db2)\<rparr>)))))"

section \<open>A batch\<close>

fun destinations_of :: "(int \<times> string) list \<Rightarrow> (int \<times> string) list \<Rightarrow> (int \<times> string) list result" where
  "destinations_of d [] = Inr d"
| "destinations_of d ((i, tag) # rest) =
     (if dget d i \<noteq> None then Inl (ValueError ''duplicate host id in payload'') else destinations_of (dput i tag d) rest)"

definition form_ids :: "(string \<times> host_form list) list \<Rightarrow> (int \<times> string) list" where
  "form_ids modified = concat (map (\<lambda>(tag, fs). map (\<lambda>i. (i, tag)) (List.map_filter hf_id fs)) modified)"

definition move_host :: "(int \<times> string) list \<Rightarrow> host_row \<Rightarrow> host_row" where
  "move_host dest r = (case dget dest (hr_id r) of None \<Rightarrow> r | Some tag \<Rightarrow> r\<lparr>hr_inbound := tag\<rparr>)"

definition keep_order :: "(int \<times> string) list \<Rightarrow> host_row list \<Rightarrow> host_form \<Rightarrow> host_form" where
  "keep_order dest rows f =
     (if hf_order f = None
      then (case hf_id f of None \<Rightarrow> f | Some i \<Rightarrow>
        if dget dest i = None then f
        else (case find (\<lambda>r. hr_id r = i) rows of None \<Rightarrow> f
              | Some r \<Rightarrow> f\<lparr>hf_order := Some (hr_order r), hf_fields := ''order'' # hf_fields f\<rparr>))
      else f)"

definition batch :: "int \<Rightarrow> (string \<times> host_form list) list \<Rightarrow> hosts_db \<Rightarrow> hosts_db result" where
  "batch now modified db =
     bindE (destinations_of [] (form_ids modified)) (\<lambda>dest.
       if \<not> set (map fst dest) \<subseteq> set (host_ids db) then Inl (ValueError ''unknown host ids'')
       else (let source_ids = map hr_id (filter (\<lambda>r. hr_inbound r \<notin> fst ` set modified \<or> dget dest (hr_id r) \<noteq> None) (hd_hosts db));
                 db1 = fold add_inbound (map fst modified) db;
                 db2 = db1\<lparr>hd_hosts := map (move_host dest) (hd_hosts db1)\<rparr> in
             foldE (\<lambda>(tag, fs). update_hosts now tag (map (keep_order dest (hd_hosts db)) fs) (Some source_ids)) modified db2))"

definition update_hosts_batch :: "int \<Rightarrow> (string \<times> host_form list) list \<Rightarrow> hosts_db \<Rightarrow> unit result \<times> hosts_db" where
  "update_hosts_batch now modified db = (case batch now modified db of Inl e \<Rightarrow> (Inl e, db) | Inr db' \<Rightarrow> (Inr (), db'))"

section \<open>The endpoints and the cache\<close>

definition node_list :: "hosts_db \<Rightarrow> int list \<Rightarrow> ah_node list" where
  "node_list db ids = List.map_filter (node_row db) ids"

definition bot_usernames :: "hosts_db \<Rightarrow> host_row \<Rightarrow> string list" where
  "bot_usernames db r = List.map_filter (\<lambda>(b, _). map_option snd (find (\<lambda>x. fst x = b) (hd_bots db))) (hr_bots r)"

definition rented_bot_usernames :: "hosts_db \<Rightarrow> host_row \<Rightarrow> string list" where
  "rented_bot_usernames db r = bot_usernames db (r\<lparr>hr_bots := filter (\<lambda>b. snd b \<noteq> None) (hr_bots r)\<rparr>)"

definition host_view :: "hosts_db \<Rightarrow> host_row \<Rightarrow> ah_host" where
  "host_view db r =
     \<lparr>ah_id = hr_id r, ah_remark = hp_remark (hr_plain r), ah_address = hp_address (hr_plain r), ah_inbound_tag = hr_inbound r,
      ah_disabled = (he_disabled (hr_extra r) = Some True), ah_hidden = hl_hidden (hr_links r), ah_bots = bot_usernames db r,
      ah_nodes = node_list db (hr_nodes r), ah_source = hl_source (hr_links r),
      ah_balancer_nodes = node_list db (hl_entry_nodes (hr_links r)), ah_subset = hp_subset (hr_plain r)\<rparr>"

definition jopt :: "('a \<Rightarrow> json) \<Rightarrow> 'a option \<Rightarrow> json" where
  "jopt f v = (case v of None \<Rightarrow> JNull | Some x \<Rightarrow> f x)"

definition comma_list :: "string option \<Rightarrow> string list" where
  "comma_list v = (case v of None \<Rightarrow> [] | Some s \<Rightarrow> if s = [] then [] else map strip (split_on (CHR '','') s))"

definition cached_host :: "hosts_db \<Rightarrow> host_row \<Rightarrow> sub_host" where
  "cached_host db r =
     (let p = hr_plain r; x = hr_extra r; l = hr_links r; v = host_view db r in
      \<lparr>ih_id = hr_id r, ih_remark = hp_remark p, ih_group_tag = hl_group_tag l, ih_disabled = (he_disabled x = Some True),
       ih_hidden = hl_hidden l, ih_order = Some (hr_order r), ih_inbound = hr_inbound r, ih_config = hp_config p,
       ih_injection = hl_injection l, ih_is_bs = host_has_bs_node v,
       sh_address = resolve_host_addresses v, sh_node_ids = resolve_host_node_ids v, sh_from_nodes = addresses_from_nodes v,
       sh_subset = hp_subset p, sh_balancing = hl_balancing l, sh_nodes_source = hl_source l, sh_port = jopt JInt (hp_port p),
       sh_path = (if hp_path p = Some [] then None else hp_path p), sh_sni = comma_list (hp_sni p), sh_host = comma_list (hp_host p),
       sh_alpn = JStr (hp_alpn p), sh_fp = JStr (hp_fingerprint p),
       sh_tls = (if hp_security p = ''inbound_default'' then JNull else JStr (hp_security p)),
       sh_ais = jopt JBool (he_allowinsecure x), sh_mux = JBool (fl_mux (hr_flags r)), sh_fragment = jopt JStr (he_fragment x),
       sh_noise = jopt JStr (he_noise x), sh_finalmask = jopt (\<lambda>j. j) (hr_finalmask r), sh_rua = JBool (fl_random_agent (hr_flags r)),
       sh_sni_as_host = JBool (fl_sni_as_host (hr_flags r)), sh_bots = bot_usernames db r, sh_xhttp_extra = jopt (\<lambda>j. j) (hp_xhttp_extra p)\<rparr>)"

fun hosts_by_tag :: "string list \<Rightarrow> hosts_db \<Rightarrow> (string \<times> host_row list) list \<times> hosts_db" where
  "hosts_by_tag [] db = ([], db)"
| "hosts_by_tag (tag # tags) db =
     (let (rows, db1) = get_hosts tag db; (rest, db2) = hosts_by_tag tags db1 in ((tag, rows) # rest, db2))"

definition hosts_update :: "string list \<Rightarrow> hosts_db \<Rightarrow> (string \<times> sub_host list) list \<times> hosts_db" where
  "hosts_update tags db = (let (by_tag, db') = hosts_by_tag tags db in
     (map (\<lambda>(tag, rows). (tag, map (cached_host db') (filter (\<lambda>r. he_disabled (hr_extra r) \<noteq> Some True) rows))) by_tag, db'))"

record hosts_world =
  hw_db :: hosts_db
  hw_cache :: "(string \<times> sub_host list) list"

definition modify_hosts :: "int \<Rightarrow> string list \<Rightarrow> int list \<Rightarrow> (string \<times> host_form list) list \<Rightarrow> hosts_world
    \<Rightarrow> (int + (string \<times> host_row list) list) \<times> hosts_world" where
  "modify_hosts now tags templates modified w =
     (if \<exists>tag \<in> fst ` set modified. tag \<notin> set tags then (Inl 400, w)
      else if \<exists>(_, fs) \<in> set modified. \<exists>f \<in> set fs. case hp_config (hf_plain f) of None \<Rightarrow> False | Some c \<Rightarrow> c \<notin> set templates then (Inl 422, w)
      else (case update_hosts_batch now modified (hw_db w) of
          (Inl (ValueError _), db) \<Rightarrow> (Inl 400, w\<lparr>hw_db := db\<rparr>)
        | (Inl _, db) \<Rightarrow> (Inl 500, w\<lparr>hw_db := db\<rparr>)
        | (Inr _, db) \<Rightarrow>
          let (cache, db1) = hosts_update tags db; (by_tag, db2) = hosts_by_tag tags db1
          in (Inr by_tag, \<lparr>hw_db = db2, hw_cache = cache\<rparr>)))"

definition plain_form :: "string \<Rightarrow> string \<Rightarrow> host_form" where
  "plain_form remark address =
     \<lparr>hf_id = None, hf_order = None,
      hf_plain = \<lparr>hp_remark = remark, hp_address = address, hp_port = None, hp_path = None, hp_sni = None, hp_host = None,
        hp_security = ''inbound_default'', hp_alpn = [], hp_fingerprint = [], hp_xhttp_extra = None, hp_config = None,
        hp_subset = \<lparr>hs_enabled = False, hs_size = None, hs_rotation_days = None\<rparr>\<rparr>,
      hf_extra = \<lparr>he_allowinsecure = None, he_disabled = None, he_fragment = None, he_noise = None\<rparr>,
      hf_finalmask = None, hf_mux = None, hf_random_agent = None, hf_sni_as_host = None, hf_injection = None, hf_group_tag = [],
      hf_hidden = False, hf_balancing = None, hf_source = ''host'', hf_entry_nodes = [], hf_bots = [], hf_rented = [], hf_nodes = [],
      hf_fields = [''remark'', ''address'']\<rparr>"

fun add_host_everywhere :: "string list \<Rightarrow> host_form \<Rightarrow> hosts_db \<Rightarrow> unit result \<times> hosts_db" where
  "add_host_everywhere [] f db = (Inr (), db)"
| "add_host_everywhere (tag # tags) f db =
     (case add_host tag f db of (Inl e, db1) \<Rightarrow> (Inl e, db1) | (Inr _, db1) \<Rightarrow> add_host_everywhere tags f db1)"

definition add_host_if_needed :: "string list \<Rightarrow> bool \<Rightarrow> string \<Rightarrow> string \<Rightarrow> hosts_world \<Rightarrow> unit result \<times> hosts_world" where
  "add_host_if_needed tags wanted name address w =
     (if \<not> wanted then (Inr (), w)
      else (case add_host_everywhere tags (plain_form (name @ '' ({USERNAME}) [{PROTOCOL} - {TRANSPORT}]'') address) (hw_db w) of
          (Inl e, db) \<Rightarrow> (Inl e, w\<lparr>hw_db := db\<rparr>)
        | (Inr _, db) \<Rightarrow> (let (cache, db') = hosts_update tags db in (Inr (), \<lparr>hw_db = db', hw_cache = cache\<rparr>))))"

section \<open>Saving the forms of one inbound\<close>

definition ids_ok :: "hosts_db \<Rightarrow> bool" where
  "ids_ok db \<longleftrightarrow> distinct (host_ids db) \<and> (\<forall>r \<in> set (hd_hosts db). hr_id r < hd_next db)"

definition tables :: "hosts_db \<Rightarrow> (int \<times> string) list \<times> ah_node list" where
  "tables db = (hd_bots db, hd_nodes db)"

lemma tables_frame:
  assumes "tables db = tables db'"
  shows "get_bots_by_usernames db = get_bots_by_usernames db'" "get_nodes_by_ids db = get_nodes_by_ids db'"
    "apply_rental_marks db = apply_rental_marks db'" "is_disabled db = is_disabled db'"
  using assms by (simp_all add: tables_def fun_eq_iff get_bots_by_usernames_def bot_named_def get_nodes_by_ids_def node_row_def
      apply_rental_marks_def is_disabled_def)

lemma save_host_frame: "tables db = tables db' \<Longrightarrow> save_host db = save_host db'"
  by (simp add: fun_eq_iff save_host_def tables_frame [of db db'])

lemma insert_host_tables [simp]: "tables (insert_host row db) = tables db"
  by (simp add: tables_def insert_host_def)

lemma save_host_row:
  assumes "save_host db now tag target i f k links = Inr r"
  shows "hr_id r = i" "hr_inbound r = (case target of None \<Rightarrow> tag | Some q \<Rightarrow> hr_inbound q)" "hr_order r = k"
    "hr_plain r = hf_plain f" "hr_extra r = hf_extra f" "hr_links r = links"
  using assms by (auto simp: save_host_def Let_def bindE_Inr_iff)

lemma put_host_ids [simp]: "map hr_id (put_host r rows) = map hr_id rows"
  by (induction rows) (auto simp: put_host_def)

lemma put_host_set: "set (put_host r rows) = (if hr_id r \<in> hr_id ` set rows then insert r {q \<in> set rows. hr_id q \<noteq> hr_id r} else set rows)"
  by (induction rows) (auto simp: put_host_def)

lemma host_with_id_Some: "host_with_id rows i = Some r \<Longrightarrow> i = Some (hr_id r) \<and> r \<in> set rows"
  by (auto simp: host_with_id_def find_Some_iff split: option.splits)

lemma host_with_id_None: "host_with_id rows i = None \<longleftrightarrow> (\<forall>r \<in> set rows. i \<noteq> Some (hr_id r))"
  by (auto simp: host_with_id_def find_None_iff split: option.splits)

definition form_of :: "host_form \<times> int \<times> host_links \<Rightarrow> host_form" where
  "form_of job = fst job"

definition job_saved :: "hosts_db \<Rightarrow> int \<Rightarrow> string \<Rightarrow> host_row list \<Rightarrow> host_form \<times> int \<times> host_links \<Rightarrow> host_row \<Rightarrow> bool" where
  "job_saved db now tag existing job r \<longleftrightarrow> (case job of (f, k, links) \<Rightarrow>
     save_host db now tag (host_with_id existing (hf_id f)) (hr_id r) f k links = Inr r
     \<and> (case hf_id f of None \<Rightarrow> hd_next db \<le> hr_id r | Some i \<Rightarrow> hr_id r = i))"

lemma ids_ok_insert: "ids_ok db \<Longrightarrow> hr_id (row (hd_next db)) = hd_next db \<Longrightarrow> ids_ok (insert_host row db)"
  by (fastforce simp: ids_ok_def host_ids_def insert_host_def)

lemma ids_ok_put: "ids_ok db \<Longrightarrow> hr_id r \<in> set (host_ids db) \<Longrightarrow> ids_ok (db\<lparr>hd_hosts := put_host r (hd_hosts db)\<rparr>)"
  by (auto simp: ids_ok_def host_ids_def put_host_set)

lemma save_form_step:
  assumes s: "save_form now tag existing (f, k, links) db = Inr db1" and ok: "ids_ok db"
    and known: "\<And>i. hf_id f = Some i \<Longrightarrow> i \<in> hr_id ` set existing" and sub: "hr_id ` set existing \<subseteq> set (host_ids db)"
  obtains row where "job_saved db now tag existing (f, k, links) row" "hf_id f = None \<Longrightarrow> hr_id row = hd_next db"
    "set (hd_hosts db1) = insert row {q \<in> set (hd_hosts db). Some (hr_id q) \<noteq> hf_id f}"
    "tables db1 = tables db" "hd_inbounds db1 = hd_inbounds db" "ids_ok db1" "hd_next db \<le> hd_next db1"
    "set (host_ids db) \<subseteq> set (host_ids db1)"
proof (cases "host_with_id existing (hf_id f)")
  case (Some q)
  with s obtain row where row: "save_host db now tag (Some q) (hr_id q) f k links = Inr row"
    and db1: "db1 = db\<lparr>hd_hosts := put_host row (hd_hosts db)\<rparr>" by (auto simp: save_form_def bindE_Inr_iff)
  have i: "hf_id f = Some (hr_id q)" "q \<in> set existing" using host_with_id_Some [OF Some] by auto
  have rid: "hr_id row = hr_id q" by (rule save_host_row(1) [OF row])
  have inn: "hr_id row \<in> set (host_ids db)" using sub i rid by auto
  show ?thesis
  proof (rule that [of row])
    show "job_saved db now tag existing (f, k, links) row" using row Some i rid by (simp add: job_saved_def)
    show "set (hd_hosts db1) = insert row {q \<in> set (hd_hosts db). Some (hr_id q) \<noteq> hf_id f}"
      using inn i rid by (simp add: db1 put_host_set host_ids_def)
  qed (use i inn ok in \<open>auto simp: db1 tables_def host_ids_def intro: ids_ok_put\<close>)
next
  case None
  then have nid: "hf_id f = None" using known by (cases "hf_id f") (auto simp: host_with_id_None)
  from s None obtain row where row: "save_host db now tag None (hd_next db) f k links = Inr row"
    and db1: "db1 = insert_host (\<lambda>_. row) db" by (auto simp: save_form_def bindE_Inr_iff)
  have rid: "hr_id row = hd_next db" by (rule save_host_row(1) [OF row])
  show ?thesis
  proof (rule that [of row])
    show "job_saved db now tag existing (f, k, links) row" using row None nid rid by (simp add: job_saved_def)
    show "ids_ok db1" using ids_ok_insert [OF ok] rid by (simp add: db1)
  qed (use nid rid in \<open>auto simp: db1 insert_host_def tables_def host_ids_def\<close>)
qed

lemma job_saved_frame:
  assumes "tables db1 = tables db" and "hd_next db \<le> hd_next db1" and "job_saved db1 now tag existing job r"
  shows "job_saved db now tag existing job r"
  using assms(2,3) save_host_frame [OF assms(1)] by (auto simp: job_saved_def split: prod.splits option.splits)

lemma save_forms:
  assumes "foldE (save_form now tag existing) jobs db = Inr db2" and "ids_ok db"
    and "distinct (List.map_filter (\<lambda>j. hf_id (form_of j)) jobs)" and "set (List.map_filter (\<lambda>j. hf_id (form_of j)) jobs) \<subseteq> hr_id ` set existing"
    and "hr_id ` set existing \<subseteq> set (host_ids db)"
  shows "tables db2 = tables db \<and> hd_inbounds db2 = hd_inbounds db \<and> ids_ok db2 \<and> hd_next db \<le> hd_next db2
    \<and> (\<forall>r \<in> set (hd_hosts db2). (r \<in> set (hd_hosts db) \<and> (\<forall>j \<in> set jobs. hf_id (form_of j) \<noteq> Some (hr_id r)))
         \<or> (\<exists>j \<in> set jobs. job_saved db now tag existing j r))
    \<and> (\<forall>r \<in> set (hd_hosts db). (\<forall>j \<in> set jobs. hf_id (form_of j) \<noteq> Some (hr_id r)) \<longrightarrow> r \<in> set (hd_hosts db2))
    \<and> (\<forall>j \<in> set jobs. \<exists>r \<in> set (hd_hosts db2). job_saved db now tag existing j r)"
  using assms
proof (induction jobs arbitrary: db)
  case Nil
  then show ?case by simp
next
  case (Cons j jobs)
  obtain f k links where j: "j = (f, k, links)" by (cases j) auto
  from Cons.prems(1) obtain db1 where s: "save_form now tag existing j db = Inr db1"
    and rest: "foldE (save_form now tag existing) jobs db1 = Inr db2" by (auto simp: bindE_Inr_iff)
  have known: "\<And>i. hf_id f = Some i \<Longrightarrow> i \<in> hr_id ` set existing"
    using Cons.prems(4) by (auto simp: j form_of_def set_map_filter)
  obtain row where row: "job_saved db now tag existing j row" "hf_id f = None \<Longrightarrow> hr_id row = hd_next db"
    and hosts: "set (hd_hosts db1) = insert row {q \<in> set (hd_hosts db). Some (hr_id q) \<noteq> hf_id f}"
    and fr: "tables db1 = tables db" "hd_inbounds db1 = hd_inbounds db" "ids_ok db1" "hd_next db \<le> hd_next db1"
      "set (host_ids db) \<subseteq> set (host_ids db1)"
    by (rule save_form_step [OF s [unfolded j] Cons.prems(2) known Cons.prems(5)]) (simp_all add: j)
  have dist: "distinct (List.map_filter (\<lambda>j. hf_id (form_of j)) jobs)" and subs: "set (List.map_filter (\<lambda>j. hf_id (form_of j)) jobs) \<subseteq> hr_id ` set existing"
    using Cons.prems(3,4) by (auto simp: List.map_filter_simps split: option.splits)
  note IH = Cons.IH [OF rest fr(3) dist subs order_trans [OF Cons.prems(5) fr(5)]]
  have fresh: "hf_id (form_of j') \<noteq> Some (hr_id row)" if j': "j' \<in> set jobs" for j'
  proof
    assume e: "hf_id (form_of j') = Some (hr_id row)"
    then have m: "hr_id row \<in> set (List.map_filter (\<lambda>j. hf_id (form_of j)) jobs)"
      using j' by (auto simp: set_map_filter)
    show False
    proof (cases "hf_id f")
      case None
      with row(2) have "hr_id row = hd_next db" by simp
      moreover have "hr_id row \<in> set (host_ids db)" using m subs Cons.prems(5) by blast
      ultimately show False using Cons.prems(2) by (auto simp: ids_ok_def host_ids_def)
    next
      case (Some i)
      with row(1) have "hr_id row = i" by (simp add: job_saved_def j)
      with Some m Cons.prems(3) show False by (simp add: j form_of_def List.map_filter_simps)
    qed
  qed
  have stay: "row \<in> set (hd_hosts db2)" using IH fresh hosts by auto
  have from1: "\<exists>j' \<in> set jobs. job_saved db1 now tag existing j' r \<Longrightarrow> \<exists>j' \<in> set jobs. job_saved db now tag existing j' r" for r
    using job_saved_frame [OF fr(1) fr(4)] by blast
  have A: "\<forall>r \<in> set (hd_hosts db2). (r \<in> set (hd_hosts db) \<and> (\<forall>j \<in> set (j # jobs). hf_id (form_of j) \<noteq> Some (hr_id r)))
         \<or> (\<exists>j \<in> set (j # jobs). job_saved db now tag existing j r)"
  proof
    fix r assume r: "r \<in> set (hd_hosts db2)"
    with IH consider "r \<in> set (hd_hosts db1)" "\<forall>j \<in> set jobs. hf_id (form_of j) \<noteq> Some (hr_id r)"
      | "\<exists>j' \<in> set jobs. job_saved db1 now tag existing j' r" by blast
    then show "(r \<in> set (hd_hosts db) \<and> (\<forall>j \<in> set (j # jobs). hf_id (form_of j) \<noteq> Some (hr_id r)))
         \<or> (\<exists>j \<in> set (j # jobs). job_saved db now tag existing j r)"
    proof cases
      case 1
      then show ?thesis using hosts row(1) by (auto simp: j form_of_def)
    next
      case 2
      then show ?thesis using from1 by auto
    qed
  qed
  have B: "\<forall>r \<in> set (hd_hosts db). (\<forall>j \<in> set (j # jobs). hf_id (form_of j) \<noteq> Some (hr_id r)) \<longrightarrow> r \<in> set (hd_hosts db2)"
    using IH hosts by (auto simp: j form_of_def)
  have C: "\<forall>j \<in> set (j # jobs). \<exists>r \<in> set (hd_hosts db2). job_saved db now tag existing j r"
    using IH row(1) stay job_saved_frame [OF fr(1) fr(4)] by (metis set_ConsD)
  show ?case using IH fr A B C by simp
qed

section \<open>One inbound\<close>

lemma prepare_frame: "tables db = tables db' \<Longrightarrow> prepare_host_balancing db = prepare_host_balancing db'"
  by (intro ext) (unfold prepare_host_balancing_def check_entry_nodes_def tables_frame [of db db'], rule refl)

lemma add_inbound_frame [simp]:
  "tables (add_inbound tag db) = tables db" "hd_hosts (add_inbound tag db) = hd_hosts db" "hd_next (add_inbound tag db) = hd_next db"
  "host_ids (add_inbound tag db) = host_ids db" "inbound_hosts t (add_inbound tag db) = inbound_hosts t db"
  "ids_ok (add_inbound tag db) = ids_ok db" "set (hd_inbounds (add_inbound tag db)) = insert tag (set (hd_inbounds db))"
  by (auto simp: add_inbound_def tables_def host_ids_def inbound_hosts_def ids_ok_def)

text \<open>The row that a form leaves, given the state the batch reaches before its inbound.\<close>

definition host_saved :: "hosts_db \<Rightarrow> int \<Rightarrow> string \<Rightarrow> int list \<Rightarrow> host_form \<Rightarrow> host_row \<Rightarrow> bool" where
  "host_saved db now tag sources f r \<longleftrightarrow> (\<exists>k links.
     prepare_host_balancing db sources f (host_with_id (inbound_hosts tag db) (hf_id f)) = Inr links
     \<and> job_saved db now tag (inbound_hosts tag db) (f, k, links) r)"

lemma mapE_nth: "mapE f xs = Inr ys \<Longrightarrow> i < length xs \<Longrightarrow> f (xs ! i) = Inr (ys ! i)"
proof (induction xs arbitrary: ys i)
  case (Cons x xs)
  then show ?case by (cases i) (auto simp: bindE_Inr_iff)
qed simp

lemma assign_orders_length [simp]: "length (assign_orders hi os) = length os"
  by (induction hi os rule: assign_orders.induct) auto

lemma host_with_id_inbound: "host_with_id (inbound_hosts tag db) i = Some q \<Longrightarrow> hr_inbound q = tag \<and> q \<in> set (hd_hosts db) \<and> i = Some (hr_id q)"
  using host_with_id_Some [of "inbound_hosts tag db" i q] by (auto simp: inbound_hosts_def)

lemma job_saved_inbound: "job_saved db now tag (inbound_hosts tag db) job r \<Longrightarrow> hr_inbound r = tag"
  using host_with_id_inbound [of tag db] unfolding job_saved_def
  by (auto split: prod.splits dest!: save_host_row(2) split: option.splits)

lemma host_saved_inbound: "host_saved db now tag sources f r \<Longrightarrow> hr_inbound r = tag"
  by (auto simp: host_saved_def intro: job_saved_inbound)

lemma same_id_same_row: "ids_ok db \<Longrightarrow> r \<in> set (hd_hosts db) \<Longrightarrow> q \<in> set (hd_hosts db) \<Longrightarrow> hr_id r = hr_id q \<Longrightarrow> r = q"
  by (auto simp: ids_ok_def host_ids_def distinct_map inj_on_def)

lemma update_hosts_result:
  assumes u: "update_hosts now tag forms (Some sources) db = Inr db'" and ok: "ids_ok db"
  shows "tables db' = tables db" "ids_ok db'" "hd_next db \<le> hd_next db'"
    "set (hd_inbounds db') = insert tag (set (hd_inbounds db))"
    "\<And>r. hr_inbound r \<noteq> tag \<Longrightarrow> r \<in> set (hd_hosts db') \<longleftrightarrow> r \<in> set (hd_hosts db)"
    "\<And>r. r \<in> set (hd_hosts db') \<Longrightarrow> hr_inbound r = tag \<Longrightarrow> \<exists>f \<in> set forms. host_saved db now tag sources f r"
    "\<And>f. f \<in> set forms \<Longrightarrow> \<exists>r \<in> set (hd_hosts db'). host_saved db now tag sources f r"
proof -
  let ?ex = "inbound_hosts tag db" and ?db1 = "add_inbound tag db" and ?inc = "List.map_filter hf_id forms"
  let ?orders = "resolve_host_orders ?db1 tag forms"
  from u have dist: "distinct ?inc" and sub: "set ?inc \<subseteq> hr_id ` set ?ex"
    by (auto simp: update_hosts_def Let_def split: if_splits)
  from u dist sub obtain links db2 where
    prep: "mapE (\<lambda>f. prepare_host_balancing ?db1 sources f (host_with_id ?ex (hf_id f))) forms = Inr links"
    and fold: "foldE (save_form now tag ?ex) (zip forms (zip ?orders links)) ?db1 = Inr db2"
    and db': "db' = db2\<lparr>hd_hosts := filter (\<lambda>r. \<not> (hr_id r \<in> hr_id ` set ?ex \<and> hr_id r \<notin> set ?inc)) (hd_hosts db2)\<rparr>"
    by (auto simp: update_hosts_def Let_def bindE_Inr_iff split: if_splits)
  let ?jobs = "zip forms (zip ?orders links)"
  have len: "length links = length forms" "length ?orders = length forms" using mapE_length [OF prep] by (simp_all add: resolve_host_orders_def)
  have forms: "map form_of ?jobs = forms" using len by (simp add: form_of_def [abs_def])
  have mf: "List.map_filter (\<lambda>j. hf_id (form_of j)) ?jobs = ?inc"
    by (subst (2) forms [symmetric]) (simp only: List.map_filter_def filter_map map_map comp_def)
  have exs: "hr_id ` set ?ex \<subseteq> set (host_ids ?db1)" by (auto simp: inbound_hosts_def host_ids_def)
  have ok1: "ids_ok ?db1" using ok by simp
  have d1: "distinct (List.map_filter (\<lambda>j. hf_id (form_of j)) ?jobs)" and s1: "set (List.map_filter (\<lambda>j. hf_id (form_of j)) ?jobs) \<subseteq> hr_id ` set ?ex"
    using dist sub by (simp_all only: mf)
  note S = save_forms [OF fold ok1 d1 s1 exs]
  have jobs: "host_saved db now tag sources (form_of j) r" if j: "j \<in> set ?jobs" and s: "job_saved ?db1 now tag ?ex j r" for j r
  proof -
    obtain n where n: "n < length forms" "j = (forms ! n, ?orders ! n, links ! n)" using j len by (auto simp: in_set_zip)
    have "prepare_host_balancing ?db1 sources (forms ! n) (host_with_id ?ex (hf_id (forms ! n))) = Inr (links ! n)"
      using mapE_nth [OF prep n(1)] .
    moreover have "prepare_host_balancing ?db1 = prepare_host_balancing db" by (rule prepare_frame) simp
    ultimately show ?thesis using n(2) job_saved_frame [OF _ _ s] unfolding host_saved_def by (auto simp: form_of_def)
  qed
  have inj: "\<exists>j \<in> set ?jobs. form_of j = f" if "f \<in> set forms" for f
    using that by (subst (asm) forms [symmetric]) auto
  have from_form: "form_of j \<in> set forms" if "j \<in> set ?jobs" for j
    using that by (subst forms [symmetric]) (auto simp del: set_zip)
  have tagged: "job_saved ?db1 now tag ?ex j r \<Longrightarrow> hr_inbound r = tag" for j r
    using job_saved_inbound [of ?db1 now tag j r] by simp
  have listed: "hr_id r \<in> set ?inc \<or> hr_id r \<notin> hr_id ` set ?ex" if "j \<in> set ?jobs" "job_saved ?db1 now tag ?ex j r" for j r
  proof (cases "hf_id (form_of j)")
    case None
    then have "hd_next db \<le> hr_id r" using that(2) by (auto simp: job_saved_def form_of_def split: prod.splits)
    then show ?thesis using ok by (auto simp: ids_ok_def inbound_hosts_def)
  next
    case (Some i)
    then have "hr_id r = i" using that(2) by (auto simp: job_saved_def form_of_def split: prod.splits)
    then show ?thesis using Some from_form [OF that(1)] by (auto simp: set_map_filter)
  qed
  have others: "(\<forall>j \<in> set ?jobs. hf_id (form_of j) \<noteq> Some (hr_id r)) \<and> hr_id r \<notin> hr_id ` set ?ex" if "r \<in> set (hd_hosts db)" "hr_inbound r \<noteq> tag" for r
  proof -
    have "hr_id r \<notin> hr_id ` set ?ex" using that same_id_same_row [OF ok] by (fastforce simp: inbound_hosts_def)
    moreover have "hf_id (form_of j) = Some i \<Longrightarrow> j \<in> set ?jobs \<Longrightarrow> i \<in> hr_id ` set ?ex" for j i
      using from_form [of j] sub by (metis set_map_filter subsetD)
    ultimately show ?thesis by blast
  qed
  have td: "tables db2 = tables db" using S by simp
  show "tables db' = tables db" using td by (simp add: db' tables_def)
  show "hd_next db \<le> hd_next db'" using S by (simp add: db')
  show "set (hd_inbounds db') = insert tag (set (hd_inbounds db))" using S by (simp add: db')
  show "ids_ok db'" using S by (auto simp: db' ids_ok_def host_ids_def distinct_map inj_on_def)
  show "r \<in> set (hd_hosts db') \<longleftrightarrow> r \<in> set (hd_hosts db)" if "hr_inbound r \<noteq> tag" for r
  proof
    assume "r \<in> set (hd_hosts db')"
    then have "r \<in> set (hd_hosts db2)" by (simp add: db')
    with S that tagged show "r \<in> set (hd_hosts db)" by (metis add_inbound_frame(2))
  next
    assume r: "r \<in> set (hd_hosts db)"
    with S others [OF r that] show "r \<in> set (hd_hosts db')" by (simp add: db')
  qed
  show "\<exists>f \<in> set forms. host_saved db now tag sources f r" if "r \<in> set (hd_hosts db')" "hr_inbound r = tag" for r
  proof -
    have in2: "r \<in> set (hd_hosts db2)" and keep: "hr_id r \<notin> hr_id ` set ?ex \<or> hr_id r \<in> set ?inc" using that(1) by (auto simp: db')
    from S in2 consider "r \<in> set (hd_hosts db)" "\<forall>j \<in> set ?jobs. hf_id (form_of j) \<noteq> Some (hr_id r)" | j where "j \<in> set ?jobs" "job_saved ?db1 now tag ?ex j r"
      by (metis add_inbound_frame(2))
    then show ?thesis
    proof cases
      case 1
      then have "hr_id r \<in> hr_id ` set ?ex" using that(2) by (auto simp: inbound_hosts_def)
      then obtain f where f: "f \<in> set forms" "hf_id f = Some (hr_id r)" using keep by (auto simp: set_map_filter)
      then show ?thesis using inj [OF f(1)] 1(2) by auto
    next
      case 2
      then show ?thesis using jobs from_form by blast
    qed
  qed
  show "\<exists>r \<in> set (hd_hosts db'). host_saved db now tag sources f r" if f: "f \<in> set forms" for f
  proof -
    obtain j where j: "j \<in> set ?jobs" "form_of j = f" using inj [OF f] by blast
    then obtain r where r: "r \<in> set (hd_hosts db2)" "job_saved ?db1 now tag ?ex j r" using S by blast
    then have "r \<in> set (hd_hosts db')" using listed [OF j(1) r(2)] by (auto simp: db')
    then show ?thesis using jobs [OF j(1) r(2)] j(2) by blast
  qed
qed

section \<open>All inbounds of a batch\<close>

lemma host_with_id_cong:
  assumes "set A = set B" and "distinct (map hr_id A)" and "distinct (map hr_id B)"
  shows "host_with_id A i = host_with_id B i"
proof (cases "host_with_id A i")
  case None
  then have "host_with_id B i = None" using assms(1) by (simp add: host_with_id_None)
  with None show ?thesis by simp
next
  case (Some q)
  then have q: "i = Some (hr_id q)" "q \<in> set B" using host_with_id_Some [OF Some] assms(1) by auto
  then obtain q' where q': "host_with_id B i = Some q'" using host_with_id_None [of B i] by (cases "host_with_id B i") auto
  then have "hr_id q' = hr_id q" "q' \<in> set B" using host_with_id_Some [OF q'] q(1) by auto
  then have "q' = q" using q(2) assms(3) by (auto simp: distinct_map inj_on_def)
  with Some q' show ?thesis by simp
qed

lemma host_saved_frame:
  assumes "tables db1 = tables db" and "hd_next db \<le> hd_next db1" and "ids_ok db" and "ids_ok db1"
    and same: "\<And>r. hr_inbound r = tag \<Longrightarrow> r \<in> set (hd_hosts db1) \<longleftrightarrow> r \<in> set (hd_hosts db)"
    and s: "host_saved db1 now tag sources f r"
  shows "host_saved db now tag sources f r"
proof -
  have "distinct (map hr_id (inbound_hosts tag d))" if "ids_ok d" for d
    using that by (simp add: ids_ok_def host_ids_def inbound_hosts_def distinct_map_filter)
  then have e: "host_with_id (inbound_hosts tag db1) i = host_with_id (inbound_hosts tag db) i" for i
    using assms(3,4) same by (intro host_with_id_cong) (auto simp: inbound_hosts_def)
  from s obtain k links where
    p: "prepare_host_balancing db1 sources f (host_with_id (inbound_hosts tag db1) (hf_id f)) = Inr links"
    and j: "job_saved db1 now tag (inbound_hosts tag db1) (f, k, links) r" by (auto simp: host_saved_def)
  have "job_saved db now tag (inbound_hosts tag db1) (f, k, links) r" by (rule job_saved_frame [OF assms(1,2) j])
  then have "job_saved db now tag (inbound_hosts tag db) (f, k, links) r" by (simp add: job_saved_def e)
  with p show ?thesis unfolding host_saved_def by (auto simp: e prepare_frame [OF assms(1)])
qed

lemma inbounds_saved:
  assumes "foldE (\<lambda>(tag, fs). update_hosts now tag (map g fs) (Some sources)) m db = Inr db'"
    and "ids_ok db" and "distinct (map fst m)"
  shows "tables db' = tables db \<and> ids_ok db' \<and> hd_next db \<le> hd_next db'
    \<and> (\<forall>r. hr_inbound r \<notin> fst ` set m \<longrightarrow> (r \<in> set (hd_hosts db') \<longleftrightarrow> r \<in> set (hd_hosts db)))
    \<and> (\<forall>r \<in> set (hd_hosts db'). hr_inbound r \<in> fst ` set m \<longrightarrow> (\<exists>(tag, fs) \<in> set m. \<exists>f \<in> set fs. host_saved db now tag sources (g f) r))
    \<and> (\<forall>(tag, fs) \<in> set m. \<forall>f \<in> set fs. \<exists>r \<in> set (hd_hosts db'). host_saved db now tag sources (g f) r)"
  using assms
proof (induction m arbitrary: db)
  case Nil
  then show ?case by simp
next
  case (Cons p m)
  obtain tag fs where p: "p = (tag, fs)" by (cases p)
  from Cons.prems(1) obtain db1 where u: "update_hosts now tag (map g fs) (Some sources) db = Inr db1"
    and rest: "foldE (\<lambda>(tag, fs). update_hosts now tag (map g fs) (Some sources)) m db1 = Inr db'" by (auto simp: p bindE_Inr_iff)
  note U = update_hosts_result [OF u Cons.prems(2)]
  have tag: "tag \<notin> fst ` set m" and dist: "distinct (map fst m)" using Cons.prems(3) by (auto simp: p)
  note IH = Cons.IH [OF rest U(2) dist]
  have lift: "host_saved db now t sources f r" if "host_saved db1 now t sources f r" "t \<noteq> tag" for t f r
    using host_saved_frame [OF U(1) U(3) Cons.prems(2) U(2) _ that(1)] U(5) that(2) by blast
  have ne: "t \<noteq> tag" if "(t, fs') \<in> set m" for t fs' using that tag by force
  have frame: "\<forall>r. hr_inbound r \<notin> fst ` set (p # m) \<longrightarrow> (r \<in> set (hd_hosts db') \<longleftrightarrow> r \<in> set (hd_hosts db))"
    using IH U(5) by (auto simp: p)
  have rows: "\<forall>r \<in> set (hd_hosts db'). hr_inbound r \<in> fst ` set (p # m) \<longrightarrow>
      (\<exists>(tag, fs) \<in> set (p # m). \<exists>f \<in> set fs. host_saved db now tag sources (g f) r)"
  proof (intro ballI impI)
    fix r assume r: "r \<in> set (hd_hosts db')" and t: "hr_inbound r \<in> fst ` set (p # m)"
    show "\<exists>(tag, fs) \<in> set (p # m). \<exists>f \<in> set fs. host_saved db now tag sources (g f) r"
    proof (cases "hr_inbound r = tag")
      case True
      then have "r \<in> set (hd_hosts db1)" using IH r tag by auto
      then show ?thesis using U(6) [of r] True by (auto simp: p)
    next
      case False
      then have "\<exists>(tag, fs) \<in> set m. \<exists>f \<in> set fs. host_saved db1 now tag sources (g f) r" using IH r t by (auto simp: p)
      then obtain t fs' f where w: "(t, fs') \<in> set m" "f \<in> set fs'" "host_saved db1 now t sources (g f) r" by blast
      have "host_saved db now t sources (g f) r" by (rule lift [OF w(3) ne [OF w(1)]])
      with w show ?thesis by (intro bexI [of _ "(t, fs')"]) (auto simp: p)
    qed
  qed
  have "\<exists>r \<in> set (hd_hosts db'). host_saved db now tag sources (g f) r" if f: "f \<in> set fs" for f
  proof -
    obtain r where r: "r \<in> set (hd_hosts db1)" "host_saved db now tag sources (g f) r" using U(7) [of "g f"] f by auto
    then have "r \<in> set (hd_hosts db')" using IH tag host_saved_inbound [OF r(2)] by auto
    with r(2) show ?thesis by blast
  qed
  moreover have "\<exists>r \<in> set (hd_hosts db'). host_saved db now t sources (g f) r" if m: "(t, fs') \<in> set m" "f \<in> set fs'" for t fs' f
  proof -
    have "\<forall>(tag, fs) \<in> set m. \<forall>f \<in> set fs. \<exists>r \<in> set (hd_hosts db'). host_saved db1 now tag sources (g f) r" using IH by (elim conjE)
    then obtain r where r: "r \<in> set (hd_hosts db')" "host_saved db1 now t sources (g f) r" using m by blast
    then show ?thesis using lift [OF r(2) ne [OF m(1)]] by blast
  qed
  ultimately have forms: "\<forall>(tag, fs) \<in> set (p # m). \<forall>f \<in> set fs. \<exists>r \<in> set (hd_hosts db'). host_saved db now tag sources (g f) r"
    by (auto simp: p)
  show ?case using IH U(1,3) frame rows forms by simp
qed

lemma destinations_of_keys:
  "destinations_of d ps = Inr d' \<Longrightarrow> fst ` set d' = fst ` set d \<union> fst ` set ps \<and> (\<forall>i t. (i, t) \<in> set ps \<longrightarrow> dget d' i = Some t)
     \<and> (\<forall>i. i \<in> fst ` set d \<longrightarrow> dget d' i = dget d i)"
proof (induction d ps rule: destinations_of.induct)
  case (2 d i tag rest)
  then have new: "dget d i = None" and run: "destinations_of (dput i tag d) rest = Inr d'" by (simp_all split: if_splits)
  note IH = 2(1) [OF _ run]
  have k: "fst ` set (dput i tag d) = insert i (fst ` set d)" using dkeys_dput [of i tag d] by simp
  have "i \<notin> fst ` set d" using new by (simp add: map_of_eq_None_iff)
  then have kept: "\<forall>j. j \<in> fst ` set d \<longrightarrow> dget d' j = dget d j" using IH new by (auto simp: k)
  have "dget d' i = Some tag" using IH new by (simp add: k)
  then have "\<forall>j t. (j, t) \<in> set ((i, tag) # rest) \<longrightarrow> dget d' j = Some t" using IH new by simp
  with kept IH new show ?case by (simp add: k)
qed simp

lemma keep_order_same [simp]:
  "hf_id (keep_order dest rows f) = hf_id f" "hf_plain (keep_order dest rows f) = hf_plain f" "hf_extra (keep_order dest rows f) = hf_extra f"
  "hf_rented (keep_order dest rows f) = hf_rented f" "hf_bots (keep_order dest rows f) = hf_bots f"
  by (simp_all add: keep_order_def split: option.split)

lemma move_host_same [simp]: "hr_id (move_host dest r) = hr_id r" "hr_links (move_host dest r) = hr_links r" "hr_bots (move_host dest r) = hr_bots r"
  by (simp_all add: move_host_def split: option.split)

lemma fold_add_inbound:
  "tables (fold add_inbound tags db) = tables db \<and> hd_hosts (fold add_inbound tags db) = hd_hosts db \<and> hd_next (fold add_inbound tags db) = hd_next db"
  by (induction tags arbitrary: db) simp_all

lemma form_ids_mem: "(i, tag) \<in> set (form_ids m) \<longleftrightarrow> (\<exists>fs. (tag, fs) \<in> set m \<and> (\<exists>f \<in> set fs. hf_id f = Some i))"
  by (force simp: form_ids_def set_map_filter)

text \<open>What a successful batch went through.\<close>

definition batch_run :: "int \<Rightarrow> (string \<times> host_form list) list \<Rightarrow> hosts_db \<Rightarrow> (int \<times> string) list \<Rightarrow> int list \<Rightarrow> hosts_db \<Rightarrow> hosts_db \<Rightarrow> bool" where
  "batch_run now m db dest sources db2 db' \<longleftrightarrow>
     (\<forall>i t. dget dest i = Some t \<longleftrightarrow> (i, t) \<in> set (form_ids m))
     \<and> (\<forall>i t. (i, t) \<in> set (form_ids m) \<longrightarrow> i \<in> set (host_ids db))
     \<and> set sources = {hr_id r | r. r \<in> set (hd_hosts db) \<and> (hr_inbound r \<notin> fst ` set m \<or> dget dest (hr_id r) \<noteq> None)}
     \<and> hd_hosts db2 = map (move_host dest) (hd_hosts db) \<and> tables db2 = tables db \<and> hd_next db2 = hd_next db \<and> ids_ok db2
     \<and> foldE (\<lambda>(tag, fs). update_hosts now tag (map (keep_order dest (hd_hosts db)) fs) (Some sources)) m db2 = Inr db'"

lemma batch_runD:
  assumes "batch_run now m db dest sources db2 db'"
  shows "dget dest i = Some t \<longleftrightarrow> (i, t) \<in> set (form_ids m)" "(i, t) \<in> set (form_ids m) \<Longrightarrow> i \<in> set (host_ids db)"
    "set sources = {hr_id r | r. r \<in> set (hd_hosts db) \<and> (hr_inbound r \<notin> fst ` set m \<or> dget dest (hr_id r) \<noteq> None)}"
    "hd_hosts db2 = map (move_host dest) (hd_hosts db)" "tables db2 = tables db" "hd_next db2 = hd_next db" "ids_ok db2"
    "foldE (\<lambda>(tag, fs). update_hosts now tag (map (keep_order dest (hd_hosts db)) fs) (Some sources)) m db2 = Inr db'"
  using assms unfolding batch_run_def by - (elim conjE, (assumption | blast))+

lemma unlisted_dest:
  assumes "batch_run now m db dest sources db2 db'"
  shows "dget dest i = None \<longleftrightarrow> i \<notin> fst ` set (form_ids m)"
proof -
  have "(\<exists>t. dget dest i = Some t) \<longleftrightarrow> (\<exists>t. (i, t) \<in> set (form_ids m))" by (simp add: batch_runD(1) [OF assms])
  then show ?thesis by force
qed

lemma batch_runs:
  assumes b: "update_hosts_batch now m db = (Inr (), db')" and ok: "ids_ok db"
  obtains dest sources db2 where "batch_run now m db dest sources db2 db'"
proof -
  from b have "batch now m db = Inr db'" by (simp add: update_hosts_batch_def split: sum.splits)
  then obtain dest where d: "destinations_of [] (form_ids m) = Inr dest" and sub: "set (map fst dest) \<subseteq> set (host_ids db)"
    and run: "foldE (\<lambda>(tag, fs). update_hosts now tag (map (keep_order dest (hd_hosts db)) fs)
        (Some (map hr_id (filter (\<lambda>r. hr_inbound r \<notin> fst ` set m \<or> dget dest (hr_id r) \<noteq> None) (hd_hosts db))))) m
        ((fold add_inbound (map fst m) db)\<lparr>hd_hosts := map (move_host dest) (hd_hosts (fold add_inbound (map fst m) db))\<rparr>) = Inr db'"
    unfolding batch_def bindE_Inr_iff Let_def by (auto split: if_splits)
  note K = destinations_of_keys [OF d]
  have look: "dget dest i = Some t \<longleftrightarrow> (i, t) \<in> set (form_ids m)" for i t
  proof
    assume a: "dget dest i = Some t"
    then have "i \<in> fst ` set dest" by (metis map_of_eq_None_iff option.distinct(1))
    with K obtain t' where "(i, t') \<in> set (form_ids m)" by auto
    with K a show "(i, t) \<in> set (form_ids m)" by auto
  qed (use K in simp)
  let ?sources = "map hr_id (filter (\<lambda>r. hr_inbound r \<notin> fst ` set m \<or> dget dest (hr_id r) \<noteq> None) (hd_hosts db))"
  let ?db2 = "(fold add_inbound (map fst m) db)\<lparr>hd_hosts := map (move_host dest) (hd_hosts (fold add_inbound (map fst m) db))\<rparr>"
  note F = fold_add_inbound [of "map fst m" db]
  have ids: "map (hr_id \<circ> move_host dest) rows = map hr_id rows" for rows by (simp add: comp_def)
  have ok2: "ids_ok ?db2" using ok F by (simp add: ids_ok_def host_ids_def ids)
  have tb: "tables ?db2 = tables db" using F by (simp add: tables_def)
  have known: "\<forall>i t. (i, t) \<in> set (form_ids m) \<longrightarrow> i \<in> set (host_ids db)" using sub K by force
  have "batch_run now m db dest ?sources ?db2 db'"
    unfolding batch_run_def using look known ok2 tb F run by auto
  then show thesis by (rule that)
qed

lemma batch_target:
  assumes run: "batch_run now m db dest sources db2 db'" and ok: "ids_ok db"
    and f: "(tag, fs) \<in> set m" "f \<in> set fs" "hf_id f = Some (hr_id r0)" and r0: "r0 \<in> set (hd_hosts db)"
  shows "host_with_id (inbound_hosts tag db2) (hf_id f) = Some (r0\<lparr>hr_inbound := tag\<rparr>)"
proof -
  have "(hr_id r0, tag) \<in> set (form_ids m)" using f by (auto simp: form_ids_mem)
  then have mv: "move_host dest r0 = r0\<lparr>hr_inbound := tag\<rparr>" using batch_runD(1) [OF run, of "hr_id r0" tag] by (simp add: move_host_def)
  have in2: "r0\<lparr>hr_inbound := tag\<rparr> \<in> set (inbound_hosts tag db2)"
    using imageI [OF r0, of "move_host dest"] by (simp add: batch_runD(4) [OF run] inbound_hosts_def mv)
  then obtain q where q: "host_with_id (inbound_hosts tag db2) (hf_id f) = Some q"
    using host_with_id_None [of "inbound_hosts tag db2" "hf_id f"] f(3) by (cases "host_with_id (inbound_hosts tag db2) (hf_id f)") force+
  then have "q \<in> set (hd_hosts db2)" "hr_id q = hr_id r0" using host_with_id_inbound [OF q] f(3) by auto
  moreover have "r0\<lparr>hr_inbound := tag\<rparr> \<in> set (hd_hosts db2)" using in2 by (simp add: inbound_hosts_def)
  moreover have "ids_ok db2" using run by (simp add: batch_run_def)
  ultimately have "q = r0\<lparr>hr_inbound := tag\<rparr>" using same_id_same_row by force
  with q show ?thesis by simp
qed

lemma batch_untouched:
  assumes run: "batch_run now m db dest sources db2 db'" and out: "hr_inbound r \<notin> fst ` set m"
  shows "r \<in> set (hd_hosts db2) \<longleftrightarrow> r \<in> set (hd_hosts db) \<and> hr_id r \<notin> fst ` set (form_ids m)"
proof
  assume "r \<in> set (hd_hosts db2)"
  then obtain q where q: "q \<in> set (hd_hosts db)" "r = move_host dest q" by (auto simp: batch_runD(4) [OF run])
  have none: "dget dest (hr_id q) = None"
  proof (rule ccontr)
    assume "dget dest (hr_id q) \<noteq> None"
    then obtain t where t: "dget dest (hr_id q) = Some t" by auto
    then have "(hr_id q, t) \<in> set (form_ids m)" by (simp only: batch_runD(1) [OF run])
    then have "t \<in> fst ` set m" by (force simp: form_ids_mem)
    with q t out show False by (simp add: move_host_def)
  qed
  then have "hr_id q \<notin> fst ` set (form_ids m)" by (simp only: unlisted_dest [OF run] simp_thms)
  then show "r \<in> set (hd_hosts db) \<and> hr_id r \<notin> fst ` set (form_ids m)" using q none by (simp add: move_host_def)
next
  assume a: "r \<in> set (hd_hosts db) \<and> hr_id r \<notin> fst ` set (form_ids m)"
  then have "move_host dest r = r" using unlisted_dest [OF run, of "hr_id r"] by (simp add: move_host_def)
  with a have "r \<in> move_host dest ` set (hd_hosts db)" by (metis image_eqI)
  then show "r \<in> set (hd_hosts db2)" by (simp add: batch_runD(4) [OF run])
qed

section \<open>What a batch does\<close>

lemma batch_saved:
  assumes run: "batch_run now m db dest sources db2 db'" and dist: "distinct (map fst m)"
  shows "ids_ok db'" "\<And>r. hr_inbound r \<notin> fst ` set m \<Longrightarrow> r \<in> set (hd_hosts db') \<longleftrightarrow> r \<in> set (hd_hosts db) \<and> hr_id r \<notin> fst ` set (form_ids m)"
    "\<And>r. r \<in> set (hd_hosts db') \<Longrightarrow> hr_inbound r \<in> fst ` set m \<Longrightarrow>
       \<exists>(tag, fs) \<in> set m. \<exists>f \<in> set fs. host_saved db2 now tag sources (keep_order dest (hd_hosts db) f) r"
    "\<And>tag fs f. (tag, fs) \<in> set m \<Longrightarrow> f \<in> set fs \<Longrightarrow>
       \<exists>r \<in> set (hd_hosts db'). host_saved db2 now tag sources (keep_order dest (hd_hosts db) f) r"
proof -
  note S = inbounds_saved [OF batch_runD(8) [OF run] batch_runD(7) [OF run] dist]
  show "ids_ok db'" using S by (elim conjE)
  show "r \<in> set (hd_hosts db') \<longleftrightarrow> r \<in> set (hd_hosts db) \<and> hr_id r \<notin> fst ` set (form_ids m)" if out: "hr_inbound r \<notin> fst ` set m" for r
  proof -
    have "r \<in> set (hd_hosts db') \<longleftrightarrow> r \<in> set (hd_hosts db2)" using S out by blast
    then show ?thesis by (simp only: batch_untouched [OF run out])
  qed
  have rows: "\<forall>r \<in> set (hd_hosts db'). hr_inbound r \<in> fst ` set m \<longrightarrow>
       (\<exists>(tag, fs) \<in> set m. \<exists>f \<in> set fs. host_saved db2 now tag sources (keep_order dest (hd_hosts db) f) r)" using S by (elim conjE)
  then show "\<exists>(tag, fs) \<in> set m. \<exists>f \<in> set fs. host_saved db2 now tag sources (keep_order dest (hd_hosts db) f) r"
    if "r \<in> set (hd_hosts db')" "hr_inbound r \<in> fst ` set m" for r using that by blast
  have forms: "\<forall>(tag, fs) \<in> set m. \<forall>f \<in> set fs. \<exists>r \<in> set (hd_hosts db'). host_saved db2 now tag sources (keep_order dest (hd_hosts db) f) r"
    using S by (elim conjE)
  then show "\<exists>r \<in> set (hd_hosts db'). host_saved db2 now tag sources (keep_order dest (hd_hosts db) f) r"
    if "(tag, fs) \<in> set m" "f \<in> set fs" for tag fs f using that by blast
qed

definition shows_form :: "hosts_db \<Rightarrow> string \<Rightarrow> host_form \<Rightarrow> host_row \<Rightarrow> bool" where
  "shows_form db tag f r \<longleftrightarrow> hr_inbound r = tag \<and> hr_plain r = hf_plain f \<and> hr_extra r = hf_extra f
     \<and> (case hf_id f of Some i \<Rightarrow> hr_id r = i | None \<Rightarrow> hr_id r \<notin> set (host_ids db))"

lemma host_saved_shows:
  assumes run: "batch_run now m db dest sources db2 db'" and ok: "ids_ok db"
    and s: "host_saved db2 now tag sources (keep_order dest (hd_hosts db) f) r"
  shows "shows_form db tag f r"
proof -
  from s obtain k links where j: "job_saved db2 now tag (inbound_hosts tag db2) (keep_order dest (hd_hosts db) f, k, links) r"
    by (auto simp: host_saved_def)
  then have row: "save_host db2 now tag (host_with_id (inbound_hosts tag db2) (hf_id f)) (hr_id r) (keep_order dest (hd_hosts db) f) k links = Inr r"
    and i: "case hf_id f of None \<Rightarrow> hd_next db2 \<le> hr_id r | Some i \<Rightarrow> hr_id r = i" by (simp_all add: job_saved_def)
  have "hr_id r \<notin> set (host_ids db)" if "hd_next db2 \<le> hr_id r"
    using that ok batch_runD(6) [OF run] by (auto simp: ids_ok_def host_ids_def)
  then show ?thesis using host_saved_inbound [OF s] save_host_row(4,5) [OF row] i by (auto simp: shows_form_def split: option.splits)
qed


definition rents :: "hosts_db \<Rightarrow> int \<Rightarrow> string list \<Rightarrow> bool" where
  "rents db b rented \<longleftrightarrow> (\<exists>n \<in> set (bot_names rented). (b, n) \<in> set (hd_bots db))"

lemma rental_marks:
  assumes "apply_rental_marks db now True rented bound = Inr bots" and "(b, since) \<in> set bots"
  shows "\<exists>old. (b, old) \<in> set bound \<and> since = (if rents db b rented then Some (case old of Some d \<Rightarrow> d | None \<Rightarrow> now) else None)"
proof -
  from assms obtain old where old: "(b, old) \<in> set bound" and s: "since =
      (if b \<in> set (map fst (filter (\<lambda>x. snd x \<in> set (bot_names rented)) (filter (\<lambda>x. fst x \<in> fst ` set bound) (hd_bots db))))
       then (case old of None \<Rightarrow> Some now | Some d \<Rightarrow> Some d) else None)"
    by (auto simp: apply_rental_marks_def Let_def split: if_splits)
  have "b \<in> fst ` set bound" using old by force
  then have "b \<in> set (map fst (filter (\<lambda>x. snd x \<in> set (bot_names rented)) (filter (\<lambda>x. fst x \<in> fst ` set bound) (hd_bots db)))) \<longleftrightarrow> rents db b rented"
    by (force simp: rents_def)
  with old s show ?thesis by (auto split: option.splits)
qed

text \<open>A host that is saved for the first time rents to nobody, whatever the form says.\<close>

lemma new_host_rents_nothing:
  assumes "save_host db now tag None i f k links = Inr r"
  shows "\<forall>(b, since) \<in> set (hr_bots r). since = None"
  using assms by (auto simp: save_host_def bindE_Inr_iff apply_rental_marks_def Let_def split: if_splits)

text \<open>C29: The date since which a bot rents a host is kept by every later save, also when the host moves to another inbound: a
  bot named in the form has the old date, or the present one if there was none, and the other bots have none.
\<close>
theorem rental_dates_are_kept:
  assumes "ids_ok db" and "distinct (map fst m)" and "update_hosts_batch now m db = (Inr (), db')"
    and "(tag, fs) \<in> set m" and "f \<in> set fs" and "r0 \<in> set (hd_hosts db)" and "hf_id f = Some (hr_id r0)"
    and "r \<in> set (hd_hosts db')" and "hr_id r = hr_id r0" and "(b, since) \<in> set (hr_bots r)"
  shows "since = (if rents db b (hf_rented f) then Some (case dget_or (hr_bots r0) b None of Some d \<Rightarrow> d | None \<Rightarrow> now) else None)"
proof -
  obtain dest sources db2 where run: "batch_run now m db dest sources db2 db'" by (rule batch_runs [OF assms(3,1)])
  note B = batch_saved [OF run assms(2)]
  obtain q where q: "q \<in> set (hd_hosts db')" "host_saved db2 now tag sources (keep_order dest (hd_hosts db) f) q"
    using B(4) [OF assms(4,5)] by blast
  then obtain k links where j: "job_saved db2 now tag (inbound_hosts tag db2) (keep_order dest (hd_hosts db) f, k, links) q"
    by (auto simp: host_saved_def)
  then have "hr_id q = hr_id r0" using assms(7) by (simp add: job_saved_def)
  then have "q = r" using same_id_same_row [OF B(1) q(1) assms(8)] assms(9) by simp
  with j have "save_host db2 now tag (Some (r0\<lparr>hr_inbound := tag\<rparr>)) (hr_id r0) (keep_order dest (hd_hosts db) f) k links = Inr r"
    using batch_target [OF run assms(1,4,5,7,6)] assms(7) by (auto simp: job_saved_def)
  then obtain bs where marks: "apply_rental_marks db2 now True (hf_rented f) (map (\<lambda>b. (b, dget_or (hr_bots r0) b None)) bs) = Inr (hr_bots r)"
    by (auto simp: save_host_def Let_def bindE_Inr_iff)
  have e: "rents db2 b (hf_rented f) = rents db b (hf_rented f)"
    using batch_runD(5) [OF run] by (simp add: rents_def tables_def)
  obtain old where "(b, old) \<in> set (map (\<lambda>b. (b, dget_or (hr_bots r0) b None)) bs)"
    "since = (if rents db2 b (hf_rented f) then Some (case old of Some d \<Rightarrow> d | None \<Rightarrow> now) else None)"
    using rental_marks [OF marks assms(10)] by blast
  then show ?thesis by (auto simp: e)
qed

definition refs :: "host_row \<Rightarrow> json list" where
  "refs r = (case referenced_ids (hl_injection (hr_links r)) of Inr ids \<Rightarrow> ids | Inl _ \<Rightarrow> [])"

lemma checked_Inr_iff: "(if b then Inr x else Inl e) = Inr y \<longleftrightarrow> b \<and> x = y"
  by simp

lemma prepared_injection:
  assumes "prepare_host_injection sources f target = Inr (injection, grp, hid)" and "referenced_ids injection = Inr ids" and "j \<in> set ids"
  shows "j \<in> JInt ` set sources \<or> (\<exists>old. referenced_ids (hl_injection (old_links target)) = Inr old \<and> j \<in> set old)"
  using assms unfolding prepare_host_injection_def Let_def bindE_Inr_iff checked_Inr_iff by (elim exE conjE) (simp only: prod.inject sum.inject, blast)

lemma prepared_references:
  assumes p: "prepare_host_balancing db sources f target = Inr links" and "referenced_ids (hl_injection links) = Inr ids" and "j \<in> set ids"
  shows "j \<in> JInt ` set sources \<or> (\<exists>q. target = Some q \<and> j \<in> set (refs q))"
proof -
  from p obtain injection grp hid where i: "prepare_host_injection sources f target = Inr (injection, grp, hid)" and "hl_injection links = injection"
    unfolding prepare_host_balancing_def Let_def bindE_Inr_iff by auto
  with assms prepared_injection [OF i] consider "j \<in> JInt ` set sources"
    | old where "referenced_ids (hl_injection (old_links target)) = Inr old" "j \<in> set old" by blast
  then show ?thesis
  proof cases
    case 2
    then show ?thesis by (cases target) (auto simp: old_links_def new_links_def referenced_ids_def [of None] refs_def)
  qed simp
qed

text \<open>C30: References between hosts are checked against what the batch leaves: a row that refers to a host by its key refers to
  one that exists afterwards, or had the same reference before.
\<close>
theorem references_resolve:
  assumes "ids_ok db" and "distinct (map fst m)" and "update_hosts_batch now m db = (Inr (), db')"
    and "r \<in> set (hd_hosts db')" and "j \<in> set (refs r)"
  shows "j \<in> JInt ` set (host_ids db') \<or> (\<exists>r0 \<in> set (hd_hosts db). hr_id r0 = hr_id r \<and> j \<in> set (refs r0))"
proof -
  obtain dest sources db2 where run: "batch_run now m db dest sources db2 db'" by (rule batch_runs [OF assms(3,1)])
  note B = batch_saved [OF run assms(2)]
  have sources: "i \<in> set (host_ids db')" if "i \<in> set sources" for i
  proof -
    from that obtain q where q: "q \<in> set (hd_hosts db)" "hr_id q = i" "hr_inbound q \<notin> fst ` set m \<or> dget dest i \<noteq> None"
      unfolding batch_runD(3) [OF run] by blast
    show ?thesis
    proof (cases "dget dest i")
      case None
      then have "q \<in> set (hd_hosts db')" using q B(2) [of q] unlisted_dest [OF run, of i] by simp
      with q show ?thesis by (auto simp: host_ids_def)
    next
      case (Some tag)
      then obtain fs f where f: "(tag, fs) \<in> set m" "f \<in> set fs" "hf_id f = Some i"
        by (auto simp: batch_runD(1) [OF run] form_ids_mem)
      obtain p where "p \<in> set (hd_hosts db')" "host_saved db2 now tag sources (keep_order dest (hd_hosts db) f) p"
        using B(4) [OF f(1,2)] by blast
      with host_saved_shows [OF run assms(1)] f(3) show ?thesis by (force simp: shows_form_def host_ids_def)
    qed
  qed
  show ?thesis
  proof (cases "hr_inbound r \<in> fst ` set m")
    case False
    then show ?thesis using B(2) assms(4,5) by blast
  next
    case True
    then obtain tag fs f where "(tag, fs) \<in> set m" "f \<in> set fs" and s: "host_saved db2 now tag sources (keep_order dest (hd_hosts db) f) r"
      using B(3) assms(4) by blast
    from s obtain k links where
      p: "prepare_host_balancing db2 sources (keep_order dest (hd_hosts db) f) (host_with_id (inbound_hosts tag db2) (hf_id f)) = Inr links"
      and j: "job_saved db2 now tag (inbound_hosts tag db2) (keep_order dest (hd_hosts db) f, k, links) r" by (auto simp: host_saved_def)
    have "hr_links r = links" using j by (auto simp: job_saved_def dest: save_host_row)
    then obtain ids where ids: "referenced_ids (hl_injection links) = Inr ids" "j \<in> set ids"
      using assms(5) by (cases "referenced_ids (hl_injection links)") (auto simp: refs_def)
    from prepared_references [OF p ids] consider "j \<in> JInt ` set sources"
      | q where "host_with_id (inbound_hosts tag db2) (hf_id f) = Some q" "j \<in> set (refs q)" by blast
    then show ?thesis
    proof cases
      case 1
      then show ?thesis using sources by blast
    next
      case 2
      then have q: "q \<in> set (hd_hosts db2)" "hf_id f = Some (hr_id q)" using host_with_id_inbound by blast+
      then obtain r0 where r0: "r0 \<in> set (hd_hosts db)" "q = move_host dest r0" by (auto simp: batch_runD(4) [OF run])
      have "hr_id r = hr_id q" using j q(2) by (simp add: job_saved_def)
      then show ?thesis using 2(2) r0 by (auto simp: refs_def)
    qed
  qed
qed

section \<open>Witnesses\<close>

definition sample_row :: "int \<Rightarrow> host_row" where
  "sample_row i = (default_host ''A'' i)\<lparr>hr_bots := [(1, Some 5)]\<rparr>"

definition sample_hosts :: hosts_db where
  "sample_hosts = \<lparr>hd_inbounds = [''A'', ''B''], hd_hosts = [sample_row 1, sample_row 2], hd_bots = [(1, ''x'')], hd_nodes = [], hd_next = 3\<rparr>"

definition sample_reference :: host_injection where
  "sample_reference = \<lparr>inj_enabled = True, inj_hosts = [\<lparr>g_selector = IdSelector [2], g_select_from = FromAll, g_tag_prefix = Some ''p'',
     g_remark_as_tag = False, g_tag_as_tag = False\<rparr>], inj_virtual = False\<rparr>"

definition sample_form :: host_form where
  "sample_form = (plain_form ''r'' ''a'')\<lparr>hf_id := Some 1, hf_bots := [''@x''], hf_rented := [''x''],
     hf_injection := Some sample_reference, hf_fields := [''remark'', ''host_injection'']\<rparr>"

definition sample_batch :: "(string \<times> host_form list) list" where
  "sample_batch = [(''B'', [sample_form])]"

definition sample_saved :: host_row where
  "sample_saved = (sample_row 1)\<lparr>hr_inbound := ''B'', hr_plain := hf_plain sample_form, hr_extra := hf_extra sample_form,
     hr_links := new_links\<lparr>hl_injection := Some (dump_injection sample_reference)\<rparr>\<rparr>"

lemma sample_runs: "update_hosts_batch 9 sample_batch sample_hosts = (Inr (), sample_hosts\<lparr>hd_hosts := [sample_saved, sample_row 2]\<rparr>)"
  by code_simp

lemma sample_hosts_ok: "ids_ok sample_hosts"
  by (simp add: ids_ok_def host_ids_def sample_hosts_def sample_row_def default_host_def)


theorem rental_dates_are_kept_witness:
  "(1, Some 5) \<in> set (hr_bots sample_saved) \<and>
   (Some (5 :: int) = (if rents sample_hosts 1 (hf_rented sample_form) then Some (case dget_or (hr_bots (sample_row 1)) 1 None of Some d \<Rightarrow> d | None \<Rightarrow> 9) else None))"
proof -
  have "(1, Some 5) \<in> set (hr_bots sample_saved)" by (simp add: sample_saved_def sample_row_def)
  moreover have "hf_id sample_form = Some (hr_id (sample_row 1))" by (simp add: sample_form_def sample_row_def default_host_def)
  moreover have "sample_row 1 \<in> set (hd_hosts sample_hosts)" by (simp add: sample_hosts_def)
  moreover have "hr_id sample_saved = hr_id (sample_row 1)" by (simp add: sample_saved_def)
  ultimately show ?thesis
    using rental_dates_are_kept [OF sample_hosts_ok _ sample_runs, of "''B''" "[sample_form]" sample_form "sample_row 1" sample_saved 1 "Some 5"]
    by (simp add: sample_batch_def)
qed

theorem references_resolve_witness:
  "JInt 2 \<in> set (refs sample_saved) \<and> 2 \<in> set (host_ids (sample_hosts\<lparr>hd_hosts := [sample_saved, sample_row 2]\<rparr>))"
proof -
  have j: "JInt 2 \<in> set (refs sample_saved)" by code_simp
  have "refs (sample_row 1) = []" by code_simp
  then have "refs r0 = []" if "r0 \<in> set (hd_hosts sample_hosts)" "hr_id r0 = hr_id sample_saved" for r0
    using that by (auto simp: sample_hosts_def sample_saved_def sample_row_def default_host_def)
  then have "JInt 2 \<in> JInt ` set (host_ids (sample_hosts\<lparr>hd_hosts := [sample_saved, sample_row 2]\<rparr>))"
    using references_resolve [OF sample_hosts_ok _ sample_runs, of sample_saved "JInt 2"] j by (auto simp: sample_batch_def)
  with j show ?thesis by auto
qed

end
