(* ===== verification/Documents.thy ===== *)
theory Documents
  imports HostEdit V2rayJson
begin

text \<open>
  app/services/xray_templates.py and app/routers/xray_templates.py: the documents clients are configured with. A document
  has versions, nothing is overwritten and the one with the greatest number is active. The bodies of the active
  versions are cached in the session and, for the subscriptions, in the process; every write drops both. The JSON parser
  and the file template are fields of \<open>doc_env\<close>; a request works in a session of its own. Keys and comments are as in the code, the
  Cyrillic comments are transliterated.
\<close>

section \<open>Tables and caches\<close>

definition DEFAULT_CONFIG_SLUG :: string where
  "DEFAULT_CONFIG_SLUG = ''default''"

record doc_template =
  dt_id :: int
  dt_slug :: string
  dt_title :: string

record doc_version =
  dv_template :: int
  dv_version :: int
  dv_body :: string
  dv_comment :: "string option"
  dv_author_id :: "int option"
  dv_author :: string

record active_bodies =
  ab_configs :: "(int \<times> string) list"
  ab_default :: "int option"

record docs =
  dc_templates :: "doc_template list"
  dc_versions :: "doc_version list"
  dc_next :: int
  dc_hosts :: hosts_db
  dc_session :: "active_bodies option"
  dc_process :: "active_bodies option"

record doc_env =
  de_parse :: "string \<Rightarrow> json option"
  de_inj :: inj_env
  de_file :: "string result"

record doc_admin =
  da_id :: "int option"
  da_username :: "string option"

datatype doc_error = TemplateLookup string | TemplateRule string | InvalidBody | DocError py_error

definition versions_of :: "docs \<Rightarrow> int \<Rightarrow> doc_version list" where
  "versions_of db t = filter (\<lambda>v. dv_template v = t) (dc_versions db)"

definition max_version :: "docs \<Rightarrow> int \<Rightarrow> int option" where
  "max_version db t = (case map dv_version (versions_of db t) of [] \<Rightarrow> None | n # ns \<Rightarrow> Some (fold max ns n))"

definition latest_row :: "docs \<Rightarrow> int \<Rightarrow> doc_version option" where
  "latest_row db t = find (\<lambda>v. Some (dv_version v) = max_version db t) (versions_of db t)"

definition fresh_bodies :: "docs \<Rightarrow> active_bodies" where
  "fresh_bodies db =
     (let rows = List.map_filter (\<lambda>t. map_option (\<lambda>v. (t, dv_body v)) (latest_row db (dt_id t))) (dc_templates db) in
      \<lparr>ab_configs = map (\<lambda>(t, b). (dt_id t, b)) (filter (\<lambda>(t, b). strip b \<noteq> []) rows),
       ab_default = fold (\<lambda>(t, b) d. if dt_slug t = DEFAULT_CONFIG_SLUG then Some (dt_id t) else d) rows None\<rparr>)"

definition get_active_bodies :: "docs \<Rightarrow> active_bodies \<times> docs" where
  "get_active_bodies db = (case dc_session db of Some b \<Rightarrow> (b, db) | None \<Rightarrow> (fresh_bodies db, db\<lparr>dc_session := Some (fresh_bodies db)\<rparr>))"

text \<open>The function opens a session of its own on a miss.\<close>

definition get_cached_active_bodies :: "docs \<Rightarrow> active_bodies \<times> docs" where
  "get_cached_active_bodies db = (case dc_process db of Some b \<Rightarrow> (b, db) | None \<Rightarrow> (fresh_bodies db, db\<lparr>dc_process := Some (fresh_bodies db)\<rparr>))"

definition invalidate_bodies :: "docs \<Rightarrow> docs" where
  "invalidate_bodies db = db\<lparr>dc_session := None, dc_process := None\<rparr>"

section \<open>Bodies\<close>

definition parse_json_object :: "doc_env \<Rightarrow> string option \<Rightarrow> obj option result" where
  "parse_json_object env raw = (case raw of None \<Rightarrow> Inr None
     | Some s \<Rightarrow> if strip s = [] then Inr None
       else (case de_parse env s of None \<Rightarrow> Inl (ValueError ''invalid JSON'')
         | Some (JObj d) \<Rightarrow> Inr (Some d) | Some _ \<Rightarrow> Inl (ValueError ''expected a JSON object'')))"

definition validate_body :: "doc_env \<Rightarrow> string option \<Rightarrow> doc_error + string" where
  "validate_body env body = (case parse_json_object env body of Inl e \<Rightarrow> Inl InvalidBody
     | Inr None \<Rightarrow> Inr (case body of None \<Rightarrow> [] | Some s \<Rightarrow> s)
     | Inr (Some d) \<Rightarrow> (case template_injection (de_inj env) d of Inl e \<Rightarrow> Inl InvalidBody
         | Inr _ \<Rightarrow> Inr (case body of None \<Rightarrow> [] | Some s \<Rightarrow> s)))"

definition file_template :: "doc_env \<Rightarrow> obj option result" where
  "file_template env = bindE (de_file env) (\<lambda>s. parse_json_object env (Some s))"

definition parsed_config :: "doc_env \<Rightarrow> string \<Rightarrow> obj option" where
  "parsed_config env raw = (case parse_json_object env (Some raw) of Inl e \<Rightarrow> Some [(''npvpn'', JNull)] | Inr d \<Rightarrow> d)"

definition build_template_lookup :: "doc_env \<Rightarrow> active_bodies \<Rightarrow> int option \<Rightarrow> obj" where
  "build_template_lookup env bodies = template_lookup
     (List.map_filter (\<lambda>(i, raw). map_option (Pair i) (parsed_config env raw)) (ab_configs bodies)) (ab_default bodies) (file_template env)"

section \<open>Reading\<close>

definition get_template :: "docs \<Rightarrow> int \<Rightarrow> doc_error + doc_template" where
  "get_template db i = (case find (\<lambda>t. dt_id t = i) (dc_templates db) of None \<Rightarrow> Inl (TemplateLookup ''template not found'') | Some t \<Rightarrow> Inr t)"

definition get_version :: "docs \<Rightarrow> int \<Rightarrow> int \<Rightarrow> doc_error + doc_version" where
  "get_version db i n = (case find (\<lambda>v. dv_version v = n) (versions_of db i) of None \<Rightarrow> Inl (TemplateLookup ''version not found'') | Some v \<Rightarrow> Inr v)"

record version_meta =
  vm_version :: int
  vm_comment :: "string option"
  vm_author :: string
  vm_size :: nat

definition version_dict :: "doc_version \<Rightarrow> version_meta" where
  "version_dict v = \<lparr>vm_version = dv_version v, vm_comment = dv_comment v, vm_author = dv_author v, vm_size = length (dv_body v)\<rparr>"

record document =
  do_id :: int
  do_slug :: string
  do_title :: string
  do_current :: "version_meta option"
  do_body :: string
  do_deletable :: bool
  do_injection :: "json option"
  do_injection_error :: bool

definition list_documents :: "doc_env \<Rightarrow> docs \<Rightarrow> document list \<times> docs" where
  "list_documents env db =
     (let (bodies, db') = get_active_bodies db; lookup = build_template_lookup env bodies in
      (map (\<lambda>t. let latest = latest_row db' (dt_id t); inj = template_injection (de_inj env) (lookup (Some (dt_id t))) in
         \<lparr>do_id = dt_id t, do_slug = dt_slug t, do_title = dt_title t, do_current = map_option version_dict latest,
          do_body = (case latest of None \<Rightarrow> [] | Some v \<Rightarrow> dv_body v), do_deletable = (dt_slug t \<noteq> DEFAULT_CONFIG_SLUG),
          do_injection = (case inj of Inl e \<Rightarrow> None | Inr i \<Rightarrow> map_option dump_injection i), do_injection_error = (\<exists>e. inj = Inl e)\<rparr>)
        (sort_key dt_id (dc_templates db')), db'))"

definition list_versions :: "docs \<Rightarrow> int \<Rightarrow> nat \<Rightarrow> nat \<Rightarrow> version_meta list" where
  "list_versions db i limit offset = map version_dict (take limit (drop offset (rev (sort_key dv_version (versions_of db i)))))"

section \<open>Writing\<close>

type_synonym 'a doc_op = "docs \<Rightarrow> (doc_error + 'a) \<times> docs"

definition next_version :: "docs \<Rightarrow> int \<Rightarrow> int" where
  "next_version db i = or0 (max_version db i) + 1"

definition append_version :: "int \<Rightarrow> string \<Rightarrow> string option \<Rightarrow> doc_admin \<Rightarrow> docs \<Rightarrow> version_meta \<times> docs" where
  "append_version i body comment admin db =
     (let v = \<lparr>dv_template = i, dv_version = next_version db i, dv_body = body, dv_comment = comment, dv_author_id = da_id admin,
               dv_author = (case da_username admin of None \<Rightarrow> [] | Some s \<Rightarrow> s)\<rparr>
      in (version_dict v, invalidate_bodies (db\<lparr>dc_versions := dc_versions db @ [v]\<rparr>)))"

definition save_version :: "doc_env \<Rightarrow> int \<Rightarrow> string option \<Rightarrow> string option \<Rightarrow> doc_admin \<Rightarrow> version_meta doc_op" where
  "save_version env i body comment admin db =
     (case get_template db i of Inl e \<Rightarrow> (Inl e, db)
      | Inr t \<Rightarrow> (case validate_body env body of Inl e \<Rightarrow> (Inl e, db)
          | Inr b \<Rightarrow> (let (m, db') = append_version i b comment admin db in (Inr m, db'))))"

definition revert :: "doc_env \<Rightarrow> int \<Rightarrow> int \<Rightarrow> doc_admin \<Rightarrow> version_meta doc_op" where
  "revert env i n admin db =
     (case get_version db i n of Inl e \<Rightarrow> (Inl e, db)
      | Inr v \<Rightarrow> (case validate_body env (Some (dv_body v)) of Inl e \<Rightarrow> (Inl e, db)
          | Inr b \<Rightarrow> (let (m, db') = append_version i b (Some (''otkat na versiyu '' @ int_str n)) admin db in (Inr m, db'))))"

definition default_body :: "doc_env \<Rightarrow> docs \<Rightarrow> string result" where
  "default_body env db =
     (case find (\<lambda>t. dt_slug t = DEFAULT_CONFIG_SLUG) (dc_templates db) of
        None \<Rightarrow> de_file env
      | Some t \<Rightarrow> (case latest_row db (dt_id t) of None \<Rightarrow> de_file env
          | Some v \<Rightarrow> if strip (dv_body v) \<noteq> [] then Inr (dv_body v) else de_file env))"

definition create_config :: "doc_env \<Rightarrow> string \<Rightarrow> string \<Rightarrow> doc_admin \<Rightarrow> doc_template doc_op" where
  "create_config env slug0 title admin db =
     (let slug = strip slug0 in
      if slug = [] then (Inl (TemplateRule ''slug is required''), db)
      else if \<exists>t \<in> set (dc_templates db). dt_slug t = slug then (Inl (TemplateRule ''slug already exists''), db)
      else (let t = \<lparr>dt_id = dc_next db, dt_slug = slug, dt_title = strip (if title \<noteq> [] then title else slug)\<rparr>;
                db1 = db\<lparr>dc_templates := dc_templates db @ [t], dc_next := dc_next db + 1\<rparr> in
            case default_body env db1 of Inl e \<Rightarrow> (Inl (DocError e), db1)
            | Inr b \<Rightarrow> (Inr t, snd (append_version (dt_id t) b (Some ''sozdan kopiey defoltnogo konfiga'') admin db1))))"

definition assert_config_exists :: "docs \<Rightarrow> int option \<Rightarrow> doc_error + unit" where
  "assert_config_exists db i = (case i of None \<Rightarrow> Inr ()
     | Some j \<Rightarrow> if \<exists>t \<in> set (dc_templates db). dt_id t = j then Inr () else Inl (TemplateRule ''unknown client config''))"

definition unbind_config :: "int \<Rightarrow> host_row \<Rightarrow> host_row" where
  "unbind_config i r = (if hp_config (hr_plain r) = Some i then r\<lparr>hr_plain := (hr_plain r)\<lparr>hp_config := None\<rparr>\<rparr> else r)"

definition delete_config :: "int \<Rightarrow> unit doc_op" where
  "delete_config i db =
     (case get_template db i of Inl e \<Rightarrow> (Inl e, db)
      | Inr t \<Rightarrow>
        if dt_slug t = DEFAULT_CONFIG_SLUG then (Inl (TemplateRule ''the default config cannot be deleted''), db)
        else (Inr (), invalidate_bodies (db\<lparr>
          dc_hosts := (dc_hosts db)\<lparr>hd_hosts := map (unbind_config i) (hd_hosts (dc_hosts db))\<rparr>,
          dc_templates := filter (\<lambda>t. dt_id t \<noteq> i) (dc_templates db), dc_versions := filter (\<lambda>v. dv_template v \<noteq> i) (dc_versions db)\<rparr>)))"

section \<open>Composition by the documents\<close>

definition composition_classifier :: "doc_env \<Rightarrow> docs \<Rightarrow> (host_row \<Rightarrow> bool) \<times> docs" where
  "composition_classifier env db =
     (let (bodies, db') = get_active_bodies db; lookup = build_template_lookup env bodies in
      (\<lambda>r. case resolve_host_injection (de_inj env) (hl_injection (hr_links r)) (lookup (hp_config (hr_plain r))) of
             Inl e \<Rightarrow> True | Inr i \<Rightarrow> i \<noteq> None, db'))"

record preview_host =
  pw_id :: "int option"
  pw_inbound :: string
  pw_remark :: string
  pw_group_tag :: string
  pw_disabled :: bool
  pw_hidden :: bool
  pw_order :: int
  pw_config :: "int option"
  pw_injection :: "json option"
  pw_set :: "string list"

definition preview_view :: "preview_host \<Rightarrow> inj_host" where
  "preview_view p = \<lparr>ih_id = or0 (pw_id p), ih_remark = pw_remark p, ih_group_tag = pw_group_tag p, ih_disabled = pw_disabled p,
     ih_hidden = pw_hidden p, ih_order = Some (pw_order p), ih_inbound = pw_inbound p, ih_config = pw_config p,
     ih_injection = pw_injection p, ih_is_bs = False\<rparr>"

definition catalog_view :: "host_row \<Rightarrow> inj_host" where
  "catalog_view r = \<lparr>ih_id = hr_id r, ih_remark = hp_remark (hr_plain r), ih_group_tag = hl_group_tag (hr_links r),
     ih_disabled = (he_disabled (hr_extra r) = Some True), ih_hidden = hl_hidden (hr_links r), ih_order = Some (hr_order r),
     ih_inbound = hr_inbound r, ih_config = hp_config (hr_plain r), ih_injection = hl_injection (hr_links r), ih_is_bs = False\<rparr>"

definition merge_preview :: "inj_host \<Rightarrow> preview_host \<Rightarrow> inj_host" where
  "merge_preview h p =
     (let put = (\<lambda>k. k \<in> set (pw_set p)) in
      h\<lparr>ih_inbound := (if put ''inbound_tag'' then pw_inbound p else ih_inbound h),
        ih_remark := (if put ''remark'' then pw_remark p else ih_remark h),
        ih_group_tag := (if put ''group_tag'' then pw_group_tag p else ih_group_tag h),
        ih_disabled := (if put ''is_disabled'' then pw_disabled p else ih_disabled h),
        ih_hidden := (if put ''is_hidden'' then pw_hidden p else ih_hidden h),
        ih_order := (if put ''order'' then Some (pw_order p) else ih_order h),
        ih_config := (if put ''client_config_id'' then pw_config p else ih_config h),
        ih_injection := (if put ''host_injection'' then pw_injection p else ih_injection h)\<rparr>)"

definition preview_catalog :: "docs \<Rightarrow> int list \<Rightarrow> preview_host list \<Rightarrow> inj_host list" where
  "preview_catalog db excluded drafts =
     fold (\<lambda>p hs. case pw_id p of None \<Rightarrow> hs | Some i \<Rightarrow> map (\<lambda>h. if ih_id h = i then merge_preview h p else h) hs) drafts
       (filter (\<lambda>h. ih_id h \<notin> set excluded) (map catalog_view (hd_hosts (dc_hosts db))))"

definition preview_injection :: "doc_env \<Rightarrow> preview_host \<Rightarrow> preview_host list \<Rightarrow> int list \<Rightarrow> string option \<Rightarrow> string list \<Rightarrow> nat \<Rightarrow> docs \<Rightarrow> preview \<times> docs" where
  "preview_injection env recipient0 drafts excluded template_body active n db =
     (let (bodies, db') = get_active_bodies db;
          failed = (\<lambda>code. \<lparr>pv_active = False, pv_groups = [], pv_issues = [problem code None []]\<rparr>);
          catalog = preview_catalog db' excluded drafts;
          known = (case pw_id recipient0 of None \<Rightarrow> None | Some i \<Rightarrow> find (\<lambda>h. ih_id h = i) catalog);
          recipient = (case known of None \<Rightarrow> preview_view recipient0 | Some h \<Rightarrow> merge_preview h recipient0);
          hosts = (case known of None \<Rightarrow> catalog | Some h \<Rightarrow> map (\<lambda>x. if ih_id x = ih_id h then recipient else x) catalog);
          run = (\<lambda>b. diagnose_injection (de_inj env) \<lparr>rc_id = pw_id recipient0, rc_host = recipient\<rparr> hosts
                   (\<lambda>c. Inr (build_template_lookup env b c)) active n) in
      case template_body of
        None \<Rightarrow> (run bodies, db')
      | Some body \<Rightarrow>
        (case parse_json_object env (Some body) of Inl e \<Rightarrow> (failed ''invalid_template'', db')
         | Inr _ \<Rightarrow> (case pw_config recipient0 of None \<Rightarrow> (failed ''missing_template'', db')
           | Some c \<Rightarrow> (let p = run (bodies\<lparr>ab_configs := dput c body (ab_configs bodies)\<rparr>) in
               (if ih_injection recipient \<noteq> None then p\<lparr>pv_issues := warning ''form_override'' None None # pv_issues p\<rparr> else p, db')))))"

section \<open>The requests\<close>

datatype doc_request =
    SaveTemplate int "string option" "string option" doc_admin
  | RevertTemplate int int doc_admin
  | CreateConfig string string doc_admin
  | DeleteConfig int
  | ListTemplates
  | ReadSubscription

definition save_status :: "doc_error \<Rightarrow> int" where
  "save_status e = (case e of TemplateLookup _ \<Rightarrow> 404 | InvalidBody \<Rightarrow> 422 | TemplateRule _ \<Rightarrow> 409 | DocError _ \<Rightarrow> 500)"

text \<open>Reverting handles a missing version only; creating a rule only; deleting both.\<close>

definition revert_status :: "doc_error \<Rightarrow> int" where
  "revert_status e = (case e of TemplateLookup _ \<Rightarrow> 404 | _ \<Rightarrow> 500)"

definition create_status :: "doc_error \<Rightarrow> int" where
  "create_status e = (case e of TemplateRule _ \<Rightarrow> 409 | _ \<Rightarrow> 500)"

definition delete_status :: "doc_error \<Rightarrow> int" where
  "delete_status e = (case e of TemplateLookup _ \<Rightarrow> 404 | TemplateRule _ \<Rightarrow> 409 | _ \<Rightarrow> 500)"

definition answer :: "(doc_error \<Rightarrow> int) \<Rightarrow> (doc_error + 'a) \<times> docs \<Rightarrow> int \<times> docs" where
  "answer status r = (case fst r of Inl e \<Rightarrow> status e | Inr _ \<Rightarrow> 200, snd r)"

definition doc_request :: "doc_env \<Rightarrow> doc_request \<Rightarrow> docs \<Rightarrow> int \<times> docs" where
  "doc_request env req db0 =
     (let db = db0\<lparr>dc_session := None\<rparr> in
      case req of
        SaveTemplate i body comment admin \<Rightarrow> answer save_status (save_version env i body comment admin db)
      | RevertTemplate i n admin \<Rightarrow> answer revert_status (revert env i n admin db)
      | CreateConfig slug title admin \<Rightarrow> answer create_status (create_config env slug title admin db)
      | DeleteConfig i \<Rightarrow> answer delete_status (delete_config i db)
      | ListTemplates \<Rightarrow> (200, snd (list_documents env db))
      | ReadSubscription \<Rightarrow> (200, snd (get_cached_active_bodies db)))"

definition doc_requests :: "doc_env \<Rightarrow> doc_request list \<Rightarrow> docs \<Rightarrow> docs" where
  "doc_requests env reqs db = fold (\<lambda>r d. snd (doc_request env r d)) reqs db"

section \<open>What the requests keep\<close>

definition configs_known :: "int set \<Rightarrow> hosts_db \<Rightarrow> bool" where
  "configs_known ids db \<longleftrightarrow> (\<forall>r \<in> set (hd_hosts db). \<forall>c. hp_config (hr_plain r) = Some c \<longrightarrow> c \<in> ids)"

definition template_ids :: "docs \<Rightarrow> int set" where
  "template_ids db = dt_id ` set (dc_templates db)"

definition tables_ok :: "docs \<Rightarrow> bool" where
  "tables_ok db \<longleftrightarrow> distinct (map dt_id (dc_templates db)) \<and> distinct (map dt_slug (dc_templates db))
     \<and> (\<forall>i \<in> template_ids db. i < dc_next db) \<and> (\<forall>v \<in> set (dc_versions db). dv_template v \<in> template_ids db)
     \<and> distinct (map (\<lambda>v. (dv_template v, dv_version v)) (dc_versions db)) \<and> configs_known (template_ids db) (dc_hosts db)"

definition caches_ok :: "docs \<Rightarrow> bool" where
  "caches_ok db \<longleftrightarrow> (\<forall>b. dc_session db = Some b \<longrightarrow> b = fresh_bodies db) \<and> (\<forall>b. dc_process db = Some b \<longrightarrow> b = fresh_bodies db)"

lemma fresh_frame: "dc_templates db = dc_templates db' \<Longrightarrow> dc_versions db = dc_versions db' \<Longrightarrow> fresh_bodies db = fresh_bodies db'"
  by (simp add: fresh_bodies_def latest_row_def max_version_def versions_of_def)

lemma tables_ok_frame [simp]:
  "tables_ok (db\<lparr>dc_session := x\<rparr>) = tables_ok db" "tables_ok (db\<lparr>dc_process := x\<rparr>) = tables_ok db"
  "tables_ok (invalidate_bodies db) = tables_ok db" "template_ids (invalidate_bodies db) = template_ids db"
  by (simp_all add: tables_ok_def template_ids_def invalidate_bodies_def)

lemma caches_ok_invalid [simp]: "caches_ok (invalidate_bodies db)"
  by (simp add: caches_ok_def invalidate_bodies_def)

lemma caches_ok_new_session: "caches_ok db \<Longrightarrow> caches_ok (db\<lparr>dc_session := None\<rparr>)"
  unfolding caches_ok_def using fresh_frame [of "db\<lparr>dc_session := None\<rparr>" db] by simp

lemma max_version_ge: "v \<in> set (versions_of db i) \<Longrightarrow> \<exists>m. max_version db i = Some m \<and> dv_version v \<le> m"
proof -
  assume v: "v \<in> set (versions_of db i)"
  then obtain n ns where e: "map dv_version (versions_of db i) = n # ns" by (cases "map dv_version (versions_of db i)") auto
  have "dv_version v \<in> set (n # ns)" using v unfolding e [symmetric] by simp
  then have "dv_version v \<le> Max (set (n # ns))" by (intro Max_ge) auto
  then show ?thesis by (simp only: max_version_def e list.case Max.set_eq_fold) blast
qed

lemma next_version_above: "v \<in> set (versions_of db i) \<Longrightarrow> dv_version v < next_version db i"
  using max_version_ge [of v db i] by (auto simp: next_version_def or0_def)

lemma max_version_snoc:
  assumes "versions_of db' i = versions_of db i @ [v]" and "\<And>u. u \<in> set (versions_of db i) \<Longrightarrow> dv_version u < dv_version v"
  shows "max_version db' i = Some (dv_version v)"
proof (cases "map dv_version (versions_of db i)")
  case Nil
  then show ?thesis using assms(1) by (simp add: max_version_def)
next
  case (Cons n ns)
  have "\<forall>x \<in> set (n # ns). x < dv_version v" using assms(2) unfolding Cons [symmetric] by auto
  then have "fold max ns n < dv_version v" unfolding Max.set_eq_fold [symmetric] by simp
  then show ?thesis using Cons assms(1) by (simp add: max_version_def)
qed

lemma append_version_rows:
  assumes "append_version i b c a db = (m, db')"
  obtains v where "db' = invalidate_bodies (db\<lparr>dc_versions := dc_versions db @ [v]\<rparr>)" "dv_template v = i" "dv_body v = b"
    "dv_version v = next_version db i" "m = version_dict v"
  using assms by (auto simp: append_version_def Let_def)

lemma find_snoc: "find P xs = None \<Longrightarrow> P x \<Longrightarrow> find P (xs @ [x]) = Some x"
  by (induction xs) (auto split: if_splits)

lemma append_version_active:
  assumes a: "append_version i b c a db = (m, db')"
  shows "\<exists>v. latest_row db' i = Some v \<and> dv_body v = b \<and> dv_version v = vm_version m \<and> (\<forall>u \<in> set (versions_of db i). dv_version u < dv_version v)"
proof -
  obtain v where db': "db' = invalidate_bodies (db\<lparr>dc_versions := dc_versions db @ [v]\<rparr>)" and v: "dv_template v = i" "dv_body v = b"
    "dv_version v = next_version db i" "m = version_dict v" by (rule append_version_rows [OF a])
  have vs: "versions_of db' i = versions_of db i @ [v]" using v by (simp add: db' versions_of_def invalidate_bodies_def)
  have less: "u \<in> set (versions_of db i) \<Longrightarrow> dv_version u < dv_version v" for u using next_version_above v(3) by simp
  have "find (\<lambda>u. Some (dv_version u) = Some (dv_version v)) (versions_of db i) = None" using less by (fastforce simp: find_None_iff)
  then have "find (\<lambda>u. Some (dv_version u) = Some (dv_version v)) (versions_of db i @ [v]) = Some v" by (rule find_snoc) simp
  then have "latest_row db' i = Some v" by (simp only: latest_row_def max_version_snoc [OF vs less] vs)
  then show ?thesis using v less by (auto simp: version_dict_def)
qed

lemma append_version_ok:
  assumes "append_version i b c a db = (m, db')" and "tables_ok db" and "i \<in> template_ids db"
  shows "tables_ok db' \<and> caches_ok db' \<and> dc_versions db' = dc_versions db @ [last (dc_versions db')] \<and> dc_templates db' = dc_templates db"
proof -
  obtain v where db': "db' = invalidate_bodies (db\<lparr>dc_versions := dc_versions db @ [v]\<rparr>)" and v: "dv_template v = i" "dv_body v = b"
    "dv_version v = next_version db i" "m = version_dict v" by (rule append_version_rows [OF assms(1)])
  have "(dv_template v, dv_version v) \<notin> (\<lambda>v. (dv_template v, dv_version v)) ` set (dc_versions db)"
    using next_version_above [of _ db i] v by (force simp: versions_of_def)
  with assms(2,3) v have "tables_ok (db\<lparr>dc_versions := dc_versions db @ [v]\<rparr>)" by (simp add: tables_ok_def template_ids_def)
  then show ?thesis by (simp add: db') (simp add: invalidate_bodies_def)
qed

lemma get_template_Inr: "get_template db i = Inr t \<Longrightarrow> t \<in> set (dc_templates db) \<and> dt_id t = i"
  by (auto simp: get_template_def find_Some_iff split: option.splits)

lemma get_version_Inr: "get_version db i n = Inr v \<Longrightarrow> v \<in> set (dc_versions db) \<and> dv_template v = i \<and> dv_version v = n"
  by (auto simp: get_version_def find_Some_iff versions_of_def split: option.splits dest!: nth_mem) 

lemma validate_body_same: "validate_body env (Some b) = Inr b' \<Longrightarrow> b' = b"
  by (auto simp: validate_body_def split: sum.splits option.splits)

lemma save_version_cases:
  obtains (failed) e where "save_version env i body comment admin db = (Inl e, db)"
  | (saved) b m db' where "save_version env i body comment admin db = (Inr m, db')" "validate_body env body = Inr b"
      "append_version i b comment admin db = (m, db')" "i \<in> template_ids db"
proof (cases "get_template db i")
  case (Inl e)
  then show ?thesis using failed by (simp add: save_version_def)
next
  case (Inr t)
  have i: "i \<in> template_ids db" using get_template_Inr [OF Inr] by (auto simp: template_ids_def)
  show ?thesis
  proof (cases "validate_body env body")
    case (Inl e)
    then show ?thesis using failed Inr by (simp add: save_version_def)
  next
    case (Inr b)
    obtain m db' where "append_version i b comment admin db = (m, db')" by force
    then show ?thesis using saved i Inr \<open>get_template db i = Inr t\<close> by (simp add: save_version_def)
  qed
qed

lemma revert_cases:
  obtains (failed) e where "revert env i n admin db = (Inl e, db)"
  | (saved) v c m db' where "revert env i n admin db = (Inr m, db')" "get_version db i n = Inr v"
      "append_version i (dv_body v) c admin db = (m, db')"
proof (cases "get_version db i n")
  case (Inl e)
  then show ?thesis using failed by (simp add: revert_def)
next
  case (Inr v)
  show ?thesis
  proof (cases "validate_body env (Some (dv_body v))")
    case (Inl e)
    then show ?thesis using failed Inr by (simp add: revert_def)
  next
    case (Inr b)
    have b: "b = dv_body v" by (rule validate_body_same [OF Inr])
    obtain m db' where "append_version i b (Some (''otkat na versiyu '' @ int_str n)) admin db = (m, db')" by force
    then show ?thesis using saved Inr \<open>get_version db i n = Inr v\<close> by (simp add: revert_def b)
  qed
qed

text \<open>
  What a request leaves: the tables and caches stay consistent, versions are only added, and nothing but the deletion of its document, which is
  never the default one, removes a version.
\<close>

definition keeps :: "docs \<Rightarrow> int option \<Rightarrow> docs \<Rightarrow> bool" where
  "keeps db gone db' \<longleftrightarrow> tables_ok db' \<and> caches_ok db'
     \<and> (\<forall>v \<in> set (dc_versions db). Some (dv_template v) \<noteq> gone \<longrightarrow> v \<in> set (dc_versions db'))
     \<and> (\<forall>t \<in> set (dc_templates db). Some (dt_id t) \<noteq> gone \<or> dt_slug t = DEFAULT_CONFIG_SLUG \<longrightarrow> t \<in> set (dc_templates db'))
     \<and> (\<forall>v \<in> set (dc_versions db). (\<exists>t \<in> set (dc_templates db). dt_id t = dv_template v \<and> dt_slug t = DEFAULT_CONFIG_SLUG) \<longrightarrow> v \<in> set (dc_versions db'))"

lemma keeps_refl: "tables_ok db \<Longrightarrow> caches_ok db \<Longrightarrow> keeps db gone db"
  by (simp add: keeps_def)

lemma append_keeps:
  assumes "append_version i b c a db = (m, db')" and "tables_ok db" and "i \<in> template_ids db"
  shows "keeps db gone db'"
proof -
  note A = append_version_ok [OF assms]
  then have "set (dc_versions db) \<subseteq> set (dc_versions db')" by (metis Un_upper1 set_append)
  then show ?thesis using A by (auto simp: keeps_def)
qed

lemma new_template_ok:
  assumes "tables_ok db" and "caches_ok db" and "\<not> (\<exists>t \<in> set (dc_templates db). dt_slug t = dt_slug u)" and "dt_id u = dc_next db"
  defines "db1 \<equiv> db\<lparr>dc_templates := dc_templates db @ [u], dc_next := dc_next db + 1\<rparr>"
  shows "tables_ok db1" and "caches_ok db1"
proof -
  have new: "dc_next db \<notin> template_ids db" using assms(1) by (force simp: tables_ok_def)
  then show "tables_ok db1"
    using assms(1,3,4) by (auto simp: db1_def tables_ok_def template_ids_def configs_known_def)
  have "versions_of db1 (dc_next db) = []" using assms(1) new by (auto simp: db1_def versions_of_def tables_ok_def filter_empty_conv)
  then have "latest_row db1 (dt_id u) = None" by (simp add: latest_row_def assms(4))
  moreover have "latest_row db1 = latest_row db" by (simp add: db1_def fun_eq_iff latest_row_def max_version_def versions_of_def)
  ultimately have "fresh_bodies db1 = fresh_bodies db"
    by (simp add: fresh_bodies_def db1_def List.map_filter_def Let_def)
  then show "caches_ok db1" using assms(2) by (simp add: caches_ok_def db1_def)
qed

lemma create_doc_keeps:
  assumes c: "create_config env slug0 title admin db = (r, db')" and ok: "tables_ok db" "caches_ok db"
  shows "keeps db gone db'"
proof -
  define t where "t = \<lparr>dt_id = dc_next db, dt_slug = strip slug0, dt_title = strip (if title \<noteq> [] then title else strip slug0)\<rparr>"
  define db1 where "db1 = db\<lparr>dc_templates := dc_templates db @ [t], dc_next := dc_next db + 1\<rparr>"
  show ?thesis
  proof (cases "strip slug0 = [] \<or> (\<exists>u \<in> set (dc_templates db). dt_slug u = strip slug0)")
    case True
    then have "db' = db" using c by (auto simp: create_config_def Let_def split: if_splits)
    then show ?thesis using ok by (simp add: keeps_refl)
  next
    case False
    have t: "\<not> (\<exists>u \<in> set (dc_templates db). dt_slug u = dt_slug t)" "dt_id t = dc_next db" using False by (simp_all add: t_def)
    note ok1 = new_template_ok [OF ok t, folded db1_def]
    have "db' = db1 \<or> (\<exists>b. db' = snd (append_version (dt_id t) b (Some ''sozdan kopiey defoltnogo konfiga'') admin db1))"
      using c False by (auto simp: create_config_def Let_def t_def [symmetric] db1_def [symmetric] split: sum.splits)
    then have "keeps db1 gone db'"
    proof (elim disjE exE)
      assume "db' = db1"
      then show ?thesis using ok1 by (simp add: keeps_refl)
    next
      fix b assume b: "db' = snd (append_version (dt_id t) b (Some ''sozdan kopiey defoltnogo konfiga'') admin db1)"
      have "dt_id t \<in> template_ids db1" by (simp add: template_ids_def db1_def)
      with append_keeps [OF prod.collapse [symmetric] ok1(1)] show ?thesis by (simp add: b)
    qed
    then show ?thesis by (simp add: keeps_def db1_def)
  qed
qed

lemma delete_keeps:
  assumes d: "delete_config i db = (r, db')" and ok: "tables_ok db" "caches_ok db"
  shows "keeps db (Some i) db'"
proof (cases "get_template db i")
  case (Inl e)
  then show ?thesis using d ok by (simp add: delete_config_def keeps_refl)
next
  case (Inr t)
  note t = get_template_Inr [OF Inr]
  show ?thesis
  proof (cases "dt_slug t = DEFAULT_CONFIG_SLUG")
    case True
    then show ?thesis using d ok Inr by (simp add: delete_config_def keeps_refl)
  next
    case False
    have only: "u = t" if "u \<in> set (dc_templates db)" "dt_id u = i" for u
      using ok(1) t that by (auto simp: tables_ok_def distinct_map inj_on_def)
    define db1 where "db1 = db\<lparr>dc_hosts := (dc_hosts db)\<lparr>hd_hosts := map (unbind_config i) (hd_hosts (dc_hosts db))\<rparr>,
       dc_templates := filter (\<lambda>t. dt_id t \<noteq> i) (dc_templates db), dc_versions := filter (\<lambda>v. dv_template v \<noteq> i) (dc_versions db)\<rparr>"
    have db': "db' = invalidate_bodies db1" using d Inr False by (simp add: delete_config_def db1_def)
    have "configs_known (template_ids db1) (dc_hosts db1)"
      using ok(1) by (force simp: tables_ok_def configs_known_def db1_def template_ids_def unbind_config_def)
    then have "tables_ok db1"
      using ok(1) by (auto simp: tables_ok_def db1_def template_ids_def distinct_map_filter)
    moreover have "caches_ok db'" by (simp add: db')
    ultimately show ?thesis using only False by (auto simp: keeps_def db' invalidate_bodies_def db1_def)
  qed
qed

fun deleted_by :: "doc_request \<Rightarrow> int option" where
  "deleted_by (DeleteConfig i) = Some i"
| "deleted_by _ = None"

lemma request_keeps:
  assumes ok: "tables_ok db0" "caches_ok db0"
  shows "keeps db0 (deleted_by req) (snd (doc_request env req db0))"
proof -
  define db where "db = db0\<lparr>dc_session := None\<rparr>"
  have ok': "tables_ok db" "caches_ok db" using ok caches_ok_new_session by (simp_all add: db_def)
  have "keeps db (deleted_by req) (snd (doc_request env req db0))"
  proof (cases req)
    case (SaveTemplate i body comment admin)
    show ?thesis
    proof (cases rule: save_version_cases [of env i body comment admin db])
      case failed
      then show ?thesis using ok' by (simp add: doc_request_def SaveTemplate db_def [symmetric] answer_def keeps_refl)
    next
      case saved
      then show ?thesis using append_keeps ok' by (simp add: doc_request_def SaveTemplate db_def [symmetric] answer_def)
    qed
  next
    case (RevertTemplate i n admin)
    show ?thesis
    proof (cases rule: revert_cases [of env i n admin db])
      case failed
      then show ?thesis using ok' by (simp add: doc_request_def RevertTemplate db_def [symmetric] answer_def keeps_refl)
    next
      case (saved v c m db')
      then have "i \<in> template_ids db" using get_version_Inr [OF saved(2)] ok'(1) by (auto simp: tables_ok_def)
      then show ?thesis using saved append_keeps ok' by (simp add: doc_request_def RevertTemplate db_def [symmetric] answer_def)
    qed
  next
    case (CreateConfig slug title admin)
    then show ?thesis using create_doc_keeps [OF prod.collapse [symmetric] ok'] by (simp add: doc_request_def db_def [symmetric] answer_def)
  next
    case (DeleteConfig i)
    then show ?thesis using delete_keeps [OF prod.collapse [symmetric] ok'] by (simp add: doc_request_def db_def [symmetric] answer_def)
  next
    case ListTemplates
    have "keeps db gone (snd (get_active_bodies db))" for gone
      using ok' fresh_frame [of "db\<lparr>dc_session := Some (fresh_bodies db)\<rparr>" db]
      by (auto simp: get_active_bodies_def keeps_def caches_ok_def split: option.splits)
    then show ?thesis by (simp add: ListTemplates doc_request_def db_def [symmetric] list_documents_def split_beta Let_def)
  next
    case ReadSubscription
    then show ?thesis
      using ok' fresh_frame [of "db\<lparr>dc_process := Some (fresh_bodies db)\<rparr>" db]
      by (auto simp: doc_request_def db_def [symmetric] get_cached_active_bodies_def keeps_def caches_ok_def split: option.splits)
  qed
  then show ?thesis by (simp add: keeps_def db_def)
qed

lemma requests_keep:
  assumes "tables_ok db" and "caches_ok db"
  shows "tables_ok (doc_requests env reqs db) \<and> caches_ok (doc_requests env reqs db)
    \<and> (\<forall>v \<in> set (dc_versions db). (\<forall>r \<in> set reqs. deleted_by r \<noteq> Some (dv_template v)) \<longrightarrow> v \<in> set (dc_versions (doc_requests env reqs db)))
    \<and> (\<forall>v \<in> set (dc_versions db). (\<exists>t \<in> set (dc_templates db). dt_id t = dv_template v \<and> dt_slug t = DEFAULT_CONFIG_SLUG) \<longrightarrow>
         v \<in> set (dc_versions (doc_requests env reqs db)))"
  using assms
proof (induction reqs arbitrary: db)
  case Nil
  then show ?case by (simp add: doc_requests_def)
next
  case (Cons r reqs)
  define db1 where "db1 = snd (doc_request env r db)"
  have k: "keeps db (deleted_by r) db1" unfolding db1_def by (rule request_keeps [OF Cons.prems])
  have run: "doc_requests env (r # reqs) db = doc_requests env reqs db1" by (simp add: doc_requests_def db1_def)
  note IH = Cons.IH [of db1] and K = k [unfolded keeps_def]
  have "tables_ok db1" "caches_ok db1" using K by simp_all
  note IH = IH [OF this]
  show ?case unfolding run
  proof (intro conjI ballI impI)
    fix v assume v: "v \<in> set (dc_versions db)" "\<forall>q \<in> set (r # reqs). deleted_by q \<noteq> Some (dv_template v)"
    then have "v \<in> set (dc_versions db1)" using K by (metis list.set_intros(1))
    with IH v show "v \<in> set (dc_versions (doc_requests env reqs db1))" by simp
  next
    fix v assume v: "v \<in> set (dc_versions db)" "\<exists>t \<in> set (dc_templates db). dt_id t = dv_template v \<and> dt_slug t = DEFAULT_CONFIG_SLUG"
    then have "v \<in> set (dc_versions db1)" "\<exists>t \<in> set (dc_templates db1). dt_id t = dv_template v \<and> dt_slug t = DEFAULT_CONFIG_SLUG"
      using K by blast+
    with IH show "v \<in> set (dc_versions (doc_requests env reqs db1))" by blast
  qed (use IH in blast)+
qed

section \<open>Properties\<close>


text \<open>C32: The history is append-only: a version that was saved can be read after any requests that do not delete its document, and the
  versions of the default document after any requests at all.\<close>
theorem history_is_append_only:
  assumes "tables_ok db" and "caches_ok db" and "get_version db i n = Inr v"
    and "(\<forall>r \<in> set reqs. r \<noteq> DeleteConfig i) \<or> (\<exists>t \<in> set (dc_templates db). dt_id t = i \<and> dt_slug t = DEFAULT_CONFIG_SLUG)"
  shows "get_version (doc_requests env reqs db) i n = Inr v"
proof -
  let ?db = "doc_requests env reqs db"
  note K = requests_keep [OF assms(1,2), of env reqs] and v = get_version_Inr [OF assms(3)]
  have "deleted_by r \<noteq> Some i" if "r \<noteq> DeleteConfig i" for r using that by (cases r) auto
  then have "v \<in> set (dc_versions ?db)" using K v assms(4) by metis
  then have f: "v \<in> set (versions_of ?db i)" "dv_version v = n" using v by (simp_all add: versions_of_def)
  have "u = v" if "u \<in> set (versions_of ?db i)" "dv_version u = n" for u
    using K f that by (auto simp: tables_ok_def distinct_map inj_on_def versions_of_def)
  moreover obtain u where "find (\<lambda>v. dv_version v = n) (versions_of ?db i) = Some u"
    using f by (cases "find (\<lambda>v. dv_version v = n) (versions_of ?db i)") (auto simp: find_None_iff)
  moreover from this have "u \<in> set (versions_of ?db i)" "dv_version u = n" by (auto simp: find_Some_iff)
  ultimately show ?thesis by (simp add: get_version_def)
qed

lemma active_distinct:
  assumes "tables_ok db"
  shows "distinct (map fst (ab_configs (fresh_bodies db)))"
proof -
  let ?f = "\<lambda>t. map_option (\<lambda>v. (t, dv_body v)) (latest_row db (dt_id t))"
  have e: "map fst (ab_configs (fresh_bodies db)) = map (dt_id \<circ> fst) (filter (\<lambda>(t, b). strip b \<noteq> []) (List.map_filter ?f (dc_templates db)))"
    by (simp add: fresh_bodies_def Let_def split_beta)
  have d: "distinct (map (dt_id \<circ> fst) (filter P (List.map_filter ?f ts)))" if "distinct (map dt_id ts)" for P ts
    using that by (induction ts) (auto simp: List.map_filter_simps set_map_filter split: option.splits)
  have "distinct (map dt_id (dc_templates db))" using assms by (simp add: tables_ok_def)
  then show ?thesis unfolding e by (rule d)
qed

lemma active_configs:
  assumes ok: "tables_ok db" and t: "t \<in> set (dc_templates db)" and w: "latest_row db (dt_id t) = Some w" and b: "strip (dv_body w) \<noteq> []"
  shows "dget (ab_configs (fresh_bodies db)) (dt_id t) = Some (dv_body w)"
proof -
  have "(t, dv_body w) \<in> set (List.map_filter (\<lambda>t. map_option (\<lambda>v. (t, dv_body v)) (latest_row db (dt_id t))) (dc_templates db))"
    using t w by (auto simp: set_map_filter)
  then have "(dt_id t, dv_body w) \<in> set (ab_configs (fresh_bodies db))"
    using b by (force simp: fresh_bodies_def Let_def)
  with active_distinct [OF ok] show ?thesis by simp
qed

lemma dget_map_filter:
  assumes "dget d i = Some raw" and "f raw = Some x" and "\<And>r. (i, r) \<in> set d \<Longrightarrow> r = raw"
  shows "dget (List.map_filter (\<lambda>(j, r). map_option (Pair j) (f r)) d) i = Some x"
  using assms
proof (induction d)
  case (Cons p d)
  obtain j r where p: "p = (j, r)" by (cases p)
  show ?case
  proof (cases "j = i")
    case True
    then have "r = raw" using Cons.prems by (simp add: p)
    then show ?thesis using True Cons.prems(2) by (simp add: p List.map_filter_simps)
  next
    case False
    have "dget (List.map_filter (\<lambda>(j, r). map_option (Pair j) (f r)) d) i = Some x"
      using Cons.IH Cons.prems False by (simp add: p)
    then show ?thesis using False by (simp add: p List.map_filter_simps split: option.split)
  qed
qed simp

text \<open>C33: A document that was saved is what the next subscription gives to the hosts bound to it: the parse of exactly the body in the request.\<close>
theorem saved_document_is_served:
  assumes "tables_ok db" and "save_version env i (Some body) comment admin db = (Inr m, db')" and "strip body \<noteq> []"
  shows "\<exists>d. de_parse env body = Some (JObj d) \<and> build_template_lookup env (fst (get_cached_active_bodies db')) (Some i) = d"
proof (cases rule: save_version_cases [of env i "Some body" comment admin db])
  case failed
  then show ?thesis using assms(2) by simp
next
  case (saved b m2 db2)
  have b: "b = body" by (rule validate_body_same [OF saved(2)])
  obtain d where d: "de_parse env body = Some (JObj d)"
    using saved(2) assms(3) by (auto simp: validate_body_def parse_json_object_def split: option.splits json.splits)
  have db2: "db2 = db'" using saved(1) assms(2) by simp
  note A = append_version_ok [OF saved(3) assms(1) saved(4)]
  obtain t where t: "t \<in> set (dc_templates db')" "dt_id t = i" using saved(4) A by (auto simp: template_ids_def db2)
  obtain w where w: "latest_row db' i = Some w" "dv_body w = body" using append_version_active [OF saved(3)] by (auto simp: db2 b)
  have ok': "tables_ok db'" using A by (simp add: db2)
  have bodies: "dget (ab_configs (fresh_bodies db')) i = Some body" using active_configs [OF ok' t(1)] w t(2) assms(3) by simp
  have distinct: "distinct (map fst (ab_configs (fresh_bodies db')))" by (rule active_distinct [OF ok'])
  have one: "r = body" if "(i, r) \<in> set (ab_configs (fresh_bodies db'))" for r
    using that distinct bodies by (metis map_of_is_SomeI option.inject)
  have "parsed_config env body = Some d" using d assms(3) by (simp add: parsed_config_def parse_json_object_def)
  from dget_map_filter [where f = "parsed_config env", OF bodies this one]
  have "dget (List.map_filter (\<lambda>(i, raw). map_option (Pair i) (parsed_config env raw)) (ab_configs (fresh_bodies db'))) i = Some d" .
  moreover have "fst (get_cached_active_bodies db') = fresh_bodies db'"
    using A by (simp add: db2 get_cached_active_bodies_def caches_ok_def split: option.split)
  ultimately show ?thesis using d by (simp add: build_template_lookup_def template_lookup_def select_config_def)
qed

text \<open>A version that no longer validates can be read, but going back to it is an internal error.\<close>

lemma revert_to_invalid_is_500:
  assumes "get_version (db\<lparr>dc_session := None\<rparr>) i n = Inr v" and "validate_body env (Some (dv_body v)) = Inl e"
  shows "fst (doc_request env (RevertTemplate i n admin) db) = 500"
proof -
  have "e = InvalidBody" using assms(2) by (auto simp: validate_body_def split: sum.splits option.splits)
  with assms show ?thesis by (simp add: doc_request_def revert_def answer_def revert_status_def)
qed

section \<open>Documents and hosts\<close>

lemma add_inbound_hosts_known: "configs_known ids (get_or_create_inbound tag db) = configs_known ids db"
  by (auto simp: configs_known_def get_or_create_inbound_def add_default_host_def insert_host_def add_inbound_def default_host_def)

lemma hosts_by_tag_known: "hosts_by_tag tags db = (rows, db') \<Longrightarrow> configs_known ids db' = configs_known ids db"
  by (induction tags arbitrary: db rows) (auto simp: get_hosts_def Let_def add_inbound_hosts_known split: prod.splits)

lemma batch_configs_known:
  assumes "update_hosts_batch now m db = (r, db')" and "ids_ok db" and "distinct (map fst m)" and "configs_known ids db"
    and "\<forall>(tag, fs) \<in> set m. \<forall>f \<in> set fs. \<forall>c. hp_config (hf_plain f) = Some c \<longrightarrow> c \<in> ids"
  shows "configs_known ids db'"
proof (cases r)
  case (Inl e)
  then have "db' = db" using assms(1) by (auto simp: update_hosts_batch_def split: sum.splits)
  then show ?thesis using assms(4) by simp
next
  case (Inr u)
  then have b: "update_hosts_batch now m db = (Inr (), db')" using assms(1) by simp
  obtain dest sources db2 where run: "batch_run now m db dest sources db2 db'" by (rule batch_runs [OF b assms(2)])
  note B = batch_saved [OF run assms(3)] and H = host_saved_shows [OF run assms(2)]
  show ?thesis unfolding configs_known_def
  proof (intro ballI allI impI)
    fix r c assume r: "r \<in> set (hd_hosts db')" "hp_config (hr_plain r) = Some c"
    show "c \<in> ids"
    proof (cases "hr_inbound r \<in> fst ` set m")
      case True
      then obtain tag fs f where "(tag, fs) \<in> set m" "f \<in> set fs" "shows_form db tag f r" using B(3) [OF r(1)] H by blast
      then show ?thesis using assms(5) r(2) by (auto simp: shows_form_def)
    next
      case False
      then show ?thesis using B(2) [OF False] assms(4) r by (auto simp: configs_known_def)
    qed
  qed
qed

text \<open>C34: Saving hosts never binds one to a document that does not exist: with the known documents as the documents the endpoint checks against, every host is bound to one of them, or to none, whatever the answer.\<close>
theorem hosts_bound_to_documents:
  assumes "ids_ok (hw_db w)" and "distinct (map fst m)" and "configs_known (set templates) (hw_db w)"
  shows "configs_known (set templates) (hw_db (snd (modify_hosts now tags templates m w)))"
proof -
  let ?w' = "snd (modify_hosts now tags templates m w)"
  show ?thesis
  proof (cases "(\<exists>tag \<in> fst ` set m. tag \<notin> set tags)
      \<or> (\<exists>(_, fs) \<in> set m. \<exists>f \<in> set fs. case hp_config (hf_plain f) of None \<Rightarrow> False | Some c \<Rightarrow> c \<notin> set templates)")
    case True
    then have "?w' = w" by (auto simp: modify_hosts_def)
    then show ?thesis using assms(3) by simp
  next
    case False
    obtain r db where b: "update_hosts_batch now m (hw_db w) = (r, db)" by force
    have "\<forall>(tag, fs) \<in> set m. \<forall>f \<in> set fs. \<forall>c. hp_config (hf_plain f) = Some c \<longrightarrow> c \<in> set templates" using False by fastforce
    then have k: "configs_known (set templates) db" by (rule batch_configs_known [OF b assms])
    obtain rows1 db1 where h1: "hosts_by_tag tags db = (rows1, db1)" by force
    obtain rows2 db2 where h2: "hosts_by_tag tags db1 = (rows2, db2)" by force
    have "hw_db ?w' = db \<or> hw_db ?w' = db2"
      using False by (auto simp: modify_hosts_def b h1 h2 hosts_update_def split: sum.split py_error.split)
    then show ?thesis using k hosts_by_tag_known [OF h1] hosts_by_tag_known [OF h2] by auto
  qed
qed

section \<open>Witnesses\<close>

definition sample_doc_env :: doc_env where
  "sample_doc_env = \<lparr>de_parse = (\<lambda>s. if s = ''{}'' then Some (JObj []) else None), de_inj = sample_env, de_file = Inr []\<rparr>"

definition sample_admin :: doc_admin where
  "sample_admin = \<lparr>da_id = Some 1, da_username = Some ''root''\<rparr>"

definition sample_docs :: docs where
  "sample_docs = \<lparr>dc_templates = [\<lparr>dt_id = 1, dt_slug = ''default'', dt_title = []\<rparr>],
     dc_versions = [\<lparr>dv_template = 1, dv_version = 1, dv_body = ''{}'', dv_comment = None, dv_author_id = None, dv_author = []\<rparr>],
     dc_next = 2, dc_hosts = sample_hosts, dc_session = None, dc_process = None\<rparr>"

lemma sample_docs_ok: "tables_ok sample_docs" "caches_ok sample_docs"
  by (simp_all add: tables_ok_def caches_ok_def template_ids_def configs_known_def sample_docs_def sample_hosts_def sample_row_def default_host_def)


theorem history_is_append_only_witness:
  "get_version (doc_requests sample_doc_env [DeleteConfig 1, SaveTemplate 1 (Some ''{}'') None sample_admin] sample_docs) 1 1 = Inr (hd (dc_versions sample_docs))"
proof (rule history_is_append_only [OF sample_docs_ok])
  show "get_version sample_docs 1 1 = Inr (hd (dc_versions sample_docs))" by (simp add: get_version_def versions_of_def sample_docs_def)
  show "(\<forall>r \<in> set [DeleteConfig 1, SaveTemplate 1 (Some ''{}'') None sample_admin]. r \<noteq> DeleteConfig 1)
    \<or> (\<exists>t \<in> set (dc_templates sample_docs). dt_id t = 1 \<and> dt_slug t = DEFAULT_CONFIG_SLUG)"
    by (simp add: sample_docs_def DEFAULT_CONFIG_SLUG_def)
qed

theorem saved_document_is_served_witness:
  "\<exists>m db'. save_version sample_doc_env 1 (Some ''{}'') None sample_admin sample_docs = (Inr m, db')
     \<and> build_template_lookup sample_doc_env (fst (get_cached_active_bodies db')) (Some 1) = []"
proof -
  obtain m db' where s: "save_version sample_doc_env 1 (Some ''{}'') None sample_admin sample_docs = (Inr m, db')"
    by (simp add: save_version_def get_template_def validate_body_def parse_json_object_def strip_def lstrip_def is_space_def sample_doc_env_def sample_docs_def
        template_injection_def append_version_def Let_def)
  have "strip ''{}'' \<noteq> []" by (simp add: strip_def lstrip_def is_space_def)
  from saved_document_is_served [OF sample_docs_ok(1) s this] s show ?thesis by (auto simp: sample_doc_env_def)
qed

theorem hosts_bound_to_documents_witness:
  "configs_known {1} (hw_db (snd (modify_hosts 9 [''B''] [1] sample_batch \<lparr>hw_db = sample_hosts, hw_cache = []\<rparr>)))"
proof -
  have "configs_known (set [1]) (hw_db \<lparr>hw_db = sample_hosts, hw_cache = []\<rparr>)" using sample_docs_ok(1)
    by (simp add: configs_known_def sample_hosts_def sample_row_def default_host_def)
  moreover have "ids_ok (hw_db \<lparr>hw_db = sample_hosts, hw_cache = []\<rparr>)" using sample_hosts_ok by simp
  ultimately show ?thesis using hosts_bound_to_documents [of "\<lparr>hw_db = sample_hosts, hw_cache = []\<rparr>" sample_batch "[1]" 9 "[''B'']"]
    by (simp add: sample_batch_def)
qed

end
