(* ===== verification/Settings.thy ===== *)
theory Settings
  imports HostBalancer
begin

text \<open>
  app/models/settings.py, app/services/panel_settings.py, app/services/client_apps.py, the settings tables of
  app/db/crud.py, the part of app/services/managed_settings.py that is not about bots, and their endpoints. The texts that
  come from the environment and \<open>str\<close> of values that are no strings are fields of \<open>settings_env\<close>.
\<close>

section \<open>Keys and defaults\<close>

record settings_env =
  se_text :: "string \<Rightarrow> string"
  se_legacy :: "string list"
  se_str :: "json \<Rightarrow> string"

definition py_str :: "settings_env \<Rightarrow> json \<Rightarrow> string" where
  "py_str env j = (case j of JStr s \<Rightarrow> s | JInt n \<Rightarrow> int_str n | _ \<Rightarrow> se_str env j)"

definition CLIENT_APPS_KEY :: string where
  "CLIENT_APPS_KEY = ''client_apps''"

definition PANEL_SETTINGS_KEY :: string where
  "PANEL_SETTINGS_KEY = ''panel''"

definition LEGACY_SECRET_KEYS_SETTING :: string where
  "LEGACY_SECRET_KEYS_SETTING = ''subscription_legacy_secret_keys''"

definition ANNOUNCE_KEYS :: "string list" where
  "ANNOUNCE_KEYS = [''sub_client_note'', ''sub_revoked_announce_text'', ''sub_expired_announce_text'', ''sub_device_limit_announce_text'',
     ''sub_unsupported_client_announce_text'', ''sub_bs_limit_announce_text'']"

definition SERVER_KEYS :: "string list" where
  "SERVER_KEYS = [''sub_revoked_server_text'', ''sub_expired_server_text'', ''sub_device_limit_server_text'',
     ''sub_unsupported_client_server_text'', ''sub_bs_limit_server_text'']"

definition MESSAGE_KEYS :: "string list" where
  "MESSAGE_KEYS = ANNOUNCE_KEYS @ SERVER_KEYS"

definition PANEL_SETTING_KEYS :: "string list" where
  "PANEL_SETTING_KEYS = [''sub_custom_headers'', ''bs_monthly_limit'', ''sub_routing_happ'', ''sub_routing_v2raytun'',
     LEGACY_SECRET_KEYS_SETTING] @ MESSAGE_KEYS"

definition strs :: "string list \<Rightarrow> json" where
  "strs ss = JList (map JStr ss)"

fun normalize_server_text :: "settings_env \<Rightarrow> json \<Rightarrow> string list" where
  "normalize_server_text env (JList xs) = filter (\<lambda>s. s \<noteq> []) (map (\<lambda>x. strip (py_str env x)) xs)"
| "normalize_server_text env (JStr s) =
     filter (\<lambda>s. s \<noteq> []) (map strip (split_on (CHR '','') (map (\<lambda>c. if c = CHR 0x0A then CHR '','' else c) s)))"
| "normalize_server_text env _ = []"

text \<open>\<open>str(item or "").strip()\<close>, empty ones and repeated ones left out.\<close>

definition legacy_key :: "settings_env \<Rightarrow> json \<Rightarrow> string" where
  "legacy_key env j = strip (if truthy j then py_str env j else [])"

definition collect_keys :: "string list \<Rightarrow> string list" where
  "collect_keys ks = fold (\<lambda>k out. if k = [] \<or> k \<in> set out then out else out @ [k]) ks []"

fun normalize_legacy_secret_keys :: "settings_env \<Rightarrow> json \<Rightarrow> string list" where
  "normalize_legacy_secret_keys env (JStr s) = collect_keys (map strip (split_on (CHR '','') s))"
| "normalize_legacy_secret_keys env (JList xs) = collect_keys (map (legacy_key env) xs)"
| "normalize_legacy_secret_keys env _ = []"

definition panel_default :: "settings_env \<Rightarrow> string \<Rightarrow> json" where
  "panel_default env k =
     (if k = ''sub_custom_headers'' then JStr []
      else if k = ''bs_monthly_limit'' then JInt 0
      else if k = LEGACY_SECRET_KEYS_SETTING then strs (se_legacy env)
      else if k = ''sub_bs_limit_server_text'' then strs []
      else if k \<in> set SERVER_KEYS then strs (normalize_server_text env (JStr (se_text env k)))
      else JStr (se_text env k))"

definition DEFAULT_PANEL_SETTINGS :: "settings_env \<Rightarrow> obj" where
  "DEFAULT_PANEL_SETTINGS env = map (\<lambda>k. (k, panel_default env k)) PANEL_SETTING_KEYS"

section \<open>Stored panel settings\<close>

text \<open>\<open>int(raw or 0)\<close>, where it does not raise.\<close>

fun int_of_json :: "json \<Rightarrow> int option" where
  "int_of_json (JInt n) = Some n"
| "int_of_json (JBool b) = Some (if b then 1 else 0)"
| "int_of_json (JFloat x) = Some (py_int x)"
| "int_of_json (JStr s) = (if s = [] then Some 0 else parse_int s)"
| "int_of_json JNull = Some 0"
| "int_of_json (JList xs) = (if xs = [] then Some 0 else None)"
| "int_of_json (JObj d) = (if d = [] then Some 0 else None)"

text \<open>The value one stored key overrides the default with, if it does.\<close>

definition panel_value :: "settings_env \<Rightarrow> string \<Rightarrow> json \<Rightarrow> json option" where
  "panel_value env k v =
     (if v = JNull then None
      else if k = ''bs_monthly_limit'' then map_option JInt (int_of_json v)
      else if k = LEGACY_SECRET_KEYS_SETTING then Some (strs (normalize_legacy_secret_keys env v))
      else if k \<in> set ANNOUNCE_KEYS
      then (let t = (if truthy v then py_str env v else []) in if strip t \<noteq> [] then Some (JStr t) else None)
      else if k \<in> set SERVER_KEYS
      then (let lines = normalize_server_text env v in if lines \<noteq> [] \<or> k = ''sub_bs_limit_server_text'' then Some (strs lines) else None)
      else Some v)"

definition override :: "settings_env \<Rightarrow> obj \<Rightarrow> string \<Rightarrow> obj \<Rightarrow> obj" where
  "override env raw k base = (case dget raw k of None \<Rightarrow> base
     | Some v \<Rightarrow> (case panel_value env k v of None \<Rightarrow> base | Some x \<Rightarrow> dput k x base))"

definition apply_panel_settings_fallback :: "settings_env \<Rightarrow> obj option \<Rightarrow> obj" where
  "apply_panel_settings_fallback env raw =
     (let base = dput LEGACY_SECRET_KEYS_SETTING (strs (se_legacy env)) (DEFAULT_PANEL_SETTINGS env) in
      case raw of None \<Rightarrow> base
      | Some d \<Rightarrow> if d = [] then base
        else (let base1 = fold (override env d) PANEL_SETTING_KEYS base;
                  base2 = dput ''bs_monthly_limit'' (JInt (or0 (int_of_json (jget base1 ''bs_monthly_limit'')))) base1
              in fold (\<lambda>k b. dput k (strs (normalize_server_text env (jget b k))) b) SERVER_KEYS base2))"

definition overlay_subscription_messages :: "settings_env \<Rightarrow> obj \<Rightarrow> obj option \<Rightarrow> obj" where
  "overlay_subscription_messages env bot_settings panel =
     (let source = (case panel of None \<Rightarrow> [] | Some d \<Rightarrow> d);
          raw = (\<lambda>merged k. case dget source k of Some v \<Rightarrow> v | None \<Rightarrow> dget_or merged k (panel_default env k));
          announce = (\<lambda>k merged. let v = raw merged k; t = (if truthy v then py_str env v else []) in
             dput k (if strip t \<noteq> [] then JStr t else panel_default env k) merged);
          server = (\<lambda>k merged. let lines = normalize_server_text env (raw merged k) in
             dput k (if lines \<noteq> [] \<or> k = ''sub_bs_limit_server_text'' \<and> dget source k \<noteq> None then strs lines else panel_default env k) merged)
      in fold server SERVER_KEYS (fold announce ANNOUNCE_KEYS bot_settings))"

section \<open>The payload of the panel settings\<close>

fun lax_int :: "json \<Rightarrow> json result" where
  "lax_int (JInt n) = Inr (JInt n)"
| "lax_int (JBool b) = Inr (JInt (if b then 1 else 0))"
| "lax_int (JFloat x) = (if of_int (py_int x) = x then Inr (JInt (py_int x)) else Inl (ValueError ''int_from_float''))"
| "lax_int (JStr s) = (case parse_int s of Some n \<Rightarrow> Inr (JInt n) | None \<Rightarrow> Inl (ValueError ''int_parsing''))"
| "lax_int _ = Inl (ValueError ''int_type'')"

definition panel_field :: "settings_env \<Rightarrow> string \<Rightarrow> json option \<Rightarrow> json result" where
  "panel_field env k v =
     (if k = ''bs_monthly_limit'' then (case v of None \<Rightarrow> Inr (JInt 0) | Some x \<Rightarrow> lax_int x)
      else if k = LEGACY_SECRET_KEYS_SETTING then Inr (strs (case v of None \<Rightarrow> [] | Some x \<Rightarrow> normalize_legacy_secret_keys env x))
      else if k \<in> set SERVER_KEYS then Inr (strs (case v of None \<Rightarrow> [] | Some x \<Rightarrow> normalize_server_text env x))
      else (case v of None \<Rightarrow> Inr (JStr []) | Some x \<Rightarrow> checked_str (\<lambda>_. True) x))"

definition panel_payload :: "settings_env \<Rightarrow> obj \<Rightarrow> obj result" where
  "panel_payload env d = mapE (\<lambda>k. bindE (panel_field env k (dget d k)) (\<lambda>v. Inr (k, v))) PANEL_SETTING_KEYS"

section \<open>Client applications\<close>

definition PLATFORMS :: "string list" where
  "PLATFORMS = [''ios'', ''macos'', ''android'', ''androidtv'', ''windows'', ''linux'']"

definition LINK_KEYS :: "string list" where
  "LINK_KEYS = [''ios_ru'', ''ios_global'', ''macos_ru'', ''macos_global'', ''android'', ''androidtv'', ''windows'', ''linux'']"

definition MAX_LINK_LENGTH :: nat where
  "MAX_LINK_LENGTH = 512"

definition lower_letter :: "char \<Rightarrow> bool" where
  "lower_letter c \<longleftrightarrow> (let n = (of_char c :: nat) in 97 \<le> n \<and> n \<le> 122)"

definition app_id_ok :: "string \<Rightarrow> bool" where
  "app_id_ok s \<longleftrightarrow> 1 \<le> length s \<and> length s \<le> 32 \<and> list_all (\<lambda>c. lower_letter c \<or> is_digit c \<or> c \<in> {CHR ''_'', CHR ''-''}) s"

definition scheme_ok :: "string \<Rightarrow> bool" where
  "scheme_ok s \<longleftrightarrow> s \<noteq> [] \<and> lower_letter (hd s) \<and> length s \<le> 32
     \<and> list_all (\<lambda>c. lower_letter c \<or> is_digit c \<or> c \<in> {CHR ''+'', CHR ''.'', CHR ''-''}) (tl s)
     \<and> s \<notin> {''javascript'', ''data'', ''vbscript'', ''file''}"

definition link_ok :: "string \<Rightarrow> bool" where
  "link_ok s \<longleftrightarrow> s = [] \<or> (starts_with s ''http://'' \<or> starts_with s ''https://'') \<and> length s \<le> MAX_LINK_LENGTH"

fun lax_bool :: "json \<Rightarrow> json result" where
  "lax_bool (JBool b) = Inr (JBool b)"
| "lax_bool (JInt n) = (if n = 0 \<or> n = 1 then Inr (JBool (n = 1)) else Inl (ValueError ''bool_parsing''))"
| "lax_bool (JFloat x) = (if x = 0 \<or> x = 1 then Inr (JBool (x = 1)) else Inl (ValueError ''bool_parsing''))"
| "lax_bool (JStr s) = (let t = map lower_char s in
     if t \<in> {''1'', ''on'', ''t'', ''true'', ''y'', ''yes''} then Inr (JBool True)
     else if t \<in> {''0'', ''off'', ''f'', ''false'', ''n'', ''no''} then Inr (JBool False) else Inl (ValueError ''bool_parsing''))"
| "lax_bool _ = Inl (ValueError ''bool_type'')"

fun str_dict :: "json \<Rightarrow> (string \<times> string) list result" where
  "str_dict (JObj d) = mapE (\<lambda>(k, v). case v of JStr s \<Rightarrow> Inr (k, s) | _ \<Rightarrow> Inl (ValueError ''string_type'')) d"
| "str_dict _ = Inl (ValueError ''dict_type'')"

definition validate_links :: "(string \<times> string) list \<Rightarrow> (string \<times> json) list result" where
  "validate_links d = mapE (\<lambda>k. let raw = strip (dget_or d k []) in
     if link_ok raw then Inr (k, JStr raw) else Inl (ValueError ''link'')) LINK_KEYS"

text \<open>Fields with a default may be left out; the validator of the links does not see their default.\<close>

definition client_app :: "json \<Rightarrow> json result" where
  "client_app j = bindE (as_obj j) (\<lambda>d.
     bindE (bindE (required d ''id'') (checked_str app_id_ok)) (\<lambda>i.
     bindE (bindE (required d ''name'') (checked_str (\<lambda>s. 1 \<le> length s \<and> length s \<le> 64))) (\<lambda>n.
     bindE (bindE (required d ''scheme'') (checked_str scheme_ok)) (\<lambda>s.
     bindE (lax_bool (dget_or d ''enabled'' (JBool True))) (\<lambda>e.
     bindE (case dget d ''links'' of None \<Rightarrow> Inr [] | Some v \<Rightarrow> bindE (str_dict v) validate_links) (\<lambda>links.
       Inr (JObj [(''id'', i), (''name'', n), (''scheme'', s), (''enabled'', e), (''links'', JObj links)])))))))"

definition app_field :: "string \<Rightarrow> json \<Rightarrow> json" where
  "app_field k j = (case j of JObj d \<Rightarrow> jget d k | _ \<Rightarrow> JNull)"

definition primaries_ok :: "json list \<Rightarrow> (string \<times> string) list \<Rightarrow> bool" where
  "primaries_ok apps primary \<longleftrightarrow> list_all (\<lambda>(p, a). p \<in> set PLATFORMS
     \<and> (a \<noteq> [] \<longrightarrow> list_ex (\<lambda>x. app_field ''enabled'' x = JBool True \<and> app_field ''id'' x = JStr a) apps)) primary"

definition client_apps_payload :: "obj \<Rightarrow> obj result" where
  "client_apps_payload d =
     bindE (bindE (as_list (dget_or d ''apps'' (JList []))) (mapE client_app)) (\<lambda>apps.
     bindE (str_dict (dget_or d ''primary_by_platform'' (JObj []))) (\<lambda>primary.
       if \<not> distinct (map (app_field ''id'') apps) then Inl (ValueError ''app ids must be unique'')
       else if \<not> primaries_ok apps primary then Inl (ValueError ''primary app is unknown or disabled'')
       else Inr [(''apps'', JList apps), (''primary_by_platform'', JObj (map (\<lambda>(p, a). (p, JStr a)) primary))]))"

definition merge_client_apps_defaults :: "obj \<Rightarrow> obj option \<Rightarrow> obj" where
  "merge_client_apps_defaults defaults raw = (case raw of None \<Rightarrow> defaults
     | Some d \<Rightarrow> if d = [] then defaults else (case client_apps_payload d of Inl e \<Rightarrow> defaults | Inr p \<Rightarrow> p))"

section \<open>The tables and the caches\<close>

record managed_row =
  mr_scope :: string
  mr_source :: string
  mr_version :: string

record settings_db =
  st_globals :: "(string \<times> obj) list"
  st_managed :: "(string \<times> managed_row) list"
  st_jwt :: "string list"
  st_session :: "obj option"
  st_legacy :: "string list option"

definition get_global_setting :: "string \<Rightarrow> settings_db \<Rightarrow> obj option" where
  "get_global_setting k db = (case dget (st_globals db) k of None \<Rightarrow> None | Some d \<Rightarrow> if d = [] then None else Some d)"

definition upsert_global_setting :: "string \<Rightarrow> obj \<Rightarrow> settings_db \<Rightarrow> settings_db" where
  "upsert_global_setting k d db = db\<lparr>st_globals := dput k d (st_globals db)\<rparr>"

definition get_managed_setting :: "string \<Rightarrow> settings_db \<Rightarrow> managed_row option" where
  "get_managed_setting k db = dget (st_managed db) k"

definition is_managed :: "string \<Rightarrow> settings_db \<Rightarrow> bool" where
  "is_managed k db \<longleftrightarrow> get_managed_setting k db \<noteq> None"

definition upsert_managed_setting :: "string \<Rightarrow> managed_row \<Rightarrow> settings_db \<Rightarrow> settings_db" where
  "upsert_managed_setting k r db = db\<lparr>st_managed := dput k r (st_managed db)\<rparr>"

definition delete_managed_setting :: "string \<Rightarrow> settings_db \<Rightarrow> bool \<times> settings_db" where
  "delete_managed_setting k db = (is_managed k db, db\<lparr>st_managed := ddel k (st_managed db)\<rparr>)"

definition get_panel_settings :: "settings_env \<Rightarrow> settings_db \<Rightarrow> obj \<times> settings_db" where
  "get_panel_settings env db = (case st_session db of Some s \<Rightarrow> (s, db)
     | None \<Rightarrow> (let s = apply_panel_settings_fallback env (get_global_setting PANEL_SETTINGS_KEY db) in (s, db\<lparr>st_session := Some s\<rparr>)))"

text \<open>The keys in force: what the links of users are checked against.\<close>

fun json_strs :: "settings_env \<Rightarrow> json \<Rightarrow> string list" where
  "json_strs env (JList xs) = map (py_str env) xs"
| "json_strs env _ = []"

definition legacy_keys_of :: "settings_env \<Rightarrow> obj \<Rightarrow> string list" where
  "legacy_keys_of env settings = json_strs env (jget settings LEGACY_SECRET_KEYS_SETTING)"

definition keys_in_force :: "settings_env \<Rightarrow> settings_db \<Rightarrow> string list" where
  "keys_in_force env db = legacy_keys_of env (apply_panel_settings_fallback env (get_global_setting PANEL_SETTINGS_KEY db))"

definition get_cached_legacy_keys :: "settings_env \<Rightarrow> settings_db \<Rightarrow> string list \<times> settings_db" where
  "get_cached_legacy_keys env db = (case st_legacy db of Some ks \<Rightarrow> (ks, db)
     | None \<Rightarrow> (keys_in_force env db, db\<lparr>st_legacy := Some (keys_in_force env db)\<rparr>))"

definition get_primary_jwt_secret :: "settings_db \<Rightarrow> string" where
  "get_primary_jwt_secret db = (case st_jwt db of [] \<Rightarrow> [] | k # _ \<Rightarrow> k)"

definition with_primary_jwt_secret :: "settings_db \<Rightarrow> obj \<Rightarrow> obj" where
  "with_primary_jwt_secret db settings = dput ''primary_jwt_secret'' (JStr (get_primary_jwt_secret db)) settings"

text \<open>\<open>payload\<close> is the validated payload, \<open>sent\<close> the fields the client sent.\<close>

definition panel_data :: "settings_env \<Rightarrow> obj \<Rightarrow> string list \<Rightarrow> settings_db \<Rightarrow> obj" where
  "panel_data env payload sent db =
     (if LEGACY_SECRET_KEYS_SETTING \<in> set sent then payload
      else (let existing = (case get_global_setting PANEL_SETTINGS_KEY db of None \<Rightarrow> [] | Some d \<Rightarrow> d) in
        dput LEGACY_SECRET_KEYS_SETTING
          (case dget existing LEGACY_SECRET_KEYS_SETTING of Some v \<Rightarrow> strs (normalize_legacy_secret_keys env v)
           | None \<Rightarrow> strs (se_legacy env)) payload))"

definition save_panel_settings :: "settings_env \<Rightarrow> obj \<Rightarrow> string list \<Rightarrow> settings_db \<Rightarrow> obj \<times> settings_db" where
  "save_panel_settings env payload sent db =
     (let data = panel_data env payload sent db; settings = apply_panel_settings_fallback env (Some data) in
      (settings, (upsert_global_setting PANEL_SETTINGS_KEY data db)\<lparr>st_session := Some settings, st_legacy := None\<rparr>))"

definition get_bs_monthly_limit :: "settings_env \<Rightarrow> settings_db option \<Rightarrow> int" where
  "get_bs_monthly_limit env db = (case db of None \<Rightarrow> 0
     | Some d \<Rightarrow> or0 (int_of_json (jget (fst (get_panel_settings env d)) ''bs_monthly_limit'')))"

definition get_client_apps :: "obj \<Rightarrow> settings_db \<Rightarrow> obj" where
  "get_client_apps defaults db = merge_client_apps_defaults defaults (get_global_setting CLIENT_APPS_KEY db)"

definition save_client_apps :: "obj \<Rightarrow> obj \<Rightarrow> settings_db \<Rightarrow> obj \<times> settings_db" where
  "save_client_apps defaults payload db =
     (merge_client_apps_defaults defaults (Some payload), upsert_global_setting CLIENT_APPS_KEY payload db)"

section \<open>Settings managed from outside\<close>

definition apply_managed_push :: "string \<Rightarrow> obj \<Rightarrow> string \<Rightarrow> string \<Rightarrow> settings_db \<Rightarrow> managed_row result \<times> settings_db" where
  "apply_managed_push key data version source db =
     (if key \<noteq> CLIENT_APPS_KEY then (Inl (KeyError key), db)
      else (case client_apps_payload data of Inl e \<Rightarrow> (Inl e, db)
        | Inr normalized \<Rightarrow> (let r = \<lparr>mr_scope = ''global'', mr_source = source, mr_version = version\<rparr> in
            (Inr r, upsert_managed_setting key r (upsert_global_setting key normalized db)))))"

definition read_managed_state :: "string \<Rightarrow> settings_db \<Rightarrow> managed_row option" where
  "read_managed_state key db = get_managed_setting key db"

definition unlink_managed :: "string \<Rightarrow> settings_db \<Rightarrow> bool \<times> settings_db" where
  "unlink_managed key db = delete_managed_setting key db"

section \<open>The requests\<close>

datatype settings_request =
    PutPanel obj
  | GetPanel
  | PutApps obj
  | GetApps
  | PushManaged string obj string string
  | GetManaged string
  | DeleteManaged string
  | CheckLink

text \<open>The answer: a status and a document. A link is checked in a session of its own.\<close>

definition settings_request :: "settings_env \<Rightarrow> obj \<Rightarrow> settings_request \<Rightarrow> settings_db \<Rightarrow> (int \<times> obj) \<times> settings_db" where
  "settings_request env defaults req db0 =
     (let db = db0\<lparr>st_session := None\<rparr> in
      case req of
        PutPanel d \<Rightarrow> (case panel_payload env d of Inl e \<Rightarrow> ((422, []), db)
          | Inr payload \<Rightarrow> (let (s, db') = save_panel_settings env payload (map fst d) db in ((200, with_primary_jwt_secret db' s), db')))
      | GetPanel \<Rightarrow> (let (s, db') = get_panel_settings env db in ((200, with_primary_jwt_secret db' s), db'))
      | PutApps d \<Rightarrow> (case client_apps_payload d of Inl e \<Rightarrow> ((422, []), db)
          | Inr payload \<Rightarrow> if is_managed CLIENT_APPS_KEY db then ((409, []), db)
              else (let (s, db') = save_client_apps defaults payload db in ((200, s), db')))
      | GetApps \<Rightarrow> ((200, get_client_apps defaults db), db)
      | PushManaged key d version source \<Rightarrow>
          if key \<noteq> CLIENT_APPS_KEY then ((404, []), db)
          else (case apply_managed_push key d version source db of
              (Inl e, db') \<Rightarrow> ((422, []), db') | (Inr r, db') \<Rightarrow> ((200, [(''version'', JStr (mr_version r))]), db'))
      | GetManaged key \<Rightarrow> (case read_managed_state key db of None \<Rightarrow> ((404, []), db) | Some r \<Rightarrow> ((200, [(''version'', JStr (mr_version r))]), db))
      | DeleteManaged key \<Rightarrow> (let (removed, db') = unlink_managed key db in ((200, [(''unlinked'', JBool removed)]), db'))
      | CheckLink \<Rightarrow> ((200, []), snd (get_cached_legacy_keys env db)))"

definition settings_requests :: "settings_env \<Rightarrow> obj \<Rightarrow> settings_request list \<Rightarrow> settings_db \<Rightarrow> settings_db" where
  "settings_requests env defaults reqs db = fold (\<lambda>r d. snd (settings_request env defaults r d)) reqs db"

section \<open>Text that was normalised stays\<close>

lemma strip_idem: "strip (strip s) = strip s"
proof -
  have l: "dropWhile P (dropWhile P xs) = dropWhile P xs" for P :: "char \<Rightarrow> bool" and xs by (induction xs) auto
  have first: "dropWhile is_space (rev (dropWhile is_space (rev xs))) = rev (dropWhile is_space (rev xs))" if "dropWhile is_space xs = xs" for xs
  proof (cases "dropWhile is_space (rev xs)")
    case Nil
    show ?thesis by (simp only: Nil rev.simps dropWhile.simps)
  next
    case (Cons c cs)
    have "\<exists>ys. xs = rev (dropWhile is_space (rev xs)) @ ys" by (metis rev_append rev_rev_ident takeWhile_dropWhile_id)
    then obtain ys where ys: "xs = rev (dropWhile is_space (rev xs)) @ ys" by blast
    obtain a as where a: "rev (dropWhile is_space (rev xs)) = a # as" using Cons by (cases "rev (dropWhile is_space (rev xs))") auto
    then have "xs = a # as @ ys" using ys by simp
    then have "\<not> is_space a" using that by (metis dropWhile.simps(2) dropWhile_eq_Cons_conv)
    then show ?thesis by (simp add: a)
  qed
  show ?thesis by (simp add: strip_def lstrip_def l first)
qed

definition clean_lines :: "string list \<Rightarrow> bool" where
  "clean_lines ss \<longleftrightarrow> (\<forall>s \<in> set ss. s \<noteq> [] \<and> strip s = s)"

lemma py_str_JStr [simp]: "py_str env (JStr s) = s"
  by (simp add: py_str_def)

lemma normalized_clean: "clean_lines (normalize_server_text env v)"
  by (cases v) (auto simp: clean_lines_def strip_idem)

lemma clean_normalized: "clean_lines ss \<Longrightarrow> normalize_server_text env (strs ss) = ss"
  unfolding strs_def by (induction ss) (auto simp: clean_lines_def)

lemma collect_keys_from:
  "fold (\<lambda>k out. if k = [] \<or> k \<in> set out then out else out @ [k]) ks out =
     out @ fold (\<lambda>k acc. if k = [] \<or> k \<in> set out \<or> k \<in> set acc then acc else acc @ [k]) ks []"
proof (induction ks rule: rev_induct)
  case (snoc k ks)
  then show ?case by auto
qed simp

lemma collect_keys_clean:
  "distinct (collect_keys ks) \<and> set (collect_keys ks) = set ks - {[]}"
  unfolding collect_keys_def by (induction ks rule: rev_induct) auto

lemma collect_keys_id: "distinct ks \<Longrightarrow> [] \<notin> set ks \<Longrightarrow> collect_keys ks = ks"
  unfolding collect_keys_def by (induction ks rule: rev_induct) auto

definition clean_keys :: "string list \<Rightarrow> bool" where
  "clean_keys ks \<longleftrightarrow> distinct ks \<and> (\<forall>k \<in> set ks. k \<noteq> [] \<and> strip k = k)"

lemma legacy_clean: "clean_keys (normalize_legacy_secret_keys env v)"
  by (cases v) (auto simp: clean_keys_def collect_keys_clean legacy_key_def strip_idem)

lemma clean_legacy: "clean_keys ks \<Longrightarrow> normalize_legacy_secret_keys env (strs ks) = ks"
proof -
  assume c: "clean_keys ks"
  then have "map (legacy_key env \<circ> JStr) ks = ks" by (intro map_idI) (auto simp: clean_keys_def legacy_key_def)
  moreover have "[] \<notin> set ks" "distinct ks" using c by (auto simp: clean_keys_def)
  ultimately show ?thesis by (simp add: strs_def collect_keys_id)
qed

section \<open>The settings in force\<close>

lemma keys_distinct: "distinct PANEL_SETTING_KEYS"
  by (simp add: PANEL_SETTING_KEYS_def MESSAGE_KEYS_def ANNOUNCE_KEYS_def SERVER_KEYS_def LEGACY_SECRET_KEYS_SETTING_def)

lemma fold_settings_get:
  assumes "distinct ks"
  shows "dget (fold (\<lambda>k b. case f k of None \<Rightarrow> b | Some x \<Rightarrow> dput k x b) ks base) k =
    (if k \<in> set ks \<and> f k \<noteq> None then f k else dget base k)"
  using assms by (induction ks arbitrary: base) (auto split: option.split)

lemma dput_keys: "k \<in> set (map fst b) \<Longrightarrow> map fst (dput k x b) = map fst b"
  by (induction b) auto

lemma fold_dput_keys:
  assumes "set ks \<subseteq> set (map fst base)"
  shows "map fst (fold (\<lambda>k b. case f k of None \<Rightarrow> b | Some x \<Rightarrow> dput k x b) ks base) = map fst base"
proof -
  show ?thesis using assms
  proof (induction ks arbitrary: base)
    case (Cons k ks)
    show ?case
    proof (cases "f k")
      case None
      then show ?thesis using Cons by simp
    next
      case (Some x)
      have e: "map fst (dput k x base) = map fst base" using Cons.prems by (intro dput_keys) simp
      then have "set ks \<subseteq> set (map fst (dput k x base))" using Cons.prems by simp
      from Cons.IH [OF this] e Some show ?thesis by simp
    qed
  qed simp
qed

lemma same_obj: "map fst d = map fst d' \<Longrightarrow> distinct (map fst d) \<Longrightarrow> (\<And>k. k \<in> set (map fst d) \<Longrightarrow> dget d k = dget d' k) \<Longrightarrow> d = d'"
proof (induction d arbitrary: d')
  case (Cons p d)
  then obtain q e where d': "d' = q # e" by (cases d') auto
  have q: "q = p" using Cons.prems(1) Cons.prems(3) [of "fst p"] by (simp add: d' prod_eq_iff)
  have "d = e"
  proof (rule Cons.IH)
    fix k assume k: "k \<in> set (map fst d)"
    then have "k \<noteq> fst p" using Cons.prems(2) by (auto simp: image_iff)
    then show "dget d k = dget e k" using Cons.prems(3) [of k] k by (simp add: d' q)
  qed (use Cons.prems in \<open>auto simp: d'\<close>)
  with q show ?case by (simp add: d')
qed simp

text \<open>The value in force of one key, given what is stored under it.\<close>

definition in_force :: "settings_env \<Rightarrow> string \<Rightarrow> json option \<Rightarrow> json" where
  "in_force env k stored = (case Option.bind stored (panel_value env k) of None \<Rightarrow> panel_default env k | Some v \<Rightarrow> v)"

definition env_ok :: "settings_env \<Rightarrow> bool" where
  "env_ok env \<longleftrightarrow> clean_keys (se_legacy env)"

definition typed :: "string \<Rightarrow> json \<Rightarrow> bool" where
  "typed k v \<longleftrightarrow>
     (if k = ''bs_monthly_limit'' then \<exists>n. v = JInt n
      else if k = LEGACY_SECRET_KEYS_SETTING then \<exists>ks. v = strs ks \<and> clean_keys ks
      else if k \<in> set SERVER_KEYS then \<exists>ls. v = strs ls \<and> clean_lines ls
      else \<exists>s. v = JStr s)"

lemma special_keys: "''bs_monthly_limit'' \<noteq> LEGACY_SECRET_KEYS_SETTING" "''sub_bs_limit_server_text'' \<in> set SERVER_KEYS"
  "''bs_monthly_limit'' \<notin> set SERVER_KEYS" "LEGACY_SECRET_KEYS_SETTING \<notin> set SERVER_KEYS" "''bs_monthly_limit'' \<notin> set ANNOUNCE_KEYS"
  "LEGACY_SECRET_KEYS_SETTING \<notin> set ANNOUNCE_KEYS" "''sub_custom_headers'' \<notin> set SERVER_KEYS" "''sub_custom_headers'' \<noteq> LEGACY_SECRET_KEYS_SETTING"
  by (simp_all add: LEGACY_SECRET_KEYS_SETTING_def SERVER_KEYS_def ANNOUNCE_KEYS_def)

lemma announce_not_server: "k \<in> set ANNOUNCE_KEYS \<Longrightarrow> k \<notin> set SERVER_KEYS"
  by (auto simp: SERVER_KEYS_def ANNOUNCE_KEYS_def)

lemma key_kinds:
  obtains (limit) "k = ''bs_monthly_limit''"
  | (legacy) "k = LEGACY_SECRET_KEYS_SETTING" "k \<noteq> ''bs_monthly_limit''"
  | (server) "k \<in> set SERVER_KEYS" "k \<noteq> ''bs_monthly_limit''" "k \<noteq> LEGACY_SECRET_KEYS_SETTING" "k \<notin> set ANNOUNCE_KEYS" "k \<noteq> ''sub_custom_headers''"
  | (announce) "k \<in> set ANNOUNCE_KEYS" "k \<noteq> ''bs_monthly_limit''" "k \<noteq> LEGACY_SECRET_KEYS_SETTING" "k \<notin> set SERVER_KEYS"
  | (plain) "k \<notin> set ANNOUNCE_KEYS" "k \<noteq> ''bs_monthly_limit''" "k \<noteq> LEGACY_SECRET_KEYS_SETTING" "k \<notin> set SERVER_KEYS"
  using special_keys announce_not_server [of k] by metis

lemma default_typed: "env_ok env \<Longrightarrow> typed k (panel_default env k)"
proof (cases rule: key_kinds [of k])
  case limit
  then show ?thesis by (simp add: typed_def panel_default_def special_keys)
next
  case legacy
  assume "env_ok env"
  with legacy show ?thesis using special_keys by (simp add: typed_def panel_default_def env_ok_def) blast
next
  case server
  then have "panel_default env k = strs (if k = ''sub_bs_limit_server_text'' then [] else normalize_server_text env (JStr (se_text env k)))"
    by (simp add: panel_default_def)
  moreover have "clean_lines []" by (simp add: clean_lines_def)
  ultimately show ?thesis using server normalized_clean [of env "JStr (se_text env k)"] by (simp add: typed_def split: if_splits) blast+
next
  case announce
  then have "k \<noteq> ''sub_bs_limit_server_text''" using special_keys(2) by blast
  with announce show ?thesis by (simp add: typed_def panel_default_def)
next
  case plain
  then have "k \<noteq> ''sub_bs_limit_server_text''" using special_keys(2) by blast
  with plain show ?thesis by (simp add: typed_def panel_default_def)
qed

text \<open>What a typed value is stored as: itself, except that a blank announcement or an empty list of servers means the default.\<close>

lemma typed_value:
  assumes "typed k v"
  shows "panel_value env k v = Some v
    \<or> panel_value env k v = None \<and> (k \<in> set ANNOUNCE_KEYS \<or> k \<in> set SERVER_KEYS \<and> k \<noteq> ''sub_bs_limit_server_text'')"
proof (cases rule: key_kinds [of k])
  case limit
  then show ?thesis using assms by (auto simp: typed_def panel_value_def)
next
  case legacy
  then obtain ks where "v = strs ks" "clean_keys ks" using assms by (auto simp: typed_def)
  then show ?thesis using legacy clean_legacy [of ks env] by (simp add: panel_value_def) (simp add: strs_def)
next
  case server
  then obtain ls where "v = strs ls" "clean_lines ls" using assms by (auto simp: typed_def)
  then show ?thesis using server clean_normalized [of ls env] by (simp add: panel_value_def Let_def) (simp add: strs_def)
next
  case announce
  then obtain t where "v = JStr t" using assms by (auto simp: typed_def)
  then show ?thesis using announce by (simp add: panel_value_def Let_def)
next
  case plain
  then obtain t where "v = JStr t" using assms by (auto simp: typed_def)
  then show ?thesis using plain by (simp add: panel_value_def)
qed

lemma in_force_typed:
  assumes "env_ok env" and "\<And>v. stored = Some v \<Longrightarrow> typed k v"
  shows "typed k (in_force env k stored)"
proof (cases stored)
  case None
  then show ?thesis using default_typed [OF assms(1)] by (simp add: in_force_def)
next
  case (Some v)
  then show ?thesis using typed_value [OF assms(2) [OF Some], of env] default_typed [OF assms(1)] assms(2) by (auto simp: in_force_def)
qed

lemma in_force_idem:
  assumes "env_ok env" and "typed k v"
  shows "in_force env k (Some (in_force env k (Some v))) = in_force env k (Some v)"
  using typed_value [OF assms(2), of env] typed_value [OF default_typed [OF assms(1), of k], of env] by (auto simp: in_force_def)

lemma field_typed:
  assumes "panel_field env k stored = Inr v"
  shows "typed k v"
proof (cases rule: key_kinds [of k])
  case limit
  then show ?thesis using assms by (auto simp: panel_field_def typed_def split: option.splits if_splits elim!: lax_int.elims)
next
  case legacy
  have "clean_keys []" by (simp add: clean_keys_def)
  then show ?thesis using assms legacy legacy_clean by (auto simp: panel_field_def typed_def special_keys split: option.splits)
next
  case server
  have "clean_lines []" by (simp add: clean_lines_def)
  then show ?thesis using assms server normalized_clean by (auto simp: panel_field_def typed_def split: option.splits)
next
  case announce
  then show ?thesis using assms by (auto simp: panel_field_def typed_def split: option.splits if_splits elim!: checked_str.elims)
next
  case plain
  then show ?thesis using assms by (auto simp: panel_field_def typed_def split: option.splits if_splits elim!: checked_str.elims)
qed

lemma typed_field:
  assumes "typed k v"
  shows "panel_field env k (Some v) = Inr v"
proof (cases rule: key_kinds [of k])
  case legacy
  then obtain ks where "v = strs ks" "clean_keys ks" using assms by (auto simp: typed_def)
  then show ?thesis using legacy clean_legacy [of ks env] by (simp add: panel_field_def)
next
  case server
  then obtain ls where "v = strs ls" "clean_lines ls" using assms by (auto simp: typed_def)
  then show ?thesis using server clean_normalized [of ls env] by (simp add: panel_field_def)
qed (use assms in \<open>auto simp: typed_def panel_field_def\<close>)

lemma fold_same_values:
  assumes "\<And>k. k \<in> set ks \<Longrightarrow> dget b k = Some (g (jget b k))"
  shows "dget (fold (\<lambda>k b. dput k (g (jget b k)) b) ks b) j = dget b j \<and> map fst (fold (\<lambda>k b. dput k (g (jget b k)) b) ks b) = map fst b"
  using assms
proof (induction ks arbitrary: b)
  case (Cons k ks)
  let ?b = "dput k (g (jget b k)) b"
  have e: "dget ?b = dget b" using Cons.prems [of k] by (auto simp: fun_eq_iff)
  have "k \<in> set (map fst b)" using Cons.prems [of k] by (metis dget_None_iff list.set_intros(1) option.distinct(1))
  then have "map fst ?b = map fst b" by (rule dput_keys)
  moreover have j: "jget ?b x = jget b x" for x using fun_cong [OF e, of x] by (simp only: jget_def dget_or_def)
  have "dget ?b k' = Some (g (jget ?b k'))" if "k' \<in> set ks" for k'
    unfolding e j using that Cons.prems by simp
  note Cons.IH [OF this]
  ultimately show ?case unfolding fold.simps comp_def e [symmetric] by metis
qed simp

lemma default_keys [simp]: "map fst (DEFAULT_PANEL_SETTINGS env) = PANEL_SETTING_KEYS"
  by (simp add: DEFAULT_PANEL_SETTINGS_def comp_def)

lemma default_get: "dget (DEFAULT_PANEL_SETTINGS env) k = (if k \<in> set PANEL_SETTING_KEYS then Some (panel_default env k) else None)"
  by (simp add: DEFAULT_PANEL_SETTINGS_def map_of_map_restrict)

definition stored_typed :: "obj \<Rightarrow> bool" where
  "stored_typed d \<longleftrightarrow> (\<forall>k \<in> set PANEL_SETTING_KEYS. \<forall>v. dget d k = Some v \<longrightarrow> typed k v)"

lemma fallback_in_force:
  assumes env: "env_ok env" and t: "stored_typed d"
  shows "map fst (apply_panel_settings_fallback env (Some d)) = PANEL_SETTING_KEYS"
    and "k \<in> set PANEL_SETTING_KEYS \<Longrightarrow> dget (apply_panel_settings_fallback env (Some d)) k = Some (in_force env k (dget d k))"
proof -
  let ?base = "dput LEGACY_SECRET_KEYS_SETTING (strs (se_legacy env)) (DEFAULT_PANEL_SETTINGS env)"
  let ?f = "\<lambda>k. Option.bind (dget d k) (panel_value env k)"
  let ?base1 = "fold (override env d) PANEL_SETTING_KEYS ?base"
  let ?n = "or0 (int_of_json (jget ?base1 ''bs_monthly_limit''))"
  let ?base2 = "dput ''bs_monthly_limit'' (JInt ?n) ?base1"
  let ?g = "\<lambda>v. strs (normalize_server_text env v)"
  have mem: "''bs_monthly_limit'' \<in> set PANEL_SETTING_KEYS" "LEGACY_SECRET_KEYS_SETTING \<in> set PANEL_SETTING_KEYS"
    "k \<in> set SERVER_KEYS \<Longrightarrow> k \<in> set PANEL_SETTING_KEYS" for k
    by (simp_all add: PANEL_SETTING_KEYS_def MESSAGE_KEYS_def)
  have k0: "map fst ?base = PANEL_SETTING_KEYS" using dput_keys [of LEGACY_SECRET_KEYS_SETTING "DEFAULT_PANEL_SETTINGS env"] mem(2) by simp
  have g0: "dget ?base k = (if k \<in> set PANEL_SETTING_KEYS then Some (panel_default env k) else None)" for k
    using mem(2) special_keys by (simp add: default_get panel_default_def)
  have ov: "override env d = (\<lambda>k b. case ?f k of None \<Rightarrow> b | Some x \<Rightarrow> dput k x b)"
    by (auto simp: fun_eq_iff override_def split: option.split)
  have k1: "map fst ?base1 = PANEL_SETTING_KEYS" unfolding ov using fold_dput_keys [of PANEL_SETTING_KEYS ?base ?f] k0 by simp
  have g1: "dget ?base1 k = Some (in_force env k (dget d k))" if "k \<in> set PANEL_SETTING_KEYS" for k
    unfolding ov fold_settings_get [OF keys_distinct] g0 using that by (cases "?f k") (simp_all add: in_force_def)
  have ty: "typed k (in_force env k (dget d k))" if "k \<in> set PANEL_SETTING_KEYS" for k
    using in_force_typed [OF env, of "dget d k" k] t that by (auto simp: stored_typed_def)
  obtain n where n: "in_force env ''bs_monthly_limit'' (dget d ''bs_monthly_limit'') = JInt n"
    using ty [OF mem(1)] by (auto simp: typed_def)
  have k2: "map fst ?base2 = PANEL_SETTING_KEYS" using dput_keys [of "''bs_monthly_limit''" ?base1 "JInt ?n"] k1 mem(1) by simp
  have g2: "dget ?base2 k = Some (in_force env k (dget d k))" if "k \<in> set PANEL_SETTING_KEYS" for k
    using g1 [OF that] g1 [OF mem(1)] n by (simp add: jget_def dget_or_def or0_def)
  have fix3: "dget ?base2 k = Some (?g (jget ?base2 k))" if srv: "k \<in> set SERVER_KEYS" for k
  proof -
    have "typed k (in_force env k (dget d k))" by (rule ty [OF mem(3) [OF srv]])
    moreover have "k \<noteq> ''bs_monthly_limit''" "k \<noteq> LEGACY_SECRET_KEYS_SETTING" using srv special_keys by blast+
    ultimately obtain ls where "in_force env k (dget d k) = strs ls" "clean_lines ls" using srv by (auto simp: typed_def)
    then show ?thesis using g2 [OF mem(3) [OF srv]] by (simp add: jget_def dget_or_def clean_normalized)
  qed
  note F = fold_same_values [of SERVER_KEYS ?base2 ?g, OF fix3]
  show "map fst (apply_panel_settings_fallback env (Some d)) = PANEL_SETTING_KEYS"
    using F k2 k0 by (simp add: apply_panel_settings_fallback_def Let_def)
  show "dget (apply_panel_settings_fallback env (Some d)) k = Some (in_force env k (dget d k))" if "k \<in> set PANEL_SETTING_KEYS"
    using F g2 [OF that] g0 [of k] that by (simp add: apply_panel_settings_fallback_def Let_def in_force_def)
qed

lemma payload_parts:
  assumes "panel_payload env d = Inr p"
  shows "map fst p = PANEL_SETTING_KEYS" and "k \<in> set PANEL_SETTING_KEYS \<Longrightarrow> \<exists>v. dget p k = Some v \<and> panel_field env k (dget d k) = Inr v"
proof -
  have "map fst p = ks \<and> (\<forall>k \<in> set ks. \<exists>v. dget p k = Some v \<and> panel_field env k (dget d k) = Inr v)"
    if "mapE (\<lambda>k. bindE (panel_field env k (dget d k)) (\<lambda>v. Inr (k, v))) ks = Inr p" "distinct ks" for ks p
    using that
  proof (induction ks arbitrary: p)
    case (Cons k ks)
    then obtain v q where v: "panel_field env k (dget d k) = Inr v"
      and q: "mapE (\<lambda>k. bindE (panel_field env k (dget d k)) (\<lambda>v. Inr (k, v))) ks = Inr q" "p = (k, v) # q" by (auto simp: bindE_Inr_iff)
    from Cons.IH [OF q(1)] Cons.prems(2) v q(2) show ?case by auto
  qed simp
  from this [OF assms [unfolded panel_payload_def] keys_distinct]
  show "map fst p = PANEL_SETTING_KEYS" and "k \<in> set PANEL_SETTING_KEYS \<Longrightarrow> \<exists>v. dget p k = Some v \<and> panel_field env k (dget d k) = Inr v" by auto
qed

lemma payload_typed: "panel_payload env d = Inr p \<Longrightarrow> stored_typed p"
  using payload_parts [of env d p] field_typed by (fastforce simp: stored_typed_def)

lemma payload_of_typed:
  assumes "\<And>k. k \<in> set PANEL_SETTING_KEYS \<Longrightarrow> dget d k = Some (w k) \<and> typed k (w k)"
  shows "panel_payload env d = Inr (map (\<lambda>k. (k, w k)) PANEL_SETTING_KEYS)"
  unfolding panel_payload_def by (rule mapE_total) (simp add: assms typed_field)

lemma panel_data_typed:
  assumes "env_ok env" and "panel_payload env d = Inr p"
  shows "stored_typed (panel_data env p sent db) \<and> panel_data env p sent db \<noteq> []"
proof -
  have ne: "p \<noteq> []" using payload_parts(1) [OF assms(2)] by (auto simp: PANEL_SETTING_KEYS_def)
  have "dput k x b \<noteq> []" for k and x :: json and b by (cases b) auto
  moreover have "typed LEGACY_SECRET_KEYS_SETTING (strs ks)" if "clean_keys ks" for ks
    using that special_keys by (auto simp: typed_def)
  ultimately show ?thesis using payload_typed [OF assms(2)] ne assms(1) legacy_clean
    by (auto simp: panel_data_def Let_def stored_typed_def env_ok_def split: option.splits if_splits)
qed

section \<open>Saving and reading\<close>

lemma global_put [simp]:
  "get_global_setting k (upsert_global_setting k' d db) = (if k = k' then (if d = [] then None else Some d) else get_global_setting k db)"
  by (simp add: get_global_setting_def upsert_global_setting_def)

lemma global_frame [simp]:
  "get_global_setting k (db\<lparr>st_session := x\<rparr>) = get_global_setting k db" "get_global_setting k (db\<lparr>st_legacy := y\<rparr>) = get_global_setting k db"
  "get_global_setting k (db\<lparr>st_managed := m\<rparr>) = get_global_setting k db"
  by (simp_all add: get_global_setting_def)

lemma fallback_fixed:
  assumes env: "env_ok env" and t: "stored_typed d"
    and p: "panel_payload env doc = Inr p" and doc: "\<And>k. k \<in> set PANEL_SETTING_KEYS \<Longrightarrow> dget doc k = dget (apply_panel_settings_fallback env (Some d)) k"
  shows "apply_panel_settings_fallback env (Some p) = apply_panel_settings_fallback env (Some d)"
proof (rule same_obj)
  note F = fallback_in_force [OF env t]
  have pt: "stored_typed p" by (rule payload_typed [OF p])
  note G = fallback_in_force [OF env pt]
  show "map fst (apply_panel_settings_fallback env (Some p)) = map fst (apply_panel_settings_fallback env (Some d))" using F(1) G(1) by simp
  show "distinct (map fst (apply_panel_settings_fallback env (Some p)))" using G(1) keys_distinct by simp
  fix k assume "k \<in> set (map fst (apply_panel_settings_fallback env (Some p)))"
  then have k: "k \<in> set PANEL_SETTING_KEYS" using G(1) by simp
  have ty: "typed k (in_force env k (dget d k))" using in_force_typed [OF env, of "dget d k" k] t k by (auto simp: stored_typed_def)
  obtain v where v: "dget p k = Some v" "panel_field env k (dget doc k) = Inr v" using payload_parts(2) [OF p k] by blast
  then have "v = in_force env k (dget d k)" using doc [OF k] F(2) [OF k] typed_field [OF ty] by simp
  moreover have "in_force env k (Some (in_force env k (dget d k))) = in_force env k (dget d k)"
  proof (cases "dget d k")
    case None
    have "in_force env k None = panel_default env k" by (simp add: in_force_def)
    then show ?thesis using typed_value [OF default_typed [OF env, of k], of env] None by (auto simp: in_force_def)
  next
    case (Some v)
    then show ?thesis using in_force_idem [OF env] t k by (simp add: stored_typed_def)
  qed
  ultimately show "dget (apply_panel_settings_fallback env (Some p)) k = dget (apply_panel_settings_fallback env (Some d)) k"
    using F(2) [OF k] G(2) [OF k] v(1) by simp
qed

lemma put_panel_result:
  assumes "settings_request env defaults (PutPanel d) db = ((200, doc), db')"
  obtains p where "panel_payload env d = Inr p"
    "doc = with_primary_jwt_secret db' (apply_panel_settings_fallback env (Some (panel_data env p (map fst d) (db\<lparr>st_session := None\<rparr>))))"
    "db' = (upsert_global_setting PANEL_SETTINGS_KEY (panel_data env p (map fst d) (db\<lparr>st_session := None\<rparr>)) (db\<lparr>st_session := None\<rparr>))
       \<lparr>st_session := Some (apply_panel_settings_fallback env (Some (panel_data env p (map fst d) (db\<lparr>st_session := None\<rparr>)))), st_legacy := None\<rparr>"
proof (cases "panel_payload env d")
  case (Inl e)
  then show ?thesis using assms by (simp add: settings_request_def)
next
  case (Inr p)
  show ?thesis by (rule that [OF Inr]) (use assms Inr in \<open>auto simp: settings_request_def save_panel_settings_def Let_def\<close>)
qed

text \<open>C35: The answer to saving the settings of the panel is what reading them gives afterwards, and saving that answer again changes nothing: blank texts have
  become the defaults, keys and lists are trimmed and without repetitions, and each of these steps is its own fixed point.\<close>
theorem panel_settings_roundtrip:
  assumes "env_ok env" and "settings_request env defaults (PutPanel d) db = ((200, doc), db')"
  shows "fst (settings_request env defaults GetPanel db') = (200, doc) \<and> fst (settings_request env defaults (PutPanel doc) db') = (200, doc)"
proof -
  obtain p where p: "panel_payload env d = Inr p"
    and doc: "doc = with_primary_jwt_secret db' (apply_panel_settings_fallback env (Some (panel_data env p (map fst d) (db\<lparr>st_session := None\<rparr>))))"
    and db': "db' = (upsert_global_setting PANEL_SETTINGS_KEY (panel_data env p (map fst d) (db\<lparr>st_session := None\<rparr>)) (db\<lparr>st_session := None\<rparr>))
       \<lparr>st_session := Some (apply_panel_settings_fallback env (Some (panel_data env p (map fst d) (db\<lparr>st_session := None\<rparr>)))), st_legacy := None\<rparr>"
    by (rule put_panel_result [OF assms(2)])
  define data where "data = panel_data env p (map fst d) (db\<lparr>st_session := None\<rparr>)"
  let ?s = "apply_panel_settings_fallback env (Some data)"
  have t: "stored_typed data" "data \<noteq> []" using panel_data_typed [OF assms(1) p] by (simp_all add: data_def)
  have g: "get_global_setting PANEL_SETTINGS_KEY (db'\<lparr>st_session := None\<rparr>) = Some data" using t(2) by (simp add: db' data_def [symmetric])
  have get: "fst (settings_request env defaults GetPanel db') = (200, doc)"
    using g by (simp add: settings_request_def get_panel_settings_def Let_def doc data_def with_primary_jwt_secret_def get_primary_jwt_secret_def)
  note F = fallback_in_force [OF assms(1) t(1)]
  have not_jwt: "k \<noteq> ''primary_jwt_secret''" if "k \<in> set PANEL_SETTING_KEYS" for k
    using that by (auto simp: PANEL_SETTING_KEYS_def MESSAGE_KEYS_def ANNOUNCE_KEYS_def SERVER_KEYS_def LEGACY_SECRET_KEYS_SETTING_def)
  have same: "dget doc k = dget ?s k" if "k \<in> set PANEL_SETTING_KEYS" for k
    using not_jwt [OF that] by (simp add: doc data_def with_primary_jwt_secret_def)
  have q: "panel_payload env doc = Inr (map (\<lambda>k. (k, in_force env k (dget data k))) PANEL_SETTING_KEYS)" (is "_ = Inr ?q")
  proof (rule payload_of_typed)
    fix k assume k: "k \<in> set PANEL_SETTING_KEYS"
    then show "dget doc k = Some (in_force env k (dget data k)) \<and> typed k (in_force env k (dget data k))"
      using same F(2) in_force_typed [OF assms(1), of "dget data k" k] t(1) by (auto simp: stored_typed_def)
  qed
  have legacy: "LEGACY_SECRET_KEYS_SETTING \<in> set PANEL_SETTING_KEYS" by (simp add: PANEL_SETTING_KEYS_def)
  have "LEGACY_SECRET_KEYS_SETTING \<in> dom (map_of doc)" using same [OF legacy] F(2) [OF legacy] by auto
  then have "LEGACY_SECRET_KEYS_SETTING \<in> set (map fst doc)" by (simp add: dom_map_of_conv_image_fst)
  then have pd: "panel_data env ?q (map fst doc) x = ?q" for x by (simp only: panel_data_def if_True)
  have "apply_panel_settings_fallback env (Some ?q) = ?s" by (rule fallback_fixed [OF assms(1) t(1) q same])
  then have saved: "fst (save_panel_settings env ?q (map fst doc) x) = ?s" "st_jwt (snd (save_panel_settings env ?q (map fst doc) x)) = st_jwt x" for x
    by (simp_all only: save_panel_settings_def Let_def pd fst_conv snd_conv) (simp add: upsert_global_setting_def)
  have "with_primary_jwt_secret x ?s = doc" if "st_jwt x = st_jwt db'" for x
    using that by (simp add: doc data_def with_primary_jwt_secret_def get_primary_jwt_secret_def)
  then have "fst (settings_request env defaults (PutPanel doc) db') = (200, doc)"
    using saved [of "db'\<lparr>st_session := None\<rparr>"] by (simp add: settings_request_def Let_def q split_beta)
  with get show ?thesis by blast
qed

lemma keys_in_force_frame: "get_global_setting PANEL_SETTINGS_KEY db = get_global_setting PANEL_SETTINGS_KEY db' \<Longrightarrow> keys_in_force env db = keys_in_force env db'"
  by (simp add: keys_in_force_def)

definition legacy_cache_ok :: "settings_env \<Rightarrow> settings_db \<Rightarrow> bool" where
  "legacy_cache_ok env db \<longleftrightarrow> (\<forall>ks. st_legacy db = Some ks \<longrightarrow> ks = keys_in_force env db)"

lemma other_key [simp]: "PANEL_SETTINGS_KEY \<noteq> CLIENT_APPS_KEY" "CLIENT_APPS_KEY \<noteq> PANEL_SETTINGS_KEY"
  by (simp_all add: PANEL_SETTINGS_KEY_def CLIENT_APPS_KEY_def)

lemma legacy_cache_same:
  assumes "legacy_cache_ok env db" and "get_global_setting PANEL_SETTINGS_KEY db' = get_global_setting PANEL_SETTINGS_KEY db" and "st_legacy db' = st_legacy db"
  shows "legacy_cache_ok env db'"
  using assms keys_in_force_frame [of db' db env] by (simp add: legacy_cache_ok_def)

lemma request_legacy_cache:
  assumes "legacy_cache_ok env db"
  shows "legacy_cache_ok env (snd (settings_request env defaults req db))"
proof -
  let ?db = "db\<lparr>st_session := None\<rparr>"
  have ok: "legacy_cache_ok env ?db" by (rule legacy_cache_same [OF assms]) simp_all
  have same: "legacy_cache_ok env db'"
    if "get_global_setting PANEL_SETTINGS_KEY db' = get_global_setting PANEL_SETTINGS_KEY ?db" "st_legacy db' = st_legacy ?db" for db'
    by (rule legacy_cache_same [OF ok that])
  show ?thesis
  proof (cases req)
    case (PutPanel d)
    then show ?thesis using ok
      by (auto simp: settings_request_def save_panel_settings_def Let_def legacy_cache_ok_def [of _ "st_legacy_update _ _"] split: sum.split)
  next
    case GetPanel
    then show ?thesis using same by (simp add: settings_request_def get_panel_settings_def Let_def)
  next
    case (PutApps d)
    then show ?thesis using ok by (auto simp: settings_request_def save_client_apps_def Let_def upsert_global_setting_def get_global_setting_def intro!: same split: sum.split)
  next
    case (PushManaged key d version source)
    then show ?thesis using ok
      by (auto simp: settings_request_def apply_managed_push_def Let_def upsert_global_setting_def upsert_managed_setting_def get_global_setting_def
          intro!: same split: sum.splits)
  next
    case (DeleteManaged key)
    then show ?thesis using same by (simp add: settings_request_def unlink_managed_def delete_managed_setting_def Let_def)
  next
    case CheckLink
    then show ?thesis using ok keys_in_force_frame [of "?db\<lparr>st_legacy := x\<rparr>" ?db env for x]
      by (auto simp: settings_request_def Let_def get_cached_legacy_keys_def legacy_cache_ok_def split: option.splits)
  qed (use ok in \<open>auto simp: settings_request_def Let_def split: option.split\<close>)
qed

lemma requests_legacy_cache: "legacy_cache_ok env db \<Longrightarrow> legacy_cache_ok env (settings_requests env defaults reqs db)"
  unfolding settings_requests_def by (induction reqs arbitrary: db) (simp_all add: request_legacy_cache)

text \<open>C36: Whatever is saved, pushed or deleted before, a link is checked against the old keys that are in force at that moment; and
  saving the settings without mentioning the keys leaves them in force.\<close>
theorem legacy_keys_current:
  assumes "env_ok env" and "legacy_cache_ok env db"
  shows "fst (get_cached_legacy_keys env (settings_requests env defaults reqs db)) = keys_in_force env (settings_requests env defaults reqs db)
    \<and> (LEGACY_SECRET_KEYS_SETTING \<notin> set (map fst d) \<and> (\<forall>s. get_global_setting PANEL_SETTINGS_KEY db = Some s \<longrightarrow> stored_typed s)
       \<longrightarrow> keys_in_force env (snd (settings_request env defaults (PutPanel d) db)) = keys_in_force env db)"
proof (intro conjI impI)
  show "fst (get_cached_legacy_keys env (settings_requests env defaults reqs db)) = keys_in_force env (settings_requests env defaults reqs db)"
    using requests_legacy_cache [OF assms(2), of defaults reqs] by (auto simp: get_cached_legacy_keys_def legacy_cache_ok_def split: option.split)
  assume a: "LEGACY_SECRET_KEYS_SETTING \<notin> set (map fst d) \<and> (\<forall>s. get_global_setting PANEL_SETTINGS_KEY db = Some s \<longrightarrow> stored_typed s)"
  let ?k = LEGACY_SECRET_KEYS_SETTING and ?db = "db\<lparr>st_session := None\<rparr>"
  have mem: "?k \<in> set PANEL_SETTING_KEYS" by (simp add: PANEL_SETTING_KEYS_def)
  have eff: "keys_in_force env x = json_strs env (in_force env ?k (Option.bind (get_global_setting PANEL_SETTINGS_KEY x) (\<lambda>s. dget s ?k)))"
    if "\<And>s. get_global_setting PANEL_SETTINGS_KEY x = Some s \<Longrightarrow> stored_typed s" for x
  proof (cases "get_global_setting PANEL_SETTINGS_KEY x")
    case None
    have "in_force env ?k None = strs (se_legacy env)" using special_keys by (simp add: in_force_def panel_default_def)
    with None show ?thesis by (simp add: keys_in_force_def legacy_keys_of_def apply_panel_settings_fallback_def Let_def jget_def dget_or_def)
  next
    case (Some s)
    then show ?thesis using fallback_in_force(2) [OF assms(1) that [OF Some] mem]
      by (simp add: keys_in_force_def legacy_keys_of_def jget_def dget_or_def)
  qed
  show "keys_in_force env (snd (settings_request env defaults (PutPanel d) db)) = keys_in_force env db"
  proof (cases "panel_payload env d")
    case (Inl e)
    then show ?thesis by (simp add: settings_request_def keys_in_force_frame [of ?db db])
  next
    case (Inr p)
    let ?data = "panel_data env p (map fst d) ?db" and ?db' = "snd (settings_request env defaults (PutPanel d) db)"
    have t: "stored_typed ?data" "?data \<noteq> []" using panel_data_typed [OF assms(1) Inr] by simp_all
    have g: "get_global_setting PANEL_SETTINGS_KEY ?db' = Some ?data"
      using t(2) by (simp add: settings_request_def Inr save_panel_settings_def Let_def)
    have new: "dget ?data ?k = Some (case Option.bind (get_global_setting PANEL_SETTINGS_KEY db) (\<lambda>s. dget s ?k) of
        Some v \<Rightarrow> strs (normalize_legacy_secret_keys env v) | None \<Rightarrow> strs (se_legacy env))"
      using a by (auto simp: panel_data_def Let_def split: option.split)
    have dflt: "in_force env ?k None = strs (se_legacy env)" using special_keys by (simp add: in_force_def panel_default_def)
    have val: "in_force env ?k (Some v) = strs (normalize_legacy_secret_keys env v)" if "typed ?k v" for v
      using that special_keys by (auto simp: in_force_def panel_value_def typed_def strs_def)
    have clean: "in_force env ?k (Some (strs ks)) = strs ks" if "clean_keys ks" for ks
      using val [of "strs ks"] that special_keys clean_legacy [OF that, of env] by (simp add: typed_def) blast
    have "in_force env ?k (dget ?data ?k) = in_force env ?k (Option.bind (get_global_setting PANEL_SETTINGS_KEY db) (\<lambda>s. dget s ?k))"
    proof (cases "Option.bind (get_global_setting PANEL_SETTINGS_KEY db) (\<lambda>s. dget s ?k)")
      case None
      then show ?thesis using new dflt clean assms(1) by (simp add: env_ok_def)
    next
      case (Some v)
      then obtain s where "get_global_setting PANEL_SETTINGS_KEY db = Some s" "dget s ?k = Some v" by (auto simp: bind_eq_Some_conv)
      then have "typed ?k v" using a mem by (auto simp: stored_typed_def)
      then show ?thesis using new Some val clean legacy_clean by simp
    qed
    then show ?thesis using eff [of ?db'] eff [of db] g t(1) a by simp
  qed
qed

section \<open>Pushed applications\<close>

definition app_ok :: "json \<Rightarrow> bool" where
  "app_ok x \<longleftrightarrow> (\<exists>i n s e links. x = JObj [(''id'', JStr i), (''name'', JStr n), (''scheme'', JStr s), (''enabled'', JBool e), (''links'', JObj links)]
     \<and> app_id_ok i \<and> scheme_ok s \<and> (\<forall>(k, l) \<in> set links. \<exists>t. l = JStr t \<and> link_ok t))"

definition apps_doc_ok :: "obj \<Rightarrow> bool" where
  "apps_doc_ok p \<longleftrightarrow> (\<exists>apps primary. p = [(''apps'', JList apps), (''primary_by_platform'', JObj (map (\<lambda>(p, a). (p, JStr a)) primary))]
     \<and> distinct (map (app_field ''id'') apps) \<and> primaries_ok apps primary \<and> (\<forall>x \<in> set apps. app_ok x))"

lemma checked_str_Inr: "checked_str ok j = Inr v \<Longrightarrow> \<exists>s. v = JStr s \<and> ok s"
  by (cases j) (auto split: if_splits)

lemma lax_bool_Inr: "lax_bool j = Inr v \<Longrightarrow> \<exists>b. v = JBool b"
  by (cases j) (auto simp: Let_def split: if_splits)

lemma validate_links_ok: "validate_links d = Inr links \<Longrightarrow> (k, l) \<in> set links \<Longrightarrow> \<exists>t. l = JStr t \<and> link_ok t"
proof -
  have "\<forall>(k, l) \<in> set links. \<exists>t. l = JStr t \<and> link_ok t"
    if "mapE (\<lambda>k. let raw = strip (dget_or d k []) in if link_ok raw then Inr (k, JStr raw) else Inl (ValueError ''link'')) ks = Inr links" for ks
    using that by (induction ks arbitrary: links) (auto simp: bindE_Inr_iff Let_def split: if_splits)
  then show "validate_links d = Inr links \<Longrightarrow> (k, l) \<in> set links \<Longrightarrow> \<exists>t. l = JStr t \<and> link_ok t" unfolding validate_links_def by blast
qed

lemma client_app_ok:
  assumes "client_app j = Inr x"
  shows "app_ok x"
proof -
  from assms obtain d i n sc e links where x: "x = JObj [(''id'', i), (''name'', n), (''scheme'', sc), (''enabled'', e), (''links'', JObj links)]"
    and i: "\<exists>v. checked_str app_id_ok v = Inr i" and n: "\<exists>v. checked_str (\<lambda>s. 1 \<le> length s \<and> length s \<le> 64) v = Inr n"
    and sc: "\<exists>v. checked_str scheme_ok v = Inr sc" and e: "\<exists>v. lax_bool v = Inr e"
    and links: "(case dget d ''links'' of None \<Rightarrow> Inr [] | Some v \<Rightarrow> bindE (str_dict v) validate_links) = Inr links"
    unfolding client_app_def bindE_Inr_iff by blast
  obtain i' where i': "i = JStr i'" "app_id_ok i'" using i checked_str_Inr by blast
  obtain n' where n': "n = JStr n'" using n checked_str_Inr by blast
  obtain s' where s': "sc = JStr s'" "scheme_ok s'" using sc checked_str_Inr by blast
  obtain e' where e': "e = JBool e'" using e lax_bool_Inr by blast
  have "\<forall>(k, l) \<in> set links. \<exists>t. l = JStr t \<and> link_ok t"
    using links validate_links_ok by (auto simp: bindE_Inr_iff split: option.splits)
  then show ?thesis unfolding app_ok_def x i' n' s' e' using i'(2) s'(2) by blast
qed

lemma mapE_results: "mapE f xs = Inr ys \<Longrightarrow> y \<in> set ys \<Longrightarrow> \<exists>x \<in> set xs. f x = Inr y"
  by (induction xs arbitrary: ys) (auto simp: bindE_Inr_iff)

lemma client_apps_ok:
  assumes "client_apps_payload d = Inr p"
  shows "apps_doc_ok p"
proof -
  from assms obtain xs apps primary where "mapE client_app xs = Inr apps"
    and c: "(if \<not> distinct (map (app_field ''id'') apps) then Inl (ValueError ''app ids must be unique'')
       else if \<not> primaries_ok apps primary then Inl (ValueError ''primary app is unknown or disabled'')
       else Inr [(''apps'', JList apps), (''primary_by_platform'', JObj (map (\<lambda>(p, a). (p, JStr a)) primary))]) = Inr p"
    unfolding client_apps_payload_def bindE_Inr_iff by blast
  then have "\<forall>x \<in> set apps. app_ok x" using mapE_results client_app_ok by metis
  then show ?thesis using c unfolding apps_doc_ok_def by (auto split: if_splits)
qed

lemma merged_apps_ok: "apps_doc_ok defaults \<Longrightarrow> apps_doc_ok (merge_client_apps_defaults defaults raw)"
  by (auto simp: merge_client_apps_defaults_def dest: client_apps_ok split: option.split sum.split)

definition leaves_apps :: "settings_request \<Rightarrow> bool" where
  "leaves_apps r \<longleftrightarrow> (case r of PushManaged _ _ _ _ \<Rightarrow> False | DeleteManaged k \<Rightarrow> k \<noteq> CLIENT_APPS_KEY | _ \<Rightarrow> True)"

lemma request_leaves_apps:
  assumes m: "is_managed CLIENT_APPS_KEY db" and l: "leaves_apps r"
  shows "is_managed CLIENT_APPS_KEY (snd (settings_request env defaults r db))
    \<and> get_global_setting CLIENT_APPS_KEY (snd (settings_request env defaults r db)) = get_global_setting CLIENT_APPS_KEY db"
proof -
  let ?db = "db\<lparr>st_session := None\<rparr>"
  have m': "is_managed CLIENT_APPS_KEY ?db" using m by (simp add: is_managed_def get_managed_setting_def)
  show ?thesis
  proof (cases r)
    case (PutPanel d)
    then show ?thesis using m'
      by (auto simp: settings_request_def save_panel_settings_def Let_def is_managed_def get_managed_setting_def upsert_global_setting_def get_global_setting_def split: sum.split)
  next
    case GetPanel
    then show ?thesis using m' by (simp add: settings_request_def get_panel_settings_def Let_def is_managed_def get_managed_setting_def)
  next
    case (PutApps d)
    then show ?thesis using m' by (auto simp: settings_request_def Let_def split: sum.split)
  next
    case (DeleteManaged k)
    then show ?thesis using m' l
      by (simp add: settings_request_def Let_def unlink_managed_def delete_managed_setting_def is_managed_def get_managed_setting_def leaves_apps_def)
  next
    case CheckLink
    then show ?thesis using m'
      by (auto simp: settings_request_def Let_def get_cached_legacy_keys_def is_managed_def get_managed_setting_def split: option.split)
  qed (use m' l in \<open>auto simp: settings_request_def Let_def leaves_apps_def split: option.split\<close>)
qed


section \<open>Witnesses\<close>

definition sample_settings_env :: settings_env where
  "sample_settings_env = \<lparr>se_text = (\<lambda>k. ''t''), se_legacy = [''old''], se_str = (\<lambda>j. [])\<rparr>"

definition no_settings :: settings_db where
  "no_settings = \<lparr>st_globals = [], st_managed = [], st_jwt = [''k''], st_session = None, st_legacy = None\<rparr>"

lemma sample_settings_env_ok: "env_ok sample_settings_env"
  by (simp add: env_ok_def sample_settings_env_def clean_keys_def strip_def lstrip_def is_space_def)

theorem panel_settings_roundtrip_witness:
  "\<exists>doc db'. settings_request sample_settings_env [] (PutPanel [(''bs_monthly_limit'', JInt 5)]) no_settings = ((200, doc), db')
     \<and> fst (settings_request sample_settings_env [] GetPanel db') = (200, doc)"
proof -
  obtain code doc db' where r: "settings_request sample_settings_env [] (PutPanel [(''bs_monthly_limit'', JInt 5)]) no_settings = ((code, doc), db')"
    by (metis prod.exhaust)
  have "panel_payload sample_settings_env [(''bs_monthly_limit'', JInt 5)] \<noteq> Inl e" for e
    by (simp add: panel_payload_def PANEL_SETTING_KEYS_def MESSAGE_KEYS_def ANNOUNCE_KEYS_def SERVER_KEYS_def panel_field_def LEGACY_SECRET_KEYS_SETTING_def)
  then have "code = 200" using r by (cases "panel_payload sample_settings_env [(''bs_monthly_limit'', JInt 5)]")
      (auto simp: settings_request_def Let_def split_beta)
  with r panel_settings_roundtrip [OF sample_settings_env_ok, of "[]" "[(''bs_monthly_limit'', JInt 5)]" no_settings doc db'] show ?thesis by auto
qed

theorem legacy_keys_current_witness:
  "fst (get_cached_legacy_keys sample_settings_env (settings_requests sample_settings_env [] [CheckLink, PutPanel []] no_settings))
     = keys_in_force sample_settings_env (settings_requests sample_settings_env [] [CheckLink, PutPanel []] no_settings)
   \<and> keys_in_force sample_settings_env (snd (settings_request sample_settings_env [] (PutPanel []) no_settings)) = keys_in_force sample_settings_env no_settings"
proof -
  have "legacy_cache_ok sample_settings_env no_settings" by (simp add: legacy_cache_ok_def no_settings_def)
  from legacy_keys_current [OF sample_settings_env_ok this, of "[]" "[CheckLink, PutPanel []]" "[]"]
  show ?thesis by (simp add: get_global_setting_def no_settings_def)
qed


end
