(* ===== verification/Spec2Isabelle.thy ===== *)
theory Spec2Isabelle
  imports Prelude XrayDoc InboundFilter BsLimit CascadeConfig NodeConfig BsAccounting AddressPolicy AddressHistory
    ConnectSlots NodeSession ConnectNode HealthCheck
    Effects Devices Users UserOps Notifications ReviewUsers UserApi UserFrame UserIsolation RecordUsages Tokens Admins HostBalancer HostInjection V2rayJson Subscription HostEdit Documents Settings
begin

text \<open>
  A model of the VPN panel in \<open>src/app\<close> and of the part of \<open>src/xray_api\<close> it drives. The panel keeps users,
  administrators, devices, hosts and nodes in a database; it runs Xray cores, one of its own and one per
  node, adds and removes users on them, builds their configurations, counts traffic, enforces limits and
  hands out subscriptions. This theory only brings the parts together; each part is a theory that names
  the files and functions it translates.

  \<^bold>\<open>Shared.\<close> Prelude: exceptions as values, Python's truth tests, insertion-ordered dictionaries, decimal
  numerals, strings, JSON documents. Effects: computations over a state that may raise and keep the
  effects made before the raise, the locale \<open>state_relation\<close> for what every computation preserves, and
  pre- and postconditions (\<open>outcome\<close>). XrayDoc: the shape of a configuration.

  \<^bold>\<open>Configurations.\<close> InboundFilter (xray/inbound_filter.py), BsLimit (xray/bs_limit.py), CascadeConfig
  (xray/cascade_config.py) and NodeConfig (xray/node_config.py) build the configuration of one node: the
  theorems say that filtering, stripping of blocked users, cascading and certificate inlining do exactly
  what they are for, once, and that the cache of a wave of connections returns what building would.

  \<^bold>\<open>Nodes.\<close> ConnectSlots is a step relation over threads that acquire, lose and release the slot of a node
  (xray/operations.py); NodeSession is the REST client (xray/node.py) over an abstract remote node;
  ConnectNode composes both with the database rows; HealthCheck is the periodic job
  (jobs/0_xray_core.py). The theorems: one owner per slot in every reachable state, secrets only over a
  pinned transport, every connect gives its slot back, the status written is true, a tick is bounded.

  \<^bold>\<open>Users.\<close> Users holds rows and operations of db/crud.py over a database session with commit and
  rollback; Devices the devices of a user; UserOps the calls to the cores (xray/operations.py) in any
  order of execution; Notifications the reports and the webhook queue; ReviewUsers the jobs that enforce
  limits; UserApi the endpoints of routers/user.py with their access checks, UserIsolation what they can
  never do. RecordUsages is the accounting of traffic (jobs/record_usages.py), BsAccounting the monthly
  limit of one class of nodes end to end (crud.py, review_bs_nodes.py). UserFrame is the locale
  \<open>user_frame\<close>: what an operation on one user leaves alone in the rows of the others. Tokens
  (utils/jwt.py, dependencies.py) encodes and decodes administrator and subscription tokens down to
  UTF-8 and Base64: links read back to the user and the time they were made for, need the signature
  and die when they are revoked. Admins (routers/admin.py, models/admin.py) is the administration of
  administrators: who may change whom, and that a token is worth what the database says.

  \<^bold>\<open>Hosts.\<close> HostBalancer (models/host_balancing.py, xray/host_balancer.py) validates the balancing settings
  of a host and rewrites a client document with them: stored settings validate to themselves, accepted
  settings always apply, a managed document routes as the settings say. HostInjection
  (models/host_injection.py, xray/host_injection.py) selects the hosts a composed subscription is made
  of, previews the selection and checks the references of the finished document.

  \<^bold>\<open>Addresses.\<close> AddressPolicy chooses nodes and addresses for a user (xray/address_policy.py,
  subscription/address_context.py) with an arbitrary hash; AddressHistory keeps pins and snapshots and
  reconstructs past days (services/address_history.py). The journal is proved equal to what the live
  selection gave.

  \<^bold>\<open>Conventions.\<close> Tables are lists of rows in scan order; a row that an operation was handed exists. Times
  are integers and one operation reads the clock once, except the sending job, whose clock is a function
  of the number of readings. Strings are lists of characters below code point 256, so Cyrillic texts are
  transliterated. Floating-point coefficients are rational. Python's lists, dictionaries and strings are
  modelled as the standard library documents them; Xray, the HTTP and gRPC transports, the database
  engine, hash functions, random generators and the clock are arguments or abstract remotes with the
  behaviour the code relies on as named hypotheses (for instance \<open>digest_law\<close>, \<open>jwt_law\<close> and \<open>pw_law\<close>), each
  with a concrete instance in a witness.

  \<^bold>\<open>Bounds and fuel.\<close> No definition uses fuel. The sending loop may run forever and is a partial function
  into options with a theorem that says exactly when it returns; the retries of a statement are a
  function with a measure (at most four tries); every other loop is structural.

  \<^bold>\<open>Not modelled.\<close> The chat handlers (telegram, discord), the command line, logging, metrics, migrations,
  the web framework itself, generated protocol code and the tests: they are input and output around the
  modelled operations. The renderers of subscriptions for particular clients and the administration of
  hosts, bots, nodes and settings are listed in the manifest with their state.
\<close>

end
